(* ===== verification/Prelude.thy ===== *)
theory Prelude
  imports Main "HOL-Library.Word"
begin

text \<open>
  Shared vocabulary of the toy-kernel development: the outcome type of code that may stop
  (an \<open>assert\<close>, a \<open>PANIC\<close>, a trap, undefined behaviour of the source language), the
  sequencing combinators the operations are written with, the names of the machine integer
  types, and the generic facts on lists and words that several components use.
\<close>

section \<open>Outcomes\<close>

text \<open>
  In the kernel a failed \<open>assert\<close> disables interrupts and loops for ever
  (\<^verbatim>\<open>libc/assert.cpp\<close>), in a user task it exits the task. Either way nothing after it
  runs, so the model stops with an error value. \<open>Undefined\<close> marks what the C++ language
  leaves undefined, \<open>Diverges\<close> a loop of the source that never ends.
\<close>

datatype error =
    AssertFailed string
  | PanicError string
  | Trap
  | Undefined string
  | Diverges

type_synonym 'a result = "error + 'a"

type_synonym u8 = "8 word"
type_synonym u16 = "16 word"
type_synonym u32 = "32 word"
type_synonym u64 = "64 word"

named_theorems result_simps \<open>how an operation can return normally\<close>
named_theorems kernel_defs \<open>the constants of the kernel's memory layout\<close>

definition assertE :: "bool \<Rightarrow> string \<Rightarrow> 'a result \<Rightarrow> 'a result" where
  "assertE b msg k = (if b then k else Inl (AssertFailed msg))"

definition bindE :: "'a result \<Rightarrow> ('a \<Rightarrow> 'b result) \<Rightarrow> 'b result" where
  "bindE m f = (case m of Inl e \<Rightarrow> Inl e | Inr x \<Rightarrow> f x)"

lemma bindE_simps [simp]:
  "bindE (Inl e) f = Inl e"
  "bindE (Inr x) f = f x"
  by (simp_all add: bindE_def)

lemma assertE_simps [simp]:
  "assertE True msg k = k"
  "assertE False msg k = Inl (AssertFailed msg)"
  by (simp_all add: assertE_def)

lemma assertE_Inr_iff [result_simps]: "assertE b msg k = Inr y \<longleftrightarrow> b \<and> k = Inr y"
  by (simp add: assertE_def)

lemma bindE_Inr_iff [result_simps]: "bindE m f = Inr y \<longleftrightarrow> (\<exists>x. m = Inr x \<and> f x = Inr y)"
  by (simp add: bindE_def split: sum.splits)

lemma assertE_Inl_iff: "assertE b msg k = Inl e \<longleftrightarrow> (if b then k = Inl e else e = AssertFailed msg)"
  by (auto simp: assertE_def)

lemma bindE_Inl_iff:
  "bindE m f = Inl e \<longleftrightarrow> m = Inl e \<or> (\<exists>x. m = Inr x \<and> f x = Inl e)"
  by (auto simp: bindE_def split: sum.splits)

text \<open>A loop over a list of indices that may stop early with an error.\<close>

fun foldE :: "('a \<Rightarrow> 's \<Rightarrow> 's result) \<Rightarrow> 'a list \<Rightarrow> 's \<Rightarrow> 's result" where
  "foldE f [] s = Inr s"
| "foldE f (x # xs) s = bindE (f x s) (foldE f xs)"

lemma foldE_append: "foldE f (xs @ ys) s = bindE (foldE f xs s) (foldE f ys)"
  by (induction xs arbitrary: s) (auto simp: bindE_def split: sum.splits)

lemma foldE_snocI: "foldE f xs s = Inr t \<Longrightarrow> foldE f (xs @ [x]) s = f x t"
  by (simp add: foldE_append bindE_def split: sum.splits)

lemma foldE_upt_SucI: "foldE f [0 ..< n] s = Inr t \<Longrightarrow> foldE f [0 ..< Suc n] s = f n t"
  by (simp add: foldE_snocI)

lemma foldE_invariant:
  assumes "foldE f xs s = Inr t" and "P s"
    and "\<And>x s t. x \<in> set xs \<Longrightarrow> P s \<Longrightarrow> f x s = Inr t \<Longrightarrow> P t"
  shows "P t"
  using assms
proof (induction xs arbitrary: s)
  case Nil
  then show ?case by simp
next
  case (Cons x xs)
  from Cons.prems(1) obtain s' where s': "f x s = Inr s'" "foldE f xs s' = Inr t"
    by (auto simp: bindE_Inr_iff)
  have "P s'" using Cons.prems(3)[OF _ Cons.prems(2) s'(1)] by simp
  with Cons.IH[OF s'(2)] Cons.prems(3) show ?case by (meson list.set_intros(2))
qed

lemma foldE_total:
  assumes "\<And>x s. x \<in> set xs \<Longrightarrow> f x s = Inr (g x s)"
  shows "foldE f xs s = Inr (fold g xs s)"
  using assms by (induction xs arbitrary: s) auto

section \<open>Words\<close>

lemma unat_of_nat_u32: "n < 2 ^ 32 \<Longrightarrow> unat (of_nat n :: u32) = n"
  by (simp add: unat_of_nat take_bit_eq_mod)

lemma unat_lt_u32: "unat (x :: u32) < 4294967296"
  using unsigned_less[of x] by simp

lemma unat_le_u32: "unat (x :: u32) \<le> 4294967295"
  using unat_lt_u32[of x] by simp

lemma unat_eqI: "unat x = unat y \<Longrightarrow> x = y" for x y :: "'a::len word"
  by (metis unsigned_word_eqI)

lemma unat_lt_u16: "unat (x :: u16) < 65536"
  using unsigned_less[of x] by simp

lemma unat_2p_u32: "n < 32 \<Longrightarrow> unat ((2 :: u32) ^ n) = 2 ^ n"
proof -
  assume "n < 32"
  then have "(2 :: nat) ^ n < 2 ^ 32" by (rule power_strict_increasing) simp
  from unat_of_nat_u32[OF this] show ?thesis by simp
qed

section \<open>Lists\<close>

lemma nth_list_update_if:
  "i < length xs \<Longrightarrow> xs[i := v] ! j = (if i = j then v else xs ! j)"
  by (simp add: nth_list_update)

lemma replicate_add: "replicate (m + n) x = replicate m x @ replicate n x"
  by (induction m) auto

lemma sum_list_remove_upd:
  "i < length xs \<Longrightarrow> sum_list (xs[i := v]) + xs ! i = sum_list xs + (v :: nat)"
proof (induction xs arbitrary: i)
  case Nil
  then show ?case by simp
next
  case (Cons x xs)
  then show ?case by (cases i) (auto simp: add.assoc add.left_commute)
qed

lemma find_upt_None: "List.find P [a ..< b] = None \<longleftrightarrow> (\<forall>i. a \<le> i \<longrightarrow> i < b \<longrightarrow> \<not> P i)"
  by (auto simp: find_None_iff)

lemma find_upt_Some:
  assumes "List.find P [a ..< b] = Some i"
  shows "a \<le> i \<and> i < b \<and> P i \<and> (\<forall>j. a \<le> j \<longrightarrow> j < i \<longrightarrow> \<not> P j)"
proof -
  from assms obtain k where k: "k < b - a" "i = a + k" "P i" "\<forall>j < k. \<not> P (a + j)"
    by (auto simp: find_Some_iff)
  have "\<not> P j" if "a \<le> j" "j < i" for j
    using k(2) k(4)[rule_format, of "j - a"] that by simp
  with k show ?thesis by auto
qed

text \<open>A search that falls back on the end of the range stops after the longest prefix without a hit.\<close>

lemma find_upt_takeWhile:
  "(case List.find P [a ..< a + n] of None \<Rightarrow> a + n | Some i \<Rightarrow> i) = a + length (takeWhile (\<lambda>i. \<not> P i) [a ..< a + n])"
proof (induction n arbitrary: a)
  case (Suc n)
  have "[a ..< a + Suc n] = a # [Suc a ..< Suc a + n]" by (simp add: upt_conv_Cons)
  then show ?case using Suc[of "Suc a"] by (auto simp del: upt_Suc split: option.splits)
qed simp

end
