(* ===== verification/MathUtils.thy ===== *)
theory MathUtils
  imports Prelude
begin

text \<open>
  The integer helpers of \<^verbatim>\<open>utils/include/MathUtils.h\<close>: the power-of-two test, integer
  powers at 32 bits, and rounding up to a power of two.
\<close>

unbundle bit_operations_syntax

section \<open>Definitions\<close>

definition IsPowerOf2 :: "u32 \<Rightarrow> bool" where
  "IsPowerOf2 x \<longleftrightarrow> x \<noteq> 0 \<and> x AND (x - 1) = 0"

fun ipow :: "u32 \<Rightarrow> nat \<Rightarrow> u32" where
  "ipow num n = (if n \<noteq> 0 then ipow num (n - 1) * num else 1)"

definition ipow2 :: "nat \<Rightarrow> u32" where
  "ipow2 n = ipow 2 n"

text \<open>
  The loop \<^verbatim>\<open>while (x != 1) { ++shifts; x >>= 1; }\<close> of \<open>NextPowOf2\<close>. It is entered with
  \<open>x \<noteq> 0\<close> only; for 0 it would never end, which is the explicit guard here.
\<close>

lemma unat_drop_bit_1: "unat (drop_bit (Suc 0) (x :: u32)) = unat x div 2"
  by (simp only: unat_drop_bit_eq) (simp add: drop_bit_Suc)

function shift_count :: "u32 \<Rightarrow> nat \<Rightarrow> nat result" where
  "shift_count x shifts =
     (if x = 0 then Inl Diverges
      else if x = 1 then Inr shifts
      else shift_count (drop_bit 1 x) (Suc shifts))"
  by pat_completeness auto
termination
proof (relation "measure (\<lambda>(x, shifts). unat x)")
  fix x :: u32 and shifts :: nat
  assume "x \<noteq> 0"
  then have "0 < unat x" by (simp add: unat_gt_0)
  then show "((drop_bit 1 x, Suc shifts), (x, shifts)) \<in> measure (\<lambda>(x, shifts). unat x)"
    by (simp add: unat_drop_bit_1)
qed simp

declare ipow.simps [simp del] shift_count.simps [simp del]

text \<open>
  \<^verbatim>\<open>T(x) << (shifts + 1)\<close> for \<open>T = uint32_t\<close>: the loop leaves \<open>x = 1\<close>, and a shift by 32
  or more is undefined in C++.
\<close>

definition NextPowOf2 :: "u32 \<Rightarrow> u32 result" where
  "NextPowOf2 x =
     (if x = 0 then Inr 0
      else if IsPowerOf2 x then Inr x
      else bindE (shift_count x 0) (\<lambda>shifts.
        if shifts + 1 < 32 then Inr (push_bit (shifts + 1) 1) else Inl (Undefined ''shift'')))"

section \<open>Powers\<close>

lemma ipow_eq_power: "ipow num n = num ^ n"
  by (induction n) (simp_all add: ipow.simps[of num "Suc n" for n] ipow.simps[of num 0])

lemma nat_log2_ex: "0 < n \<Longrightarrow> \<exists>k. 2 ^ k \<le> n \<and> n < 2 * 2 ^ k" for n :: nat
  using ex_power_ivl1[of 2 n] by auto

lemma bit_top_nat: "2 ^ k \<le> n \<Longrightarrow> n < 2 * 2 ^ k \<Longrightarrow> bit n k" for n :: nat
proof -
  assume "2 ^ k \<le> n" "n < 2 * 2 ^ k"
  then have "n div 2 ^ k = 1" by (intro div_nat_eqI) simp_all
  then show "bit n k" by (simp add: bit_iff_odd)
qed

lemma bit_top_u32:
  assumes "2 ^ k \<le> unat (x :: u32)" "unat x < 2 * 2 ^ k"
  shows "bit x k"
  using bit_top_nat[OF assms] by (simp add: bit_unsigned_iff)

lemma IsPowerOf2_unat: "IsPowerOf2 x \<longleftrightarrow> (\<exists>n. unat x = 2 ^ n)"
proof
  assume pow: "IsPowerOf2 x"
  then have "0 < unat x" by (simp add: IsPowerOf2_def unat_gt_0)
  then obtain k where k: "2 ^ k \<le> unat x" "unat x < 2 * 2 ^ k" using nat_log2_ex by blast
  have "unat x = 2 ^ k"
  proof (rule ccontr)
    assume "unat x \<noteq> 2 ^ k"
    with k have gt: "2 ^ k < unat x" by simp
    then have "1 \<le> x" using \<open>0 < unat x\<close> by (simp add: word_le_nat_alt)
    then have "unat (x - 1) = unat x - 1" by (simp add: unat_sub)
    with gt k have "bit (x - 1) k" by (intro bit_top_u32) auto
    moreover have "bit x k" using k by (rule bit_top_u32)
    ultimately have "bit (x AND (x - 1)) k" by (simp add: bit_and_iff)
    with pow show False by (simp add: IsPowerOf2_def)
  qed
  then show "\<exists>n. unat x = 2 ^ n" ..
next
  assume "\<exists>n. unat x = 2 ^ n"
  then obtain n where n: "unat x = 2 ^ n" ..
  have "x = of_nat (unat x)" by simp
  then have x: "x = 2 ^ n" by (simp add: n)
  have "x AND (x - 1) = 0"
    by (rule bit_eqI) (auto simp: x bit_and_iff bit_exp_iff mask_eq_exp_minus_1[symmetric] bit_mask_iff)
  moreover have "x \<noteq> 0" using n by auto
  ultimately show "IsPowerOf2 x" by (simp add: IsPowerOf2_def)
qed

lemma shift_count_log:
  assumes "2 ^ k \<le> unat x" "unat x < 2 * 2 ^ k"
  shows "shift_count x shifts = Inr (shifts + k)"
  using assms
proof (induction k arbitrary: x shifts)
  case 0
  then have "unat x = 1" by simp
  then have "x = 1" by (metis unat_1 unsigned_word_eqI)
  then show ?case by (simp add: shift_count.simps)
next
  case (Suc k)
  have "(1 :: nat) < 2 ^ Suc k" by (rule one_less_power) simp_all
  with Suc.prems have "x \<noteq> 0" "x \<noteq> 1" by auto
  moreover have "shift_count (drop_bit (Suc 0) x) (Suc shifts) = Inr (Suc shifts + k)"
    using Suc.prems by (intro Suc.IH) (auto simp: unat_drop_bit_1)
  ultimately show ?case by (simp add: shift_count.simps[of x])
qed

lemma power_less_32: "2 ^ k \<le> unat (x :: u32) \<Longrightarrow> k < 32"
proof (rule ccontr)
  assume k: "2 ^ k \<le> unat x" "\<not> k < 32"
  then have "(2 :: nat) ^ 32 \<le> 2 ^ k" by (intro power_increasing) auto
  with k(1) unat_lt_u32[of x] show False by simp
qed

lemma NextPowOf2_log:
  assumes "2 ^ k < unat x" "unat x < 2 * 2 ^ k"
  shows "NextPowOf2 x = (if k < 31 then Inr (2 ^ Suc k) else Inl (Undefined ''shift''))"
proof -
  have "unat x \<noteq> 2 ^ n" for n
  proof
    assume n: "unat x = 2 ^ n"
    with assms have "(2 :: nat) ^ k < 2 ^ n" "(2 :: nat) ^ n < 2 ^ Suc k" by simp_all
    then have "k < n" "n < Suc k" by (simp_all only: power_strict_increasing_iff one_less_numeral_iff semiring_norm)
    then show False by simp
  qed
  then have "\<not> IsPowerOf2 x" by (simp add: IsPowerOf2_unat)
  moreover have "x \<noteq> 0" using assms by auto
  moreover have "shift_count x 0 = Inr k" using shift_count_log[of k x 0] assms by simp
  ultimately show ?thesis
    by (simp add: NextPowOf2_def push_bit_eq_mult)
qed

text \<open>
  \<open>NextPowOf2\<close> keeps a power of two, rounds any other value up to the least power of two
  above it as long as that fits in 32 bits, and reaches the undefined shift by 32 exactly for
  the values above \<open>2 ^ 31\<close>.
\<close>

theorem NextPowOf2_correct:
  "if unat x \<le> 2 ^ 31
   then \<exists>p. NextPowOf2 x = Inr p \<and>
          (if x = 0 then p = 0
           else IsPowerOf2 p \<and> x \<le> p \<and> (\<forall>q. IsPowerOf2 q \<longrightarrow> x \<le> q \<longrightarrow> p \<le> q))
   else NextPowOf2 x = Inl (Undefined ''shift'')"
proof (cases "x = 0 \<or> IsPowerOf2 x")
  case True
  then show ?thesis
  proof
    assume "x = 0" then show ?thesis by (simp add: NextPowOf2_def)
  next
    assume pow: "IsPowerOf2 x"
    then obtain n where n: "unat x = 2 ^ n" by (auto simp: IsPowerOf2_unat)
    then have "n \<le> 31" using power_less_32[of n x] by simp
    then have "unat x \<le> 2 ^ 31" unfolding n by (rule power_increasing) simp
    moreover have "x \<noteq> 0" using pow by (simp add: IsPowerOf2_def)
    ultimately show ?thesis using pow by (simp add: NextPowOf2_def)
  qed
next
  case False
  then have pos: "0 < unat x" by (simp add: unat_gt_0)
  then obtain k where k: "2 ^ k \<le> unat x" "unat x < 2 * 2 ^ k" using nat_log2_ex by blast
  with False have lt: "2 ^ k < unat x" by (metis IsPowerOf2_unat le_neq_implies_less)
  note np = NextPowOf2_log[OF lt k(2)]
  show ?thesis
  proof (cases "k < 31")
    case True
    have p: "unat ((2 :: u32) ^ Suc k) = 2 ^ Suc k"
      using True by (intro unat_2p_u32) simp
    have small: "unat x \<le> 2 ^ 31"
    proof -
      have "(2 :: nat) ^ Suc k \<le> 2 ^ 31" using True by (intro power_increasing) auto
      with k(2) show ?thesis by simp
    qed
    have least: "2 ^ Suc k \<le> unat q" if q: "IsPowerOf2 q" "x \<le> q" for q
    proof -
      obtain n where n: "unat q = 2 ^ n" using q by (auto simp: IsPowerOf2_unat)
      have "unat x \<le> 2 ^ n" using q(2) n by (simp add: word_le_nat_alt)
      with lt have "(2 :: nat) ^ k < 2 ^ n" by (rule order_less_le_trans)
      then have "Suc k \<le> n" by (simp add: Suc_leI)
      then show ?thesis unfolding n by (intro power_increasing) auto
    qed
    have "unat x \<le> 2 ^ Suc k" using k by simp
    then show ?thesis
      using np True False small least k
      by (auto simp: IsPowerOf2_unat p word_le_nat_alt simp del: power_Suc)
  next
    case f: False
    then have "k = 31" using power_less_32[OF k(1)] by simp
    with lt have "\<not> unat x \<le> 2 ^ 31" by simp
    with np f show ?thesis by simp
  qed
qed

theorem NextPowOf2_correct_witness:
  "(\<exists>p. NextPowOf2 5 = Inr p \<and> IsPowerOf2 p \<and> 5 \<le> p \<and> p \<le> 8) \<and>
   NextPowOf2 3000000000 = Inl (Undefined ''shift'')"
proof -
  have "IsPowerOf2 8" by (simp add: IsPowerOf2_def)
  then show ?thesis
    using NextPowOf2_correct[of 5] NextPowOf2_correct[of 3000000000] by auto
qed

end
