(* ===== verification/BitArray.thy ===== *)
theory BitArray
  imports Prelude
begin

text \<open>
  \<open>toy::BitArray<NumBits>\<close> of \<^verbatim>\<open>kernel/include/bitarray.h\<close>: a fixed array of bits packed in
  bytes, with the search for the first zero bit the page-frame and page-directory allocators
  are built on. The abstraction is the set of bits that are one; the interface the paging
  component relies on is the locale \<open>bit_store\<close>, interpreted here on the byte operations.
\<close>

unbundle bit_operations_syntax

section \<open>Definitions\<close>

record bitarray =
  NumBits :: nat
  bytes :: "u8 list"

definition BitArray_Clear :: "bitarray \<Rightarrow> bitarray" where
  "BitArray_Clear ba = ba\<lparr>bytes := replicate (length (bytes ba)) 0\<rparr>"

definition setOne :: "nat \<Rightarrow> bitarray \<Rightarrow> bitarray result" where
  "setOne b ba =
     assertE (b < NumBits ba) ''bit < NumBits''
       (if b div 8 < length (bytes ba)
        then Inr (ba\<lparr>bytes := (bytes ba)[b div 8 := bytes ba ! (b div 8) OR push_bit (b mod 8) 1]\<rparr>)
        else Inl (Undefined ''array index''))"

definition setZero :: "nat \<Rightarrow> bitarray \<Rightarrow> bitarray result" where
  "setZero b ba =
     assertE (b < NumBits ba) ''bit < NumBits''
       (if b div 8 < length (bytes ba)
        then Inr (ba\<lparr>bytes := (bytes ba)[b div 8 := bytes ba ! (b div 8) AND NOT (push_bit (b mod 8) 1)]\<rparr>)
        else Inl (Undefined ''array index''))"

definition isSet :: "bitarray \<Rightarrow> nat \<Rightarrow> bool result" where
  "isSet ba b =
     (if b div 8 < length (bytes ba)
      then Inr (bytes ba ! (b div 8) AND push_bit (b mod 8) 1 \<noteq> 0)
      else Inl (Undefined ''array index''))"

definition Reserve :: "nat \<Rightarrow> bitarray \<Rightarrow> bitarray result" where
  "Reserve n ba =
     assertE (n \<le> NumBits ba) ''n <= NumBits'' (foldE setOne [n ..< NumBits ba] ba)"

text \<open>\<open>None\<close> is the return value \<open>false\<close>: no zero bit from \<open>start\<close> on.\<close>

function GetFirstZero :: "bitarray \<Rightarrow> nat \<Rightarrow> nat option result" where
  "GetFirstZero ba start =
     (if start < NumBits ba
      then bindE (isSet ba start) (\<lambda>s. if \<not> s then Inr (Some start) else GetFirstZero ba (Suc start))
      else Inr None)"
  by pat_completeness auto
termination
  by (relation "measure (\<lambda>(ba, start). NumBits ba - start)") auto

declare GetFirstZero.simps [simp del]

section \<open>The set of ones\<close>

definition bitset :: "bitarray \<Rightarrow> nat set" where
  "bitset ba = {b. b < NumBits ba \<and> bit (bytes ba ! (b div 8)) (b mod 8)}"

definition bitarray_wf :: "nat \<Rightarrow> bitarray \<Rightarrow> bool" where
  "bitarray_wf n ba \<longleftrightarrow> NumBits ba = n \<and> 8 * length (bytes ba) = n"

lemma bit_u8_test: "k < 8 \<Longrightarrow> (x AND 2 ^ k \<noteq> 0) = bit (x :: u8) k"
  by (simp add: and_exp_eq_0_iff_not_bit)

lemma bit_u8_set: "k < 8 \<Longrightarrow> bit (x OR 2 ^ k :: u8) j \<longleftrightarrow> bit x j \<or> j = k"
  by (auto simp: bit_or_iff bit_exp_iff)

lemma bit_u8_clear: "j < 8 \<Longrightarrow> bit (x AND NOT (2 ^ k) :: u8) j \<longleftrightarrow> bit x j \<and> j \<noteq> k"
  by (auto simp: bit_and_iff bit_not_iff bit_exp_iff)

lemma div_mod_8_eq: "b div 8 = c div 8 \<Longrightarrow> b mod 8 = c mod 8 \<Longrightarrow> b = c" for b c :: nat
  by (metis div_mult_mod_eq)

lemma isSet_iff:
  "bitarray_wf n ba \<Longrightarrow> b < n \<Longrightarrow> isSet ba b = Inr (b \<in> bitset ba)"
  by (auto simp: isSet_def bitarray_wf_def bitset_def bit_u8_test)

lemma setOne_ok:
  assumes wf: "bitarray_wf n ba" and b: "b < n"
  shows "\<exists>ba'. setOne b ba = Inr ba' \<and> bitarray_wf n ba' \<and> bitset ba' = insert b (bitset ba)"
proof -
  let ?ba = "ba\<lparr>bytes := (bytes ba)[b div 8 := bytes ba ! (b div 8) OR push_bit (b mod 8) 1]\<rparr>"
  have lt: "c div 8 < length (bytes ba)" if "c < n" for c using wf that by (auto simp: bitarray_wf_def)
  have "setOne b ba = Inr ?ba" using wf b lt by (simp add: setOne_def bitarray_wf_def)
  moreover have "bitarray_wf n ?ba" using wf by (simp add: bitarray_wf_def)
  moreover have "bitset ?ba = insert b (bitset ba)"
    using wf b lt[OF b]
    by (auto simp: bitset_def bitarray_wf_def nth_list_update_if bit_u8_set dest: div_mod_8_eq)
  ultimately show ?thesis by blast
qed

lemma setZero_ok:
  assumes wf: "bitarray_wf n ba" and b: "b < n"
  shows "\<exists>ba'. setZero b ba = Inr ba' \<and> bitarray_wf n ba' \<and> bitset ba' = bitset ba - {b}"
proof -
  let ?ba = "ba\<lparr>bytes := (bytes ba)[b div 8 := bytes ba ! (b div 8) AND NOT (push_bit (b mod 8) 1)]\<rparr>"
  have lt: "c div 8 < length (bytes ba)" if "c < n" for c using wf that by (auto simp: bitarray_wf_def)
  have "setZero b ba = Inr ?ba" using wf b lt by (simp add: setZero_def bitarray_wf_def)
  moreover have "bitarray_wf n ?ba" using wf by (simp add: bitarray_wf_def)
  moreover have "bitset ?ba = bitset ba - {b}"
    using wf b lt[OF b]
    by (auto simp: bitset_def bitarray_wf_def nth_list_update_if bit_u8_clear dest: div_mod_8_eq)
  ultimately show ?thesis by blast
qed

lemma BitArray_Clear_ok:
  "bitarray_wf n ba \<Longrightarrow> bitarray_wf n (BitArray_Clear ba) \<and> bitset (BitArray_Clear ba) = {}"
  by (auto simp: bitarray_wf_def BitArray_Clear_def bitset_def nth_replicate)

text \<open>The set of ones determines the bytes, so two arrays with the same ones are equal.\<close>

lemma bitarray_eqI:
  assumes wf: "bitarray_wf n a" "bitarray_wf n b" and eq: "bitset a = bitset b"
  shows "a = b"
proof -
  have "bytes a ! i = bytes b ! i" if i: "i < length (bytes a)" for i
  proof (rule bit_eqI)
    fix k assume "possible_bit TYPE(8 word) k"
    then have k: "k < 8" by simp
    have "8 * i + k \<in> bitset a \<longleftrightarrow> 8 * i + k \<in> bitset b" by (simp add: eq)
    moreover have "8 * i + k < n" using wf(1) i k by (simp add: bitarray_wf_def)
    ultimately show "bit (bytes a ! i) k \<longleftrightarrow> bit (bytes b ! i) k"
      using wf k by (simp add: bitset_def bitarray_wf_def)
  qed
  then have "bytes a = bytes b" using wf by (intro nth_equalityI) (auto simp: bitarray_wf_def)
  then show ?thesis using wf by (simp add: bitarray_wf_def)
qed

text \<open>What a search from \<open>start\<close> may return when the ones are \<open>S\<close> and there are \<open>n\<close> bits.\<close>

fun first_zero :: "nat \<Rightarrow> nat set \<Rightarrow> nat \<Rightarrow> nat option \<Rightarrow> bool" where
  "first_zero n S start None \<longleftrightarrow> {start ..< n} \<subseteq> S"
| "first_zero n S start (Some b) \<longleftrightarrow> start \<le> b \<and> b < n \<and> b \<notin> S \<and> {start ..< b} \<subseteq> S"

lemma first_zero_step: "start \<in> S \<Longrightarrow> first_zero n S (Suc start) r \<Longrightarrow> first_zero n S start r"
proof (induction n S start r rule: first_zero.induct)
  case (1 n S start)
  then show ?case by (simp add: subset_iff) (metis Suc_leI le_neq_implies_less)
next
  case (2 n S start b)
  then show ?case by (simp add: subset_iff) (metis Suc_leI le_neq_implies_less)
qed

lemma GetFirstZero_ok:
  "bitarray_wf n ba \<Longrightarrow> \<exists>r. GetFirstZero ba start = Inr r \<and> first_zero n (bitset ba) start r"
proof (induction ba start rule: GetFirstZero.induct)
  case (1 ba start)
  note unfold = GetFirstZero.simps[of ba start]
  show ?case
  proof (cases "start < n")
    case False
    then show ?thesis using "1.prems" by (simp add: unfold bitarray_wf_def)
  next
    case True
    then have lt: "start < NumBits ba" using "1.prems" by (simp add: bitarray_wf_def)
    note set = isSet_iff[OF "1.prems" True]
    show ?thesis
    proof (cases "start \<in> bitset ba")
      case False
      with lt True set show ?thesis by (simp add: unfold)
    next
      case in_set: True
      from "1.IH"[OF lt _ "1.prems", of True] obtain r where
        r: "GetFirstZero ba (Suc start) = Inr r" "first_zero n (bitset ba) (Suc start) r" by auto
      with first_zero_step[OF in_set r(2)] lt set in_set show ?thesis by (simp add: unfold)
    qed
  qed
qed

lemma foldE_setOne_ok:
  assumes "set xs \<subseteq> {..< n}" "bitarray_wf n ba"
  shows "\<exists>ba'. foldE setOne xs ba = Inr ba' \<and> bitarray_wf n ba' \<and> bitset ba' = bitset ba \<union> set xs"
  using assms
proof (induction xs arbitrary: ba)
  case Nil
  then show ?case by simp
next
  case (Cons x xs)
  then obtain ba' where ba': "setOne x ba = Inr ba'" "bitarray_wf n ba'" "bitset ba' = insert x (bitset ba)"
    using setOne_ok[of n ba x] by auto
  with Cons.IH[of ba'] Cons.prems show ?case by auto
qed

lemma Reserve_ok:
  assumes "bitarray_wf n ba" "k \<le> n"
  shows "\<exists>ba'. Reserve k ba = Inr ba' \<and> bitarray_wf n ba' \<and> bitset ba' = bitset ba \<union> {k ..< n}"
proof -
  have "set [k ..< n] \<subseteq> {..< n}" by auto
  from foldE_setOne_ok[OF this assms(1)] assms show ?thesis
    by (simp add: Reserve_def bitarray_wf_def)
qed

section \<open>The interface of a bit store\<close>

text \<open>
  What the page-frame bitmap and the page-directory-region bitmap rely on: the operations act
  on a set of ones below a fixed capacity, never fail inside it, and the search finds the first
  zero. The lemmas of the locale are what those two allocators need.
\<close>

locale bit_store =
  fixes set1 set0 :: "nat \<Rightarrow> 'b \<Rightarrow> 'b result"
    and test :: "'b \<Rightarrow> nat \<Rightarrow> bool result"
    and search :: "'b \<Rightarrow> nat \<Rightarrow> nat option result"
    and ones :: "'b \<Rightarrow> nat set"
    and wf :: "'b \<Rightarrow> bool"
    and cap :: nat
  assumes set1: "wf s \<Longrightarrow> b < cap \<Longrightarrow> \<exists>t. set1 b s = Inr t \<and> wf t \<and> ones t = insert b (ones s)"
    and set0: "wf s \<Longrightarrow> b < cap \<Longrightarrow> \<exists>t. set0 b s = Inr t \<and> wf t \<and> ones t = ones s - {b}"
    and test: "wf s \<Longrightarrow> b < cap \<Longrightarrow> test s b = Inr (b \<in> ones s)"
    and search: "wf s \<Longrightarrow> \<exists>r. search s start = Inr r \<and> first_zero cap (ones s) start r"
    and ones_bound: "wf s \<Longrightarrow> ones s \<subseteq> {..< cap}"
begin

lemma set1E:
  assumes "wf s" "b < cap"
  obtains t where "set1 b s = Inr t" "wf t" "ones t = insert b (ones s)"
  using set1[OF assms] by blast

lemma set0E:
  assumes "wf s" "b < cap"
  obtains t where "set0 b s = Inr t" "wf t" "ones t = ones s - {b}"
  using set0[OF assms] by blast

lemma search_Some:
  assumes "wf s" "search s start = Inr (Some b)"
  shows "start \<le> b \<and> b < cap \<and> b \<notin> ones s \<and> {start ..< b} \<subseteq> ones s"
  using search[OF assms(1), of start] assms(2) by auto

lemma search_None:
  assumes "wf s" "search s start = Inr None"
  shows "{start ..< cap} \<subseteq> ones s"
  using search[OF assms(1), of start] assms(2) by auto

text \<open>Taking the first free bit and giving it back leaves the ones as they were.\<close>

lemma acquire_release:
  assumes "wf s" "search s start = Inr (Some b)" "set1 b s = Inr t" "set0 b t = Inr u"
  shows "wf u \<and> ones u = ones s"
proof -
  note b = search_Some[OF assms(1,2)]
  have t: "wf t" "ones t = insert b (ones s)" using set1E[OF assms(1), of b] b assms(3) by auto
  have "wf u" "ones u = ones t - {b}" using set0E[OF t(1), of b] b assms(4) by auto
  with t b show ?thesis by auto
qed

lemma search_succeeds:
  assumes "wf s" "b \<notin> ones s" "start \<le> b" "b < cap"
  shows "\<exists>c. search s start = Inr (Some c)"
  using search[OF assms(1), of start] assms(2-) by (auto split: option.splits) (metis atLeastLessThan_iff
      first_zero.simps(1) not_None_eq subsetD)

end

interpretation ba: bit_store setOne setZero isSet GetFirstZero bitset "bitarray_wf n" n for n
  by unfold_locales
    (simp_all add: setOne_ok setZero_ok isSet_iff GetFirstZero_ok, auto simp: bitset_def bitarray_wf_def)

end
