(* ===== verification/PhysicalBitmap.thy ===== *)
theory PhysicalBitmap
  imports BitArray
begin

text \<open>
  \<open>PhysicalBitmap4M\<close> of \<^verbatim>\<open>kernel/include/paging.h\<close>: the allocator of 4 MB physical page
  frames, a bit per frame (one: in use) beside a 16-bit reference count per frame. The lemmas
  say how the operations move the counts and that the bit of a frame is one exactly when its
  count is not zero.
\<close>

section \<open>Page numbers and addresses\<close>

definition kPageSize4M :: nat where "kPageSize4M = 0x400000"
definition kRamAs4MPages :: nat where "kRamAs4MPages = 0x400"
definition kPageMask4M :: u32 where "kPageMask4M = not 0x3FFFFF"

definition PageIndex4M :: "u32 \<Rightarrow> nat" where
  "PageIndex4M addr = unat (drop_bit 22 addr)"

definition PageAddr4M :: "nat \<Rightarrow> u32" where
  "PageAddr4M page = push_bit 22 (of_nat page)"

definition Is4MPageAligned :: "u32 \<Rightarrow> bool" where
  "Is4MPageAligned addr \<longleftrightarrow> unat addr mod kPageSize4M = 0"

section \<open>The bitmap\<close>

record phys_bitmap =
  bits :: bitarray
  refs :: "u16 list"

definition Ref :: "nat \<Rightarrow> phys_bitmap \<Rightarrow> phys_bitmap result" where
  "Ref page_index pb =
     (if page_index < length (refs pb)
      then Inr (pb\<lparr>refs := (refs pb)[page_index := refs pb ! page_index + 1]\<rparr>)
      else Inl (Undefined ''array index''))"

definition Unref :: "nat \<Rightarrow> phys_bitmap \<Rightarrow> phys_bitmap result" where
  "Unref page_index pb =
     (if page_index < length (refs pb)
      then assertE (refs pb ! page_index \<noteq> 0) ''Attempting to unref a page that has no references''
             (Inr (pb\<lparr>refs := (refs pb)[page_index := refs pb ! page_index - 1]\<rparr>))
      else Inl (Undefined ''array index''))"

definition setPageFrameUsed :: "nat \<Rightarrow> phys_bitmap \<Rightarrow> phys_bitmap result" where
  "setPageFrameUsed page_index pb =
     bindE (Ref page_index pb) (\<lambda>pb.
     bindE (setOne page_index (bits pb)) (\<lambda>b. Inr (pb\<lparr>bits := b\<rparr>)))"

definition setPageFrameFree :: "nat \<Rightarrow> phys_bitmap \<Rightarrow> phys_bitmap result" where
  "setPageFrameFree page_index pb =
     bindE (Unref page_index pb) (\<lambda>pb.
     if refs pb ! page_index = 0
     then bindE (setZero page_index (bits pb)) (\<lambda>b. Inr (pb\<lparr>bits := b\<rparr>))
     else Inr pb)"

definition isPageFrameUsed :: "phys_bitmap \<Rightarrow> nat \<Rightarrow> bool result" where
  "isPageFrameUsed pb page_index = isSet (bits pb) page_index"

definition ReservePhysical :: "nat \<Rightarrow> phys_bitmap \<Rightarrow> phys_bitmap result" where
  "ReservePhysical num_pages pb =
     bindE (Reserve num_pages (bits pb)) (\<lambda>b.
     foldE Ref [num_pages ..< kRamAs4MPages] (pb\<lparr>bits := b\<rparr>))"

definition NextFreePhysicalPage :: "phys_bitmap \<Rightarrow> nat \<Rightarrow> u32 result" where
  "NextFreePhysicalPage pb start =
     bindE (GetFirstZero (bits pb) start) (\<lambda>r.
     case r of None \<Rightarrow> Inl (AssertFailed ''Memory is full!'')
     | Some page_4MB \<Rightarrow> Inr (of_nat (page_4MB * kPageSize4M)))"

definition getRefs :: "phys_bitmap \<Rightarrow> nat \<Rightarrow> u16" where
  "getRefs pb page_index = refs pb ! page_index"

definition NumFreePages :: "phys_bitmap \<Rightarrow> nat result" where
  "NumFreePages pb =
     foldE (\<lambda>i num. bindE (isSet (bits pb) i) (\<lambda>s. Inr (if \<not> s then num + 1 else num)))
       [0 ..< kRamAs4MPages] 0"

section \<open>Page arithmetic\<close>

lemma unat_drop_bit_22: "unat (drop_bit 22 (x :: u32)) = unat x div kPageSize4M"
  by (simp only: unat_drop_bit_eq) (simp add: drop_bit_eq_div kPageSize4M_def)

lemma PageIndex4M_div: "PageIndex4M addr = unat addr div kPageSize4M"
  by (simp only: PageIndex4M_def unat_drop_bit_22)

lemma PageIndex4M_less [simp]: "PageIndex4M addr < 1024"
  using unat_lt_u32[of addr] by (simp add: PageIndex4M_div kPageSize4M_def)

lemma unat_PageAddr4M: "page < 1024 \<Longrightarrow> unat (PageAddr4M page) = page * kPageSize4M"
proof -
  assume "page < 1024"
  then have "unat (of_nat (page * 4194304) :: u32) = page * 4194304"
    by (intro unat_of_nat_u32) simp
  then show ?thesis
    by (simp add: PageAddr4M_def kPageSize4M_def push_bit_eq_mult)
qed

lemma PageIndex4M_PageAddr4M [simp]: "page < 1024 \<Longrightarrow> PageIndex4M (PageAddr4M page) = page"
  by (simp add: PageIndex4M_div unat_PageAddr4M kPageSize4M_def)

lemma PageAddr4M_PageIndex4M: "Is4MPageAligned a \<Longrightarrow> PageAddr4M (PageIndex4M a) = a"
  by (rule unat_eqI)
    (simp add: unat_PageAddr4M, simp add: PageIndex4M_div Is4MPageAligned_def mod_eq_0_iff_dvd)

lemma Is4MPageAligned_PageAddr4M [simp]: "page < 1024 \<Longrightarrow> Is4MPageAligned (PageAddr4M page)"
  by (simp add: Is4MPageAligned_def unat_PageAddr4M)

lemma PageAddr4M_of_nat: "page < 1024 \<Longrightarrow> of_nat (page * kPageSize4M) = PageAddr4M page"
  by (simp add: PageAddr4M_def kPageSize4M_def push_bit_eq_mult)

section \<open>Counts and bits\<close>

definition pb_wf :: "phys_bitmap \<Rightarrow> bool" where
  "pb_wf pb \<longleftrightarrow> bitarray_wf 1024 (bits pb) \<and> length (refs pb) = 1024"

definition pb_consistent :: "phys_bitmap \<Rightarrow> bool" where
  "pb_consistent pb \<longleftrightarrow> pb_wf pb \<and> (\<forall>i < 1024. i \<in> bitset (bits pb) \<longleftrightarrow> refs pb ! i \<noteq> 0)"

definition refcount :: "phys_bitmap \<Rightarrow> nat \<Rightarrow> nat" where
  "refcount pb i = unat (refs pb ! i)"

lemma refcount_bound: "refcount pb i < 65536"
  by (simp add: refcount_def unat_lt_u16)

lemma pb_consistentD:
  "pb_consistent pb \<Longrightarrow> i < 1024 \<Longrightarrow> i \<in> bitset (bits pb) \<longleftrightarrow> 0 < refcount pb i"
  by (simp add: pb_consistent_def refcount_def unat_gt_0)

lemma pb_eqI:
  assumes "pb_consistent a" "pb_consistent b" "\<And>i. i < 1024 \<Longrightarrow> refcount a i = refcount b i"
  shows "a = b"
proof -
  have len: "length (refs a) = 1024" "length (refs b) = 1024"
    using assms(1,2) by (simp_all add: pb_consistent_def pb_wf_def)
  have r: "refs a = refs b"
  proof (rule nth_equalityI)
    fix i assume "i < length (refs a)"
    with assms(3)[of i] len show "refs a ! i = refs b ! i" by (auto simp: refcount_def intro: unat_eqI)
  qed (simp add: len)
  have "bitset (bits a) = bitset (bits b)"
    using assms(1,2) r ba.ones_bound[of 1024 "bits a"] ba.ones_bound[of 1024 "bits b"]
    by (auto simp: pb_consistent_def pb_wf_def)
  then have "bits a = bits b"
    using assms(1,2) by (intro bitarray_eqI[of 1024]) (auto simp: pb_consistent_def pb_wf_def)
  with r show ?thesis by simp
qed

lemma isPageFrameUsed_ok:
  "pb_consistent pb \<Longrightarrow> i < 1024 \<Longrightarrow> isPageFrameUsed pb i = Inr (0 < refcount pb i)"
  by (simp add: isPageFrameUsed_def ba.test[of 1024] pb_consistentD pb_consistent_def pb_wf_def
      refcount_def unat_gt_0)

lemma Ref_ok:
  assumes "pb_consistent pb" "i < 1024" "0 < refcount pb i" "refcount pb i + 1 < 65536"
  shows "\<exists>pb'. Ref i pb = Inr pb' \<and> pb_consistent pb' \<and> refcount pb' = (refcount pb)(i := refcount pb i + 1)"
proof -
  let ?pb = "pb\<lparr>refs := (refs pb)[i := refs pb ! i + 1]\<rparr>"
  have len: "length (refs pb) = 1024" using assms(1) by (simp add: pb_consistent_def pb_wf_def)
  have u: "unat (refs pb ! i + 1) = unat (refs pb ! i) + 1"
    using assms(4) by (simp add: unat_word_ariths refcount_def)
  then have "refs pb ! i + 1 \<noteq> 0" by (metis add_is_0 one_neq_zero unat_0)
  moreover have "refs pb ! i \<noteq> 0" using assms(3) by (auto simp: refcount_def)
  ultimately have "pb_consistent ?pb"
    using assms len by (auto simp: pb_consistent_def pb_wf_def nth_list_update_if)
  moreover have "refcount ?pb = (refcount pb)(i := refcount pb i + 1)"
    using assms(2) len u by (auto simp: refcount_def nth_list_update_if fun_eq_iff)
  ultimately show ?thesis using assms(2) len by (simp add: Ref_def)
qed

lemma setPageFrameUsed_ok:
  assumes "pb_consistent pb" "i < 1024" "refcount pb i + 1 < 65536"
  shows "\<exists>pb'. setPageFrameUsed i pb = Inr pb' \<and> pb_consistent pb' \<and>
           refcount pb' = (refcount pb)(i := refcount pb i + 1)"
proof -
  have wf: "bitarray_wf 1024 (bits pb)" "length (refs pb) = 1024"
    using assms(1) by (simp_all add: pb_consistent_def pb_wf_def)
  obtain b where b: "setOne i (bits pb) = Inr b" "bitarray_wf 1024 b" "bitset b = insert i (bitset (bits pb))"
    using ba.set1E[OF wf(1) assms(2)] by blast
  let ?pb = "pb\<lparr>refs := (refs pb)[i := refs pb ! i + 1], bits := b\<rparr>"
  have u: "unat (refs pb ! i + 1) = unat (refs pb ! i) + 1"
    using assms(3) by (simp add: unat_word_ariths refcount_def)
  then have "refs pb ! i + 1 \<noteq> 0" by (metis add_is_0 one_neq_zero unat_0)
  then have "pb_consistent ?pb"
    using assms wf b by (auto simp: pb_consistent_def pb_wf_def nth_list_update_if)
  moreover have "refcount ?pb = (refcount pb)(i := refcount pb i + 1)"
    using assms(2) wf u by (auto simp: refcount_def nth_list_update_if fun_eq_iff)
  ultimately show ?thesis using assms(2) wf b by (simp add: setPageFrameUsed_def Ref_def)
qed

lemma setPageFrameFree_ok:
  assumes "pb_consistent pb" "i < 1024" "0 < refcount pb i"
  shows "\<exists>pb'. setPageFrameFree i pb = Inr pb' \<and> pb_consistent pb' \<and>
           refcount pb' = (refcount pb)(i := refcount pb i - 1)"
proof -
  have wf: "bitarray_wf 1024 (bits pb)" "length (refs pb) = 1024"
    using assms(1) by (simp_all add: pb_consistent_def pb_wf_def)
  obtain b where b: "setZero i (bits pb) = Inr b" "bitarray_wf 1024 b" "bitset b = bitset (bits pb) - {i}"
    using ba.set0E[OF wf(1) assms(2)] by blast
  have nz: "refs pb ! i \<noteq> 0" using assms(3) by (auto simp: refcount_def)
  have u: "unat (refs pb ! i - 1) = unat (refs pb ! i) - 1"
    using nz by (metis unat_minus_one)
  let ?pb = "pb\<lparr>refs := (refs pb)[i := refs pb ! i - 1]\<rparr>"
  have rc: "refcount ?pb = (refcount pb)(i := refcount pb i - 1)" for b
    using assms(2) wf u by (auto simp: refcount_def nth_list_update_if fun_eq_iff)
  show ?thesis
  proof (cases "refs pb ! i - 1 = 0")
    case True
    have "pb_consistent (?pb\<lparr>bits := b\<rparr>)"
      using assms wf b True by (auto simp: pb_consistent_def pb_wf_def nth_list_update_if)
    moreover have "refcount (?pb\<lparr>bits := b\<rparr>) = refcount ?pb" by (simp add: refcount_def fun_eq_iff)
    ultimately show ?thesis
      using assms(2) wf b nz True rc by (simp add: setPageFrameFree_def Unref_def)
  next
    case False
    have "pb_consistent ?pb"
      using assms wf False nz by (auto simp: pb_consistent_def pb_wf_def nth_list_update_if)
    with assms(2) wf nz False rc show ?thesis by (simp add: setPageFrameFree_def Unref_def)
  qed
qed

lemma setPageFrameFree_zero:
  assumes "pb_consistent pb" "i < 1024" "refcount pb i = 0"
  shows "setPageFrameFree i pb =
    Inl (AssertFailed ''Attempting to unref a page that has no references'')"
  using assms by (simp add: setPageFrameFree_def Unref_def pb_consistent_def pb_wf_def refcount_def
      unsigned_eq_0_iff)

lemma NextFreePhysicalPage_ok:
  assumes "pb_consistent pb" "NextFreePhysicalPage pb start = Inr p"
  shows "Is4MPageAligned p \<and> start \<le> PageIndex4M p \<and> refcount pb (PageIndex4M p) = 0 \<and>
         (\<forall>i. start \<le> i \<longrightarrow> i < PageIndex4M p \<longrightarrow> 0 < refcount pb i)"
proof -
  have wf: "bitarray_wf 1024 (bits pb)" using assms(1) by (simp add: pb_consistent_def pb_wf_def)
  obtain b where b: "GetFirstZero (bits pb) start = Inr (Some b)" "p = of_nat (b * kPageSize4M)"
    using assms(2) by (auto simp: NextFreePhysicalPage_def bindE_Inr_iff split: option.splits)
  note s = ba.search_Some[OF wf b(1)]
  have p: "p = PageAddr4M b" using s b(2) by (simp only: PageAddr4M_of_nat)
  have zero: "refcount pb b = 0" using s pb_consistentD[OF assms(1), of b] by simp
  have below: "0 < refcount pb i" if "start \<le> i" "i < b" for i
    using s that pb_consistentD[OF assms(1), of i] by auto
  show ?thesis using s zero below by (simp add: p)
qed

lemma NextFreePhysicalPage_full:
  assumes "pb_consistent pb"
  shows "(\<exists>p. NextFreePhysicalPage pb start = Inr p) \<or>
         (NextFreePhysicalPage pb start = Inl (AssertFailed ''Memory is full!'') \<and>
          (\<forall>i. start \<le> i \<longrightarrow> i < 1024 \<longrightarrow> 0 < refcount pb i))"
proof -
  have wf: "bitarray_wf 1024 (bits pb)" using assms(1) by (simp add: pb_consistent_def pb_wf_def)
  obtain r where r: "GetFirstZero (bits pb) start = Inr r" using ba.search[OF wf] by blast
  show ?thesis
  proof (cases r)
    case None
    with ba.search_None[OF wf] r have "{start ..< 1024} \<subseteq> bitset (bits pb)" by simp
    then show ?thesis using r None pb_consistentD[OF assms]
      by (auto simp: NextFreePhysicalPage_def)
  next
    case (Some b)
    with r show ?thesis by (simp add: NextFreePhysicalPage_def)
  qed
qed

end
