(* ===== verification/Paging.thy ===== *)
theory Paging
  imports PhysicalBitmap
begin

text \<open>
  \<^verbatim>\<open>kernel/paging.cpp\<close> and \<^verbatim>\<open>kernel/include/paging.h\<close>: page directories of 4 MB pages, the
  region that holds the directories of user tasks, and the physical bitmap they share. A
  directory is named by where it lives: the kernel's own \<open>KernelPageDir\<close>, or slot \<open>i\<close> of the
  page directory region (\<open>PAGE_DIRECTORY_REGION_START + 4096 * i\<close>). The TLB (\<open>invlpg\<close>), the
  CR0/CR4 bits and the interrupt flag that \<open>DisableInterruptsRAII\<close> saves and restores are not
  part of the state; \<open>cr3\<close> is.
\<close>

unbundle bit_operations_syntax

section \<open>Memory layout\<close>

definition KERNEL_START :: u32 where [kernel_defs]: "KERNEL_START = 0x400000"
definition KERNEL_END :: u32 where [kernel_defs]: "KERNEL_END = 0x800000"
definition PAGE_DIRECTORY_REGION_START :: u32 where [kernel_defs]: "PAGE_DIRECTORY_REGION_START = KERNEL_END"
definition PAGE_DIRECTORY_REGION_END :: u32 where [kernel_defs]: "PAGE_DIRECTORY_REGION_END = 0xC00000"
definition USER_SHARED_SPACE_START :: u32 where [kernel_defs]: "USER_SHARED_SPACE_START = 0xC00000"
definition USER_SHARED_SPACE_END :: u32 where [kernel_defs]: "USER_SHARED_SPACE_END = 0x01000000"
definition TMP_SHARED_TASK_MEM_START :: u32 where [kernel_defs]: "TMP_SHARED_TASK_MEM_START = 0x1400000"
definition KERN_HEAP_BEGIN :: u32 where [kernel_defs]: "KERN_HEAP_BEGIN = 0x02000000"
definition KERN_HEAP_END :: u32 where [kernel_defs]: "KERN_HEAP_END = 0x40000000"
definition USER_START :: u32 where [kernel_defs]: "USER_START = 0x40000000"
definition USER_END :: nat where [kernel_defs]: "USER_END = 0x100000000"

definition PG_PRESENT :: u32 where "PG_PRESENT = 0x1"
definition PG_WRITE :: u32 where "PG_WRITE = 0x2"
definition PG_USER :: u8 where "PG_USER = 0x4"
definition PG_4MB :: u32 where "PG_4MB = 0x80"

definition IsKernelCode :: "u32 \<Rightarrow> bool" where
  "IsKernelCode addr \<longleftrightarrow> KERNEL_START \<le> addr \<and> addr < KERNEL_END"

definition IsPageDirRegion :: "u32 \<Rightarrow> bool" where
  "IsPageDirRegion addr \<longleftrightarrow> PAGE_DIRECTORY_REGION_START \<le> addr \<and> addr < PAGE_DIRECTORY_REGION_END"

definition IsKernelHeap :: "u32 \<Rightarrow> bool" where
  "IsKernelHeap addr \<longleftrightarrow> KERN_HEAP_BEGIN \<le> addr \<and> addr < KERN_HEAP_END"

definition IsUserCode :: "u32 \<Rightarrow> bool" where
  "IsUserCode addr \<longleftrightarrow> USER_START \<le> addr"

definition kNumPageDirEntries :: nat where [kernel_defs]: "kNumPageDirEntries = 1024"
definition kPageDirSize :: nat where [kernel_defs]: "kPageDirSize = 4096"
definition kNumPageDirs :: nat where [kernel_defs]:
  "kNumPageDirs = unat (PAGE_DIRECTORY_REGION_END - PAGE_DIRECTORY_REGION_START) div kPageDirSize"

section \<open>State\<close>

type_synonym page_directory = "u32 list"

datatype pd_ref = KernelPD | RegionPD nat

record paging =
  phys :: phys_bitmap
  kernel_pd :: page_directory
  region_bits :: bitarray
  region :: "page_directory list"
  cr3 :: pd_ref

definition pd_of :: "paging \<Rightarrow> pd_ref \<Rightarrow> page_directory" where
  "pd_of s d = (case d of KernelPD \<Rightarrow> kernel_pd s | RegionPD i \<Rightarrow> region s ! i)"

definition set_pd :: "pd_ref \<Rightarrow> page_directory \<Rightarrow> paging \<Rightarrow> paging" where
  "set_pd d pd s =
     (case d of KernelPD \<Rightarrow> s\<lparr>kernel_pd := pd\<rparr> | RegionPD i \<Rightarrow> s\<lparr>region := (region s)[i := pd]\<rparr>)"

abbreviation set_entry :: "pd_ref \<Rightarrow> nat \<Rightarrow> u32 \<Rightarrow> paging \<Rightarrow> paging" where
  "set_entry d i v s \<equiv> set_pd d ((pd_of s d)[i := v]) s"

definition present :: "u32 \<Rightarrow> bool" where
  "present pde \<longleftrightarrow> pde AND PG_PRESENT \<noteq> 0"

definition isKernelPageDir :: "pd_ref \<Rightarrow> bool" where
  "isKernelPageDir d \<longleftrightarrow> d = KernelPD"

text \<open>An address whose mapping in the kernel directory every directory repeats.\<close>

definition shared_kernel_addr :: "u32 \<Rightarrow> bool" where
  "shared_kernel_addr a \<longleftrightarrow> IsKernelCode a \<or> IsKernelHeap a \<or> IsPageDirRegion a"

section \<open>Operations\<close>

definition upd_phys :: "(phys_bitmap \<Rightarrow> phys_bitmap result) \<Rightarrow> paging \<Rightarrow> paging result" where
  "upd_phys f s = bindE (f (phys s)) (\<lambda>pb. Inr (s\<lparr>phys := pb\<rparr>))"

definition isVirtualMapped :: "paging \<Rightarrow> pd_ref \<Rightarrow> u32 \<Rightarrow> bool" where
  "isVirtualMapped s d v_addr \<longleftrightarrow> present (pd_of s d ! PageIndex4M v_addr)"

definition AddPage_propagate :: "nat \<Rightarrow> u32 \<Rightarrow> nat \<Rightarrow> nat \<Rightarrow> paging \<Rightarrow> paging result" where
  "AddPage_propagate index pde frame b s =
     bindE (isSet (region_bits s) b) (\<lambda>used.
     if \<not> used then Inr s
     else assertE (\<not> present (pd_of s (RegionPD b) ! index))
            ''Another task's page directory entry is already used.''
            (upd_phys (setPageFrameUsed frame) (set_entry (RegionPD b) index pde s)))"

definition AddPage :: "pd_ref \<Rightarrow> u32 \<Rightarrow> u32 \<Rightarrow> u8 \<Rightarrow> bool \<Rightarrow> paging \<Rightarrow> paging result" where
  "AddPage d v_addr p_addr flags allow_physical_reuse s =
     assertE (unat p_addr mod kPageSize4M = 0) ''Attempting to map a page that is not 4MB aligned!'' (
     assertE (unat v_addr mod kPageSize4M = 0) ''Attempting to map a virtual address that is not 4MB aligned'' (
     bindE (if allow_physical_reuse then Inr False else isPageFrameUsed (phys s) (PageIndex4M p_addr)) (\<lambda>used.
     assertE (\<not> used) ''!PhysicalBitmap.isPageFrameUsed(PageIndex4M(paddr_int))'' (
     let index = PageIndex4M v_addr;
         pde = (p_addr AND kPageMask4M) OR (PG_PRESENT OR PG_4MB OR PG_WRITE OR ucast flags) in
     assertE (\<not> present (pd_of s d ! index)) ''The page directory entry for this virtual address is already assigned.'' (
     bindE (upd_phys (setPageFrameUsed (PageIndex4M p_addr)) (set_entry d index pde s)) (\<lambda>s.
     if isKernelPageDir d \<and> shared_kernel_addr v_addr
     then foldE (AddPage_propagate index pde (PageIndex4M p_addr)) [0 ..< NumBits (region_bits s)] s
     else Inr s))))))"

definition RemovePage_propagate :: "nat \<Rightarrow> nat \<Rightarrow> nat \<Rightarrow> paging \<Rightarrow> paging result" where
  "RemovePage_propagate index frame b s =
     bindE (isSet (region_bits s) b) (\<lambda>used.
     if \<not> used then Inr s
     else assertE (present (pd_of s (RegionPD b) ! index))
            ''We are removing a common shared page. This should've already been set prior.''
            (upd_phys (setPageFrameFree frame) (set_entry (RegionPD b) index 0 s)))"

definition RemovePage :: "pd_ref \<Rightarrow> u32 \<Rightarrow> paging \<Rightarrow> paging result" where
  "RemovePage d vaddr s =
     assertE (unat vaddr mod kPageSize4M = 0) ''Address is not 4MB aligned'' (
     let page = PageIndex4M vaddr;
         pde = pd_of s d ! page;
         paddr_int = pde AND kPageMask4M in
     bindE (upd_phys (setPageFrameFree (PageIndex4M paddr_int)) (set_entry d page 0 s)) (\<lambda>s.
     if isKernelPageDir d \<and> shared_kernel_addr vaddr
     then foldE (RemovePage_propagate page (PageIndex4M paddr_int)) [0 ..< NumBits (region_bits s)] s
     else Inr s))"

definition GetPhysicalAddr :: "paging \<Rightarrow> pd_ref \<Rightarrow> u32 \<Rightarrow> u32 result" where
  "GetPhysicalAddr s d vaddr =
     assertE (unat vaddr mod kPageSize4M = 0) ''Expected the virtual addr to be a multiple of 4MB'' (
     let pd_entry = pd_of s d ! PageIndex4M vaddr;
         paddr_int = pd_entry AND kPageMask4M in
     assertE (present pd_entry) ''Page for virtual address not present'' (
     bindE (isPageFrameUsed (phys s) (PageIndex4M paddr_int)) (\<lambda>used.
     assertE used ''The physical page for this virtual address has not been allocated.'' (
     Inr paddr_int))))"

definition isPhysicalFree :: "paging \<Rightarrow> nat \<Rightarrow> bool result" where
  "isPhysicalFree s page_index =
     bindE (isPageFrameUsed (phys s) page_index) (\<lambda>used. Inr (\<not> used))"

definition SwitchPageDirectory :: "pd_ref \<Rightarrow> paging \<Rightarrow> paging" where
  "SwitchPageDirectory d s = s\<lparr>cr3 := d\<rparr>"

text \<open>\<open>PageDirRegionBitmap\<close>: the slots of the page directory region.\<close>

definition getAndUseNextFreeRegion :: "paging \<Rightarrow> (nat \<times> paging) result" where
  "getAndUseNextFreeRegion s =
     bindE (GetFirstZero (region_bits s) 0) (\<lambda>r.
     case r of None \<Rightarrow> Inl (AssertFailed ''No free pages in the page directory region'')
     | Some b \<Rightarrow> bindE (setOne b (region_bits s)) (\<lambda>rb. Inr (b, s\<lparr>region_bits := rb\<rparr>)))"

definition Reclaim :: "pd_ref \<Rightarrow> paging \<Rightarrow> paging result" where
  "Reclaim d s =
     assertE (\<not> isKernelPageDir d) ''!pd->isKernelPageDir()'' (
     case d of KernelPD \<Rightarrow> Inr s
     | RegionPD i \<Rightarrow>
       let addr = kPageDirSize * i in
       assertE (addr mod kPageDirSize = 0) ''addr % kPageDirSize == 0'' (
       bindE (setZero (addr div kPageDirSize) (region_bits s)) (\<lambda>rb. Inr (s\<lparr>region_bits := rb\<rparr>))))"

definition Clone :: "pd_ref \<Rightarrow> paging \<Rightarrow> (pd_ref \<times> paging) result" where
  "Clone d s =
     bindE (getAndUseNextFreeRegion s) (\<lambda>(b, s).
     let s = set_pd (RegionPD b) (pd_of s d) s in
     bindE (upd_phys (foldE (\<lambda>pde pb. if present pde then Ref (PageIndex4M pde) pb else Inr pb) (pd_of s d)) s)
       (\<lambda>s. Inr (RegionPD b, s)))"

definition ReclaimPageDirRegion :: "pd_ref \<Rightarrow> paging \<Rightarrow> paging result" where
  "ReclaimPageDirRegion d s =
     bindE (upd_phys (foldE (\<lambda>pde pb. if present pde then setPageFrameFree (PageIndex4M pde) pb else Inr pb) (pd_of s d)) s)
       (Reclaim d)"

text \<open>\<open>None\<close> is the null pointer: no free page in user memory.\<close>

fun GetNextFreeVirtualUser_from :: "page_directory \<Rightarrow> nat list \<Rightarrow> u32 option" where
  "GetNextFreeVirtualUser_from pd [] = None"
| "GetNextFreeVirtualUser_from pd (i # is) =
     (if \<not> present (pd ! i) then Some (PageAddr4M i) else GetNextFreeVirtualUser_from pd is)"

definition GetNextFreeVirtualUser :: "paging \<Rightarrow> pd_ref \<Rightarrow> u32 option" where
  "GetNextFreeVirtualUser s d =
     GetNextFreeVirtualUser_from (pd_of s d) [PageIndex4M USER_START ..< USER_END div kPageSize4M]"

definition IdentityMapRAII :: "u32 \<Rightarrow> u8 \<Rightarrow> paging \<Rightarrow> (nat \<times> paging) result" where
  "IdentityMapRAII addr flags s =
     bindE (AddPage KernelPD addr addr flags False s) (\<lambda>s. Inr (PageIndex4M addr, s))"

definition IdentityMapRAII_destroy :: "nat \<Rightarrow> paging \<Rightarrow> paging result" where
  "IdentityMapRAII_destroy page s = RemovePage KernelPD (PageAddr4M page) s"

definition PageDirectory_Clear :: "page_directory \<Rightarrow> page_directory" where
  "PageDirectory_Clear pd = replicate (length pd) 0"

definition InitializePaging :: "u32 \<Rightarrow> paging \<Rightarrow> paging result" where
  "InitializePaging high_mem_KB s =
     (let total_mem = high_mem_KB * 1024;
          num_4M_pages = unat total_mem div kPageSize4M + 1 in
      assertE (32 \<le> num_4M_pages) ''Expected at least 128 MB of memory available.'' (
      let s = s\<lparr>phys := (phys s)\<lparr>bits := BitArray_Clear (bits (phys s))\<rparr>,
                kernel_pd := PageDirectory_Clear (kernel_pd s),
                region_bits := BitArray_Clear (region_bits s)\<rparr>;
          flags = ucast (PG_PRESENT OR PG_WRITE OR PG_4MB) in
      bindE (upd_phys (ReservePhysical 32) s) (\<lambda>s.
      bindE (AddPage KernelPD KERNEL_START KERNEL_START flags False s) (\<lambda>s.
      bindE (AddPage KernelPD PAGE_DIRECTORY_REGION_START PAGE_DIRECTORY_REGION_START flags False s) (\<lambda>s.
      Inr (SwitchPageDirectory KernelPD s))))))"

section \<open>Page directory entries\<close>

lemma bit_kPageMask4M: "bit kPageMask4M k \<longleftrightarrow> 22 \<le> k \<and> k < 32"
proof -
  have "(0x3FFFFF :: u32) = mask 22" by (simp add: mask_eq_exp_minus_1)
  then have "kPageMask4M = NOT (mask 22 :: u32)" by (simp add: kPageMask4M_def)
  moreover have "bit (NOT (mask 22 :: u32)) k \<longleftrightarrow> 22 \<le> k \<and> k < 32"
    by (auto simp: bit_not_iff bit_mask_iff)
  ultimately show ?thesis by metis
qed

lemma present_bit: "present pde \<longleftrightarrow> bit pde 0"
  by (simp add: present_def PG_PRESENT_def and_one_eq bit_0 odd_iff_mod_2_eq_one)

lemma not_present_0 [simp]: "\<not> present 0"
  by (simp add: present_bit)

lemma aligned_bits: "Is4MPageAligned a \<Longrightarrow> k < 22 \<Longrightarrow> \<not> bit a k"
proof -
  assume "Is4MPageAligned a" "k < 22"
  then have "a = push_bit 22 (of_nat (PageIndex4M a))"
    using PageAddr4M_PageIndex4M[of a] by (simp add: PageAddr4M_def)
  then show "\<not> bit a k" using \<open>k < 22\<close> by (metis bit_push_bit_iff not_less)
qed

lemma masked_frame [simp]: "PageIndex4M (pde AND kPageMask4M) = PageIndex4M pde"
proof -
  have "drop_bit 22 (pde AND kPageMask4M) = drop_bit 22 pde"
    by (rule bit_eqI) (auto simp: bit_drop_bit_eq bit_and_iff bit_kPageMask4M dest: bit_imp_le_length)
  then show ?thesis by (simp only: PageIndex4M_def)
qed

definition mk_pde :: "u32 \<Rightarrow> u8 \<Rightarrow> u32" where
  "mk_pde p_addr flags =
     (p_addr AND kPageMask4M) OR (PG_PRESENT OR PG_4MB OR PG_WRITE OR ucast flags)"

lemma bit_PG: "bit PG_PRESENT k \<longleftrightarrow> k = 0" "bit PG_4MB k \<longleftrightarrow> k = 7" "bit PG_WRITE k \<longleftrightarrow> k = 1"
proof -
  have pow: "bit (2 ^ n :: u32) k \<longleftrightarrow> k = n" if "n < 32" for n
    using that by (auto simp: bit_exp_iff)
  show "bit PG_PRESENT k \<longleftrightarrow> k = 0" using pow[of 0] by (simp add: PG_PRESENT_def)
  show "bit PG_4MB k \<longleftrightarrow> k = 7" using pow[of 7] by (simp add: PG_4MB_def)
  show "bit PG_WRITE k \<longleftrightarrow> k = 1" using pow[of 1] by (simp add: PG_WRITE_def)
qed

lemma bit_mk_pde:
  "bit (mk_pde p flags) k \<longleftrightarrow>
     (bit p k \<and> 22 \<le> k) \<or> k = 0 \<or> k = 1 \<or> k = 7 \<or> (k < 8 \<and> bit flags k)"
  by (auto simp: mk_pde_def bit_and_iff bit_or_iff bit_kPageMask4M bit_PG bit_unsigned_iff
      dest: bit_imp_le_length)

lemma present_mk_pde [simp]: "present (mk_pde p flags)"
  by (simp add: present_bit bit_mk_pde)

lemma mk_pde_mask: "Is4MPageAligned p \<Longrightarrow> mk_pde p flags AND kPageMask4M = p"
proof (rule bit_eqI)
  fix k assume al: "Is4MPageAligned p" and "possible_bit TYPE(32 word) k"
  then have k: "k < 32" by simp
  show "bit (mk_pde p flags AND kPageMask4M) k \<longleftrightarrow> bit p k"
    using aligned_bits[OF al, of k] k
    by (cases "22 \<le> k") (auto simp: bit_and_iff bit_mk_pde bit_kPageMask4M)
qed

lemma frame_mk_pde [simp]: "PageIndex4M (mk_pde p flags) = PageIndex4M p"
proof -
  have "drop_bit 22 (mk_pde p flags) = drop_bit 22 p"
    by (rule bit_eqI) (auto simp: bit_drop_bit_eq bit_mk_pde)
  then show ?thesis by (simp only: PageIndex4M_def)
qed

section \<open>Counting mappings\<close>

definition contrib :: "nat \<Rightarrow> u32 \<Rightarrow> nat" where
  "contrib p pde = (if present pde \<and> PageIndex4M pde = p then 1 else 0)"

definition pd_count :: "page_directory \<Rightarrow> nat \<Rightarrow> nat" where
  "pd_count pd p = sum_list (map (contrib p) pd)"

abbreviation live :: "paging \<Rightarrow> nat set" where
  "live s \<equiv> bitset (region_bits s)"

definition mapcount :: "paging \<Rightarrow> nat \<Rightarrow> nat" where
  "mapcount s p = pd_count (kernel_pd s) p + (\<Sum>i \<in> live s. pd_count (region s ! i) p)"

text \<open>Frames at 128 MB and above are reserved at start-up with one reference nobody drops.\<close>

definition reserved :: "nat \<Rightarrow> nat" where
  "reserved p = (if 32 \<le> p then 1 else 0)"

definition paging_wf :: "paging \<Rightarrow> bool" where
  "paging_wf s \<longleftrightarrow> pb_consistent (phys s) \<and> length (kernel_pd s) = 1024 \<and>
     bitarray_wf 1024 (region_bits s) \<and> length (region s) = 1024 \<and>
     (\<forall>i < 1024. length (region s ! i) = 1024)"

definition counts_ok :: "paging \<Rightarrow> bool" where
  "counts_ok s \<longleftrightarrow> paging_wf s \<and> (\<forall>p < 1024. refcount (phys s) p = reserved p + mapcount s p)"

text \<open>The kernel's shared mappings are the same in every directory in use.\<close>

definition kernel_index :: "nat \<Rightarrow> bool" where
  "kernel_index i \<longleftrightarrow> i = 1 \<or> i = 2 \<or> (8 \<le> i \<and> i < 256)"

definition synced :: "paging \<Rightarrow> bool" where
  "synced s \<longleftrightarrow> (\<forall>b \<in> live s. \<forall>i < 1024. kernel_index i \<longrightarrow> region s ! b ! i = kernel_pd s ! i)"

definition paging_inv :: "paging \<Rightarrow> bool" where
  "paging_inv s \<longleftrightarrow> counts_ok s \<and> synced s"

definition valid_pd :: "paging \<Rightarrow> pd_ref \<Rightarrow> bool" where
  "valid_pd s d = (case d of KernelPD \<Rightarrow> True | RegionPD i \<Rightarrow> i \<in> live s)"

lemma live_bound: "paging_wf s \<Longrightarrow> i \<in> live s \<Longrightarrow> i < 1024"
  using ba.ones_bound[of 1024 "region_bits s"] by (auto simp: paging_wf_def)

lemma finite_live: "paging_wf s \<Longrightarrow> finite (live s)"
  using ba.ones_bound[of 1024 "region_bits s"] finite_subset by (auto simp: paging_wf_def)

lemma length_pd_of: "paging_wf s \<Longrightarrow> valid_pd s d \<Longrightarrow> length (pd_of s d) = 1024"
  by (auto simp: valid_pd_def pd_of_def paging_wf_def live_bound split: pd_ref.splits
      dest!: live_bound[rotated])

lemma pd_count_update:
  "i < length pd \<Longrightarrow> pd_count (pd[i := v]) p + contrib p (pd ! i) = pd_count pd p + contrib p v"
  using sum_list_remove_upd[of i "map (contrib p) pd" "contrib p v"] by (simp add: pd_count_def map_update)

lemma mapcount_set_entry:
  assumes wf: "paging_wf s" and d: "valid_pd s d" and i: "i < 1024"
  shows "mapcount (set_entry d i v s) p + contrib p (pd_of s d ! i) = mapcount s p + contrib p v"
proof (cases d)
  case KernelPD
  then show ?thesis
    using pd_count_update[of i "kernel_pd s" v p] wf i
    by (simp add: mapcount_def set_pd_def pd_of_def paging_wf_def)
next
  case (RegionPD b)
  with d have b: "b \<in> live s" by (simp add: valid_pd_def)
  note fin = finite_live[OF wf] and lt = live_bound[OF wf b]
  have others: "(\<Sum>j \<in> live s - {b}. pd_count ((region s)[b := x] ! j) p) =
                (\<Sum>j \<in> live s - {b}. pd_count (region s ! j) p)" for x
    by (rule sum.cong) auto
  show ?thesis
    using pd_count_update[of i "region s ! b" v p] wf i lt RegionPD
    by (simp add: mapcount_def set_pd_def pd_of_def paging_wf_def sum.remove[OF fin b] others)
qed

end
