(* ===== verification/PagingInvariant.thy ===== *)
theory PagingInvariant
  imports Paging
begin

text \<open>
  The paging invariant: every frame's reference count is the number of present entries that
  map it, over the kernel directory and the directories in use, plus the start-up reservation;
  a frame's bit is one exactly when that count is positive; and the kernel's shared mappings
  are equal in every directory. The theorems show which operations keep it, and that none of
  them can hit the \<open>Unref\<close> assertion while it holds.
\<close>

section \<open>Single entries\<close>

lemma set_pd_sel [simp]:
  "phys (set_pd d x s) = phys s"
  "region_bits (set_pd d x s) = region_bits s"
  "cr3 (set_pd d x s) = cr3 s"
  by (simp_all add: set_pd_def split: pd_ref.splits)

lemma pd_of_set_pd:
  "d = KernelPD \<or> d = RegionPD i \<and> i < length (region s) \<Longrightarrow>
   pd_of (set_pd d x s) d' = (if d' = d then x else pd_of s d')"
  by (auto simp: pd_of_def set_pd_def split: pd_ref.splits)

lemma pd_of_phys [simp]: "pd_of (s\<lparr>phys := pb\<rparr>) d = pd_of s d"
  by (simp add: pd_of_def split: pd_ref.splits)

lemma mapcount_phys [simp]: "mapcount (s\<lparr>phys := pb\<rparr>) p = mapcount s p"
  by (simp add: mapcount_def)

lemma valid_pd_cases:
  assumes "paging_wf s" "valid_pd s d"
  obtains "d = KernelPD" | i where "d = RegionPD i" "i \<in> live s" "i < 1024"
  using assms live_bound by (cases d) (auto simp: valid_pd_def)

lemma pd_of_set_valid:
  assumes wf: "paging_wf s" and d: "valid_pd s d"
  shows "pd_of (set_pd d x s) d' = (if d' = d then x else pd_of s d')"
proof -
  have "length (region s) = 1024" using wf by (simp add: paging_wf_def)
  with wf d show ?thesis by (metis pd_of_set_pd valid_pd_cases)
qed

lemma paging_wf_set_entry:
  assumes "paging_wf s" "valid_pd s d" "pb_consistent pb"
  shows "paging_wf ((set_entry d i v s)\<lparr>phys := pb\<rparr>)"
  using assms(1,2)
proof (cases rule: valid_pd_cases)
  case 1
  then show ?thesis using assms by (simp add: paging_wf_def set_pd_def pd_of_def)
next
  case (2 b)
  then show ?thesis
    using assms by (auto simp: paging_wf_def set_pd_def pd_of_def nth_list_update)
qed

lemma counts_okD:
  "counts_ok s \<Longrightarrow> p < 1024 \<Longrightarrow> refcount (phys s) p = reserved p + mapcount s p"
  "counts_ok s \<Longrightarrow> paging_wf s"
  "counts_ok s \<Longrightarrow> pb_consistent (phys s)"
  by (simp_all add: counts_ok_def paging_wf_def)

lemma contrib_not_present [simp]: "\<not> present e \<Longrightarrow> contrib p e = 0"
  by (simp add: contrib_def)

lemma contrib_present: "present e \<Longrightarrow> contrib p e = (if p = PageIndex4M e then 1 else 0)"
  by (auto simp: contrib_def)

lemma map_entry_ok:
  assumes "counts_ok s" "valid_pd s d" "i < 1024" "\<not> present (pd_of s d ! i)" "present v"
    and room: "refcount (phys s) (PageIndex4M v) + 1 < 65536"
  shows "\<exists>pb. upd_phys (setPageFrameUsed (PageIndex4M v)) (set_entry d i v s)
                 = Inr ((set_entry d i v s)\<lparr>phys := pb\<rparr>) \<and>
              refcount pb = (refcount (phys s))(PageIndex4M v := refcount (phys s) (PageIndex4M v) + 1) \<and>
              counts_ok ((set_entry d i v s)\<lparr>phys := pb\<rparr>)"
proof -
  note wf = counts_okD(2)[OF assms(1)] and cons = counts_okD(3)[OF assms(1)]
  let ?f = "PageIndex4M v"
  obtain pb where pb: "setPageFrameUsed ?f (phys s) = Inr pb" "pb_consistent pb"
      "refcount pb = (refcount (phys s))(?f := refcount (phys s) ?f + 1)"
    using setPageFrameUsed_ok[OF cons _ room] by auto
  have count: "mapcount (set_entry d i v s) p = mapcount s p + (if p = ?f then 1 else 0)" for p
    using mapcount_set_entry[OF wf assms(2,3), of v p] assms(4,5) by (simp add: contrib_present)
  have "counts_ok ((set_entry d i v s)\<lparr>phys := pb\<rparr>)"
    using paging_wf_set_entry[OF wf assms(2) pb(2)] counts_okD(1)[OF assms(1)]
    by (simp add: counts_ok_def pb(3) count)
  then show ?thesis using pb by (intro exI[of _ pb]) (simp add: upd_phys_def)
qed

lemma count_pos_of_present:
  assumes "counts_ok s" "valid_pd s d" "i < 1024" "present (pd_of s d ! i)"
  shows "0 < mapcount s (PageIndex4M (pd_of s d ! i))"
  using mapcount_set_entry[OF counts_okD(2)[OF assms(1)] assms(2,3), of 0 "PageIndex4M (pd_of s d ! i)"]
    assms(4) by (simp add: contrib_present)

lemma unmap_entry_ok:
  assumes "counts_ok s" "valid_pd s d" "i < 1024" "present (pd_of s d ! i)"
    and f: "PageIndex4M (pd_of s d ! i) = f"
  shows "\<exists>pb. upd_phys (setPageFrameFree f) (set_entry d i 0 s)
                 = Inr ((set_entry d i 0 s)\<lparr>phys := pb\<rparr>) \<and>
              refcount pb = (refcount (phys s))(f := refcount (phys s) f - 1) \<and>
              counts_ok ((set_entry d i 0 s)\<lparr>phys := pb\<rparr>)"
proof -
  note wf = counts_okD(2)[OF assms(1)] and cons = counts_okD(3)[OF assms(1)]
  have fl: "f < 1024" unfolding f[symmetric] by simp
  have pos: "0 < mapcount s f" using count_pos_of_present[OF assms(1-4)] by (simp add: f)
  then have "0 < refcount (phys s) f" using counts_okD(1)[OF assms(1) fl] by simp
  then obtain pb where pb: "setPageFrameFree f (phys s) = Inr pb" "pb_consistent pb"
      "refcount pb = (refcount (phys s))(f := refcount (phys s) f - 1)"
    using setPageFrameFree_ok[OF cons fl] by auto
  have count: "mapcount (set_entry d i 0 s) p = (if p = f then mapcount s f - 1 else mapcount s p)" for p
    using mapcount_set_entry[OF wf assms(2,3), of 0 p] assms(4) f by (auto simp: contrib_present)
  have "counts_ok ((set_entry d i 0 s)\<lparr>phys := pb\<rparr>)"
    using paging_wf_set_entry[OF wf assms(2) pb(2)] counts_okD(1)[OF assms(1)] pos
    by (auto simp: counts_ok_def pb(3) count)
  then show ?thesis using pb by (intro exI[of _ pb]) (simp add: upd_phys_def)
qed

section \<open>Shared kernel addresses\<close>

lemma shared_kernel_addr_index:
  "Is4MPageAligned v \<Longrightarrow> shared_kernel_addr v \<longleftrightarrow> kernel_index (PageIndex4M v)"
  by (simp add: shared_kernel_addr_def IsKernelCode_def IsKernelHeap_def IsPageDirRegion_def
      kernel_defs kernel_index_def PageIndex4M_div Is4MPageAligned_def word_le_nat_alt word_less_nat_alt
      kPageSize4M_def) arith


section \<open>The update of every directory in use\<close>

text \<open>
  Both propagation loops visit the slots of the directory region in order and set one entry of
  every directory in use. \<open>updated n i v s t\<close>: \<open>t\<close> is \<open>s\<close> with entry \<open>i\<close> of the directories in use
  below slot \<open>n\<close> set to \<open>v\<close>.
\<close>

definition updated :: "nat \<Rightarrow> nat \<Rightarrow> u32 \<Rightarrow> paging \<Rightarrow> paging \<Rightarrow> bool" where
  "updated n i v s t \<longleftrightarrow> region_bits t = region_bits s \<and> kernel_pd t = kernel_pd s \<and> cr3 t = cr3 s \<and>
     length (region t) = length (region s) \<and>
     (\<forall>b < 1024. region t ! b = (if b < n \<and> b \<in> live s then (region s ! b)[i := v] else region s ! b))"

lemma updated_0: "updated 0 i v s s"
  by (simp add: updated_def)

lemma updated_skip: "updated n i v s t \<Longrightarrow> n \<notin> live s \<Longrightarrow> updated (Suc n) i v s t"
  by (auto simp: updated_def less_Suc_eq)

lemma updated_step:
  "updated n i v s t \<Longrightarrow> length (region s) = 1024 \<Longrightarrow> n < 1024 \<Longrightarrow> n \<in> live s \<Longrightarrow>
   updated (Suc n) i v s ((set_entry (RegionPD n) i v t)\<lparr>phys := pb\<rparr>)"
  by (auto simp: updated_def less_Suc_eq set_pd_def pd_of_def nth_list_update)

lemma isSet_live:
  "paging_wf s \<Longrightarrow> b < 1024 \<Longrightarrow> isSet (region_bits s) b = Inr (b \<in> live s)"
  by (simp add: paging_wf_def ba.test[of 1024])

lemma AddPage_propagate_all:
  assumes "counts_ok s" "i < 1024" "present v"
    and free: "\<And>b. b \<in> live s \<Longrightarrow> \<not> present (region s ! b ! i)"
    and room: "refcount (phys s) (PageIndex4M v) + 1024 < 65536" and "n \<le> 1024"
  shows "\<exists>t. foldE (AddPage_propagate i v (PageIndex4M v)) [0 ..< n] s = Inr t \<and> counts_ok t \<and>
           updated n i v s t \<and> refcount (phys t) (PageIndex4M v) \<le> refcount (phys s) (PageIndex4M v) + n"
  using \<open>n \<le> 1024\<close>
proof (induction n)
  case 0
  then show ?case using assms(1) by (simp add: updated_0)
next
  case (Suc n)
  then obtain t where t: "foldE (AddPage_propagate i v (PageIndex4M v)) [0 ..< n] s = Inr t"
      "counts_ok t" "updated n i v s t"
      "refcount (phys t) (PageIndex4M v) \<le> refcount (phys s) (PageIndex4M v) + n" by auto
  have n: "n < 1024" and lives: "live t = live s" and reg: "region t ! n = region s ! n"
    using Suc.prems t(3) by (auto simp: updated_def)
  have len: "length (region s) = 1024" using assms(1) by (simp add: counts_ok_def paging_wf_def)
  note step = isSet_live[OF counts_okD(2)[OF t(2)] n]
  show ?case
  proof (cases "n \<in> live s")
    case False
    then show ?thesis
      using t updated_skip[OF t(3)] step lives
      by (intro exI[of _ t]) (simp add: foldE_upt_SucI[OF t(1)] AddPage_propagate_def[of i v "PageIndex4M v" n t] del: upt_Suc)
  next
    case True
    then have "valid_pd t (RegionPD n)" "\<not> present (pd_of t (RegionPD n) ! i)"
      using free lives reg by (simp_all add: valid_pd_def pd_of_def)
    moreover have "refcount (phys t) (PageIndex4M v) + 1 < 65536" using t(4) room n by simp
    ultimately obtain pb where pb: "upd_phys (setPageFrameUsed (PageIndex4M v)) (set_entry (RegionPD n) i v t)
          = Inr ((set_entry (RegionPD n) i v t)\<lparr>phys := pb\<rparr>)"
        "refcount pb = (refcount (phys t))(PageIndex4M v := refcount (phys t) (PageIndex4M v) + 1)"
        "counts_ok ((set_entry (RegionPD n) i v t)\<lparr>phys := pb\<rparr>)"
      using map_entry_ok[OF t(2) _ assms(2) _ assms(3), of "RegionPD n"] by blast
    have "foldE (AddPage_propagate i v (PageIndex4M v)) [0 ..< Suc n] s
            = Inr ((set_entry (RegionPD n) i v t)\<lparr>phys := pb\<rparr>)"
      using step lives True free[OF True] reg pb(1)
      by (simp add: foldE_upt_SucI[OF t(1)] AddPage_propagate_def[of i v "PageIndex4M v" n t] pd_of_def del: upt_Suc)
    then show ?thesis
      using pb t(4) updated_step[OF t(3) len n True, of pb]
      by (intro exI[of _ "(set_entry (RegionPD n) i v t)\<lparr>phys := pb\<rparr>"]) simp
  qed
qed

lemma RemovePage_propagate_all:
  assumes "counts_ok s" "i < 1024" "f < 1024"
    and pres: "\<And>b. b \<in> live s \<Longrightarrow> present (region s ! b ! i) \<and> PageIndex4M (region s ! b ! i) = f"
    and "n \<le> 1024"
  shows "\<exists>t. foldE (RemovePage_propagate i f) [0 ..< n] s = Inr t \<and> counts_ok t \<and> updated n i 0 s t"
  using \<open>n \<le> 1024\<close>
proof (induction n)
  case 0
  then show ?case using assms(1) by (simp add: updated_0)
next
  case (Suc n)
  then obtain t where t: "foldE (RemovePage_propagate i f) [0 ..< n] s = Inr t"
      "counts_ok t" "updated n i 0 s t" by auto
  have n: "n < 1024" and lives: "live t = live s" and reg: "region t ! n = region s ! n"
    using Suc.prems t(3) by (auto simp: updated_def)
  have len: "length (region s) = 1024" using assms(1) by (simp add: counts_ok_def paging_wf_def)
  note step = isSet_live[OF counts_okD(2)[OF t(2)] n]
  show ?case
  proof (cases "n \<in> live s")
    case False
    then show ?thesis
      using t updated_skip[OF t(3)] step lives
      by (intro exI[of _ t]) (simp add: foldE_upt_SucI[OF t(1)] RemovePage_propagate_def[of i f n t] del: upt_Suc)
  next
    case True
    then have "valid_pd t (RegionPD n)" "present (pd_of t (RegionPD n) ! i)"
        "PageIndex4M (pd_of t (RegionPD n) ! i) = f"
      using pres lives reg by (simp_all add: valid_pd_def pd_of_def)
    then obtain pb where pb: "upd_phys (setPageFrameFree f) (set_entry (RegionPD n) i 0 t)
          = Inr ((set_entry (RegionPD n) i 0 t)\<lparr>phys := pb\<rparr>)"
        "counts_ok ((set_entry (RegionPD n) i 0 t)\<lparr>phys := pb\<rparr>)"
      using unmap_entry_ok[OF t(2) _ assms(2)] by blast
    have "foldE (RemovePage_propagate i f) [0 ..< Suc n] s
            = Inr ((set_entry (RegionPD n) i 0 t)\<lparr>phys := pb\<rparr>)"
      using step lives True pres[OF True] reg pb(1)
      by (simp add: foldE_upt_SucI[OF t(1)] RemovePage_propagate_def[of i f n t] pd_of_def del: upt_Suc)
    then show ?thesis using pb updated_step[OF t(3) len n True] by blast
  qed
qed

section \<open>AddPage and RemovePage\<close>

text \<open>
  \<open>entry_set d i v s t\<close>: \<open>t\<close> is \<open>s\<close> with entry \<open>i\<close> of directory \<open>d\<close> set to \<open>v\<close>, and with the same
  entry of every directory in use when \<open>d\<close> is the kernel's and \<open>i\<close> a shared index.
\<close>

definition entry_set :: "pd_ref \<Rightarrow> nat \<Rightarrow> u32 \<Rightarrow> paging \<Rightarrow> paging \<Rightarrow> bool" where
  "entry_set d i v s t \<longleftrightarrow> region_bits t = region_bits s \<and> cr3 t = cr3 s \<and>
     (\<forall>d'. valid_pd s d' \<longrightarrow>
        pd_of t d' = (if d' = d \<or> (d = KernelPD \<and> kernel_index i) then (pd_of s d')[i := v] else pd_of s d'))"

lemma valid_pd_cong: "region_bits t = region_bits s \<Longrightarrow> valid_pd t = valid_pd s"
  by (simp add: valid_pd_def fun_eq_iff split: pd_ref.splits)

lemma entry_set_valid: "entry_set d i v s t \<Longrightarrow> valid_pd t = valid_pd s"
  unfolding entry_set_def by (rule valid_pd_cong) simp

lemma entry_setD:
  "entry_set d i v s t \<Longrightarrow> valid_pd s d' \<Longrightarrow>
     pd_of t d' = (if d' = d \<or> (d = KernelPD \<and> kernel_index i) then (pd_of s d')[i := v] else pd_of s d')"
  by (simp add: entry_set_def)

lemma synced_pd_of:
  "synced s \<longleftrightarrow> (\<forall>d. valid_pd s d \<longrightarrow> (\<forall>i < 1024. kernel_index i \<longrightarrow> pd_of s d ! i = pd_of s KernelPD ! i))"
proof
  assume "synced s"
  then show "\<forall>d. valid_pd s d \<longrightarrow> (\<forall>i < 1024. kernel_index i \<longrightarrow> pd_of s d ! i = pd_of s KernelPD ! i)"
    by (auto simp: synced_def valid_pd_def pd_of_def split: pd_ref.splits)
next
  assume a: "\<forall>d. valid_pd s d \<longrightarrow> (\<forall>i < 1024. kernel_index i \<longrightarrow> pd_of s d ! i = pd_of s KernelPD ! i)"
  show "synced s"
    unfolding synced_def
  proof (intro ballI allI impI)
    fix b i assume "b \<in> live s" "i < (1024 :: nat)" "kernel_index i"
    with a[rule_format, of "RegionPD b" i] show "region s ! b ! i = kernel_pd s ! i"
      by (simp add: valid_pd_def pd_of_def)
  qed
qed

lemma syncedD:
  "synced s \<Longrightarrow> valid_pd s d \<Longrightarrow> i < 1024 \<Longrightarrow> kernel_index i \<Longrightarrow> pd_of s d ! i = pd_of s KernelPD ! i"
  unfolding synced_pd_of by blast

lemma valid_KernelPD [simp]: "valid_pd s KernelPD"
  by (simp add: valid_pd_def)

lemma entry_set_synced:
  assumes "synced s" "paging_wf s" "entry_set d i v s t" "i < 1024"
    "d = KernelPD \<or> \<not> kernel_index i"
  shows "synced t"
  unfolding synced_pd_of entry_set_valid[OF assms(3)]
proof (intro allI impI)
  fix d' j assume d': "valid_pd s d'" and j: "j < (1024 :: nat)" "kernel_index j"
  have same: "pd_of s d' ! j = pd_of s KernelPD ! j" using syncedD[OF assms(1) d' j] .
  have len: "i < length (pd_of s d')" "i < length (pd_of s KernelPD)"
    using assms(2,4) d' length_pd_of by auto
  show "pd_of t d' ! j = pd_of t KernelPD ! j"
  proof (cases "i = j")
    case True
    with assms(5) j have "d = KernelPD \<and> kernel_index i" by simp
    then show ?thesis
      using entry_setD[OF assms(3) d'] entry_setD[OF assms(3), of KernelPD] same len
      by (simp add: nth_list_update_if)
  next
    case False
    then show ?thesis
      using entry_setD[OF assms(3) d'] entry_setD[OF assms(3), of KernelPD] same by simp
  qed
qed

lemma set_entry_entry_set:
  "paging_wf s \<Longrightarrow> valid_pd s d \<Longrightarrow> \<not> (d = KernelPD \<and> kernel_index i) \<Longrightarrow>
   entry_set d i v s ((set_entry d i v s)\<lparr>phys := pb\<rparr>)"
  by (auto simp: entry_set_def pd_of_set_valid)

lemma updated_entry_set:
  assumes wf: "paging_wf s" and k: "kernel_index i"
    and u: "updated 1024 i v ((set_entry KernelPD i v s)\<lparr>phys := pb\<rparr>) t"
  shows "entry_set KernelPD i v s t"
proof -
  have "pd_of t d' = (pd_of s d')[i := v]" if "valid_pd s d'" for d'
    using wf that
  proof (cases rule: valid_pd_cases)
    case 1
    then show ?thesis using u by (simp add: updated_def pd_of_def set_pd_def)
  next
    case (2 b)
    then show ?thesis using u by (simp add: updated_def pd_of_def set_pd_def)
  qed
  then show ?thesis using k u by (simp add: entry_set_def updated_def)
qed

definition may_map :: "paging \<Rightarrow> pd_ref \<Rightarrow> nat \<Rightarrow> bool" where
  "may_map s d i \<longleftrightarrow> valid_pd s d \<and> (d = KernelPD \<or> \<not> kernel_index i)"

lemma AddPage_ok:
  assumes inv: "paging_inv s" and d: "may_map s d (PageIndex4M v)"
    and al: "Is4MPageAligned p" "Is4MPageAligned v"
    and fr: "reuse \<or> refcount (phys s) (PageIndex4M p) = 0"
    and np: "\<not> isVirtualMapped s d v"
    and room: "refcount (phys s) (PageIndex4M p) + 1025 < 65536"
  shows "\<exists>t. AddPage d v p flags reuse s = Inr t \<and> paging_inv t \<and>
           entry_set d (PageIndex4M v) (mk_pde p flags) s t"
proof -
  let ?i = "PageIndex4M v" and ?e = "mk_pde p flags"
  from inv have co: "counts_ok s" and sy: "synced s" by (simp_all add: paging_inv_def)
  note wf = counts_okD(2)[OF co]
  from d have vd: "valid_pd s d" and kd: "d = KernelPD \<or> \<not> kernel_index ?i" by (simp_all add: may_map_def)
  obtain pb where pb: "upd_phys (setPageFrameUsed (PageIndex4M p)) (set_entry d ?i ?e s)
        = Inr ((set_entry d ?i ?e s)\<lparr>phys := pb\<rparr>)"
      "refcount pb = (refcount (phys s))(PageIndex4M p := refcount (phys s) (PageIndex4M p) + 1)"
      "counts_ok ((set_entry d ?i ?e s)\<lparr>phys := pb\<rparr>)"
    using map_entry_ok[OF co vd, of ?i ?e] np room by (auto simp: isVirtualMapped_def)
  let ?s1 = "(set_entry d ?i ?e s)\<lparr>phys := pb\<rparr>"
  have used: "reuse \<or> isPageFrameUsed (phys s) (PageIndex4M p) = Inr False"
    using fr by (auto simp: isPageFrameUsed_ok counts_okD(3)[OF co])
  have nb: "NumBits (region_bits s) = 1024"
    using wf by (simp add: paging_wf_def bitarray_wf_def)
  have code: "AddPage d v p flags reuse s =
      (if d = KernelPD \<and> kernel_index ?i
       then foldE (AddPage_propagate ?i ?e (PageIndex4M p)) [0 ..< 1024] ?s1 else Inr ?s1)"
    using al used np pb(1) nb
    by (auto simp: AddPage_def Let_def mk_pde_def[symmetric] isVirtualMapped_def isKernelPageDir_def
        shared_kernel_addr_index Is4MPageAligned_def[symmetric])
  show ?thesis
  proof (cases "d = KernelPD \<and> kernel_index ?i")
    case False
    then show ?thesis
      using pb(3) code set_entry_entry_set[OF wf vd False] entry_set_synced[OF sy wf _ _ kd]
      by (auto simp: paging_inv_def)
  next
    case True
    have "\<not> present (region ?s1 ! b ! ?i)" if "b \<in> live ?s1" for b
      using that sy np True
      by (auto simp: synced_def isVirtualMapped_def pd_of_def set_pd_def)
    then obtain t where "foldE (AddPage_propagate ?i ?e (PageIndex4M p)) [0 ..< 1024] ?s1 = Inr t"
        "counts_ok t" "updated 1024 ?i ?e ?s1 t"
      using AddPage_propagate_all[OF pb(3), of ?i ?e 1024] room by (auto simp: pb(2))
    then show ?thesis
      using code True updated_entry_set[OF wf, of ?i ?e pb t] entry_set_synced[OF sy wf _ _ kd]
      by (auto simp: paging_inv_def)
  qed
qed

lemma RemovePage_ok:
  assumes inv: "paging_inv s" and d: "may_map s d (PageIndex4M v)"
    and al: "Is4MPageAligned v" and pr: "isVirtualMapped s d v"
  shows "\<exists>t. RemovePage d v s = Inr t \<and> paging_inv t \<and> entry_set d (PageIndex4M v) 0 s t"
proof -
  let ?i = "PageIndex4M v"
  let ?f = "PageIndex4M (pd_of s d ! ?i)"
  from inv have co: "counts_ok s" and sy: "synced s" by (simp_all add: paging_inv_def)
  note wf = counts_okD(2)[OF co]
  from d have vd: "valid_pd s d" and kd: "d = KernelPD \<or> \<not> kernel_index ?i" by (simp_all add: may_map_def)
  obtain pb where pb: "upd_phys (setPageFrameFree ?f) (set_entry d ?i 0 s)
        = Inr ((set_entry d ?i 0 s)\<lparr>phys := pb\<rparr>)"
      "counts_ok ((set_entry d ?i 0 s)\<lparr>phys := pb\<rparr>)"
    using unmap_entry_ok[OF co vd, of ?i ?f] pr by (auto simp: isVirtualMapped_def)
  let ?s1 = "(set_entry d ?i 0 s)\<lparr>phys := pb\<rparr>"
  have nb: "NumBits (region_bits s) = 1024"
    using wf by (simp add: paging_wf_def bitarray_wf_def)
  have code: "RemovePage d v s =
      (if d = KernelPD \<and> kernel_index ?i
       then foldE (RemovePage_propagate ?i ?f) [0 ..< 1024] ?s1 else Inr ?s1)"
    using al pb(1) nb
    by (auto simp: RemovePage_def Let_def isKernelPageDir_def
        shared_kernel_addr_index Is4MPageAligned_def[symmetric])
  show ?thesis
  proof (cases "d = KernelPD \<and> kernel_index ?i")
    case False
    then show ?thesis
      using pb(2) code set_entry_entry_set[OF wf vd False] entry_set_synced[OF sy wf _ _ kd]
      by (auto simp: paging_inv_def)
  next
    case True
    have "present (region ?s1 ! b ! ?i) \<and> PageIndex4M (region ?s1 ! b ! ?i) = ?f" if "b \<in> live ?s1" for b
      using that sy pr True
      by (auto simp: synced_def isVirtualMapped_def pd_of_def set_pd_def)
    then obtain t where "foldE (RemovePage_propagate ?i ?f) [0 ..< 1024] ?s1 = Inr t"
        "counts_ok t" "updated 1024 ?i 0 ?s1 t"
      using RemovePage_propagate_all[OF pb(2), of ?i ?f 1024] by auto
    then show ?thesis
      using code True updated_entry_set[OF wf, of ?i 0 pb t] entry_set_synced[OF sy wf _ _ kd]
      by (auto simp: paging_inv_def)
  qed
qed

section \<open>Clone and ReclaimPageDirRegion\<close>

lemma pd_count_Cons: "pd_count (e # es) p = contrib p e + pd_count es p"
  by (simp add: pd_count_def)

lemma ref_all_ok:
  assumes "pb_consistent pb" "\<forall>e \<in> set es. present e \<longrightarrow> 0 < refcount pb (PageIndex4M e)"
    and "\<forall>p < 1024. refcount pb p + pd_count es p < 65536"
  shows "\<exists>pb'. foldE (\<lambda>pde pb. if present pde then Ref (PageIndex4M pde) pb else Inr pb) es pb = Inr pb' \<and>
           pb_consistent pb' \<and> (\<forall>p < 1024. refcount pb' p = refcount pb p + pd_count es p)"
  using assms
proof (induction es arbitrary: pb)
  case Nil
  then show ?case by (simp add: pd_count_def)
next
  case (Cons e es)
  show ?case
  proof (cases "present e")
    case False
    then show ?thesis using Cons.IH[OF Cons.prems(1)] Cons.prems(2,3) by (simp add: pd_count_Cons)
  next
    case True
    let ?f = "PageIndex4M e"
    have room: "refcount pb p + contrib p e + pd_count es p < 65536" if "p < 1024" for p
      using Cons.prems(3) that by (simp add: pd_count_Cons add.assoc)
    have "0 < refcount pb ?f" using Cons.prems(2) True by simp
    moreover have "refcount pb ?f + 1 < 65536" using room[of ?f] True by (simp add: contrib_present)
    ultimately obtain pb1 where pb1: "Ref ?f pb = Inr pb1" "pb_consistent pb1"
        "refcount pb1 = (refcount pb)(?f := refcount pb ?f + 1)"
      using Ref_ok[OF Cons.prems(1), of ?f] by auto
    have rc: "refcount pb1 p = refcount pb p + contrib p e" for p
      using True by (simp add: pb1(3) contrib_present)
    obtain pb' where pb': "foldE (\<lambda>pde pb. if present pde then Ref (PageIndex4M pde) pb else Inr pb) es pb1 = Inr pb'"
        "pb_consistent pb'" "\<forall>p < 1024. refcount pb' p = refcount pb1 p + pd_count es p"
      using Cons.IH[OF pb1(2)] Cons.prems(2) room by (auto simp: rc)
    then show ?thesis using True pb1(1) by (simp add: pd_count_Cons rc add.assoc)
  qed
qed

lemma free_all_ok:
  assumes "pb_consistent pb" "\<forall>p < 1024. pd_count es p \<le> refcount pb p"
  shows "\<exists>pb'. foldE (\<lambda>pde pb. if present pde then setPageFrameFree (PageIndex4M pde) pb else Inr pb) es pb = Inr pb' \<and>
           pb_consistent pb' \<and> (\<forall>p < 1024. refcount pb' p = refcount pb p - pd_count es p)"
  using assms
proof (induction es arbitrary: pb)
  case Nil
  then show ?case by (simp add: pd_count_def)
next
  case (Cons e es)
  show ?case
  proof (cases "present e")
    case False
    then show ?thesis using Cons.IH[OF Cons.prems(1)] Cons.prems(2) by (simp add: pd_count_Cons)
  next
    case True
    let ?f = "PageIndex4M e"
    have le: "contrib p e + pd_count es p \<le> refcount pb p" if "p < 1024" for p
      using Cons.prems(2) that by (simp add: pd_count_Cons)
    have "0 < refcount pb ?f" using le[of ?f] True by (simp add: contrib_present)
    then obtain pb1 where pb1: "setPageFrameFree ?f pb = Inr pb1" "pb_consistent pb1"
        "refcount pb1 = (refcount pb)(?f := refcount pb ?f - 1)"
      using setPageFrameFree_ok[OF Cons.prems(1), of ?f] by auto
    have rc: "refcount pb1 p = refcount pb p - contrib p e" for p
      using True by (simp add: pb1(3) contrib_present)
    have "\<forall>p < 1024. pd_count es p \<le> refcount pb1 p" by (auto simp: rc dest!: le)
    from Cons.IH[OF pb1(2) this] obtain pb' where
      pb': "foldE (\<lambda>pde pb. if present pde then setPageFrameFree (PageIndex4M pde) pb else Inr pb) es pb1 = Inr pb'"
        "pb_consistent pb'" "\<forall>p < 1024. refcount pb' p = refcount pb1 p - pd_count es p" by blast
    then show ?thesis using True pb1(1) by (simp add: pd_count_Cons rc)
  qed
qed

lemma pd_count_le_mapcount:
  assumes "paging_wf s" "valid_pd s d"
  shows "pd_count (pd_of s d) p \<le> mapcount s p"
  using assms
proof (cases rule: valid_pd_cases)
  case 1
  then show ?thesis by (simp add: mapcount_def pd_of_def)
next
  case (2 b)
  then show ?thesis
    using sum.remove[OF finite_live[OF assms(1)] 2(2), of "\<lambda>i. pd_count (region s ! i) p"]
    by (simp add: mapcount_def pd_of_def)
qed

lemma contrib_le_pd_count: "e \<in> set es \<Longrightarrow> contrib p e \<le> pd_count es p"
  by (induction es) (auto simp: pd_count_Cons)

lemma present_refcount_pos:
  assumes "counts_ok s" "valid_pd s d" "e \<in> set (pd_of s d)" "present e"
  shows "0 < refcount (phys s) (PageIndex4M e)"
  using counts_okD(1)[OF assms(1), of "PageIndex4M e"] contrib_le_pd_count[OF assms(3), of "PageIndex4M e"]
    pd_count_le_mapcount[OF counts_okD(2)[OF assms(1)] assms(2), of "PageIndex4M e"] assms(4)
  by (simp add: contrib_present)

lemma mapcount_live:
  "mapcount s p = pd_count (kernel_pd s) p + (\<Sum>i \<in> live s. pd_count (pd_of s (RegionPD i)) p)"
  by (simp add: mapcount_def pd_of_def)

lemma getAndUseNextFreeRegion_ok:
  assumes "paging_wf s" "c < 1024" "c \<notin> live s"
  shows "\<exists>b rb. getAndUseNextFreeRegion s = Inr (b, s\<lparr>region_bits := rb\<rparr>) \<and> b < 1024 \<and> b \<notin> live s \<and>
           {..< b} \<subseteq> live s \<and> bitarray_wf 1024 rb \<and> bitset rb = insert b (live s)"
proof -
  have wf: "bitarray_wf 1024 (region_bits s)" using assms(1) by (simp add: paging_wf_def)
  obtain b where b: "GetFirstZero (region_bits s) 0 = Inr (Some b)"
    using ba.search_succeeds[OF wf assms(3) _ assms(2), of 0] by auto
  note found = ba.search_Some[OF wf b]
  then obtain rb where "setOne b (region_bits s) = Inr rb" "bitarray_wf 1024 rb"
      "bitset rb = insert b (live s)"
    using ba.set1E[OF wf, of b] by auto
  with b found show ?thesis
    by (intro exI[of _ b] exI[of _ rb]) (auto simp: getAndUseNextFreeRegion_def)
qed

lemma Clone_ok:
  assumes inv: "paging_inv s" and d: "valid_pd s d" and c: "c < 1024" "c \<notin> live s"
    and room: "\<forall>p < 1024. refcount (phys s) p + pd_count (pd_of s d) p < 65536"
  shows "\<exists>b t. Clone d s = Inr (RegionPD b, t) \<and> b \<notin> live s \<and> {..< b} \<subseteq> live s \<and> paging_inv t \<and>
           live t = insert b (live s) \<and> cr3 t = cr3 s \<and> pd_of t (RegionPD b) = pd_of s d \<and>
           (\<forall>d'. valid_pd s d' \<longrightarrow> pd_of t d' = pd_of s d')"
proof -
  from inv have co: "counts_ok s" and sy: "synced s" by (simp_all add: paging_inv_def)
  note wf = counts_okD(2)[OF co]
  obtain b rb where b: "getAndUseNextFreeRegion s = Inr (b, s\<lparr>region_bits := rb\<rparr>)" "b < 1024"
      "b \<notin> live s" "{..< b} \<subseteq> live s" "bitarray_wf 1024 rb" "bitset rb = insert b (live s)"
    using getAndUseNextFreeRegion_ok[OF wf c] by blast
  obtain pb where pb: "foldE (\<lambda>pde pb. if present pde then Ref (PageIndex4M pde) pb else Inr pb)
        (pd_of s d) (phys s) = Inr pb" "pb_consistent pb"
      "\<forall>p < 1024. refcount pb p = refcount (phys s) p + pd_count (pd_of s d) p"
    using ref_all_ok[OF counts_okD(3)[OF co], of "pd_of s d"] present_refcount_pos[OF co d] room by blast
  let ?t = "s\<lparr>region_bits := rb, region := (region s)[b := pd_of s d], phys := pb\<rparr>"
  have len: "length (region s) = 1024" using wf by (simp add: paging_wf_def)
  have ds: "d \<noteq> RegionPD b" using d b(3) by (auto simp: valid_pd_def)
  have pd: "pd_of ?t d' = (if d' = RegionPD b then pd_of s d else pd_of s d')" for d'
    using len b(2) by (auto simp: pd_of_def split: pd_ref.splits)
  have bits: "pd_of (s\<lparr>region_bits := rb\<rparr>) d' = pd_of s d'" for d'
    by (simp add: pd_of_def split: pd_ref.splits)
  have eq: "Clone d s = Inr (RegionPD b, ?t)"
    using b(1) pb(1) pd[of d] ds
    by (simp add: Clone_def upd_phys_def set_pd_def pd_of_def split: pd_ref.splits)
  have "paging_wf ?t"
    using wf b(2,5) pb(2) length_pd_of[OF wf d] by (auto simp: paging_wf_def nth_list_update)
  moreover have "mapcount ?t p = mapcount s p + pd_count (pd_of s d) p" for p
  proof -
    have "(\<Sum>i \<in> live s. pd_count (pd_of ?t (RegionPD i)) p) = (\<Sum>i \<in> live s. pd_count (pd_of s (RegionPD i)) p)"
      unfolding pd using b(3) by (intro sum.cong) auto
    then show ?thesis using finite_live[OF wf] b(3,6) pd[of "RegionPD b"]
      by (simp add: mapcount_live)
  qed
  ultimately have "counts_ok ?t"
    using pb(3) counts_okD(1)[OF co] by (simp add: counts_ok_def)
  moreover have "synced ?t"
    unfolding synced_pd_of
  proof (intro allI impI)
    fix d' i assume d': "valid_pd ?t d'" and i: "i < (1024 :: nat)" "kernel_index i"
    have "d' \<noteq> RegionPD b \<Longrightarrow> valid_pd s d'" using d' b(6) by (auto simp: valid_pd_def split: pd_ref.splits)
    then show "pd_of ?t d' ! i = pd_of ?t KernelPD ! i"
      using syncedD[OF sy d i] syncedD[OF sy _ i, of d'] unfolding pd by auto
  qed
  moreover have "\<forall>d'. valid_pd s d' \<longrightarrow> pd_of ?t d' = pd_of s d'"
    using b(3) unfolding pd by (auto simp: valid_pd_def)
  ultimately show ?thesis
    using eq b pd[of "RegionPD b"] by (intro exI[of _ b] exI[of _ ?t]) (simp add: paging_inv_def)
qed

lemma ReclaimPageDirRegion_ok:
  assumes inv: "paging_inv s" and b: "b \<in> live s"
  shows "\<exists>t. ReclaimPageDirRegion (RegionPD b) s = Inr t \<and> paging_inv t \<and> live t = live s - {b} \<and>
           cr3 t = cr3 s \<and> (\<forall>d. pd_of t d = pd_of s d) \<and>
           (\<forall>p < 1024. refcount (phys t) p = refcount (phys s) p - pd_count (pd_of s (RegionPD b)) p)"
proof -
  from inv have co: "counts_ok s" and sy: "synced s" by (simp_all add: paging_inv_def)
  note wf = counts_okD(2)[OF co]
  have vd: "valid_pd s (RegionPD b)" using b by (simp add: valid_pd_def)
  have le: "\<forall>p < 1024. pd_count (pd_of s (RegionPD b)) p \<le> refcount (phys s) p"
    using counts_okD(1)[OF co] pd_count_le_mapcount[OF wf vd] by (simp add: trans_le_add2)
  obtain pb where pb: "foldE (\<lambda>pde pb. if present pde then setPageFrameFree (PageIndex4M pde) pb else Inr pb)
        (pd_of s (RegionPD b)) (phys s) = Inr pb" "pb_consistent pb"
      "\<forall>p < 1024. refcount pb p = refcount (phys s) p - pd_count (pd_of s (RegionPD b)) p"
    using free_all_ok[OF counts_okD(3)[OF co] le] by blast
  have rwf: "bitarray_wf 1024 (region_bits s)" using wf by (simp add: paging_wf_def)
  obtain rb where rb: "setZero b (region_bits s) = Inr rb" "bitarray_wf 1024 rb" "bitset rb = live s - {b}"
    using ba.set0E[OF rwf live_bound[OF wf b]] .
  let ?t = "s\<lparr>phys := pb, region_bits := rb\<rparr>"
  have eq: "ReclaimPageDirRegion (RegionPD b) s = Inr ?t"
    using pb(1) rb(1) by (simp add: ReclaimPageDirRegion_def Reclaim_def upd_phys_def isKernelPageDir_def
        kPageDirSize_def)
  have pd: "pd_of ?t d = pd_of s d" for d by (simp add: pd_of_def split: pd_ref.splits)
  have mc: "mapcount s p = mapcount ?t p + pd_count (pd_of s (RegionPD b)) p" for p
    using sum.remove[OF finite_live[OF wf] b, of "\<lambda>i. pd_count (pd_of s (RegionPD i)) p"]
    by (simp add: mapcount_live pd rb(3))
  have "counts_ok ?t"
    using wf pb(2,3) rb(2) counts_okD(1)[OF co] le by (simp add: counts_ok_def paging_wf_def mc)
  moreover have "synced ?t" using sy rb(3) by (simp add: synced_def)
  ultimately show ?thesis
    using eq rb(3) pb(3) pd by (intro exI[of _ ?t]) (simp add: paging_inv_def)
qed

end
