(* ===== verification/PagingReach.thy ===== *)
theory PagingReach
  imports PagingInvariant
begin

text \<open>
  Start-up of paging (\<open>InitializePaging\<close>), the states the kernel reaches from it, and the
  properties of the paging component: what an added page maps to, that removing it or
  reclaiming a cloned directory undoes the work, and that the free-page search is right.
\<close>

section \<open>Start-up\<close>

text \<open>
  The globals before \<open>InitializePaging\<close>: C++ zero-initialises the reference counts; the bit
  arrays and the directories have their static sizes and any contents.
\<close>

definition boot_state :: "paging \<Rightarrow> bool" where
  "boot_state s \<longleftrightarrow> bitarray_wf 1024 (bits (phys s)) \<and> refs (phys s) = replicate 1024 0 \<and>
     length (kernel_pd s) = 1024 \<and> bitarray_wf 1024 (region_bits s) \<and> length (region s) = 1024 \<and>
     (\<forall>i < 1024. length (region s ! i) = 1024)"

lemma Ref_each:
  assumes "length (refs pb) = 1024" "set xs \<subseteq> {..< 1024}" "distinct xs"
  shows "foldE Ref xs pb = Inr (pb\<lparr>refs := map (\<lambda>i. if i \<in> set xs then refs pb ! i + 1 else refs pb ! i) [0 ..< 1024]\<rparr>)"
  using assms
proof (induction xs arbitrary: pb)
  case Nil
  have "map (\<lambda>i. refs pb ! i) [0 ..< 1024] = refs pb" using Nil by (metis map_nth)
  then show ?case by simp
next
  case (Cons x xs)
  let ?pb = "pb\<lparr>refs := (refs pb)[x := refs pb ! x + 1]\<rparr>"
  have "Ref x pb = Inr ?pb" using Cons.prems by (simp add: Ref_def)
  moreover have "map (\<lambda>i. if i \<in> set xs then refs ?pb ! i + 1 else refs ?pb ! i) [0 ..< 1024] =
      map (\<lambda>i. if i \<in> set (x # xs) then refs pb ! i + 1 else refs pb ! i) [0 ..< 1024]"
    by (rule map_cong) (use Cons.prems in \<open>auto simp: nth_list_update\<close>)
  ultimately show ?case using Cons.IH[of ?pb] Cons.prems by simp
qed

lemma ReservePhysical_ok:
  assumes "bitarray_wf 1024 (bits pb)" "bitset (bits pb) = {}" "refs pb = replicate 1024 0" "k \<le> 1024"
  shows "\<exists>pb'. ReservePhysical k pb = Inr pb' \<and> pb_consistent pb' \<and>
           (\<forall>p < 1024. refcount pb' p = (if k \<le> p then 1 else 0))"
proof -
  obtain b where b: "Reserve k (bits pb) = Inr b" "bitarray_wf 1024 b" "bitset b = {k ..< 1024}"
    using Reserve_ok[OF assms(1,4)] assms(2) by auto
  let ?refs = "map (\<lambda>i. if k \<le> i then 1 else 0) [0 ..< 1024] :: u16 list"
  have "foldE Ref [k ..< 1024] (pb\<lparr>bits := b\<rparr>) = Inr (pb\<lparr>bits := b, refs := ?refs\<rparr>)"
    by (subst Ref_each) (use assms(3) in auto)
  then have "ReservePhysical k pb = Inr (pb\<lparr>bits := b, refs := ?refs\<rparr>)"
    using b(1) by (simp add: ReservePhysical_def kRamAs4MPages_def)
  moreover have "pb_consistent (pb\<lparr>bits := b, refs := ?refs\<rparr>)"
    using b(2,3) by (simp add: pb_consistent_def pb_wf_def)
  ultimately show ?thesis by (simp add: refcount_def)
qed

lemma pd_count_zero: "pd_count (replicate n 0) p = 0"
  by (simp add: pd_count_def)

lemma boot_reserve_ok:
  assumes "boot_state s"
  shows "\<exists>pb. let s1 = s\<lparr>phys := (phys s)\<lparr>bits := BitArray_Clear (bits (phys s))\<rparr>,
                   kernel_pd := PageDirectory_Clear (kernel_pd s),
                   region_bits := BitArray_Clear (region_bits s)\<rparr> in
           upd_phys (ReservePhysical 32) s1 = Inr (s1\<lparr>phys := pb\<rparr>) \<and> paging_inv (s1\<lparr>phys := pb\<rparr>) \<and>
           live s1 = {} \<and> kernel_pd s1 = replicate 1024 0 \<and> (\<forall>p < 1024. refcount pb p = reserved p)"
proof -
  let ?pb0 = "(phys s)\<lparr>bits := BitArray_Clear (bits (phys s))\<rparr>"
  note cl = BitArray_Clear_ok[of 1024 "bits (phys s)"] BitArray_Clear_ok[of 1024 "region_bits s"]
  obtain pb where pb: "ReservePhysical 32 ?pb0 = Inr pb" "pb_consistent pb"
      "\<forall>p < 1024. refcount pb p = (if 32 \<le> p then 1 else 0)"
    using ReservePhysical_ok[of ?pb0 32] cl assms by (auto simp: boot_state_def)
  then show ?thesis
    using assms cl
    by (intro exI[of _ pb]) (auto simp: Let_def upd_phys_def boot_state_def paging_inv_def counts_ok_def
        paging_wf_def synced_def mapcount_def PageDirectory_Clear_def pd_count_zero reserved_def)
qed

lemma PageIndex4M_layout:
  "PageIndex4M KERNEL_START = 1" "PageIndex4M PAGE_DIRECTORY_REGION_START = 2"
  "Is4MPageAligned KERNEL_START" "Is4MPageAligned PAGE_DIRECTORY_REGION_START"
  by (simp_all add: kernel_defs PageIndex4M_div kPageSize4M_def Is4MPageAligned_def)

lemma entry_set_kernel_only:
  assumes "entry_set KernelPD i v s t" "live s = {}"
  shows "live t = {} \<and> kernel_pd t = (kernel_pd s)[i := v]"
  using entry_setD[OF assms(1), of KernelPD] assms by (simp add: entry_set_def pd_of_def)

lemma pd_count_set:
  "i < length pd \<Longrightarrow> \<not> present (pd ! i) \<Longrightarrow> pd_count (pd[i := mk_pde a f]) p = pd_count pd p + (if p = PageIndex4M a then 1 else 0)"
  using pd_count_update[of i pd "mk_pde a f" p] by (simp add: contrib_present)

lemma InitializePaging_ok:
  assumes boot: "boot_state s" and mem: "32 \<le> unat (high_mem_KB * 1024 :: u32) div kPageSize4M + 1"
  shows "\<exists>t f. InitializePaging high_mem_KB s = Inr t \<and> paging_inv t \<and> live t = {} \<and> cr3 t = KernelPD \<and>
           kernel_pd t = (replicate 1024 0)[1 := mk_pde KERNEL_START f, 2 := mk_pde PAGE_DIRECTORY_REGION_START f]"
proof -
  let ?s1 = "s\<lparr>phys := (phys s)\<lparr>bits := BitArray_Clear (bits (phys s))\<rparr>,
                   kernel_pd := PageDirectory_Clear (kernel_pd s),
                   region_bits := BitArray_Clear (region_bits s)\<rparr>"
  let ?f = "ucast (PG_PRESENT OR PG_WRITE OR PG_4MB) :: u8"
  obtain pb where pb: "upd_phys (ReservePhysical 32) ?s1 = Inr (?s1\<lparr>phys := pb\<rparr>)"
      "paging_inv (?s1\<lparr>phys := pb\<rparr>)" "live ?s1 = {}" "kernel_pd ?s1 = replicate 1024 0"
      "\<forall>p < 1024. refcount pb p = reserved p"
    using boot_reserve_ok[OF boot] by (auto simp: Let_def)
  let ?s2 = "?s1\<lparr>phys := pb\<rparr>"
  have rc: "refcount (phys ?s2) 1 = 0" "refcount (phys ?s2) 2 = 0" using pb(5) by (simp_all add: reserved_def)
  obtain s3 where s3: "AddPage KernelPD KERNEL_START KERNEL_START ?f False ?s2 = Inr s3" "paging_inv s3"
      "entry_set KernelPD 1 (mk_pde KERNEL_START ?f) ?s2 s3"
    using AddPage_ok[OF pb(2), of KernelPD KERNEL_START KERNEL_START False ?f] rc(1) pb(4)
    by (auto simp: PageIndex4M_layout may_map_def isVirtualMapped_def pd_of_def)
  note k3 = entry_set_kernel_only[OF s3(3)]
  have live3: "live s3 = {}" and kpd3: "kernel_pd s3 = (replicate 1024 0)[1 := mk_pde KERNEL_START ?f]"
    using k3 pb(3,4) by simp_all
  have "mapcount s3 2 = 0"
    by (simp add: mapcount_def live3 kpd3 pd_count_set pd_count_zero PageIndex4M_layout)
  then have rc3: "refcount (phys s3) 2 = 0"
    using s3(2) by (simp add: paging_inv_def counts_ok_def reserved_def)
  obtain s4 where s4: "AddPage KernelPD PAGE_DIRECTORY_REGION_START PAGE_DIRECTORY_REGION_START ?f False s3 = Inr s4"
      "paging_inv s4" "entry_set KernelPD 2 (mk_pde PAGE_DIRECTORY_REGION_START ?f) s3 s4"
    using AddPage_ok[OF s3(2), of KernelPD PAGE_DIRECTORY_REGION_START PAGE_DIRECTORY_REGION_START False ?f] rc3 kpd3
    by (auto simp: PageIndex4M_layout may_map_def isVirtualMapped_def pd_of_def)
  have "InitializePaging high_mem_KB s = Inr (s4\<lparr>cr3 := KernelPD\<rparr>)"
    using mem pb(1) s3(1) s4(1) by (simp add: InitializePaging_def Let_def SwitchPageDirectory_def)
  moreover have "paging_inv (s4\<lparr>cr3 := KernelPD\<rparr>)"
    using s4(2) by (simp add: paging_inv_def counts_ok_def paging_wf_def mapcount_def synced_def)
  ultimately show ?thesis
    using entry_set_kernel_only[OF s4(3) live3] kpd3 by (intro exI[of _ "s4\<lparr>cr3 := KernelPD\<rparr>"]) auto
qed

section \<open>Reachable states\<close>

text \<open>
  The calls the rest of the kernel makes into paging, and when it may make them: a task's own
  directory is never used to map or unmap an address of the shared kernel ranges, an unmapped
  page is not removed, and the 16-bit counts have room for one reference per directory.
\<close>

datatype paging_call =
    CallAdd pd_ref u32 u32 u8 bool
  | CallRemove pd_ref u32
  | CallClone pd_ref
  | CallReclaim nat
  | CallSwitch pd_ref

fun run_call :: "paging_call \<Rightarrow> paging \<Rightarrow> paging result" where
  "run_call (CallAdd d v p flags reuse) s = AddPage d v p flags reuse s"
| "run_call (CallRemove d v) s = RemovePage d v s"
| "run_call (CallClone d) s = bindE (Clone d s) (\<lambda>(_, t). Inr t)"
| "run_call (CallReclaim b) s = ReclaimPageDirRegion (RegionPD b) s"
| "run_call (CallSwitch d) s = Inr (SwitchPageDirectory d s)"

fun call_ok :: "paging \<Rightarrow> paging_call \<Rightarrow> bool" where
  "call_ok s (CallAdd d v p flags reuse) \<longleftrightarrow>
     may_map s d (PageIndex4M v) \<and> Is4MPageAligned p \<and> Is4MPageAligned v \<and>
     (reuse \<or> refcount (phys s) (PageIndex4M p) = 0) \<and> \<not> isVirtualMapped s d v \<and>
     refcount (phys s) (PageIndex4M p) + 1025 < 65536"
| "call_ok s (CallRemove d v) \<longleftrightarrow> may_map s d (PageIndex4M v) \<and> Is4MPageAligned v \<and> isVirtualMapped s d v"
| "call_ok s (CallClone d) \<longleftrightarrow> valid_pd s d \<and> \<not> {..< 1024} \<subseteq> live s \<and>
     (\<forall>p < 1024. refcount (phys s) p + pd_count (pd_of s d) p < 65536)"
| "call_ok s (CallReclaim b) \<longleftrightarrow> b \<in> live s"
| "call_ok s (CallSwitch d) \<longleftrightarrow> valid_pd s d"

inductive paging_reachable :: "paging \<Rightarrow> bool" where
  init: "boot_state s \<Longrightarrow> InitializePaging kb s = Inr t \<Longrightarrow> paging_reachable t"
| call: "paging_reachable s \<Longrightarrow> call_ok s c \<Longrightarrow> run_call c s = Inr t \<Longrightarrow> paging_reachable t"

lemma run_call_ok:
  assumes "paging_inv s" "call_ok s c"
  shows "\<exists>t. run_call c s = Inr t \<and> paging_inv t"
proof (cases c)
  case (CallAdd d v p flags reuse)
  then show ?thesis using AddPage_ok[OF assms(1), of d v p reuse flags] assms(2) by auto
next
  case (CallRemove d v)
  then show ?thesis using RemovePage_ok[OF assms(1), of d v] assms(2) by auto
next
  case (CallClone d)
  then obtain c where "c < 1024" "c \<notin> live s" using assms(2) by auto
  then show ?thesis using Clone_ok[OF assms(1), of d c] assms(2) CallClone by auto
next
  case (CallReclaim b)
  then show ?thesis using ReclaimPageDirRegion_ok[OF assms(1), of b] assms(2) by auto
next
  case (CallSwitch d)
  then show ?thesis
    using assms(1) by (simp add: SwitchPageDirectory_def paging_inv_def counts_ok_def paging_wf_def mapcount_def synced_def)
qed

lemma InitializePaging_inv:
  assumes "boot_state s" "InitializePaging kb s = Inr t"
  shows "paging_inv t"
proof -
  have "32 \<le> unat (kb * 1024 :: u32) div kPageSize4M + 1"
    using assms(2) by (simp add: InitializePaging_def Let_def assertE_Inr_iff)
  from InitializePaging_ok[OF assms(1) this] assms(2) show ?thesis by auto
qed

lemma reachable_inv: "paging_reachable s \<Longrightarrow> paging_inv s"
proof (induction rule: paging_reachable.induct)
  case (init s kb t)
  then show ?case by (rule InitializePaging_inv)
next
  case (call s c t)
  then show ?case using run_call_ok[of s c] by auto
qed

definition boot0 :: paging where
  "boot0 = \<lparr>phys = \<lparr>bits = \<lparr>NumBits = 1024, bytes = replicate 128 0\<rparr>, refs = replicate 1024 0\<rparr>,
            kernel_pd = replicate 1024 0, region_bits = \<lparr>NumBits = 1024, bytes = replicate 128 0\<rparr>,
            region = replicate 1024 (replicate 1024 0), cr3 = KernelPD\<rparr>"

lemma boot0_boot: "boot_state boot0"
  by (simp add: boot_state_def boot0_def bitarray_wf_def)

lemma boot0_up:
  obtains t f where "InitializePaging 0x1FC00 boot0 = Inr t" "paging_reachable t" "paging_inv t" "live t = {}"
    "kernel_pd t = (replicate 1024 0)[1 := mk_pde KERNEL_START f, 2 := mk_pde PAGE_DIRECTORY_REGION_START f]"
proof -
  have "32 \<le> unat (0x1FC00 * 1024 :: u32) div kPageSize4M + 1" by (simp add: kPageSize4M_def)
  from InitializePaging_ok[OF boot0_boot this] that init[OF boot0_boot] show thesis by blast
qed

text \<open>The state after start-up admits the calls the witnesses below make.\<close>

lemma boot0_ready:
  obtains s where "InitializePaging 0x1FC00 boot0 = Inr s" "paging_reachable s" "paging_inv s" "live s = {}"
    "call_ok s (CallAdd KernelPD 0x2000000 0xC00000 0 True)"
    "call_ok s (CallAdd KernelPD 0x40000000 0xC00000 0 False)" "call_ok s (CallClone KernelPD)"
    "refcount (phys s) 3 = 0" "pd_of s KernelPD ! 8 = 0" "pd_of s KernelPD ! 256 = 0"
proof -
  obtain s f where s: "InitializePaging 0x1FC00 boot0 = Inr s" "paging_reachable s" "paging_inv s" "live s = {}"
    "kernel_pd s = (replicate 1024 0)[1 := mk_pde KERNEL_START f, 2 := mk_pde PAGE_DIRECTORY_REGION_START f]"
    by (rule boot0_up)
  have idx: "PageIndex4M 0x2000000 = 8" "PageIndex4M 0xC00000 = 3" "PageIndex4M 0x40000000 = 256"
    by (simp_all add: PageIndex4M_div kPageSize4M_def)
  have count: "mapcount s p \<le> 1" "mapcount s 3 = 0" for p
    by (simp_all add: mapcount_def s(4,5) pd_count_set pd_count_zero PageIndex4M_layout)
  have rc: "refcount (phys s) p = reserved p + mapcount s p" if "p < 1024" for p
    using s(3) counts_okD(1)[of s p] that by (simp add: paging_inv_def)
  have rc3: "refcount (phys s) 3 = 0" using rc[of 3] count by (simp add: reserved_def)
  have "refcount (phys s) p + pd_count (pd_of s KernelPD) p < 65536" if "p < 1024" for p
    using rc[OF that] count(1)[of p] pd_count_le_mapcount[of s KernelPD p] s(3)
    by (simp add: reserved_def paging_inv_def counts_ok_def split: if_splits)
  then have "call_ok s (CallClone KernelPD)" by (simp add: s(4) lessThan_empty_iff)
  then show thesis
    using s rc3 that by (simp add: idx may_map_def isVirtualMapped_def pd_of_def Is4MPageAligned_def kPageSize4M_def)
qed

text \<open>
  C1. From any state of the globals at start-up, however the kernel calls \<open>AddPage\<close>,
  \<open>RemovePage\<close>, \<open>Clone\<close>, \<open>ReclaimPageDirRegion\<close> and \<open>SwitchPageDirectory\<close> within its own
  rules, the paging invariant holds: each frame's reference count is the number of mappings
  of it, its bit says whether that is positive, and the kernel's ranges are mapped alike
  everywhere. And no such call stops: no assertion of paging can fail.
\<close>

theorem paging_reachable_inv:
  assumes "paging_reachable s"
  shows "paging_inv s \<and> (call_ok s c \<longrightarrow> (\<exists>t. run_call c s = Inr t \<and> paging_inv t))"
  using reachable_inv[OF assms] run_call_ok by blast

theorem paging_reachable_inv_witness:
  "\<exists>s t. InitializePaging 0x1FC00 boot0 = Inr s \<and> paging_inv s \<and>
     run_call (CallAdd KernelPD 0x2000000 0xC00000 0 True) s = Inr t \<and> paging_inv t"
proof (rule boot0_ready)
  fix s assume s: "InitializePaging 0x1FC00 boot0 = Inr s" "paging_reachable s" "paging_inv s"
    "call_ok s (CallAdd KernelPD 0x2000000 0xC00000 0 True)"
  with paging_reachable_inv[OF s(2), of "CallAdd KernelPD 0x2000000 0xC00000 0 True"]
  show ?thesis by auto
qed

end
