(* ===== verification/PagingProperties.thy ===== *)
theory PagingProperties
  imports PagingReach
begin

text \<open>
  What the operations of paging give their callers, in every state that satisfies the paging
  invariant: address translation after \<open>AddPage\<close>, isolation of freshly mapped frames, the two
  round trips (\<open>AddPage\<close> and \<open>RemovePage\<close>, \<open>Clone\<close> and \<open>ReclaimPageDirRegion\<close>), the search for
  a free user page, and what unmapping an unmapped page does.
\<close>

section \<open>Translation\<close>

lemma GetPhysicalAddr_inv:
  assumes "paging_inv s" "valid_pd s d" "Is4MPageAligned v"
  shows "GetPhysicalAddr s d v =
    (if isVirtualMapped s d v then Inr (pd_of s d ! PageIndex4M v AND kPageMask4M)
     else Inl (AssertFailed ''Page for virtual address not present''))"
proof (cases "isVirtualMapped s d v")
  case True
  have co: "counts_ok s" using assms(1) by (simp add: paging_inv_def)
  have "pd_of s d ! PageIndex4M v \<in> set (pd_of s d)"
    using length_pd_of[OF counts_okD(2)[OF co] assms(2)] by simp
  from present_refcount_pos[OF co assms(2) this] True
  show ?thesis
    using assms(3) isPageFrameUsed_ok[OF counts_okD(3)[OF co], of "PageIndex4M (pd_of s d ! PageIndex4M v)"]
    by (simp add: GetPhysicalAddr_def isVirtualMapped_def Let_def Is4MPageAligned_def)
next
  case False
  then show ?thesis
    using assms(3) by (simp add: GetPhysicalAddr_def isVirtualMapped_def Let_def Is4MPageAligned_def)
qed

lemma aligned_index_inj: "Is4MPageAligned a \<Longrightarrow> Is4MPageAligned b \<Longrightarrow> PageIndex4M a = PageIndex4M b \<Longrightarrow> a = b"
  using PageAddr4M_PageIndex4M by metis

lemma entry_set_nth:
  assumes "entry_set d i v s t" "valid_pd s d'" "length (pd_of s d') = 1024" "i < 1024"
  shows "pd_of t d' ! j = (if i = j \<and> (d' = d \<or> (d = KernelPD \<and> kernel_index i)) then v else pd_of s d' ! j)"
  using entry_setD[OF assms(1,2)] assms(3,4) by (auto simp: nth_list_update)

lemma AddPage_translates:
  assumes "paging_inv s" "call_ok s (CallAdd d v p flags reuse)"
  shows "\<exists>t. AddPage d v p flags reuse s = Inr t \<and> paging_inv t \<and>
    (\<forall>d' v'. valid_pd s d' \<longrightarrow> Is4MPageAligned v' \<longrightarrow>
       GetPhysicalAddr t d' v' =
         (if v' = v \<and> (d' = d \<or> (d = KernelPD \<and> shared_kernel_addr v)) then Inr p
          else GetPhysicalAddr s d' v'))"
proof -
  obtain t where t: "AddPage d v p flags reuse s = Inr t" "paging_inv t"
      "entry_set d (PageIndex4M v) (mk_pde p flags) s t"
    using AddPage_ok[OF assms(1), of d v p reuse flags] assms(2) by auto
  have wf: "paging_wf s" using assms(1) by (simp add: paging_inv_def counts_ok_def)
  have al: "Is4MPageAligned v" "Is4MPageAligned p" using assms(2) by simp_all
  have "GetPhysicalAddr t d' v' =
      (if v' = v \<and> (d' = d \<or> (d = KernelPD \<and> shared_kernel_addr v)) then Inr p else GetPhysicalAddr s d' v')"
    if d': "valid_pd s d'" and v': "Is4MPageAligned v'" for d' v'
  proof -
    have vt: "valid_pd t d'" using d' entry_set_valid[OF t(3)] by simp
    have eq: "PageIndex4M v = PageIndex4M v' \<longleftrightarrow> v' = v" using aligned_index_inj al(1) v' by metis
    show ?thesis
      using entry_set_nth[OF t(3) d' length_pd_of[OF wf d'], of "PageIndex4M v'"]
      by (auto simp: GetPhysicalAddr_inv[OF t(2) vt v'] GetPhysicalAddr_inv[OF assms(1) d' v']
          isVirtualMapped_def eq shared_kernel_addr_index[OF al(1)] mk_pde_mask[OF al(2)])
  qed
  with t show ?thesis by blast
qed

text \<open>
  After \<open>AddPage\<close> the virtual page translates to the physical page in the directory it was
  added to, and, when the kernel adds a page of its own shared ranges, in every directory in
  use; every other translation, in every directory, is what it was.
\<close>

theorem AddPage_translation:
  assumes "paging_inv s" "call_ok s (CallAdd d v p flags reuse)"
  shows "\<exists>t. AddPage d v p flags reuse s = Inr t \<and> paging_inv t \<and>
    (\<forall>d' v'. valid_pd s d' \<longrightarrow> Is4MPageAligned v' \<longrightarrow>
       GetPhysicalAddr t d' v' =
         (if v' = v \<and> (d' = d \<or> (d = KernelPD \<and> shared_kernel_addr v)) then Inr p
          else GetPhysicalAddr s d' v'))"
  by (rule AddPage_translates[OF assms])

theorem AddPage_translation_witness:
  "\<exists>s t. InitializePaging 0x1FC00 boot0 = Inr s \<and>
     AddPage KernelPD 0x40000000 0xC00000 0 False s = Inr t \<and> GetPhysicalAddr t KernelPD 0x40000000 = Inr 0xC00000"
proof (rule boot0_ready)
  fix s assume s: "InitializePaging 0x1FC00 boot0 = Inr s" "paging_inv s"
    "call_ok s (CallAdd KernelPD 0x40000000 0xC00000 0 False)"
  moreover have "Is4MPageAligned 0x40000000" by (simp add: Is4MPageAligned_def kPageSize4M_def)
  ultimately show ?thesis using AddPage_translation[OF s(2,3)] valid_KernelPD by metis
qed

section \<open>Isolation\<close>

lemma unreferenced_not_mapped:
  assumes "counts_ok s" "p < 1024" "refcount (phys s) p = 0" "valid_pd s d" "i < 1024" "present (pd_of s d ! i)"
  shows "PageIndex4M (pd_of s d ! i) \<noteq> p"
proof -
  have "pd_of s d ! i \<in> set (pd_of s d)"
    using length_pd_of[OF counts_okD(2)[OF assms(1)] assms(4)] assms(5) by simp
  from present_refcount_pos[OF assms(1,4) this assms(6)] assms(3) show ?thesis by auto
qed

text \<open>
  C11. A frame that \<open>NextFreePhysicalPage\<close> hands out and \<open>AddPage\<close> maps outside the shared kernel
  ranges is private: no other page of any directory in use maps it, so no other task sees it.
\<close>

theorem fresh_page_isolated:
  assumes "paging_inv s" "valid_pd s d" "Is4MPageAligned v" "\<not> isVirtualMapped s d v"
    "\<not> shared_kernel_addr v" "NextFreePhysicalPage (phys s) start = Inr p"
  shows "\<exists>t. AddPage d v p flags False s = Inr t \<and> paging_inv t \<and>
    (\<forall>d' i. valid_pd t d' \<longrightarrow> i < 1024 \<longrightarrow> present (pd_of t d' ! i) \<longrightarrow>
       PageIndex4M (pd_of t d' ! i) = PageIndex4M p \<longrightarrow> d' = d \<and> i = PageIndex4M v)"
proof -
  have co: "counts_ok s" using assms(1) by (simp add: paging_inv_def)
  note wf = counts_okD(2)[OF co]
  note fresh = NextFreePhysicalPage_ok[OF counts_okD(3)[OF co] assms(6)]
  have nk: "\<not> kernel_index (PageIndex4M v)" using assms(5) by (simp add: shared_kernel_addr_index[OF assms(3)])
  obtain t where t: "AddPage d v p flags False s = Inr t" "paging_inv t"
      "entry_set d (PageIndex4M v) (mk_pde p flags) s t"
    using AddPage_ok[OF assms(1), of d v p False flags] assms fresh nk by (auto simp: may_map_def)
  have "d' = d \<and> i = PageIndex4M v"
    if d': "valid_pd t d'" and i: "i < 1024" and p: "present (pd_of t d' ! i)"
      and f: "PageIndex4M (pd_of t d' ! i) = PageIndex4M p" for d' i
  proof (rule ccontr)
    assume "\<not> (d' = d \<and> i = PageIndex4M v)"
    moreover have vs: "valid_pd s d'" using d' entry_set_valid[OF t(3)] by simp
    ultimately have "pd_of t d' ! i = pd_of s d' ! i"
      using entry_set_nth[OF t(3) vs length_pd_of[OF wf vs], of i] nk by auto
    with unreferenced_not_mapped[OF co _ _ vs i, of "PageIndex4M p"] fresh p f show False by auto
  qed
  with t show ?thesis by blast
qed

theorem fresh_page_isolated_witness:
  "\<exists>s p t. InitializePaging 0x1FC00 boot0 = Inr s \<and> NextFreePhysicalPage (phys s) 1 = Inr p \<and>
     AddPage KernelPD 0x40000000 p 0 False s = Inr t \<and>
     (\<forall>i < 1024. present (pd_of t KernelPD ! i) \<longrightarrow> PageIndex4M (pd_of t KernelPD ! i) = PageIndex4M p \<longrightarrow> i = 256)"
proof (rule boot0_ready)
  fix s assume s: "InitializePaging 0x1FC00 boot0 = Inr s" "paging_inv s" "refcount (phys s) 3 = 0"
    "call_ok s (CallAdd KernelPD 0x40000000 0xC00000 0 False)"
  have idx: "PageIndex4M 0x40000000 = 256" by (simp add: PageIndex4M_div kPageSize4M_def)
  have "pb_consistent (phys s)" using s(2) by (simp add: paging_inv_def counts_ok_def paging_wf_def)
  from NextFreePhysicalPage_full[OF this, of 1] s(3)
  obtain p where p: "NextFreePhysicalPage (phys s) 1 = Inr p"
    by (metis gr_implies_not0 numeral_One numeral_le_iff numeral_less_iff semiring_norm(68,76,78,80,81))
  have "\<not> shared_kernel_addr 0x40000000"
    using s(4) by (simp add: shared_kernel_addr_index idx kernel_index_def)
  then obtain t where t: "AddPage KernelPD 0x40000000 p 0 False s = Inr t"
      "\<forall>d' i. valid_pd t d' \<longrightarrow> i < 1024 \<longrightarrow> present (pd_of t d' ! i) \<longrightarrow>
         PageIndex4M (pd_of t d' ! i) = PageIndex4M p \<longrightarrow> d' = KernelPD \<and> i = 256"
    using fresh_page_isolated[OF s(2) valid_KernelPD _ _ _ p, of "0x40000000" 0] s(4) by (auto simp: idx)
  have "i = 256" if "i < 1024" "present (pd_of t KernelPD ! i)" "PageIndex4M (pd_of t KernelPD ! i) = PageIndex4M p" for i
    using t(2)[rule_format, of KernelPD i] that by simp
  with s(1) p t(1) show ?thesis by blast
qed

section \<open>Round trips\<close>

text \<open>Two paging states no user of the directories in use can tell apart.\<close>

definition same_view :: "paging \<Rightarrow> paging \<Rightarrow> bool" where
  "same_view s t \<longleftrightarrow> phys t = phys s \<and> region_bits t = region_bits s \<and> cr3 t = cr3 s \<and>
     (\<forall>d. valid_pd s d \<longrightarrow> pd_of t d = pd_of s d)"

lemma mapcount_cong:
  "live t = live s \<Longrightarrow> (\<And>d. valid_pd s d \<Longrightarrow> pd_of t d = pd_of s d) \<Longrightarrow> mapcount t p = mapcount s p"
proof -
  assume a: "live t = live s" "\<And>d. valid_pd s d \<Longrightarrow> pd_of t d = pd_of s d"
  then have "kernel_pd t = kernel_pd s" using a(2)[of KernelPD] by (simp add: pd_of_def)
  moreover have "(\<Sum>i \<in> live s. pd_count (pd_of t (RegionPD i)) p) = (\<Sum>i \<in> live s. pd_count (pd_of s (RegionPD i)) p)"
    by (rule sum.cong) (use a(2) in \<open>auto simp: valid_pd_def\<close>)
  ultimately show ?thesis by (simp add: mapcount_live a(1))
qed

lemma same_viewI:
  assumes "counts_ok s" "counts_ok t" "live t = live s" "cr3 t = cr3 s"
    "\<And>d. valid_pd s d \<Longrightarrow> pd_of t d = pd_of s d"
  shows "same_view s t"
proof -
  have "phys t = phys s"
    using counts_okD(1)[OF assms(1)] counts_okD(1)[OF assms(2)] mapcount_cong[OF assms(3,5)]
    by (intro pb_eqI counts_okD(3)[OF assms(1)] counts_okD(3)[OF assms(2)]) simp
  moreover have "region_bits t = region_bits s"
    using assms(1-3) by (intro bitarray_eqI[of 1024]) (auto simp: counts_ok_def paging_wf_def)
  ultimately show ?thesis using assms(4,5) by (simp add: same_view_def)
qed

lemma AddPage_undone:
  assumes "paging_inv s" "call_ok s (CallAdd d v p flags reuse)"
    "\<forall>d'. valid_pd s d' \<longrightarrow> d' = d \<or> d = KernelPD \<and> shared_kernel_addr v \<longrightarrow> pd_of s d' ! PageIndex4M v = 0"
  shows "\<exists>t u. AddPage d v p flags reuse s = Inr t \<and> paging_inv t \<and>
    entry_set d (PageIndex4M v) (mk_pde p flags) s t \<and> RemovePage d v t = Inr u \<and> paging_inv u \<and> same_view s u"
proof -
  let ?i = "PageIndex4M v"
  obtain t where t: "AddPage d v p flags reuse s = Inr t" "paging_inv t"
      "entry_set d ?i (mk_pde p flags) s t"
    using AddPage_ok[OF assms(1), of d v p reuse flags] assms(2) by auto
  have wf: "paging_wf s" using assms(1) by (simp add: paging_inv_def counts_ok_def)
  have vd: "valid_pd s d" and al: "Is4MPageAligned v" using assms(2) by (simp_all add: may_map_def)
  have "isVirtualMapped t d v"
    using entry_set_nth[OF t(3) vd length_pd_of[OF wf vd], of ?i] by (simp add: isVirtualMapped_def)
  moreover have "may_map t d ?i" using assms(2) entry_set_valid[OF t(3)] by (simp add: may_map_def)
  ultimately obtain u where u: "RemovePage d v t = Inr u" "paging_inv u" "entry_set d ?i 0 t u"
    using RemovePage_ok[OF t(2), of d v] al by auto
  have "pd_of u d' = pd_of s d'" if d': "valid_pd s d'" for d'
  proof -
    have "(pd_of s d')[?i := 0] = pd_of s d'" if "d' = d \<or> d = KernelPD \<and> kernel_index ?i"
      using assms(3) d' that by (metis list_update_id shared_kernel_addr_index[OF al])
    then show ?thesis
      using entry_setD[OF t(3) d'] entry_setD[OF u(3), of d'] d' entry_set_valid[OF t(3)] by auto
  qed
  moreover have "live u = live s" "cr3 u = cr3 s" using t(3) u(3) by (simp_all add: entry_set_def)
  ultimately have "same_view s u"
    using assms(1) u(2) by (intro same_viewI) (auto simp: paging_inv_def)
  with t u show ?thesis by blast
qed

text \<open>
  \<open>RemovePage\<close> undoes \<open>AddPage\<close>: the frame counts, the bitmaps and every directory in use are
  exactly as before, also when the page was propagated to all of them, provided the entry was
  all zero before (as every unmapped entry is that was never written or was unmapped).
\<close>

theorem AddPage_RemovePage:
  assumes "paging_inv s" "call_ok s (CallAdd d v p flags reuse)"
    "\<forall>d'. valid_pd s d' \<longrightarrow> d' = d \<or> d = KernelPD \<and> shared_kernel_addr v \<longrightarrow> pd_of s d' ! PageIndex4M v = 0"
  shows "\<exists>t u. AddPage d v p flags reuse s = Inr t \<and> RemovePage d v t = Inr u \<and> same_view s u"
  using AddPage_undone[OF assms] by blast

theorem AddPage_RemovePage_witness:
  "\<exists>s t u. InitializePaging 0x1FC00 boot0 = Inr s \<and> AddPage KernelPD 0x2000000 0xC00000 0 True s = Inr t \<and>
     RemovePage KernelPD 0x2000000 t = Inr u \<and> same_view s u"
proof (rule boot0_ready)
  fix s assume s: "InitializePaging 0x1FC00 boot0 = Inr s" "paging_inv s" "live s = {}"
    "call_ok s (CallAdd KernelPD 0x2000000 0xC00000 0 True)" "pd_of s KernelPD ! 8 = 0"
  have "PageIndex4M 0x2000000 = 8" by (simp add: PageIndex4M_div kPageSize4M_def)
  then have "\<forall>d'. valid_pd s d' \<longrightarrow> d' = KernelPD \<or> KernelPD = KernelPD \<and> shared_kernel_addr 0x2000000 \<longrightarrow>
      pd_of s d' ! PageIndex4M 0x2000000 = 0"
    using s(3,5) by (auto simp: valid_pd_def split: pd_ref.splits)
  from AddPage_RemovePage[OF s(2,4) this] s(1) show ?thesis by blast
qed

text \<open>
  C12. \<open>Clone\<close> takes the first free slot of the directory region and copies the directory there;
  \<open>ReclaimPageDirRegion\<close> of the clone gives the slot and every reference back, so that the
  frame counts, bitmaps and all other directories are exactly as before.
\<close>

theorem Clone_Reclaim:
  assumes "paging_inv s" "call_ok s (CallClone d)"
  shows "\<exists>b t u. Clone d s = Inr (RegionPD b, t) \<and> b \<notin> live s \<and> {..< b} \<subseteq> live s \<and>
    pd_of t (RegionPD b) = pd_of s d \<and> paging_inv t \<and>
    ReclaimPageDirRegion (RegionPD b) t = Inr u \<and> same_view s u"
proof -
  obtain c where c: "c < 1024" "c \<notin> live s" using assms(2) by auto
  obtain b t where t: "Clone d s = Inr (RegionPD b, t)" "b \<notin> live s" "{..< b} \<subseteq> live s" "paging_inv t"
      "live t = insert b (live s)" "cr3 t = cr3 s" "pd_of t (RegionPD b) = pd_of s d"
      "\<forall>d'. valid_pd s d' \<longrightarrow> pd_of t d' = pd_of s d'"
    using Clone_ok[OF assms(1) _ c] assms(2) by auto blast
  obtain u where u: "ReclaimPageDirRegion (RegionPD b) t = Inr u" "paging_inv u" "live u = live t - {b}"
      "cr3 u = cr3 t" "\<forall>d. pd_of u d = pd_of t d"
    using ReclaimPageDirRegion_ok[OF t(4), of b] t(5) by auto
  have "same_view s u"
    using assms(1) u t by (intro same_viewI) (auto simp: paging_inv_def)
  with t u show ?thesis by blast
qed

theorem Clone_Reclaim_witness:
  "\<exists>s b t u. InitializePaging 0x1FC00 boot0 = Inr s \<and> Clone KernelPD s = Inr (RegionPD b, t) \<and>
     ReclaimPageDirRegion (RegionPD b) t = Inr u \<and> same_view s u"
proof (rule boot0_ready)
  fix s assume s: "InitializePaging 0x1FC00 boot0 = Inr s" "paging_inv s" "call_ok s (CallClone KernelPD)"
  from Clone_Reclaim[OF s(2,3)] s(1) show ?thesis by blast
qed

section \<open>User pages\<close>

lemma GetNextFreeVirtualUser_from_spec:
  "GetNextFreeVirtualUser_from pd is = map_option PageAddr4M (List.find (\<lambda>i. \<not> present (pd ! i)) is)"
  by (induction "is") auto

lemma user_indices: "PageIndex4M USER_START = 256" "USER_END div kPageSize4M = 1024"
  by (simp_all add: kernel_defs PageIndex4M_div kPageSize4M_def)

text \<open>
  \<open>GetNextFreeVirtualUser\<close> returns the lowest unmapped page of user space, and null exactly
  when all of user space is mapped: the page it returns lies at or above \<open>USER_START\<close>, is not
  mapped, and every user page below it is.
\<close>

theorem GetNextFreeVirtualUser_correct:
  "case GetNextFreeVirtualUser s d of
     None \<Rightarrow> \<forall>v. IsUserCode v \<longrightarrow> isVirtualMapped s d v
   | Some v \<Rightarrow> IsUserCode v \<and> Is4MPageAligned v \<and> \<not> isVirtualMapped s d v \<and>
       (\<forall>w. IsUserCode w \<longrightarrow> PageIndex4M w < PageIndex4M v \<longrightarrow> isVirtualMapped s d w)"
proof -
  have user: "IsUserCode w \<longleftrightarrow> 256 \<le> PageIndex4M w" for w
    by (simp add: IsUserCode_def kernel_defs word_le_nat_alt PageIndex4M_div kPageSize4M_def) linarith
  let ?find = "List.find (\<lambda>i. \<not> present (pd_of s d ! i)) [256 ..< 1024]"
  have code: "GetNextFreeVirtualUser s d = map_option PageAddr4M ?find"
    by (simp add: GetNextFreeVirtualUser_def GetNextFreeVirtualUser_from_spec user_indices del: upt_rec_numeral)
  show ?thesis
  proof (cases ?find)
    case None
    then show ?thesis
      unfolding find_upt_None by (simp add: code None user isVirtualMapped_def del: upt_rec_numeral)
  next
    case (Some i)
    from find_upt_Some[OF this] show ?thesis
      by (simp add: code Some user isVirtualMapped_def del: upt_rec_numeral)
  qed
qed

theorem GetNextFreeVirtualUser_correct_witness:
  "GetNextFreeVirtualUser boot0 KernelPD = Some 0x40000000 \<and> \<not> isVirtualMapped boot0 KernelPD 0x40000000"
proof -
  have "present (pd_of boot0 KernelPD ! 256) = False" by (simp add: boot0_def pd_of_def)
  moreover have "[256 ..< 1024] = 256 # [257 ..< 1024 :: nat]" by (subst upt_rec) (simp del: upt_rec_numeral)
  moreover have "PageAddr4M 256 = 0x40000000" by (simp add: PageAddr4M_def push_bit_eq_mult)
  ultimately have "GetNextFreeVirtualUser boot0 KernelPD = Some 0x40000000"
    by (simp add: GetNextFreeVirtualUser_def user_indices del: upt_rec_numeral)
  with GetNextFreeVirtualUser_correct[of boot0 KernelPD] show ?thesis by simp
qed

text \<open>
  \<open>RemovePage\<close> does not check that the page is mapped. On a zero entry it drops a reference of
  frame 0, and stops on the assertion of \<open>Unref\<close> when nothing maps frame 0; this is what
  the \<open>unmap_page\<close> system call of a task does for any aligned address the task never mapped.
\<close>

theorem RemovePage_unmapped:
  assumes "paging_inv s" "Is4MPageAligned v" "pd_of s d ! PageIndex4M v = 0" "mapcount s 0 = 0"
  shows "RemovePage d v s = Inl (AssertFailed ''Attempting to unref a page that has no references'')"
proof -
  have co: "counts_ok s" using assms(1) by (simp add: paging_inv_def)
  have "refcount (phys s) 0 = 0" using counts_okD(1)[OF co, of 0] assms(4) by (simp add: reserved_def)
  moreover have "PageIndex4M 0 = 0" by (simp add: PageIndex4M_def)
  ultimately show ?thesis
    using setPageFrameFree_zero[OF counts_okD(3)[OF co], of 0] assms(2,3)
    by (simp add: RemovePage_def Let_def upd_phys_def Is4MPageAligned_def)
qed

theorem RemovePage_unmapped_witness:
  "\<exists>s. InitializePaging 0x1FC00 boot0 = Inr s \<and>
     RemovePage KernelPD 0x40000000 s = Inl (AssertFailed ''Attempting to unref a page that has no references'')"
proof (rule boot0_up)
  fix s f assume s: "InitializePaging 0x1FC00 boot0 = Inr s" "paging_inv s" "live s = {}"
    "kernel_pd s = (replicate 1024 0)[1 := mk_pde KERNEL_START f, 2 := mk_pde PAGE_DIRECTORY_REGION_START f]"
  have "PageIndex4M 0x40000000 = 256" by (simp add: PageIndex4M_div kPageSize4M_def)
  moreover have "mapcount s 0 = 0"
    by (simp add: mapcount_def s(3,4) pd_count_set pd_count_zero PageIndex4M_layout)
  ultimately show ?thesis
    using RemovePage_unmapped[OF s(2), of "0x40000000" KernelPD] s(1,4)
    by (simp add: pd_of_def Is4MPageAligned_def kPageSize4M_def)
qed

end
