(* ===== verification/TaskMemory.thy ===== *)
theory TaskMemory
  imports PagingProperties
begin

text \<open>
  Copies between address spaces: \<open>TaskMemcpy\<close>, \<open>Task::Write\<close>, \<open>Task::Read\<close>,
  \<open>Task::MapPageFromTask\<close> and \<open>Task::UnmapPage\<close> of \<^verbatim>\<open>kernel/task.cpp\<close>, over physical memory and the
  page directories. A virtual access goes through the directory in \<open>cr3\<close>; an access to an
  unmapped page is a page fault, which the kernel answers with a panic.
\<close>

record vm =
  pg :: paging
  pmem :: "nat \<Rightarrow> u8"

section \<open>Virtual accesses\<close>

definition translate :: "paging \<Rightarrow> pd_ref \<Rightarrow> u32 \<Rightarrow> nat result" where
  "translate s d va =
     (let e = pd_of s d ! PageIndex4M va in
      if present e then Inr (unat (e AND kPageMask4M) + unat va mod kPageSize4M)
      else Inl (PanicError ''page fault''))"

definition vload :: "u32 \<Rightarrow> vm \<Rightarrow> u8 result" where
  "vload va st = bindE (translate (pg st) (cr3 (pg st)) va) (\<lambda>pa. Inr (pmem st pa))"

definition vstore :: "u32 \<Rightarrow> u8 \<Rightarrow> vm \<Rightarrow> vm result" where
  "vstore va v st = bindE (translate (pg st) (cr3 (pg st)) va) (\<lambda>pa. Inr (st\<lparr>pmem := (pmem st)(pa := v)\<rparr>))"

text \<open>\<open>memcpy\<close> of \<^verbatim>\<open>libc/string.cpp\<close> in the current address space.\<close>

fun vmemcpy :: "u32 \<Rightarrow> u32 \<Rightarrow> nat \<Rightarrow> vm \<Rightarrow> vm result" where
  "vmemcpy dst src 0 st = Inr st"
| "vmemcpy dst src (Suc n) st =
     bindE (vload src st) (\<lambda>v. bindE (vstore dst v st) (vmemcpy (dst + 1) (src + 1) n))"

section \<open>Operations\<close>

datatype direction = CurrentToOther | OtherToCurrent

text \<open>
  \<open>same\<close>: the two tasks are the same object; \<open>tpd\<close> and \<open>opd\<close> are the directories of \<open>task\<close> and of
  \<open>other_task\<close>.
\<close>

definition TaskMemcpy :: "direction \<Rightarrow> bool \<Rightarrow> pd_ref \<Rightarrow> pd_ref \<Rightarrow> u32 \<Rightarrow> u32 \<Rightarrow> nat \<Rightarrow> vm \<Rightarrow> vm result" where
  "TaskMemcpy dir same tpd opd dst src sz st =
     (if sz = 0 then Inr st
      else if same then vmemcpy dst src sz st
      else
      let task_vaddr = (if dir = CurrentToOther then dst else src);
          aligned = (unat task_vaddr mod kPageSize4M = 0);
          vaddr_page = (if aligned then task_vaddr else PageAddr4M (PageIndex4M task_vaddr)) in
      assertE (aligned \<or> vaddr_page < task_vaddr) ''task_vaddr > vaddr_page'' (
      let vaddr_offset = (if aligned then 0 else task_vaddr - vaddr_page) in
      bindE (GetPhysicalAddr (pg st) tpd vaddr_page) (\<lambda>paddr.
      bindE (AddPage opd TMP_SHARED_TASK_MEM_START paddr 0 True (pg st)) (\<lambda>s.
      let shared_mem = TMP_SHARED_TASK_MEM_START;
          adj_src = (if dir = CurrentToOther then src else shared_mem + vaddr_offset);
          adj_dst = (if dir = CurrentToOther then shared_mem + vaddr_offset else dst) in
      bindE (vmemcpy adj_dst adj_src sz (st\<lparr>pg := s\<rparr>)) (\<lambda>st.
      bindE (RemovePage opd shared_mem (pg st)) (\<lambda>s. Inr (st\<lparr>pg := s\<rparr>)))))))"

definition Task_Write :: "bool \<Rightarrow> pd_ref \<Rightarrow> pd_ref \<Rightarrow> u32 \<Rightarrow> u32 \<Rightarrow> nat \<Rightarrow> vm \<Rightarrow> vm result" where
  "Task_Write same this_pd current_pd this_dst current_src sz st =
     TaskMemcpy CurrentToOther same this_pd current_pd this_dst current_src sz st"

definition Task_Read :: "bool \<Rightarrow> pd_ref \<Rightarrow> pd_ref \<Rightarrow> u32 \<Rightarrow> u32 \<Rightarrow> nat \<Rightarrow> vm \<Rightarrow> vm result" where
  "Task_Read same this_pd current_pd current_dst task_src sz st =
     TaskMemcpy OtherToCurrent same this_pd current_pd current_dst task_src sz st"

definition MapPageFromTask :: "bool \<Rightarrow> pd_ref \<Rightarrow> pd_ref \<Rightarrow> u32 \<Rightarrow> u32 \<Rightarrow> paging \<Rightarrow> paging result" where
  "MapPageFromTask same this_pd other_pd this_dst other_src s =
     assertE (\<not> same) ''Double check mapping within the same address space'' (
     assertE (unat this_dst mod kPageSize4M = 0) ''this_dst % kPageSize4M == 0'' (
     assertE (unat other_src mod kPageSize4M = 0) ''other_src % kPageSize4M == 0'' (
     bindE (GetPhysicalAddr s other_pd other_src) (\<lambda>paddr.
     AddPage this_pd this_dst paddr PG_USER True s))))"

definition UnmapPage :: "pd_ref \<Rightarrow> u32 \<Rightarrow> paging \<Rightarrow> paging result" where
  "UnmapPage this_pd vaddr s =
     assertE (unat vaddr mod kPageSize4M = 0) ''vaddr % kPageSize4M == 0'' (RemovePage this_pd vaddr s)"

section \<open>Copying inside one address space\<close>

lemma unat_add_small: "unat (a :: u32) + n < 0x100000000 \<Longrightarrow> unat (a + of_nat n) = unat a + n"
  by (simp add: unat_word_ariths unat_of_nat_u32)

lemma vmemcpy_ok:
  assumes "\<And>i. i < n \<Longrightarrow> translate (pg st) (cr3 (pg st)) (src + of_nat i) = Inr (ps i)"
    "\<And>i. i < n \<Longrightarrow> translate (pg st) (cr3 (pg st)) (dst + of_nat i) = Inr (base + i)"
    "\<And>i. i < n \<Longrightarrow> ps i < base \<or> base + n \<le> ps i"
  shows "\<exists>m. vmemcpy dst src n st = Inr (st\<lparr>pmem := m\<rparr>) \<and> (\<forall>i < n. m (base + i) = pmem st (ps i)) \<and>
    (\<forall>a. a < base \<or> base + n \<le> a \<longrightarrow> m a = pmem st a)"
  using assms
proof (induction n arbitrary: dst src st ps base)
  case 0
  then show ?case by (intro exI[of _ "pmem st"]) simp
next
  case (Suc n)
  let ?st = "st\<lparr>pmem := (pmem st)(base := pmem st (ps 0))\<rparr>"
  have t: "translate (pg st) (cr3 (pg st)) src = Inr (ps 0)" "translate (pg st) (cr3 (pg st)) dst = Inr base"
    using Suc.prems(1)[of 0] Suc.prems(2)[of 0] by simp_all
  have dis: "ps (Suc i) < base + 1 \<or> base + 1 + n \<le> ps (Suc i)" if "i < n" for i
    using Suc.prems(3)[of "Suc i"] that by auto
  have "\<exists>m. vmemcpy (dst + 1) (src + 1) n ?st = Inr (?st\<lparr>pmem := m\<rparr>) \<and>
      (\<forall>i < n. m (base + 1 + i) = pmem ?st (ps (Suc i))) \<and> (\<forall>a. a < base + 1 \<or> base + 1 + n \<le> a \<longrightarrow> m a = pmem ?st a)"
  proof (rule Suc.IH)
    fix i assume i: "i < n"
    show "translate (pg ?st) (cr3 (pg ?st)) (src + 1 + of_nat i) = Inr (ps (Suc i))"
      using Suc.prems(1)[of "Suc i"] i by (simp add: add.assoc)
    show "translate (pg ?st) (cr3 (pg ?st)) (dst + 1 + of_nat i) = Inr (base + 1 + i)"
      using Suc.prems(2)[of "Suc i"] i by (simp add: add.assoc)
    show "ps (Suc i) < base + 1 \<or> base + 1 + n \<le> ps (Suc i)" by (rule dis[OF i])
  qed
  then obtain m where m: "vmemcpy (dst + 1) (src + 1) n ?st = Inr (?st\<lparr>pmem := m\<rparr>)"
      "\<forall>i < n. m (base + 1 + i) = pmem ?st (ps (Suc i))" "\<forall>a. a < base + 1 \<or> base + 1 + n \<le> a \<longrightarrow> m a = pmem ?st a" by blast
  have run: "vmemcpy dst src (Suc n) st = Inr (st\<lparr>pmem := m\<rparr>)"
    using t m(1) by (simp add: vload_def vstore_def)
  have "m (base + i) = pmem st (ps i)" if i: "i < Suc n" for i
  proof (cases i)
    case 0
    then show ?thesis using m(3) by simp
  next
    case (Suc j)
    have "ps (Suc j) \<noteq> base" using Suc.prems(3)[OF i] Suc by auto
    then show ?thesis using m(2) i Suc by auto
  qed
  moreover have "\<forall>a. a < base \<or> base + Suc n \<le> a \<longrightarrow> m a = pmem st a" using m(3) by auto
  ultimately show ?case using run by blast
qed

section \<open>Copying into another address space\<close>

lemma TMP_window: "PageIndex4M TMP_SHARED_TASK_MEM_START = 5" "Is4MPageAligned TMP_SHARED_TASK_MEM_START"
  "\<not> kernel_index 5" "unat TMP_SHARED_TASK_MEM_START = 5 * kPageSize4M"
  by (simp_all add: PageIndex4M_div Is4MPageAligned_def kernel_defs kPageSize4M_def kernel_index_def)

lemma mask_page: "e AND kPageMask4M = PageAddr4M (PageIndex4M e)"
proof -
  have "e AND kPageMask4M = push_bit 22 (drop_bit 22 e)"
    by (rule bit_eqI) (auto simp: bit_and_iff bit_kPageMask4M bit_push_bit_iff bit_drop_bit_eq)
  also have "\<dots> = PageAddr4M (PageIndex4M e)" by (simp add: PageAddr4M_def PageIndex4M_def)
  finally show ?thesis .
qed

lemma mask_aligned: "Is4MPageAligned (e AND kPageMask4M)"
  by (simp add: mask_page)

lemma page_and_offset:
  shows "PageIndex4M (PageAddr4M (PageIndex4M va)) = PageIndex4M va" "Is4MPageAligned (PageAddr4M (PageIndex4M va))"
    "va - PageAddr4M (PageIndex4M va) = of_nat (unat va mod kPageSize4M)"
    "unat va mod kPageSize4M \<noteq> 0 \<Longrightarrow> PageAddr4M (PageIndex4M va) < va"
    "unat va mod kPageSize4M = 0 \<Longrightarrow> PageAddr4M (PageIndex4M va) = va"
proof -
  let ?p = "PageAddr4M (PageIndex4M va)"
  show "PageIndex4M ?p = PageIndex4M va" "Is4MPageAligned ?p" by simp_all
  have u: "unat ?p = PageIndex4M va * kPageSize4M" by (simp add: unat_PageAddr4M)
  have split: "unat va = unat ?p + unat va mod kPageSize4M" unfolding u by (simp add: PageIndex4M_div)
  have "of_nat (unat va) = (of_nat (unat ?p) + of_nat (unat va mod kPageSize4M) :: u32)"
    using split by (metis of_nat_add)
  then have "va = ?p + of_nat (unat va mod kPageSize4M)" by simp
  then show "va - ?p = of_nat (unat va mod kPageSize4M)" by (metis add_diff_cancel_left')
  show "?p < va" if "unat va mod kPageSize4M \<noteq> 0" using split that by (simp add: word_less_nat_alt)
  show "?p = va" if "unat va mod kPageSize4M = 0" using that by (intro PageAddr4M_PageIndex4M) (simp add: Is4MPageAligned_def)
qed

lemma translate_window:
  assumes "entry_set d 5 (mk_pde p f) s t" "paging_wf s" "valid_pd s d" "Is4MPageAligned p" "k < kPageSize4M"
  shows "translate t d (TMP_SHARED_TASK_MEM_START + of_nat k) = Inr (unat p + k)"
proof -
  have u: "unat (TMP_SHARED_TASK_MEM_START + of_nat k) = 5 * kPageSize4M + k"
    using assms(5) by (subst unat_add_small) (simp_all add: kernel_defs kPageSize4M_def)
  have i: "PageIndex4M (TMP_SHARED_TASK_MEM_START + of_nat k) = 5"
    using assms(5) unfolding PageIndex4M_div u by (simp add: kPageSize4M_def)
  have m: "unat (TMP_SHARED_TASK_MEM_START + of_nat k) mod kPageSize4M = k"
    using assms(5) unfolding u by simp
  have "pd_of t d ! 5 = mk_pde p f"
    using entry_set_nth[OF assms(1,3) length_pd_of[OF assms(2,3)], of 5] by simp
  then show ?thesis using assms(4) by (simp add: translate_def i m mk_pde_mask)
qed

lemma translate_elsewhere:
  assumes "entry_set d 5 e s t" "paging_wf s" "valid_pd s d'" "PageIndex4M va \<noteq> 5"
  shows "translate t d' va = translate s d' va"
  using entry_set_nth[OF assms(1,3) length_pd_of[OF assms(2,3)], of "PageIndex4M va"] assms(4)
  by (simp add: translate_def)

text \<open>What the copy needs: a window page in the current directory, and counts with room.\<close>

definition window_free :: "paging \<Rightarrow> pd_ref \<Rightarrow> bool" where
  "window_free s d \<longleftrightarrow> valid_pd s d \<and> pd_of s d ! 5 = 0 \<and> (\<forall>p < 1024. refcount (phys s) p + 1025 < 65536)"

lemma window_open_close:
  assumes inv: "paging_inv s" and win: "window_free s d" and al: "Is4MPageAligned p"
  shows "\<exists>t u. AddPage d TMP_SHARED_TASK_MEM_START p 0 True s = Inr t \<and> paging_inv t \<and> cr3 t = cr3 s \<and>
    entry_set d 5 (mk_pde p 0) s t \<and> RemovePage d TMP_SHARED_TASK_MEM_START t = Inr u \<and> paging_inv u \<and> same_view s u"
proof -
  have call: "call_ok s (CallAdd d TMP_SHARED_TASK_MEM_START p 0 True)"
    using win al TMP_window by (simp add: window_free_def may_map_def isVirtualMapped_def)
  have "\<not> shared_kernel_addr TMP_SHARED_TASK_MEM_START"
    using TMP_window by (simp add: shared_kernel_addr_index)
  then have "\<forall>d'. valid_pd s d' \<longrightarrow> d' = d \<or> d = KernelPD \<and> shared_kernel_addr TMP_SHARED_TASK_MEM_START \<longrightarrow>
      pd_of s d' ! PageIndex4M TMP_SHARED_TASK_MEM_START = 0"
    using win TMP_window by (simp add: window_free_def)
  from AddPage_undone[OF inv call this] obtain t u where
    "AddPage d TMP_SHARED_TASK_MEM_START p 0 True s = Inr t" "paging_inv t"
    "entry_set d 5 (mk_pde p 0) s t" "RemovePage d TMP_SHARED_TASK_MEM_START t = Inr u" "paging_inv u" "same_view s u"
    unfolding TMP_window(1) by blast
  then show ?thesis by (auto simp: entry_set_def)
qed

lemma translate_page:
  assumes "paging_inv s" "valid_pd s d" "translate s d va = Inr pa"
  shows "\<exists>frame. GetPhysicalAddr s d (PageAddr4M (PageIndex4M va)) = Inr frame \<and> Is4MPageAligned frame \<and>
    pa = unat frame + unat va mod kPageSize4M"
proof -
  let ?e = "pd_of s d ! PageIndex4M va"
  have pr: "present ?e" and pa: "pa = unat (?e AND kPageMask4M) + unat va mod kPageSize4M"
    using assms(3) by (auto simp: translate_def Let_def split: if_splits)
  have "isVirtualMapped s d (PageAddr4M (PageIndex4M va))" using pr by (simp add: isVirtualMapped_def)
  then have "GetPhysicalAddr s d (PageAddr4M (PageIndex4M va)) = Inr (?e AND kPageMask4M)"
    using GetPhysicalAddr_inv[OF assms(1,2), of "PageAddr4M (PageIndex4M va)"] by simp
  moreover have "Is4MPageAligned (?e AND kPageMask4M)" by (rule mask_aligned)
  ultimately show ?thesis using pa by blast
qed

lemma TaskMemcpy_code:
  assumes "0 < sz" "va = (if dir = CurrentToOther then dst else src)"
    "off = of_nat (unat va mod kPageSize4M)" "GetPhysicalAddr (pg st) tpd (PageAddr4M (PageIndex4M va)) = Inr paddr"
    "AddPage opd TMP_SHARED_TASK_MEM_START paddr 0 True (pg st) = Inr s"
  shows "TaskMemcpy dir False tpd opd dst src sz st =
    bindE (vmemcpy (if dir = CurrentToOther then TMP_SHARED_TASK_MEM_START + off else dst)
                   (if dir = CurrentToOther then src else TMP_SHARED_TASK_MEM_START + off) sz (st\<lparr>pg := s\<rparr>)) (\<lambda>st.
    bindE (RemovePage opd TMP_SHARED_TASK_MEM_START (pg st)) (\<lambda>s. Inr (st\<lparr>pg := s\<rparr>)))"
proof (cases "unat va mod kPageSize4M = 0")
  case True
  with assms(1,4,5) page_and_offset(5)[OF True] show ?thesis
    unfolding TaskMemcpy_def assms(2)[symmetric] by (simp add: assms(3) Let_def)
next
  case False
  with assms(1,4,5) page_and_offset(3,4)[of va] show ?thesis
    unfolding TaskMemcpy_def assms(2)[symmetric] by (simp add: assms(3) Let_def)
qed

text \<open>
  A concrete machine with two address spaces: start-up, a clone of the kernel's directory, and
  the user page of the clone mapped to frame 3.
\<close>

lemma two_spaces:
  obtains s b where "paging_inv s" "cr3 s = KernelPD" "valid_pd s (RegionPD b)" "window_free s KernelPD"
    "translate s (RegionPD b) 0x40000000 = Inr 0xC00000"
    "\<And>i. i < 16 \<Longrightarrow> translate s KernelPD (0x400000 + of_nat i) = Inr (0x400000 + i) \<and> PageIndex4M (0x400000 + of_nat i) \<noteq> 5"
proof -
  obtain s f where s: "InitializePaging 0x1FC00 boot0 = Inr s" "paging_inv s" "live s = {}"
    "kernel_pd s = (replicate 1024 0)[1 := mk_pde KERNEL_START f, 2 := mk_pde PAGE_DIRECTORY_REGION_START f]"
    by (rule boot0_up)
  have cr3: "cr3 s = KernelPD"
    using s(1) by (auto simp: InitializePaging_def Let_def assertE_Inr_iff bindE_Inr_iff SwitchPageDirectory_def)
  have co: "counts_ok s" using s(2) by (simp add: paging_inv_def)
  have cnt: "pd_count (kernel_pd s) p \<le> 1" "pd_count (kernel_pd s) 3 = 0" for p
    by (simp_all add: s(4) pd_count_set pd_count_zero PageIndex4M_layout)
  have rc: "refcount (phys s) p = reserved p + pd_count (kernel_pd s) p" if "p < 1024" for p
    using counts_okD(1)[OF co that] by (simp add: mapcount_def s(3))
  have "\<forall>p < 1024. refcount (phys s) p + pd_count (pd_of s KernelPD) p < 65536"
  proof (intro allI impI)
    fix p :: nat assume "p < 1024"
    then show "refcount (phys s) p + pd_count (pd_of s KernelPD) p < 65536"
      using rc[of p] cnt(1)[of p] by (simp add: pd_of_def reserved_def split: if_splits)
  qed
  then obtain b t where t: "b \<notin> live s" "paging_inv t" "live t = insert b (live s)" "cr3 t = cr3 s"
      "pd_of t (RegionPD b) = pd_of s KernelPD" "\<forall>d'. valid_pd s d' \<longrightarrow> pd_of t d' = pd_of s d'"
    using Clone_ok[OF s(2) valid_KernelPD, of 0] s(3) by auto
  have kt: "pd_of t KernelPD = kernel_pd s" "pd_of t (RegionPD b) = kernel_pd s"
    using t(5) t(6)[rule_format, OF valid_KernelPD] by (simp_all add: pd_of_def)
  have kpd: "kernel_pd t = kernel_pd s" using kt(1) by (simp add: pd_of_def)
  have mt: "mapcount t p = pd_count (kernel_pd s) p + pd_count (kernel_pd s) p" for p
    unfolding mapcount_live kpd t(3) s(3) by (simp add: kt(2))
  have cot: "counts_ok t" using t(2) by (simp add: paging_inv_def)
  have rct: "refcount (phys t) p \<le> 3" "refcount (phys t) 3 = 0" if "p < 1024" for p
    using counts_okD(1)[OF cot that] counts_okD(1)[OF cot, of 3] cnt(1)[of p] cnt(2) by (simp_all add: mt reserved_def)
  have idx: "PageIndex4M 0x40000000 = 256" "PageIndex4M 0xC00000 = 3" "Is4MPageAligned 0x40000000" "Is4MPageAligned 0xC00000"
    by (simp_all add: PageIndex4M_div Is4MPageAligned_def kPageSize4M_def)
  have vb: "valid_pd t (RegionPD b)" using t(3) by (simp add: valid_pd_def)
  have nm: "\<not> isVirtualMapped t (RegionPD b) 0x40000000" by (simp add: isVirtualMapped_def idx kt s(4))
  obtain u where u: "paging_inv u" "entry_set (RegionPD b) 256 (mk_pde 0xC00000 0) t u"
    using AddPage_ok[OF t(2), of "RegionPD b" "0x40000000" "0xC00000" False 0] vb nm idx rct[of 3]
    by (auto simp: may_map_def kernel_index_def)
  have wft: "paging_wf t" using cot by (rule counts_okD(2))
  have pu: "pd_of u (RegionPD b) ! 256 = mk_pde 0xC00000 0" "pd_of u KernelPD = kernel_pd s"
    using entry_set_nth[OF u(2) vb length_pd_of[OF wft vb], of 256] entry_setD[OF u(2), of KernelPD] kt by simp_all
  have ru: "pd_of u (RegionPD b) = (kernel_pd s)[256 := mk_pde 0xC00000 0]" using entry_setD[OF u(2) vb] kt by simp
  have lu: "live u = {b}" "cr3 u = KernelPD" "kernel_pd u = kernel_pd s"
    using u(2) t(3,4) s(3) cr3 pu(2) by (simp_all add: entry_set_def pd_of_def)
  have cou: "counts_ok u" using u(1) by (simp add: paging_inv_def)
  have len: "length (kernel_pd s) = 1024" "\<not> present (kernel_pd s ! 256)" by (simp_all add: s(4))
  have "refcount (phys u) p + 1025 < 65536" if p: "p < 1024" for p
  proof -
    have "mapcount u p \<le> 3"
      unfolding mapcount_live lu ru using cnt(1)[of p] cnt(2) len
      by (simp add: ru pd_count_set idx split: if_splits)
    then show ?thesis using counts_okD(1)[OF cou p] by (simp add: reserved_def split: if_splits)
  qed
  then have "window_free u KernelPD" by (simp add: window_free_def pu(2) s(4))
  moreover have "translate u (RegionPD b) 0x40000000 = Inr 0xC00000"
    using idx(4) by (simp add: translate_def idx(1) pu(1) mk_pde_mask kPageSize4M_def)
  moreover have "translate u KernelPD (0x400000 + of_nat i) = Inr (0x400000 + i) \<and> PageIndex4M (0x400000 + of_nat i) \<noteq> 5"
    if i: "i < 16" for i
  proof -
    have un: "unat (0x400000 + of_nat i :: u32) = 0x400000 + i" using i by (subst unat_add_small) simp_all
    have "PageIndex4M (0x400000 + of_nat i) = 1" using i unfolding PageIndex4M_div un by (simp add: kPageSize4M_def)
    moreover have "unat (0x400000 + of_nat i :: u32) mod kPageSize4M = i" using i unfolding un by (simp add: kPageSize4M_def)
    moreover have "mk_pde KERNEL_START f AND kPageMask4M = KERNEL_START" by (rule mk_pde_mask) (simp add: PageIndex4M_layout)
    ultimately show ?thesis by (simp add: translate_def pu(2) s(4) KERNEL_START_def)
  qed
  moreover have "valid_pd u (RegionPD b)" using lu(1) by (simp add: valid_pd_def)
  ultimately show thesis using that u(1) lu(2) by blast
qed

lemma Task_Write_ok:
  assumes inv: "paging_inv (pg st)" and win: "window_free (pg st) (cr3 (pg st))" and tpd: "valid_pd (pg st) tpd"
    and dst: "translate (pg st) tpd this_dst = Inr base" and fits: "unat this_dst mod kPageSize4M + sz \<le> kPageSize4M"
    and src: "\<forall>i < sz. translate (pg st) (cr3 (pg st)) (current_src + of_nat i) = Inr (ps i) \<and> PageIndex4M (current_src + of_nat i) \<noteq> 5"
    and apart: "\<forall>i < sz. ps i < base \<or> base + sz \<le> ps i"
  shows "\<exists>st'. Task_Write False tpd (cr3 (pg st)) this_dst current_src sz st = Inr st' \<and> paging_inv (pg st') \<and> same_view (pg st) (pg st') \<and>
    (\<forall>i < sz. pmem st' (base + i) = pmem st (ps i)) \<and> (\<forall>a. a < base \<or> base + sz \<le> a \<longrightarrow> pmem st' a = pmem st a)"
proof (cases "sz = 0")
  case True
  then show ?thesis using inv by (simp add: Task_Write_def TaskMemcpy_def same_view_def)
next
  case False
  let ?d = "cr3 (pg st)" and ?off = "unat this_dst mod kPageSize4M"
  have wf: "paging_wf (pg st)" and vd: "valid_pd (pg st) ?d"
    using inv win by (simp_all add: paging_inv_def counts_ok_def window_free_def)
  obtain paddr where p: "GetPhysicalAddr (pg st) tpd (PageAddr4M (PageIndex4M this_dst)) = Inr paddr"
      "Is4MPageAligned paddr" "base = unat paddr + ?off"
    using translate_page[OF inv tpd dst] by blast
  obtain t u where t: "AddPage ?d TMP_SHARED_TASK_MEM_START paddr 0 True (pg st) = Inr t" "cr3 t = ?d"
      "entry_set ?d 5 (mk_pde paddr 0) (pg st) t" "RemovePage ?d TMP_SHARED_TASK_MEM_START t = Inr u" "same_view (pg st) u" "paging_inv u"
    using window_open_close[OF inv win p(2)] by blast
  have run: "\<exists>m. vmemcpy (TMP_SHARED_TASK_MEM_START + of_nat ?off) current_src sz (st\<lparr>pg := t\<rparr>) = Inr (st\<lparr>pg := t, pmem := m\<rparr>) \<and>
      (\<forall>i < sz. m (base + i) = pmem (st\<lparr>pg := t\<rparr>) (ps i)) \<and> (\<forall>a. a < base \<or> base + sz \<le> a \<longrightarrow> m a = pmem (st\<lparr>pg := t\<rparr>) a)"
  proof (rule vmemcpy_ok)
    fix i assume i: "i < sz"
    show "translate (pg (st\<lparr>pg := t\<rparr>)) (cr3 (pg (st\<lparr>pg := t\<rparr>))) (current_src + of_nat i) = Inr (ps i)"
      using src i translate_elsewhere[OF t(3) wf vd] by (simp add: t(2))
    have "translate t ?d (TMP_SHARED_TASK_MEM_START + of_nat (?off + i)) = Inr (unat paddr + (?off + i))"
      by (rule translate_window[OF t(3) wf vd p(2)]) (use fits i in simp)
    then show "translate (pg (st\<lparr>pg := t\<rparr>)) (cr3 (pg (st\<lparr>pg := t\<rparr>))) (TMP_SHARED_TASK_MEM_START + of_nat ?off + of_nat i) = Inr (base + i)"
      by (simp add: t(2) p(3) add.assoc)
    show "ps i < base \<or> base + sz \<le> ps i" using apart i by simp
  qed
  then obtain m where m: "vmemcpy (TMP_SHARED_TASK_MEM_START + of_nat ?off) current_src sz (st\<lparr>pg := t\<rparr>) = Inr (st\<lparr>pg := t, pmem := m\<rparr>)"
      "\<forall>i < sz. m (base + i) = pmem st (ps i)" "\<forall>a. a < base \<or> base + sz \<le> a \<longrightarrow> m a = pmem st a" by auto
  have "Task_Write False tpd ?d this_dst current_src sz st = Inr (st\<lparr>pg := u, pmem := m\<rparr>)"
    using TaskMemcpy_code[OF _ _ refl _ t(1), of sz this_dst CurrentToOther this_dst current_src tpd] False p(1) m(1) t(4)
    by (simp add: Task_Write_def)
  with m t(5,6) show ?thesis by (intro exI[of _ "st\<lparr>pg := u, pmem := m\<rparr>"]) simp
qed

text \<open>
  C10. \<open>Task::Write\<close> copies bytes from the current address space into another task's, provided they
  lie in one page there: afterwards the physical bytes behind \<open>this_dst\<close> in the other
  directory are the source bytes, no other byte of memory has changed, and the temporary
  mapping is gone: bitmaps, counts and all directories are exactly as before.
\<close>

theorem Task_Write_correct:
  assumes inv: "paging_inv (pg st)" and win: "window_free (pg st) (cr3 (pg st))" and tpd: "valid_pd (pg st) tpd"
    and dst: "translate (pg st) tpd this_dst = Inr base" and fits: "unat this_dst mod kPageSize4M + sz \<le> kPageSize4M"
    and src: "\<forall>i < sz. translate (pg st) (cr3 (pg st)) (current_src + of_nat i) = Inr (ps i) \<and> PageIndex4M (current_src + of_nat i) \<noteq> 5"
    and apart: "\<forall>i < sz. ps i < base \<or> base + sz \<le> ps i"
  shows "\<exists>st'. Task_Write False tpd (cr3 (pg st)) this_dst current_src sz st = Inr st' \<and> same_view (pg st) (pg st') \<and>
    (\<forall>i < sz. pmem st' (base + i) = pmem st (ps i)) \<and> (\<forall>a. a < base \<or> base + sz \<le> a \<longrightarrow> pmem st' a = pmem st a)"
  using Task_Write_ok[OF assms] by blast

theorem Task_Write_correct_witness:
  "\<exists>(st :: vm) b st'. Task_Write False (RegionPD b) (cr3 (pg st)) 0x40000000 0x400000 16 st = Inr st' \<and>
     (\<forall>i < 16. pmem st' (0xC00000 + i) = pmem st (0x400000 + i))"
proof (rule two_spaces)
  fix s b assume s: "paging_inv s" "cr3 s = KernelPD" "valid_pd s (RegionPD b)" "window_free s KernelPD"
    "translate s (RegionPD b) 0x40000000 = Inr 0xC00000"
    "\<And>i. i < 16 \<Longrightarrow> translate s KernelPD (0x400000 + of_nat i) = Inr (0x400000 + i) \<and> PageIndex4M (0x400000 + of_nat i) \<noteq> 5"
  let ?st = "\<lparr>pg = s, pmem = \<lambda>_. 0\<rparr>"
  have "\<exists>st'. Task_Write False (RegionPD b) (cr3 (pg ?st)) 0x40000000 0x400000 16 ?st = Inr st' \<and> same_view (pg ?st) (pg st') \<and>
      (\<forall>i < 16. pmem st' (0xC00000 + i) = pmem ?st (0x400000 + i)) \<and> (\<forall>a. a < 0xC00000 \<or> 0xC00000 + 16 \<le> a \<longrightarrow> pmem st' a = pmem ?st a)"
    by (rule Task_Write_correct) (use s in \<open>simp_all add: kPageSize4M_def\<close>)
  then show ?thesis by blast
qed

text \<open>
  \<open>Task::Read\<close> is the same copy in the other direction: bytes of one page of another
  task's address space arrive at \<open>current_dst\<close> in the current one, and nothing else changes.
\<close>

theorem Task_Read_correct:
  assumes inv: "paging_inv (pg st)" and win: "window_free (pg st) (cr3 (pg st))" and tpd: "valid_pd (pg st) tpd"
    and src: "translate (pg st) tpd task_src = Inr sbase" and fits: "unat task_src mod kPageSize4M + sz \<le> kPageSize4M"
    and dst: "\<forall>i < sz. translate (pg st) (cr3 (pg st)) (current_dst + of_nat i) = Inr (base + i) \<and> PageIndex4M (current_dst + of_nat i) \<noteq> 5"
    and apart: "sbase + sz \<le> base \<or> base + sz \<le> sbase"
  shows "\<exists>st'. Task_Read False tpd (cr3 (pg st)) current_dst task_src sz st = Inr st' \<and> same_view (pg st) (pg st') \<and>
    (\<forall>i < sz. pmem st' (base + i) = pmem st (sbase + i)) \<and> (\<forall>a. a < base \<or> base + sz \<le> a \<longrightarrow> pmem st' a = pmem st a)"
proof (cases "sz = 0")
  case True
  then show ?thesis by (simp add: Task_Read_def TaskMemcpy_def same_view_def)
next
  case False
  let ?d = "cr3 (pg st)" and ?off = "unat task_src mod kPageSize4M"
  have wf: "paging_wf (pg st)" and vd: "valid_pd (pg st) ?d"
    using inv win by (simp_all add: paging_inv_def counts_ok_def window_free_def)
  obtain paddr where p: "GetPhysicalAddr (pg st) tpd (PageAddr4M (PageIndex4M task_src)) = Inr paddr"
      "Is4MPageAligned paddr" "sbase = unat paddr + ?off"
    using translate_page[OF inv tpd src] by blast
  obtain t u where t: "AddPage ?d TMP_SHARED_TASK_MEM_START paddr 0 True (pg st) = Inr t" "cr3 t = ?d"
      "entry_set ?d 5 (mk_pde paddr 0) (pg st) t" "RemovePage ?d TMP_SHARED_TASK_MEM_START t = Inr u" "same_view (pg st) u"
    using window_open_close[OF inv win p(2)] by blast
  have run: "\<exists>m. vmemcpy current_dst (TMP_SHARED_TASK_MEM_START + of_nat ?off) sz (st\<lparr>pg := t\<rparr>) = Inr (st\<lparr>pg := t, pmem := m\<rparr>) \<and>
      (\<forall>i < sz. m (base + i) = pmem (st\<lparr>pg := t\<rparr>) (sbase + i)) \<and> (\<forall>a. a < base \<or> base + sz \<le> a \<longrightarrow> m a = pmem (st\<lparr>pg := t\<rparr>) a)"
  proof (rule vmemcpy_ok)
    fix i assume i: "i < sz"
    show "translate (pg (st\<lparr>pg := t\<rparr>)) (cr3 (pg (st\<lparr>pg := t\<rparr>))) (current_dst + of_nat i) = Inr (base + i)"
      using dst i translate_elsewhere[OF t(3) wf vd] by (simp add: t(2))
    have "translate t ?d (TMP_SHARED_TASK_MEM_START + of_nat (?off + i)) = Inr (unat paddr + (?off + i))"
      by (rule translate_window[OF t(3) wf vd p(2)]) (use fits i in simp)
    then show "translate (pg (st\<lparr>pg := t\<rparr>)) (cr3 (pg (st\<lparr>pg := t\<rparr>))) (TMP_SHARED_TASK_MEM_START + of_nat ?off + of_nat i) = Inr (sbase + i)"
      by (simp add: t(2) p(3) add.assoc)
    show "sbase + i < base \<or> base + sz \<le> sbase + i" using apart i by auto
  qed
  then obtain m where m: "vmemcpy current_dst (TMP_SHARED_TASK_MEM_START + of_nat ?off) sz (st\<lparr>pg := t\<rparr>) = Inr (st\<lparr>pg := t, pmem := m\<rparr>)"
      "\<forall>i < sz. m (base + i) = pmem st (sbase + i)" "\<forall>a. a < base \<or> base + sz \<le> a \<longrightarrow> m a = pmem st a" by auto
  have "Task_Read False tpd ?d current_dst task_src sz st = Inr (st\<lparr>pg := u, pmem := m\<rparr>)"
    using TaskMemcpy_code[OF _ _ refl _ t(1), of sz task_src OtherToCurrent current_dst task_src tpd] False p(1) m(1) t(4)
    by (simp add: Task_Read_def)
  with m t(5) show ?thesis by (intro exI[of _ "st\<lparr>pg := u, pmem := m\<rparr>"]) simp
qed

theorem Task_Read_correct_witness:
  "\<exists>(st :: vm) b st'. Task_Read False (RegionPD b) (cr3 (pg st)) 0x400000 0x40000000 16 st = Inr st' \<and>
     (\<forall>i < 16. pmem st' (0x400000 + i) = pmem st (0xC00000 + i))"
proof (rule two_spaces)
  fix s b assume s: "paging_inv s" "cr3 s = KernelPD" "valid_pd s (RegionPD b)" "window_free s KernelPD"
    "translate s (RegionPD b) 0x40000000 = Inr 0xC00000"
    "\<And>i. i < 16 \<Longrightarrow> translate s KernelPD (0x400000 + of_nat i) = Inr (0x400000 + i) \<and> PageIndex4M (0x400000 + of_nat i) \<noteq> 5"
  let ?st = "\<lparr>pg = s, pmem = \<lambda>_. 0\<rparr>"
  have "\<exists>st'. Task_Read False (RegionPD b) (cr3 (pg ?st)) 0x400000 0x40000000 16 ?st = Inr st' \<and> same_view (pg ?st) (pg st') \<and>
      (\<forall>i < 16. pmem st' (0x400000 + i) = pmem ?st (0xC00000 + i)) \<and> (\<forall>a. a < 0x400000 \<or> 0x400000 + 16 \<le> a \<longrightarrow> pmem st' a = pmem ?st a)"
    by (rule Task_Read_correct) (use s in \<open>simp_all add: kPageSize4M_def\<close>)
  then show ?thesis by blast
qed

end
