(* ===== verification/CString.thy ===== *)
theory CString
  imports Prelude
begin

text \<open>
  Bytes in memory and the string library: \<^verbatim>\<open>libc/string.cpp\<close>, \<^verbatim>\<open>libc/ctype.cpp\<close> and
  \<^verbatim>\<open>libc/type.cpp\<close>. Memory maps addresses to bytes. \<open>char\<close> is a signed 8-bit type on the
  target, so comparisons of characters read the byte with \<open>sint\<close>. A scan for a terminator
  that is not there never ends: it is a partial function, and its value is then \<open>Diverges\<close>.
\<close>

type_synonym mem = "nat \<Rightarrow> u8"

definition terminates :: "'a option \<Rightarrow> 'a result" where
  "terminates r = (case r of None \<Rightarrow> Inl Diverges | Some x \<Rightarrow> Inr x)"

lemma terminates_Some [simp]: "terminates (Some x) = Inr x"
  by (simp add: terminates_def)

section \<open>Definitions\<close>

fun memset :: "nat \<Rightarrow> u8 \<Rightarrow> nat \<Rightarrow> mem \<Rightarrow> mem" where
  "memset p v 0 m = m"
| "memset p v (Suc sz) m = memset (p + 1) v sz (m(p := v))"

fun memcpy :: "nat \<Rightarrow> nat \<Rightarrow> nat \<Rightarrow> mem \<Rightarrow> mem" where
  "memcpy p_dst p_src 0 m = m"
| "memcpy p_dst p_src (Suc num) m = memcpy (p_dst + 1) (p_src + 1) num (m(p_dst := m p_src))"

partial_function (option) strlen_loop :: "mem \<Rightarrow> nat \<Rightarrow> nat \<Rightarrow> nat option" where
  "strlen_loop m str len = (if m (str + len) \<noteq> 0 then strlen_loop m str (len + 1) else Some len)"

definition strlen :: "mem \<Rightarrow> nat \<Rightarrow> nat result" where
  "strlen m str = terminates (strlen_loop m str 0)"

text \<open>\<open>strncpy\<close> returns the memory and the pointer the source returns: the advanced \<open>dst\<close>.\<close>

definition strncpy :: "nat \<Rightarrow> nat \<Rightarrow> nat \<Rightarrow> mem \<Rightarrow> (nat \<times> mem) result" where
  "strncpy dst src num m =
     bindE (strlen m src) (\<lambda>len.
     let cpy = (if len < num then len else num);
         m = memcpy dst src cpy m;
         m = memset (dst + cpy) 0 (num - cpy) m in
     Inr (dst + cpy + (num - cpy), m))"

partial_function (option) strcmp_loop :: "mem \<Rightarrow> nat \<Rightarrow> nat \<Rightarrow> int option" where
  "strcmp_loop m s1 s2 =
     (if m s1 \<noteq> 0 \<and> m s1 = m s2 then strcmp_loop m (s1 + 1) (s2 + 1)
      else Some (sint (m s1) - sint (m s2)))"

definition strcmp :: "mem \<Rightarrow> nat \<Rightarrow> nat \<Rightarrow> int result" where
  "strcmp m s1 s2 = terminates (strcmp_loop m s1 s2)"

fun memcmp :: "mem \<Rightarrow> nat \<Rightarrow> nat \<Rightarrow> nat \<Rightarrow> int" where
  "memcmp m v1 v2 0 = uint (m v1) - uint (m v2)"
| "memcmp m v1 v2 (Suc sz) =
     (if m v1 = m v2 then memcmp m (v1 + 1) (v2 + 1) sz else uint (m v1) - uint (m v2))"

definition isprint :: "u8 \<Rightarrow> bool" where
  "isprint c \<longleftrightarrow> 32 \<le> sint c \<and> sint c < 127"

definition isspace :: "u8 \<Rightarrow> bool" where
  "isspace c \<longleftrightarrow> c = 0x20 \<or> c = 0x0C \<or> c = 0x0A \<or> c = 0x0D \<or> c = 0x09 \<or> c = 0x0B"

definition islower :: "int \<Rightarrow> bool" where "islower ch \<longleftrightarrow> 97 \<le> ch \<and> ch \<le> 122"
definition isupper :: "int \<Rightarrow> bool" where "isupper ch \<longleftrightarrow> 65 \<le> ch \<and> ch \<le> 90"
definition isdigit :: "int \<Rightarrow> bool" where "isdigit ch \<longleftrightarrow> 48 \<le> ch \<and> ch \<le> 57"
definition isalpha :: "int \<Rightarrow> bool" where "isalpha ch \<longleftrightarrow> islower ch \<or> isupper ch"
definition toupper :: "int \<Rightarrow> int" where "toupper ch = (if islower ch then ch - (97 - 65) else ch)"

section \<open>Copying and filling\<close>

lemma memset_spec: "memset p v n m a = (if p \<le> a \<and> a < p + n then v else m a)"
  by (induction n arbitrary: p m) auto

lemma memcpy_outside: "\<not> (d \<le> a \<and> a < d + n) \<Longrightarrow> memcpy d s n m a = m a"
  by (induction n arbitrary: d s m) auto

text \<open>The two ranges do not overlap, or the destination lies below the source: the bytes arrive.\<close>

lemma memcpy_inside:
  assumes "s + n \<le> d \<or> d + n \<le> s \<or> d \<le> s" "i < n"
  shows "memcpy d s n m (d + i) = m (s + i)"
  using assms
proof (induction n arbitrary: d s m i)
  case 0
  then show ?case by simp
next
  case (Suc n)
  let ?m = "m(d := m s)"
  have dis: "s + 1 + n \<le> d + 1 \<or> d + 1 + n \<le> s + 1 \<or> d + 1 \<le> s + 1" using Suc.prems(1) by auto
  show ?case
  proof (cases i)
    case 0
    then show ?thesis using memcpy_outside[of "d + 1" d n "s + 1" ?m] by simp
  next
    case (Suc j)
    then have "memcpy (d + 1) (s + 1) n ?m (d + 1 + j) = ?m (s + 1 + j)"
      using Suc.IH[OF dis, of j ?m] Suc.prems(2) by (simp add: fun_upd_def)
    moreover have "s + 1 + j \<noteq> d" using Suc.prems Suc by auto
    ultimately show ?thesis using Suc by simp
  qed
qed

section \<open>Strings\<close>

text \<open>\<open>cstr m p s\<close>: a C string with the characters \<open>s\<close> lies at \<open>p\<close>.\<close>

definition cstr :: "mem \<Rightarrow> nat \<Rightarrow> u8 list \<Rightarrow> bool" where
  "cstr m p s \<longleftrightarrow> (\<forall>i < length s. m (p + i) = s ! i \<and> s ! i \<noteq> 0) \<and> m (p + length s) = 0"

lemma cstr_Nil: "cstr m p [] \<longleftrightarrow> m p = 0"
  by (simp add: cstr_def)

lemma cstr_Cons: "cstr m p (c # s) \<longleftrightarrow> m p = c \<and> c \<noteq> 0 \<and> cstr m (p + 1) s"
  by (auto simp: cstr_def less_Suc_eq_0_disj)

lemma cstr_cong: "(\<And>i. i \<le> length s \<Longrightarrow> m' (p + i) = m (p + i)) \<Longrightarrow> cstr m' p s = cstr m p s"
  by (auto simp: cstr_def)

lemma strlen_loop_run: "k \<le> length s \<Longrightarrow> cstr m str s \<Longrightarrow> strlen_loop m str k = Some (length s)"
proof (induction "length s - k" arbitrary: k)
  case 0
  then show ?case by (subst strlen_loop.simps) (simp add: cstr_def)
next
  case (Suc n)
  then have "m (str + k) \<noteq> 0" by (simp add: cstr_def)
  then show ?case using Suc by (subst strlen_loop.simps) simp
qed

lemma strlen_ok: "cstr m p s \<Longrightarrow> strlen m p = Inr (length s)"
  by (simp add: strlen_def strlen_loop_run)

text \<open>
  \<open>strncpy\<close> copies the source string and pads with zeros up to \<open>num\<close> bytes, truncating a
  longer string, and writes nothing else. It returns the address after the last byte written,
  where the C library's returns \<open>dst\<close>.
\<close>

theorem strncpy_correct:
  assumes "cstr m src s" "src + length s < dst \<or> dst + num \<le> src"
  shows "\<exists>m'. strncpy dst src num m = Inr (dst + num, m') \<and>
    (\<forall>i < num. m' (dst + i) = (if i < length s then s ! i else 0)) \<and>
    (\<forall>a. a < dst \<or> dst + num \<le> a \<longrightarrow> m' a = m a)"
proof -
  let ?c = "if length s < num then length s else num"
  let ?m = "memset (dst + ?c) 0 (num - ?c) (memcpy dst src ?c m)"
  have dis: "src + ?c \<le> dst \<or> dst + ?c \<le> src \<or> dst \<le> src" using assms(2) by auto
  have "strncpy dst src num m = Inr (dst + num, ?m)"
    by (simp add: strncpy_def strlen_ok[OF assms(1)] Let_def)
  moreover have "?m (dst + i) = (if i < length s then s ! i else 0)" if "i < num" for i
    using that memcpy_inside[OF dis, of i m] assms(1) by (auto simp: memset_spec cstr_def)
  moreover have "?m a = m a" if "a < dst \<or> dst + num \<le> a" for a
    using that memcpy_outside[of dst a ?c src m] by (auto simp: memset_spec)
  ultimately show ?thesis by blast
qed

theorem strncpy_correct_witness:
  "\<exists>m'. strncpy 8 0 4 (\<lambda>a. if a < 2 then 0x41 else 0) = Inr (12, m') \<and> m' 8 = 0x41 \<and> m' 9 = 0x41 \<and> m' 10 = 0"
proof -
  let ?m = "\<lambda>a. if a < 2 then 0x41 else 0"
  have s: "cstr ?m 0 [0x41, 0x41]" by (simp add: cstr_Cons cstr_Nil)
  obtain m' where "strncpy 8 0 4 ?m = Inr (12, m')"
      "\<forall>i < 4. m' (8 + i) = (if i < 2 then [0x41, 0x41] ! i else 0)"
    using strncpy_correct[OF s, of 8 4] by auto
  from this(1) this(2)[rule_format, of 0] this(2)[rule_format, of 1] this(2)[rule_format, of 2]
  show ?thesis by simp
qed

text \<open>The order of the strings as lists of signed characters, a proper prefix first.\<close>

fun str_order :: "u8 list \<Rightarrow> u8 list \<Rightarrow> int" where
  "str_order [] [] = 0"
| "str_order [] (d # t) = - sint d"
| "str_order (c # s) [] = sint c"
| "str_order (c # s) (d # t) = (if c = d then str_order s t else sint c - sint d)"

lemma strcmp_loop_run: "cstr m p s \<Longrightarrow> cstr m q t \<Longrightarrow> strcmp_loop m p q = Some (str_order s t)"
proof (induction s t arbitrary: p q rule: str_order.induct)
  case (4 c s d t)
  then show ?case by (subst strcmp_loop.simps) (auto simp: cstr_Cons)
qed (subst strcmp_loop.simps; simp add: cstr_Nil cstr_Cons)+

lemma str_order_zero: "0 \<notin> set s \<Longrightarrow> 0 \<notin> set t \<Longrightarrow> str_order s t = 0 \<longleftrightarrow> s = t"
  by (induction s t rule: str_order.induct) (auto simp: signed_eq_0_iff dest: signed_word_eqI)

lemma cstr_nonzero: "cstr m p s \<Longrightarrow> 0 \<notin> set s"
  by (auto simp: cstr_def in_set_conv_nth)

text \<open>
  \<open>strcmp\<close> of two terminated strings ends and returns 0 exactly when the strings are equal;
  otherwise the difference of the first characters that differ, read as signed characters.
\<close>

theorem strcmp_correct:
  assumes "cstr m p s" "cstr m q t"
  shows "strcmp m p q = Inr (str_order s t) \<and> (str_order s t = 0 \<longleftrightarrow> s = t)"
  using strcmp_loop_run[OF assms] str_order_zero[OF cstr_nonzero[OF assms(1)] cstr_nonzero[OF assms(2)]]
  by (simp add: strcmp_def)

theorem strcmp_correct_witness:
  "strcmp (\<lambda>a. if a = 0 then 0x61 else if a = 4 then 0x62 else 0) 0 4 = Inr (- 1)"
  using strcmp_correct[of "\<lambda>a. if a = 0 then 0x61 else if a = 4 then 0x62 else 0" 0 "[0x61]" 4 "[0x62]"]
  by (simp add: cstr_Cons cstr_Nil)

lemma memcmp_run:
  assumes "\<forall>i < sz. m (p + i) = m (q + i)"
  shows "memcmp m p q sz = uint (m (p + sz)) - uint (m (q + sz))"
  using assms
proof (induction sz arbitrary: p q)
  case 0
  then show ?case by simp
next
  case (Suc n)
  then have "m p = m q" by (metis add.right_neutral zero_less_Suc)
  moreover have "\<forall>i < n. m (p + 1 + i) = m (q + 1 + i)" using Suc.prems by auto
  ultimately show ?case using Suc.IH[of "p + 1" "q + 1"] by simp
qed

text \<open>
  \<open>memcmp\<close> does not stop at \<open>size\<close> when it computes its result: on equal ranges it returns
  the difference of the two bytes that follow them, so it is 0 only if these agree too.
\<close>

theorem memcmp_equal_ranges:
  assumes "\<forall>i < sz. m (p + i) = m (q + i)"
  shows "memcmp m p q sz = uint (m (p + sz)) - uint (m (q + sz))"
  by (rule memcmp_run[OF assms])

theorem memcmp_equal_ranges_witness:
  "memcmp (\<lambda>a. if a = 2 then 7 else 0) 0 4 2 = 7"
  using memcmp_equal_ranges[of 2 "\<lambda>a. if a = 2 then 7 else 0" 0 4] by (auto simp: less_2_cases_iff)

lemma memcmp_different:
  assumes "i < sz" "m (p + i) \<noteq> m (q + i)" "\<forall>j < i. m (p + j) = m (q + j)"
  shows "memcmp m p q sz = uint (m (p + i)) - uint (m (q + i))"
  using assms
proof (induction i arbitrary: p q sz)
  case 0
  then show ?case by (cases sz) auto
next
  case (Suc i)
  then obtain n where n: "sz = Suc n" by (cases sz) auto
  have "m p = m q" using Suc.prems(3) by (metis add.right_neutral zero_less_Suc)
  moreover have "\<forall>j < i. m (p + 1 + j) = m (q + 1 + j)" using Suc.prems(3) by auto
  ultimately show ?case using Suc.IH[of n "p + 1" "q + 1"] Suc.prems n by simp
qed

end
