(* ===== verification/Allocator.thy ===== *)
theory Allocator
  imports CString MathUtils
begin

text \<open>
  \<^verbatim>\<open>utils/allocator.cpp\<close> and \<^verbatim>\<open>utils/include/allocator.h\<close>: the first-fit heap both the kernel
  and user programs allocate from. The heap is the bytes between \<open>heap_start_\<close> and \<open>heap_\<close>, a
  sequence of chunks, each opened by a 4-byte header: 31 bits of size (header included) and
  one bit \<open>used\<close>. Sizes and addresses are naturals, reduced modulo \<open>2 ^ 32\<close> wherever the source
  computes in \<open>size_t\<close> or moves a pointer, and modulo \<open>2 ^ 31\<close> where it stores into the size
  field. \<open>sbrk_\<close>, the function the allocator grows the heap with, is a parameter; it acts on
  a state of its own, the field \<open>world\<close>. Null is 0. The fields
  drop the trailing underscore of the members of the class.
\<close>

definition wrap :: "nat \<Rightarrow> nat" where
  "wrap x = x mod 0x100000000"

definition kMaxAlignment :: nat where "kMaxAlignment = 4"

section \<open>Headers\<close>

definition rd32 :: "mem \<Rightarrow> nat \<Rightarrow> nat" where
  "rd32 m a = unat (m a) + 0x100 * unat (m (a + 1)) + 0x10000 * unat (m (a + 2)) + 0x1000000 * unat (m (a + 3))"

definition wr32 :: "nat \<Rightarrow> nat \<Rightarrow> mem \<Rightarrow> mem" where
  "wr32 a v m = m(a := of_nat v, a + 1 := of_nat (v div 0x100), a + 2 := of_nat (v div 0x10000),
                  a + 3 := of_nat (v div 0x1000000))"

definition hdr_size :: "mem \<Rightarrow> nat \<Rightarrow> nat" where
  "hdr_size m a = rd32 m a mod 0x80000000"

definition hdr_used :: "mem \<Rightarrow> nat \<Rightarrow> bool" where
  "hdr_used m a \<longleftrightarrow> rd32 m a div 0x80000000 = 1"

definition set_size :: "nat \<Rightarrow> nat \<Rightarrow> mem \<Rightarrow> mem" where
  "set_size a s m = wr32 a (s mod 0x80000000 + (if hdr_used m a then 0x80000000 else 0)) m"

definition set_used :: "nat \<Rightarrow> bool \<Rightarrow> mem \<Rightarrow> mem" where
  "set_used a u m = wr32 a (hdr_size m a + (if u then 0x80000000 else 0)) m"

definition FromPointer :: "nat \<Rightarrow> nat" where
  "FromPointer p = wrap (p + 0x100000000 - 4)"

definition NextChunk_at :: "nat \<Rightarrow> nat \<Rightarrow> nat" where
  "NextChunk_at chunk sz = wrap (chunk + sz)"

definition NextChunk :: "mem \<Rightarrow> nat \<Rightarrow> nat" where
  "NextChunk m chunk = wrap (chunk + hdr_size m chunk)"

definition GetMinMallocSize :: nat where "GetMinMallocSize = 4"

section \<open>The allocator\<close>

record 'w alloc =
  mem :: mem
  heap :: nat
  heap_used :: nat
  heap_start :: nat
  heap_end :: nat
  world :: 'w

type_synonym 'w sbrk = "nat \<Rightarrow> nat \<Rightarrow> 'w \<Rightarrow> (nat \<times> 'w) result"

definition upd_mem :: "(mem \<Rightarrow> mem) \<Rightarrow> 'w alloc \<Rightarrow> 'w alloc" where
  "upd_mem f st = st\<lparr>mem := f (mem st)\<rparr>"

definition InitializeHeap :: "'w sbrk \<Rightarrow> 'w alloc \<Rightarrow> 'w alloc result" where
  "InitializeHeap sbrk st =
     assertE (heap_end st \<noteq> 0 \<longrightarrow> heap_start st < heap_end st) ''heap_end_ > heap_start_'' (
     bindE (sbrk 1 (heap st) (world st)) (\<lambda>(h, w).
     let st = st\<lparr>heap := h, world := w\<rparr> in
     assertE (heap_start st < heap st) ''heap_ > heap_start_'' (
     Inr (upd_mem (set_size (heap_start st) (heap st - heap_start st)) (upd_mem (set_used (heap_start st) False) st)))))"

definition Init :: "'w sbrk \<Rightarrow> nat \<Rightarrow> nat \<Rightarrow> 'w alloc \<Rightarrow> 'w alloc result" where
  "Init sbrk start0 end0 st =
     InitializeHeap sbrk (st\<lparr>heap := start0, heap_end := end0, heap_used := 0, heap_start := start0\<rparr>)"

definition getHeapUsed :: "'w alloc \<Rightarrow> nat" where "getHeapUsed st = heap_used st"
definition getHeap :: "'w alloc \<Rightarrow> nat" where "getHeap st = heap st"

text \<open>\<open>None\<close>: the chunk cannot be used; \<open>Some adjust\<close>: it can, at \<open>adjust\<close> bytes from its start.\<close>

definition CanUseChunk :: "nat \<Rightarrow> nat \<Rightarrow> mem \<Rightarrow> nat \<Rightarrow> nat option" where
  "CanUseChunk realsize alignment m chunk =
     (if hdr_used m chunk then None
      else if hdr_size m chunk < realsize then None
      else let addr = wrap (chunk + 4);
               adjust = (alignment - addr mod alignment) mod alignment in
           if adjust = 0 then Some 0
           else if hdr_size m chunk < wrap (adjust + realsize) then None
           else Some adjust)"

text \<open>The growth of the heap inside the search loop.\<close>

definition GrowHeap :: "'w sbrk \<Rightarrow> nat \<Rightarrow> nat \<Rightarrow> 'w alloc \<Rightarrow> 'w alloc result" where
  "GrowHeap sbrk realsize chunk st =
     (let old_heap_top = heap st in
      bindE (sbrk realsize (heap st) (world st)) (\<lambda>(new_heap_top, w).
      let st = st\<lparr>heap := new_heap_top, world := w\<rparr> in
      assertE (new_heap_top \<noteq> 0) ''No memory left for kernel!'' (
      assertE (old_heap_top < new_heap_top) ''Heap did not increase.'' (
      let increase = new_heap_top - old_heap_top in
      assertE (realsize \<le> increase) ''sbrk did not get the requested size.'' (
      bindE (if chunk = old_heap_top
             then Inr (upd_mem (set_used chunk False) (upd_mem (set_size chunk increase) st))
             else (let st = upd_mem (set_size chunk (wrap (hdr_size (mem st) chunk + increase))) st in
                   assertE (\<not> hdr_used (mem st) chunk) ''!chunk->used'' (Inr st))) (\<lambda>st.
      assertE (wrap (chunk + hdr_size (mem st) chunk) = heap st) ''(uint8_t *)chunk + chunk->size == (uint8_t *)heap_'' (
      Inr st)))))))"

text \<open>The body of the search loop: the next chunk, growing the heap at its end.\<close>

definition Malloc_advance ::
  "'w sbrk \<Rightarrow> nat \<Rightarrow> 'w alloc \<Rightarrow> nat \<Rightarrow> bool \<Rightarrow> ('w alloc \<times> nat \<times> bool) result" where
  "Malloc_advance sbrk realsize st chunk reached_heap_end =
     assertE (hdr_size (mem st) chunk \<noteq> 0) ''Corrupted chunk marked as used but has 0 heap size.'' (
     let chunk = (if \<not> reached_heap_end then NextChunk (mem st) chunk else chunk) in
     bindE (if reached_heap_end \<or> chunk = heap st
            then bindE (GrowHeap sbrk realsize chunk st) (\<lambda>st. Inr (st, True))
            else Inr (st, reached_heap_end)) (\<lambda>(st, reached_heap_end).
     assertE (chunk \<le> heap st) ''Found a chunk that was allocated past the kernel heap limit.'' (
     Inr (st, chunk, reached_heap_end))))"

partial_function (option) Malloc_search ::
  "'w sbrk \<Rightarrow> nat \<Rightarrow> nat \<Rightarrow> 'w alloc \<Rightarrow> nat \<Rightarrow> bool \<Rightarrow> ('w alloc \<times> nat \<times> nat) result option" where
  "Malloc_search sbrk realsize alignment st chunk reached_heap_end =
     (case CanUseChunk realsize alignment (mem st) chunk of
        Some adjust \<Rightarrow> Some (Inr (st, chunk, adjust))
      | None \<Rightarrow>
        (case Malloc_advance sbrk realsize st chunk reached_heap_end of
           Inl e \<Rightarrow> Some (Inl e)
         | Inr (st, chunk, reached_heap_end) \<Rightarrow>
             Malloc_search sbrk realsize alignment st chunk reached_heap_end))"

text \<open>After the search: split off an unaligned front, then the unused rest.\<close>

definition Malloc_align :: "nat \<Rightarrow> nat \<Rightarrow> 'w alloc \<Rightarrow> ('w alloc \<times> nat) result" where
  "Malloc_align chunk adjust st =
     (if adjust \<noteq> 0
      then assertE (4 \<le> adjust) ''Cannot create a chunk less than sizeof(MallocHeader)'' (
           let other = NextChunk_at chunk adjust;
               st = upd_mem (set_size other (wrap (hdr_size (mem st) chunk + 0x100000000 - adjust))) st in
           assertE (hdr_size (mem st) other \<noteq> 0) ''Created illegal chunk of zero size.'' (
           let st = upd_mem (set_used chunk False) (upd_mem (set_size chunk adjust) st) in
           Inr (st, other)))
      else Inr (st, chunk))"

definition Malloc_carve :: "nat \<Rightarrow> nat \<Rightarrow> 'w alloc \<Rightarrow> 'w alloc result" where
  "Malloc_carve realsize chunk st =
     assertE (realsize \<le> hdr_size (mem st) chunk) ''chunk->size >= realsize'' (
     if hdr_size (mem st) chunk = realsize
     then Inr (upd_mem (set_used chunk True) st)
     else let nxt = NextChunk_at chunk realsize in
          if hdr_size (mem st) chunk - realsize < 4
          then Inr (upd_mem (set_used chunk True) st)
          else let st = upd_mem (set_used nxt False) (upd_mem (set_size nxt (hdr_size (mem st) chunk - realsize)) st) in
               assertE (hdr_size (mem st) nxt \<noteq> 0) ''Created illegal chunk of zero size.'' (
               Inr (upd_mem (set_used chunk True) (upd_mem (set_size chunk realsize) st))))"

definition RoundUp :: "nat \<Rightarrow> nat \<Rightarrow> nat" where
  "RoundUp realsize alignment =
     (let rem = realsize mod alignment in
      if rem \<noteq> 0 then wrap (realsize + (alignment - rem)) else realsize)"

definition Malloc_aligned :: "'w sbrk \<Rightarrow> nat \<Rightarrow> nat \<Rightarrow> 'w alloc \<Rightarrow> (nat \<times> 'w alloc) result" where
  "Malloc_aligned sbrk sz alignment st =
     assertE (alignment \<noteq> 0 \<and> IsPowerOf2 (of_nat alignment)) ''Invalid alignment'' (
     if sz = 0 then Inr (0, st)
     else
     let alignment = max alignment kMaxAlignment;
         realsize = RoundUp (wrap (4 + sz)) alignment in
     assertE (realsize mod alignment = 0) ''realsize % alignment == 0'' (
     bindE (case Malloc_search sbrk realsize alignment st (heap_start st) False of
              None \<Rightarrow> Inl Diverges | Some r \<Rightarrow> r) (\<lambda>(st, chunk, adjust).
     bindE (Malloc_align chunk adjust st) (\<lambda>(st, chunk).
     bindE (Malloc_carve realsize chunk st) (\<lambda>st.
     let st = st\<lparr>heap_used := wrap (heap_used st + hdr_size (mem st) chunk)\<rparr>;
         ptr = wrap (chunk + 4) in
     assertE (ptr mod alignment = 0) ''Returning an unaligned pointer!'' (
     Inr (ptr, st)))))))"

definition Malloc :: "'w sbrk \<Rightarrow> nat \<Rightarrow> 'w alloc \<Rightarrow> (nat \<times> 'w alloc) result" where
  "Malloc sbrk sz st = Malloc_aligned sbrk sz kMaxAlignment st"

text \<open>The merge loop of \<open>Free\<close>; it never ends on a free chunk of size zero.\<close>

partial_function (option) Free_merge :: "nat \<Rightarrow> 'w alloc \<Rightarrow> 'w alloc option" where
  "Free_merge chunk st =
     (let other = NextChunk (mem st) chunk in
      if other \<noteq> 0 \<and> other < heap st \<and> \<not> hdr_used (mem st) other
      then Free_merge chunk (upd_mem (set_size chunk (wrap (hdr_size (mem st) chunk + hdr_size (mem st) other))) st)
      else Some st)"

definition Free :: "nat \<Rightarrow> 'w alloc \<Rightarrow> 'w alloc result" where
  "Free v_addr st =
     (if v_addr = 0 then Inr st
      else
      let chunk = FromPointer v_addr;
          st = upd_mem (set_used chunk False) st in
      assertE (hdr_size (mem st) chunk \<le> heap_used st) ''Attempting to free more memory than was recorded'' (
      let st = st\<lparr>heap_used := heap_used st - hdr_size (mem st) chunk\<rparr> in
      terminates (Free_merge chunk st)))"

definition SlowRealloc :: "'w sbrk \<Rightarrow> nat \<Rightarrow> nat \<Rightarrow> 'w alloc \<Rightarrow> (nat \<times> 'w alloc) result" where
  "SlowRealloc sbrk ptr sz st =
     (let chunk = FromPointer ptr;
          oldsize = wrap (hdr_size (mem st) chunk + 0x100000000 - 4) in
      bindE (Malloc sbrk sz st) (\<lambda>(newptr, st).
      assertE (newptr \<noteq> ptr) ''Somehow returned the same pointer.'' (
      let cpysize = (if sz < oldsize then sz else oldsize);
          st = upd_mem (memcpy newptr ptr cpysize) st in
      bindE (Free ptr st) (\<lambda>st. Inr (newptr, st)))))"

definition Realloc :: "'w sbrk \<Rightarrow> nat \<Rightarrow> nat \<Rightarrow> 'w alloc \<Rightarrow> (nat \<times> 'w alloc) result" where
  "Realloc sbrk ptr sz st =
     assertE (heap_start st \<le> ptr) ''This address was not allocated on the heap'' (
     assertE (heap_end st \<noteq> 0 \<longrightarrow> ptr < heap_end st) ''This address was not allocated on the heap'' (
     if sz = 0 then Inr (0, st)
     else
     let chunk = FromPointer ptr in
     assertE (hdr_used (mem st) chunk) ''Cannot realloc an unmalloc'' (
     let realsize = RoundUp (wrap (sz + 4)) kMaxAlignment in
     assertE (realsize mod kMaxAlignment = 0) ''realsize % kMaxAlignment == 0'' (
     if hdr_size (mem st) chunk = realsize then Inr (ptr, st)
     else if realsize < hdr_size (mem st) chunk \<and> wrap (realsize + 4) < hdr_size (mem st) chunk
     then let other = NextChunk_at chunk realsize;
              st = upd_mem (set_used other False) (upd_mem (set_size other (hdr_size (mem st) chunk - realsize)) st) in
          assertE (hdr_size (mem st) other \<noteq> 0) ''Created illegal chunk of zero size.'' (
          let st = upd_mem (set_size chunk realsize) st in
          Inr (ptr, st\<lparr>heap_used := wrap (heap_used st + 0x100000000 - hdr_size (mem st) other)\<rparr>))
     else SlowRealloc sbrk ptr sz st))))"

definition Calloc :: "'w sbrk \<Rightarrow> nat \<Rightarrow> nat \<Rightarrow> 'w alloc \<Rightarrow> (nat \<times> 'w alloc) result" where
  "Calloc sbrk num sz st =
     bindE (Malloc sbrk (wrap (num * sz)) st) (\<lambda>(ptr, st).
     Inr (ptr, upd_mem (memset ptr 0 (wrap (num * sz))) st))"

end
