(* ===== verification/HeapChain.thy ===== *)
theory HeapChain
  imports Allocator
begin

text \<open>
  The heap as a list of blocks. \<open>chain m a bs e\<close> says that the chunks between \<open>a\<close> and \<open>e\<close> are, in
  order, the blocks \<open>bs\<close> (size and used bit); \<open>heap_inv\<close> is the invariant of an allocator. The
  lemmas turn the header writes of the allocator into replacements of blocks in the list.
\<close>

section \<open>Header reads and writes\<close>

lemma unat_of_nat_u8: "unat (of_nat n :: u8) = n mod 256"
  by (simp add: unat_of_nat)

lemma bytes_of_nat:
  "n mod 256 + 256 * (n div 256 mod 256) + 65536 * (n div 65536 mod 256) + 16777216 * (n div 16777216 mod 256)
     = n mod 4294967296" for n :: nat
proof -
  have "n div 65536 = n div 256 div 256" "n div 16777216 = n div 256 div 256 div 256" by (simp_all add: div_mult2_eq)
  moreover have "n mod 4294967296 = n mod 256 + 256 * (n div 256 mod 256) + 65536 * (n div 256 div 256 mod 256)
      + 16777216 * (n div 256 div 256 div 256 mod 256)"
    using mod_mult2_eq[of n 256 16777216] mod_mult2_eq[of "n div 256" 256 65536] mod_mult2_eq[of "n div 256 div 256" 256 256]
    by (simp add: algebra_simps)
  ultimately show ?thesis by simp
qed

lemma rd32_wr32_same: "rd32 (wr32 a v m) a = v mod 0x100000000"
  using bytes_of_nat[of v] by (simp add: rd32_def wr32_def unat_of_nat_u8)

lemma rd32_wr32_other: "b + 4 \<le> a \<or> a + 4 \<le> b \<Longrightarrow> rd32 (wr32 a v m) b = rd32 m b"
  by (auto simp: rd32_def wr32_def)

lemma rd32_cong:
  assumes "\<And>i. i < 4 \<Longrightarrow> m' (a + i) = m (a + i)"
  shows "rd32 m' a = rd32 m a"
  using assms[of 0] assms[of 1] assms[of 2] assms[of 3] by (simp add: rd32_def)

lemma wr32_outside: "x < a \<or> a + 4 \<le> x \<Longrightarrow> wr32 a v m x = m x"
  by (auto simp: wr32_def)

lemma unat_lt_u8: "unat (x :: u8) < 256"
  using unsigned_less[of x] by simp

lemma rd32_bound: "rd32 m a < 0x100000000"
  using unat_lt_u8[of "m a"] unat_lt_u8[of "m (a + 1)"] unat_lt_u8[of "m (a + 2)"] unat_lt_u8[of "m (a + 3)"]
  by (simp add: rd32_def)

lemma hdr_size_bound [simp]: "hdr_size m a < 0x80000000"
  by (simp add: hdr_size_def)

text \<open>Both writes leave the other field as it is and touch nothing outside the header.\<close>

lemma hdr_set_size [simp]:
  "hdr_size (set_size a s m) a = s mod 0x80000000" "hdr_used (set_size a s m) a = hdr_used m a"
  by (simp_all add: hdr_size_def hdr_used_def set_size_def rd32_wr32_same div_add_self2)

lemma hdr_set_used [simp]:
  "hdr_size (set_used a u m) a = hdr_size m a" "hdr_used (set_used a u m) a = u"
  by (simp_all add: hdr_size_def hdr_used_def set_used_def rd32_wr32_same div_add_self2)

lemma hdr_set_other:
  assumes "b + 4 \<le> a \<or> a + 4 \<le> b"
  shows "hdr_size (set_size a s m) b = hdr_size m b" "hdr_used (set_size a s m) b = hdr_used m b"
    "hdr_size (set_used a u m) b = hdr_size m b" "hdr_used (set_used a u m) b = hdr_used m b"
  using rd32_wr32_other[OF assms]
  by (simp_all add: hdr_size_def hdr_used_def set_size_def set_used_def)

lemma set_outside:
  "x < a \<or> a + 4 \<le> x \<Longrightarrow> set_size a s m x = m x"
  "x < a \<or> a + 4 \<le> x \<Longrightarrow> set_used a u m x = m x"
  by (simp_all add: set_size_def set_used_def wr32_outside)

lemma upd_mem_simps [simp]:
  "mem (upd_mem f st) = f (mem st)" "heap (upd_mem f st) = heap st" "heap_used (upd_mem f st) = heap_used st"
  "heap_start (upd_mem f st) = heap_start st" "heap_end (upd_mem f st) = heap_end st" "world (upd_mem f st) = world st"
  by (simp_all add: upd_mem_def)

lemma wrap_sub: "y \<le> x \<Longrightarrow> x < 0x100000000 \<Longrightarrow> wrap (x + 0x100000000 - y) = x - y"
proof -
  assume a: "y \<le> x" "x < 0x100000000"
  then have e: "x + 0x100000000 - y = (x - y) + 0x100000000" by simp
  have "wrap (x + 0x100000000 - y) = (x - y) mod 0x100000000" unfolding e wrap_def by (rule mod_add_self2)
  also have "\<dots> = x - y" using a by (intro mod_less) simp
  finally show ?thesis .
qed

section \<open>Blocks\<close>

type_synonym block = "nat \<times> bool"

fun total :: "block list \<Rightarrow> nat" where
  "total [] = 0"
| "total ((s, u) # bs) = s + total bs"

fun used_total :: "block list \<Rightarrow> nat" where
  "used_total [] = 0"
| "used_total ((s, u) # bs) = (if u then s else 0) + used_total bs"

definition ok_block :: "block \<Rightarrow> bool" where
  "ok_block b \<longleftrightarrow> 0 < fst b \<and> fst b mod 4 = 0 \<and> (snd b \<longrightarrow> 4 < fst b)"

fun chain :: "mem \<Rightarrow> nat \<Rightarrow> block list \<Rightarrow> nat \<Rightarrow> bool" where
  "chain m a [] e \<longleftrightarrow> a = e"
| "chain m a ((s, u) # bs) e \<longleftrightarrow>
     hdr_size m a = s \<and> hdr_used m a = u \<and> ok_block (s, u) \<and> chain m (a + s) bs e"

fun used_blocks :: "nat \<Rightarrow> block list \<Rightarrow> (nat \<times> nat) set" where
  "used_blocks a [] = {}"
| "used_blocks a ((s, u) # bs) = (if u then {(a, s)} else {}) \<union> used_blocks (a + s) bs"

lemma total_append [simp]: "total (xs @ ys) = total xs + total ys"
  by (induction xs rule: total.induct) auto

lemma used_total_append [simp]: "used_total (xs @ ys) = used_total xs + used_total ys"
  by (induction xs rule: used_total.induct) auto

lemma used_blocks_append [simp]: "used_blocks a (xs @ ys) = used_blocks a xs \<union> used_blocks (a + total xs) ys"
  by (induction xs arbitrary: a rule: total.induct) (auto simp: add.assoc)

lemma used_total_le: "used_total bs \<le> total bs"
  by (induction bs rule: total.induct) auto

lemma chain_end: "chain m a bs e \<Longrightarrow> e = a + total bs"
  by (induction m a bs e rule: chain.induct) auto

lemma chain_append [simp]: "chain m a (xs @ ys) e \<longleftrightarrow> chain m a xs (a + total xs) \<and> chain m (a + total xs) ys e"
  by (induction xs arbitrary: a rule: total.induct) (auto simp: add.assoc)

lemma chain_mod4: "chain m a bs e \<Longrightarrow> total bs mod 4 = 0"
proof (induction m a bs e rule: chain.induct)
  case (2 m a s u bs e)
  then show ?case by (auto simp: ok_block_def mod_eq_0_iff_dvd)
qed simp

lemma ok_block_ge4: "ok_block (s, u) \<Longrightarrow> 4 \<le> s"
  by (auto simp: ok_block_def dest: dvd_imp_le)

text \<open>A chain depends on nothing outside its own bytes.\<close>

lemma chain_frame:
  "chain m a bs e \<Longrightarrow> (\<And>x. a \<le> x \<Longrightarrow> x < e \<Longrightarrow> m' x = m x) \<Longrightarrow> chain m' a bs e"
proof (induction m a bs e arbitrary: m' rule: chain.induct)
  case (2 m a s u bs e)
  then have c: "chain m (a + s) bs e" and ok: "ok_block (s, u)" by auto
  have "a + 4 \<le> e" using chain_end[OF c] ok_block_ge4[OF ok] by simp
  then have "rd32 m' a = rd32 m a" using 2(3) by (simp add: rd32_def)
  moreover have "chain m' (a + s) bs e" using "2.IH"[OF c] 2(3) by simp
  ultimately show ?case using 2(2) by (auto simp: hdr_size_def hdr_used_def)
qed simp

lemma used_blocks_bound: "(b, s) \<in> used_blocks a bs \<Longrightarrow> a \<le> b \<and> b + s \<le> a + total bs"
  by (induction bs arbitrary: a rule: total.induct) (fastforce split: if_splits)+

lemma used_block_split:
  assumes "(b, s) \<in> used_blocks a bs"
  obtains pre post where "bs = pre @ (s, True) # post" "b = a + total pre"
  using assms
proof (induction bs arbitrary: a thesis rule: total.induct)
  case (2 s0 u bs)
  show ?case
  proof (cases "u \<and> (b, s) = (a, s0)")
    case True
    then show ?thesis using "2.prems"(1)[of "[]" bs] by simp
  next
    case False
    then have "(b, s) \<in> used_blocks (a + s0) bs" using "2.prems"(2) by (auto split: if_splits)
    then obtain pre post where "bs = pre @ (s, True) # post" "b = a + s0 + total pre"
      using "2.IH" by blast
    then show ?thesis using "2.prems"(1)[of "(s0, u) # pre" post] by (simp add: add.assoc)
  qed
qed simp

section \<open>The invariant\<close>

text \<open>
  The bound on the size of the heap is what the 31 bits of a size field can hold. It is what
  both users of the allocator provide: the kernel heap ends at 1 GB, a user heap in its 4 MB page.
\<close>

definition heap_inv :: "'w alloc \<Rightarrow> block list \<Rightarrow> bool" where
  "heap_inv st bs \<longleftrightarrow> chain (mem st) (heap_start st) bs (heap st) \<and> bs \<noteq> [] \<and>
     heap_used st = used_total bs \<and> 0 < heap_start st \<and> heap_start st mod 4 = 0 \<and>
     heap st < 0x100000000 \<and> heap st - heap_start st < 0x80000000"

lemma heap_invD:
  assumes "heap_inv st bs"
  shows "chain (mem st) (heap_start st) bs (heap st)" "heap st = heap_start st + total bs"
    "heap_used st = used_total bs" "0 < heap_start st" "heap_start st mod 4 = 0"
    "heap st < 0x100000000" "total bs < 0x80000000"
  using assms chain_end[of "mem st" "heap_start st" bs "heap st"] by (auto simp: heap_inv_def)

lemma heap_inv_block:
  assumes "heap_inv st (pre @ (s, u) # post)" "c = heap_start st + total pre"
  shows "hdr_size (mem st) c = s" "hdr_used (mem st) c = u" "0 < s" "4 \<le> s" "s mod 4 = 0" "c mod 4 = 0"
    "c + s \<le> heap st" "NextChunk (mem st) c = c + s" "0 < c" "s < 0x80000000" "u \<longrightarrow> 4 < s"
proof -
  note d = heap_invD[OF assms(1)]
  have ch: "chain (mem st) c ((s, u) # post) (heap st)" and pre: "chain (mem st) (heap_start st) pre c"
    using d(1) assms(2) by auto
  show hs: "hdr_size (mem st) c = s" "hdr_used (mem st) c = u" using ch by auto
  have ok: "ok_block (s, u)" using ch by auto
  then show "0 < s" "4 \<le> s" "s mod 4 = 0" using ok_block_ge4 by (auto simp: ok_block_def)
  show "c mod 4 = 0" using chain_mod4[OF pre] d(5) assms(2) by presburger
  show le: "c + s \<le> heap st" using d(2) assms(2) by simp
  then show "NextChunk (mem st) c = c + s" using hs d(6) by (simp add: NextChunk_def wrap_def)
  show "0 < c" using d(4) assms(2) by simp
  show "s < 0x80000000" using d(7) by simp
  show "u \<longrightarrow> 4 < s" using ok by (simp add: ok_block_def)
qed

text \<open>The accounted bytes are the sizes of the blocks in use.\<close>

lemma used_total_sum:
  "chain m a bs e \<Longrightarrow> used_total bs = (\<Sum>b \<in> used_blocks a bs. snd b) \<and> finite (used_blocks a bs)"
proof (induction bs arbitrary: a rule: total.induct)
  case (2 s u bs)
  then have ih: "used_total bs = (\<Sum>b \<in> used_blocks (a + s) bs. snd b)" "finite (used_blocks (a + s) bs)"
    and s: "0 < s" by (auto simp: ok_block_def)
  have "(a, s) \<notin> used_blocks (a + s) bs" using used_blocks_bound[of a s "a + s" bs] s by auto
  with ih show ?case by simp
qed simp

lemma heap_used_blocks:
  "heap_inv st bs \<Longrightarrow> heap_used st = (\<Sum>b \<in> used_blocks (heap_start st) bs. snd b)"
  using used_total_sum[of "mem st" "heap_start st" bs "heap st"] by (simp add: heap_inv_def)

text \<open>
  Replacing one block by blocks of the same total: what remains to show is that the new blocks
  are in memory and that nothing outside the replaced block changed.
\<close>

lemma chain_replace:
  assumes "chain m a (pre @ (s, u) # post) e" "c = a + total pre"
    and "chain m' c new (c + s)" and "\<And>x. x < c \<or> c + s \<le> x \<Longrightarrow> m' x = m x"
  shows "chain m' a (pre @ new @ post) e"
proof -
  have pre: "chain m a pre c" and post: "chain m (c + s) post e"
    using assms(1,2) by (auto simp: add.assoc)
  have "total new = s" using chain_end[OF assms(3)] by simp
  moreover have "chain m' a pre c" by (rule chain_frame[OF pre]) (use assms(4) in simp)
  moreover have "chain m' (c + s) post e" by (rule chain_frame[OF post]) (use assms(4) in simp)
  ultimately show ?thesis using assms(2,3) by simp
qed

lemma heap_inv_replace:
  assumes inv: "heap_inv st (pre @ (s, u) # post)" and c: "c = heap_start st + total pre"
    and new: "chain (mem st') c new (c + s)" "\<And>x. x < c \<or> c + s \<le> x \<Longrightarrow> mem st' x = mem st x"
    and same: "heap st' = heap st" "heap_start st' = heap_start st"
    and used: "heap_used st' = used_total (pre @ new @ post)"
  shows "heap_inv st' (pre @ new @ post)"
proof -
  have "chain (mem st') (heap_start st') (pre @ new @ post) (heap st')"
    unfolding same by (rule chain_replace[OF heap_invD(1)[OF inv] c new])
  moreover have "new \<noteq> []" using new(1) heap_inv_block(3)[OF inv c] by auto
  ultimately show ?thesis using inv used by (simp add: heap_inv_def same)
qed

end
