(* ===== verification/AllocatorCorrect.thy ===== *)
theory AllocatorCorrect
  imports HeapChain
begin

text \<open>
  Correctness of the allocator against a first-fit specification on block lists. What it needs
  of the function that grows the heap is the locale \<open>sbrk_provider\<close>; the theories of the kernel
  heap and of the user heap interpret it on their own functions.
\<close>

section \<open>The specification: first fit on a list of blocks\<close>

definition fit :: "nat \<Rightarrow> nat \<Rightarrow> nat \<Rightarrow> block \<Rightarrow> nat option" where
  "fit r al c b =
     (let adj = (al - (c + 4) mod al) mod al in
      if snd b \<or> fst b < adj + r then None else Some adj)"

definition place :: "nat \<Rightarrow> nat \<Rightarrow> nat \<Rightarrow> block list" where
  "place r adj s = (if adj = 0 then [] else [(adj, False)]) @ (r, True) # (if s - adj = r then [] else [(s - adj - r, False)])"

fun first_fit :: "nat \<Rightarrow> nat \<Rightarrow> nat \<Rightarrow> block list \<Rightarrow> (nat \<times> block list) option" where
  "first_fit r al c [] = None"
| "first_fit r al c (b # bs) =
     (case fit r al c b of
        Some adj \<Rightarrow> Some (c + adj, place r adj (fst b) @ bs)
      | None \<Rightarrow> map_option (\<lambda>(p, bs'). (p, b # bs')) (first_fit r al (c + fst b) bs))"

definition real_size :: "nat \<Rightarrow> nat \<Rightarrow> nat" where
  "real_size sz al = (sz + 4 + (al - 1)) div al * al"

text \<open>The requests the 31-bit sizes can serve: what the guards of the theorems below ask for.\<close>

definition request_ok :: "nat \<Rightarrow> nat \<Rightarrow> bool" where
  "request_ok sz al \<longleftrightarrow> (\<exists>k. al = 2 ^ k) \<and> al < 0x40000000 \<and> 0 < sz \<and> sz < 0x3FFFFFF0"

definition align_ok :: "nat \<Rightarrow> nat \<Rightarrow> bool" where
  "align_ok r al \<longleftrightarrow> 4 \<le> al \<and> al mod 4 = 0 \<and> al < 0x40000000 \<and> 4 < r \<and> r mod al = 0 \<and> r < 0x80000000"

lemma align_ok_mod4: "align_ok r al \<Longrightarrow> r mod 4 = 0 \<and> 4 < r"
proof -
  assume a: "align_ok r al"
  then have "4 dvd al" "al dvd r" by (auto simp: align_ok_def)
  then have "4 dvd r" by (rule dvd_trans)
  then show ?thesis using a by (auto simp: align_ok_def dest: dvd_imp_le)
qed

lemma adjust_props:
  fixes al c adj :: nat
  assumes al: "4 \<le> al" "al mod 4 = 0" and c: "c mod 4 = 0"
    and adj: "adj = (al - (c + 4) mod al) mod al"
  shows "adj < al" "adj mod 4 = 0" "adj = 0 \<or> 4 \<le> adj" "(c + adj + 4) mod al = 0"
proof -
  have pos: "0 < al" using al by simp
  show "adj < al" using adj pos by simp
  have d: "4 dvd al" "4 dvd (c + 4)" using al c by (auto simp: mod_eq_0_iff_dvd)
  have "4 dvd (c + 4) mod al" using d by (simp add: dvd_mod)
  then have "4 dvd al - (c + 4) mod al" using d by (simp add: dvd_diff_nat)
  then have "4 dvd adj" using d adj by (simp add: dvd_mod)
  then show "adj mod 4 = 0" "adj = 0 \<or> 4 \<le> adj" by (auto dest: dvd_imp_le)
  have "(c + adj + 4) mod al = (c + 4 + adj) mod al" by (simp add: ac_simps)
  also have "\<dots> = (c + 4 + (al - (c + 4) mod al)) mod al" by (simp only: adj mod_add_right_eq)
  also have "\<dots> = ((c + 4) mod al + (al - (c + 4) mod al)) mod al" by (simp only: mod_add_left_eq)
  also have "\<dots> = 0" using pos mod_less_divisor[OF pos, of "c + 4"] by simp
  finally show "(c + adj + 4) mod al = 0" .
qed

lemma CanUseChunk_fit:
  assumes inv: "heap_inv st (pre @ (s, u) # post)" and c: "c = heap_start st + total pre"
    and al: "align_ok r al"
  shows "CanUseChunk r al (mem st) c = fit r al c (s, u)"
proof -
  note b = heap_inv_block[OF inv c]
  have ad: "(al - (c + 4) mod al) mod al < al" using al by (simp add: align_ok_def)
  have w: "wrap (c + 4) = c + 4" using b(4,7) heap_invD(6)[OF inv] by (simp add: wrap_def)
  have w2: "wrap ((al - (c + 4) mod al) mod al + r) = (al - (c + 4) mod al) mod al + r"
    using al ad unfolding wrap_def align_ok_def by (intro mod_less) linarith
  show ?thesis
    using b(1,2) by (auto simp: CanUseChunk_def fit_def Let_def w w2)
qed

lemma total_place: "adj + r \<le> s \<Longrightarrow> total (place r adj s) = s"
  by (auto simp: place_def)

lemma used_blocks_place:
  "adj + r \<le> s \<Longrightarrow> used_blocks c (place r adj s) = {(c + adj, r)}"
  by (simp add: place_def)

lemma used_total_place: "used_total (place r adj s) = r"
  by (simp add: place_def)

section \<open>Carving a chunk\<close>

lemma Malloc_align_ok:
  assumes "hdr_size (mem st) c = s" "adj = 0 \<or> 4 \<le> adj" "adj + 4 \<le> s" "s < 0x80000000" "c + s < 0x100000000"
  shows "\<exists>st1. Malloc_align c adj st = Inr (st1, c + adj) \<and> hdr_size (mem st1) (c + adj) = s - adj \<and>
    (adj \<noteq> 0 \<longrightarrow> hdr_size (mem st1) c = adj \<and> \<not> hdr_used (mem st1) c) \<and>
    (\<forall>x. x < c \<or> c + s \<le> x \<longrightarrow> mem st1 x = mem st x) \<and> st1 = st\<lparr>mem := mem st1\<rparr>"
proof (cases "adj = 0")
  case True
  then show ?thesis using assms by (simp add: Malloc_align_def)
next
  case False
  have w: "wrap (c + adj) = c + adj" "wrap (s + 0x100000000 - adj) = s - adj"
    using assms wrap_sub[of adj s] by (simp_all add: wrap_def)
  let ?m = "set_used c False (set_size c adj (set_size (c + adj) (s - adj) (mem st)))"
  have "Malloc_align c adj st = Inr (upd_mem (\<lambda>_. ?m) st, c + adj)"
    using False assms by (simp add: Malloc_align_def Let_def NextChunk_at_def w upd_mem_def)
  moreover have "hdr_size ?m (c + adj) = s - adj" "hdr_size ?m c = adj" "\<not> hdr_used ?m c"
    using False assms by (simp_all add: hdr_set_other)
  moreover have "?m x = mem st x" if "x < c \<or> c + s \<le> x" for x
    using that assms by (auto simp: set_outside)
  ultimately show ?thesis using assms by (intro exI[of _ "upd_mem (\<lambda>_. ?m) st"]) (simp add: upd_mem_def)
qed

lemma Malloc_carve_ok:
  assumes "hdr_size (mem st) c = t" "4 < r" "r mod 4 = 0" "r \<le> t" "t mod 4 = 0" "t < 0x80000000" "c + t < 0x100000000"
  shows "\<exists>st1. Malloc_carve r c st = Inr st1 \<and>
    chain (mem st1) c ((r, True) # (if t = r then [] else [(t - r, False)])) (c + t) \<and>
    (\<forall>x. x < c \<or> c + t \<le> x \<longrightarrow> mem st1 x = mem st x) \<and> st1 = st\<lparr>mem := mem st1\<rparr>"
proof (cases "t = r")
  case True
  let ?m = "set_used c True (mem st)"
  have "Malloc_carve r c st = Inr (upd_mem (\<lambda>_. ?m) st)"
    using True assms by (simp add: Malloc_carve_def upd_mem_def)
  moreover have "chain ?m c [(r, True)] (c + t)" using True assms by (simp add: ok_block_def)
  moreover have "?m x = mem st x" if "x < c \<or> c + t \<le> x" for x
    using that True assms by (auto simp: set_outside)
  ultimately show ?thesis using True by (intro exI[of _ "upd_mem (\<lambda>_. ?m) st"]) (simp add: upd_mem_def)
next
  case False
  have "4 dvd t" "4 dvd r" using assms by auto
  then have dv: "4 dvd t - r" by (simp add: dvd_diff_nat)
  then have ge: "4 \<le> t - r" using False assms(4) by (auto dest!: dvd_imp_le)
  have w: "wrap (c + r) = c + r" using assms by (simp add: wrap_def)
  let ?m = "set_used c True (set_size c r (set_used (c + r) False (set_size (c + r) (t - r) (mem st))))"
  have "Malloc_carve r c st = Inr (upd_mem (\<lambda>_. ?m) st)"
    using False ge assms by (simp add: Malloc_carve_def Let_def NextChunk_at_def w upd_mem_def)
  moreover have "hdr_size ?m (c + r) = t - r" "\<not> hdr_used ?m (c + r)" "hdr_size ?m c = r" "hdr_used ?m c"
    using ge assms by (simp_all add: hdr_set_other)
  moreover have "?m x = mem st x" if "x < c \<or> c + t \<le> x" for x
    using that ge assms by (auto simp: set_outside)
  ultimately show ?thesis
    using False dv ge assms by (intro exI[of _ "upd_mem (\<lambda>_. ?m) st"]) (simp add: upd_mem_def ok_block_def)
qed

text \<open>Both steps together put the placed blocks where the free block was.\<close>

lemma Malloc_place_ok:
  assumes inv: "heap_inv st (pre @ (s, False) # post)" and c: "c = heap_start st + total pre"
    and al: "align_ok r al" and f: "fit r al c (s, False) = Some adj"
  shows "\<exists>st1 st2. Malloc_align c adj st = Inr (st1, c + adj) \<and> Malloc_carve r (c + adj) st1 = Inr st2 \<and>
    hdr_size (mem st2) (c + adj) = r \<and> chain (mem st2) c (place r adj s) (c + s) \<and>
    (\<forall>x. x < c \<or> c + s \<le> x \<longrightarrow> mem st2 x = mem st x) \<and> st2 = st\<lparr>mem := mem st2\<rparr>"
proof -
  note b = heap_inv_block[OF inv c]
  have le: "adj + r \<le> s" and ad: "adj = (al - (c + 4) mod al) mod al"
    using f by (auto simp: fit_def Let_def split: if_splits)
  have al4: "4 \<le> al" "al mod 4 = 0" using al by (simp_all add: align_ok_def)
  note ap = adjust_props[OF al4 b(6) ad] and r4 = align_ok_mod4[OF al]
  have top: "c + s < 0x100000000" using b(7) heap_invD(6)[OF inv] by simp
  obtain st1 where s1: "Malloc_align c adj st = Inr (st1, c + adj)" "hdr_size (mem st1) (c + adj) = s - adj"
      "adj \<noteq> 0 \<longrightarrow> hdr_size (mem st1) c = adj \<and> \<not> hdr_used (mem st1) c"
      "\<forall>x. x < c \<or> c + s \<le> x \<longrightarrow> mem st1 x = mem st x" "st1 = st\<lparr>mem := mem st1\<rparr>"
    using Malloc_align_ok[OF b(1) ap(3) _ b(10) top] le r4 by auto
  have t: "r \<le> s - adj" "s - adj < 0x80000000" and e: "c + adj + (s - adj) = c + s" using le b(10) by auto
  have t4: "(s - adj) mod 4 = 0" using b(5) ap(2) by (metis dvd_diff_nat mod_eq_0_iff_dvd)
  have top': "c + adj + (s - adj) < 0x100000000" using e top by simp
  obtain st2 where s2: "Malloc_carve r (c + adj) st1 = Inr st2"
      "chain (mem st2) (c + adj) ((r, True) # (if s - adj = r then [] else [(s - adj - r, False)])) (c + s)"
      "\<forall>x. x < c + adj \<or> c + s \<le> x \<longrightarrow> mem st2 x = mem st1 x" "st2 = st1\<lparr>mem := mem st2\<rparr>"
    using Malloc_carve_ok[OF s1(2) conjunct2[OF r4] conjunct1[OF r4] t(1) t4 t(2) top'] unfolding e
    by (elim exE conjE) (rule that)
  have front: "adj \<noteq> 0 \<Longrightarrow> chain (mem st2) c [(adj, False)] (c + adj)"
    using s1(3) ap(2,3) by - (rule chain_frame[of "mem st1"], simp_all add: ok_block_def s2(3))
  have "chain (mem st2) c (place r adj s) (c + s)"
    using s2(2) front by (cases "adj = 0") (auto simp: place_def split: if_splits)
  moreover have "hdr_size (mem st2) (c + adj) = r" using s2(2) by auto
  moreover have "\<forall>x. x < c \<or> c + s \<le> x \<longrightarrow> mem st2 x = mem st x" using s1(4) s2(3) by auto
  moreover have "st2 = st\<lparr>mem := mem st2\<rparr>" using s1(5) s2(4) by (metis alloc.surjective alloc.update_convs(1))
  ultimately show ?thesis using s1(1) s2(1) by blast
qed

section \<open>The interface of sbrk\<close>

definition alloc_inv :: "nat \<Rightarrow> (nat \<Rightarrow> 'w \<Rightarrow> bool) \<Rightarrow> 'w alloc \<Rightarrow> block list \<Rightarrow> bool" where
  "alloc_inv hi winv st bs \<longleftrightarrow> heap_inv st bs \<and> heap st \<le> hi \<and> hi < 0x100000000 \<and>
     hi - heap_start st < 0x80000000 \<and> winv (heap st) (world st)"

text \<open>The bytes of the blocks in use, headers included, are untouched.\<close>

definition preserves :: "'w alloc \<Rightarrow> block list \<Rightarrow> 'w alloc \<Rightarrow> bool" where
  "preserves st bs st' \<longleftrightarrow> heap_start st' = heap_start st \<and> heap_end st' = heap_end st \<and>
     (\<forall>b s x. (b, s) \<in> used_blocks (heap_start st) bs \<longrightarrow> b \<le> x \<longrightarrow> x < b + s \<longrightarrow> mem st' x = mem st x)"

lemma preserves_refl [simp]: "preserves st bs st"
  by (simp add: preserves_def)

lemma preserves_trans:
  "preserves st bs st' \<Longrightarrow> preserves st' bs' st'' \<Longrightarrow>
   used_blocks (heap_start st) bs \<subseteq> used_blocks (heap_start st) bs' \<Longrightarrow> preserves st bs st''"
  unfolding preserves_def by (metis subsetD)

lemma preserves_outside:
  assumes "heap_start st' = heap_start st" "heap_end st' = heap_end st"
    and "c = heap_start st + total pre"
    and "\<And>x. x < c \<or> c + s \<le> x \<Longrightarrow> x < heap st \<Longrightarrow> mem st' x = mem st x"
    and "heap_inv st (pre @ (s, False) # post)"
  shows "preserves st (pre @ (s, False) # post) st'"
  unfolding preserves_def
proof (intro conjI allI impI)
  fix b z x assume b: "(b, z) \<in> used_blocks (heap_start st) (pre @ (s, False) # post)" "b \<le> x" "x < b + z"
  have "b + z \<le> heap st"
    using used_blocks_bound[OF b(1)] heap_invD(2)[OF assms(5)] by simp
  moreover have "b + z \<le> c \<or> c + s \<le> b"
    using b(1) used_blocks_bound[of b z "heap_start st" pre] used_blocks_bound[of b z "c + s" post] assms(3)
    by (auto simp: add.assoc)
  ultimately show "mem st' x = mem st x" using assms(4)[of x] b(2,3) by auto
qed (use assms in auto)

locale sbrk_provider =
  fixes sbrk :: "'w sbrk" and hi :: nat and winv :: "nat \<Rightarrow> 'w \<Rightarrow> bool"
  assumes grow: "winv h w \<Longrightarrow> 0 < h \<Longrightarrow> h \<le> hi \<Longrightarrow> h mod 4 = 0 \<Longrightarrow> 0 < n \<Longrightarrow> n < 0x80000000 \<Longrightarrow>
      sbrk n h w = Inr (h', w') \<Longrightarrow> h' \<noteq> 0 \<Longrightarrow> h + n \<le> h' \<and> h' \<le> hi \<and> h' mod 4 = 0 \<and> winv h' w'"
    and hi: "hi < 0x100000000"
begin

text \<open>The only ways an allocation can stop: \<open>sbrk\<close> itself stops, or it returns null.\<close>

definition out_of_memory :: "error \<Rightarrow> bool" where
  "out_of_memory e \<longleftrightarrow> e = AssertFailed ''No memory left for kernel!'' \<or>
     (\<exists>n h w. winv h w \<and> h \<le> hi \<and> 0 < n \<and> n < 0x80000000 \<and> sbrk n h w = Inl e)"

text \<open>Growing at the heap top appends a free block.\<close>

lemma GrowHeap_append:
  assumes inv: "alloc_inv hi winv st bs" and r: "0 < r" "r < 0x80000000"
  shows "(\<exists>e. GrowHeap sbrk r (heap st) st = Inl e \<and> out_of_memory e) \<or>
    (\<exists>st' inc. GrowHeap sbrk r (heap st) st = Inr st' \<and> alloc_inv hi winv st' (bs @ [(inc, False)]) \<and>
       heap st < heap st' \<and> preserves st bs st')"
proof (cases "sbrk r (heap st) (world st)")
  case (Inl e)
  then show ?thesis using inv r by (auto simp: GrowHeap_def Let_def out_of_memory_def alloc_inv_def)
next
  case (Inr hw)
  obtain h w where hw: "hw = (h, w)" by (cases hw)
  have hv: "heap_inv st bs" and lim: "heap st \<le> hi" "hi - heap_start st < 0x80000000" "winv (heap st) (world st)"
    using inv by (auto simp: alloc_inv_def)
  note d = heap_invD[OF hv]
  have h4: "heap st mod 4 = 0" using d(2,5) chain_mod4[OF d(1)] by presburger
  show ?thesis
  proof (cases "h = 0")
    case True
    then show ?thesis using Inr hw by (simp add: GrowHeap_def Let_def out_of_memory_def)
  next
    case False
    then have g: "heap st + r \<le> h" "h \<le> hi" "h mod 4 = 0" "winv h w"
      using grow[OF lim(3) _ lim(1) h4 r, of h w] Inr hw d(2,4) by auto
    let ?inc = "h - heap st"
    have inc: "?inc < 0x80000000" "?inc mod 4 = 0" "0 < ?inc"
      using g lim d(2) h4 r by (auto simp: mod_eq_0_iff_dvd dvd_diff_nat)
    let ?m = "set_used (heap st) False (set_size (heap st) ?inc (mem st))"
    let ?st = "st\<lparr>heap := h, world := w, mem := ?m\<rparr>"
    have "wrap h = h" "r \<le> ?inc" using g hi by (simp_all add: wrap_def)
    then have eq: "GrowHeap sbrk r (heap st) st = Inr ?st"
      using Inr hw False g r inc(1) by (simp add: GrowHeap_def Let_def upd_mem_def)
    have old: "?m x = mem st x" if "x < heap st" for x using that by (simp add: set_outside)
    have "chain ?m (heap_start st) bs (heap st)" by (rule chain_frame[OF d(1)]) (simp add: old)
    then have "heap_inv ?st (bs @ [(?inc, False)])"
      using d g lim hi inc by (simp add: heap_inv_def ok_block_def)
    then have "alloc_inv hi winv ?st (bs @ [(?inc, False)])" using g lim hi by (simp add: alloc_inv_def)
    moreover have "preserves st bs ?st"
      unfolding preserves_def using old used_blocks_bound d(2) by fastforce
    ultimately show ?thesis using eq g(1) r by (intro disjI2 exI[of _ ?st] exI[of _ ?inc]) simp
  qed
qed

text \<open>Growing again, with the chunk at the end of the heap, enlarges that free block.\<close>

lemma GrowHeap_extend:
  assumes inv: "alloc_inv hi winv st (pre @ [(s, False)])" and c: "c = heap_start st + total pre"
    and r: "0 < r" "r < 0x80000000"
  shows "(\<exists>e. GrowHeap sbrk r c st = Inl e \<and> out_of_memory e) \<or>
    (\<exists>st' s'. GrowHeap sbrk r c st = Inr st' \<and> alloc_inv hi winv st' (pre @ [(s', False)]) \<and>
       heap st < heap st' \<and> preserves st (pre @ [(s, False)]) st')"
proof (cases "sbrk r (heap st) (world st)")
  case (Inl e)
  then show ?thesis using inv r by (auto simp: GrowHeap_def Let_def out_of_memory_def alloc_inv_def)
next
  case (Inr hw)
  obtain h w where hw: "hw = (h, w)" by (cases hw)
  have hv: "heap_inv st (pre @ [(s, False)])" and lim: "heap st \<le> hi" "hi - heap_start st < 0x80000000" "winv (heap st) (world st)"
    using inv by (auto simp: alloc_inv_def)
  note d = heap_invD[OF hv] and b = heap_inv_block[OF hv c]
  have top: "heap st = c + s" using d(2) c by simp
  have h4: "heap st mod 4 = 0" using d(2,5) chain_mod4[OF d(1)] by presburger
  show ?thesis
  proof (cases "h = 0")
    case True
    then show ?thesis using Inr hw by (simp add: GrowHeap_def Let_def out_of_memory_def)
  next
    case False
    then have g: "heap st + r \<le> h" "h \<le> hi" "h mod 4 = 0" "winv h w"
      using grow[OF lim(3) _ lim(1) h4 r, of h w] Inr hw d(2,4) by auto
    let ?s = "h - c"
    have sz: "s + (h - heap st) = ?s" using top g by simp
    have inc: "?s < 0x80000000" "?s mod 4 = 0" "0 < ?s"
      using g lim c b(6) top b(3) by (auto simp: mod_eq_0_iff_dvd dvd_diff_nat)
    let ?m = "set_size c ?s (mem st)"
    let ?st = "st\<lparr>heap := h, world := w, mem := ?m\<rparr>"
    have w: "wrap ?s = ?s" "wrap h = h" "r \<le> h - (c + s)" using inc g hi top by (simp_all add: wrap_def)
    have eq: "GrowHeap sbrk r c st = Inr ?st"
      using Inr hw False g r inc(1) b(1,2,3) top by (simp add: GrowHeap_def Let_def upd_mem_def sz w)
    have old: "?m x = mem st x" if "x < c \<or> c + s \<le> x" for x using that b(4) by (auto simp: set_outside)
    have "chain (mem st) (heap_start st) pre c" using d(1) c by simp
    then have "chain ?m (heap_start st) pre c" by (rule chain_frame) (simp add: old)
    then have "heap_inv ?st (pre @ [(?s, False)])"
      using d g lim hi inc c top b(2) by (simp add: heap_inv_def ok_block_def)
    then have "alloc_inv hi winv ?st (pre @ [(?s, False)])" using g lim hi by (simp add: alloc_inv_def)
    moreover have "preserves st (pre @ [(s, False)]) ?st"
      by (rule preserves_outside[OF _ _ c _ hv]) (simp_all add: old)
    ultimately show ?thesis using eq g(1) r by (intro disjI2 exI[of _ ?st] exI[of _ ?s]) simp
  qed
qed

end

end
