(* ===== verification/MallocCorrect.thy ===== *)
theory MallocCorrect
  imports AllocatorCorrect
begin

text \<open>
  The search of \<open>Malloc\<close> refines first fit, ends, and hands out a fresh aligned block that
  overlaps no block in use; the lemmas stand inside the locale of the growing function.
\<close>

section \<open>The search on the blocks there are\<close>

lemma Malloc_advance_next:
  assumes inv: "heap_inv st (pre @ (s, u) # b # post)" and c: "c = heap_start st + total pre"
  shows "Malloc_advance sbrk r st c False = Inr (st, c + s, False)"
proof -
  obtain s' u' where b: "b = (s', u')" by (cases b)
  note bl = heap_inv_block[OF inv c]
  have "heap_inv st ((pre @ [(s, u)]) @ (s', u') # post)" "c + s = heap_start st + total (pre @ [(s, u)])"
    using inv c b by simp_all
  note nx = heap_inv_block[OF this]
  show ?thesis
    using bl(1,3,8) nx(3,7) by (simp add: Malloc_advance_def Let_def)
qed

lemma Malloc_advance_end:
  assumes inv: "heap_inv st (pre @ [(s, u)])" and c: "c = heap_start st + total pre"
    and g: "\<And>st'. GrowHeap sbrk r (heap st) st = Inr st' \<Longrightarrow> heap st \<le> heap st'"
  shows "Malloc_advance sbrk r st c False =
    (case GrowHeap sbrk r (heap st) st of Inl e \<Rightarrow> Inl e | Inr st' \<Rightarrow> Inr (st', heap st, True))"
proof -
  note bl = heap_inv_block[OF inv c]
  have "c + s = heap st" using heap_invD(2)[OF inv] c by simp
  then show ?thesis
    using bl(1,3,8) g by (auto simp: Malloc_advance_def Let_def split: sum.splits)
qed

lemma search_first_fit:
  assumes "heap_inv st (pre @ bs)" "c = heap_start st + total pre" "align_ok r al"
    "first_fit r al c bs = Some (p, bs')"
  shows "\<exists>pre' s post adj. Malloc_search sbrk r al st c False = Some (Inr (st, c + total pre', adj)) \<and>
    bs = pre' @ (s, False) # post \<and> fit r al (c + total pre') (s, False) = Some adj \<and>
    p = c + total pre' + adj \<and> bs' = pre' @ place r adj s @ post"
  using assms
proof (induction bs arbitrary: pre c p bs')
  case Nil
  then show ?case by simp
next
  case (Cons b bs)
  obtain s u where b: "b = (s, u)" by (cases b)
  have inv: "heap_inv st (pre @ (s, u) # bs)" using Cons.prems(1) b by simp
  note cu = CanUseChunk_fit[OF inv Cons.prems(2,3)]
  show ?case
  proof (cases "fit r al c b")
    case (Some adj)
    then have "\<not> u" using b by (auto simp: fit_def Let_def split: if_splits)
    then show ?thesis
      using Some cu b Cons.prems(4)
      by (intro exI[of _ "[]"] exI[of _ s] exI[of _ bs] exI[of _ adj]) (simp add: Malloc_search.simps)
  next
    case None
    then obtain bs'' where ff: "first_fit r al (c + s) bs = Some (p, bs'')" "bs' = b # bs''"
      using Cons.prems(4) b by auto
    then obtain b1 post1 where bs: "bs = b1 # post1" by (cases bs) auto
    have "heap_inv st ((pre @ [b]) @ bs)" "c + s = heap_start st + total (pre @ [b])"
      using inv b Cons.prems(2) by simp_all
    from Cons.IH[OF this Cons.prems(3) ff(1)] obtain pre' s' post adj where
      ih: "Malloc_search sbrk r al st (c + s) False = Some (Inr (st, c + s + total pre', adj))"
        "bs = pre' @ (s', False) # post" "fit r al (c + s + total pre') (s', False) = Some adj"
        "p = c + s + total pre' + adj" "bs'' = pre' @ place r adj s' @ post" by blast
    have "Malloc_search sbrk r al st c False = Malloc_search sbrk r al st (c + s) False"
      using None cu b Malloc_advance_next[OF inv[unfolded bs] Cons.prems(2), of sbrk r]
      by (subst Malloc_search.simps) simp
    with ih ff(2) b show ?thesis
      by (intro exI[of _ "b # pre'"] exI[of _ s'] exI[of _ post] exI[of _ adj]) (simp add: add.assoc)
  qed
qed

lemma search_to_end:
  assumes "heap_inv st (pre @ bs)" "bs \<noteq> []" "c = heap_start st + total pre" "align_ok r al"
    "first_fit r al c bs = None"
    and g: "\<And>st'. GrowHeap sbrk r (heap st) st = Inr st' \<Longrightarrow> heap st \<le> heap st'"
  shows "Malloc_search sbrk r al st c False =
    (case GrowHeap sbrk r (heap st) st of Inl e \<Rightarrow> Some (Inl e)
     | Inr st' \<Rightarrow> Malloc_search sbrk r al st' (heap st) True)"
  using assms(1-5)
proof (induction bs arbitrary: pre c)
  case Nil
  then show ?case by simp
next
  case (Cons b bs)
  obtain s u where b: "b = (s, u)" by (cases b)
  have inv: "heap_inv st (pre @ (s, u) # bs)" using Cons.prems(1) b by simp
  note cu = CanUseChunk_fit[OF inv Cons.prems(3,4)]
  have none: "fit r al c (s, u) = None" and ff: "first_fit r al (c + s) bs = None"
    using Cons.prems(5) b by (auto split: option.splits)
  show ?case
  proof (cases bs)
    case Nil
    from Malloc_advance_end[OF inv[unfolded Nil] Cons.prems(3) g] none cu show ?thesis
      by (subst Malloc_search.simps) (simp split: sum.splits)
  next
    case (Cons b1 post1)
    have "heap_inv st ((pre @ [b]) @ bs)" "c + s = heap_start st + total (pre @ [b])" "bs \<noteq> []"
      using inv b Cons.prems(3) Cons by simp_all
    note ih = Cons.IH[OF this(1,3,2) Cons.prems(4) ff]
    show ?thesis
      unfolding ih[symmetric]
      using none cu Malloc_advance_next[OF inv[unfolded Cons] Cons.prems(3), of sbrk r]
      by (subst Malloc_search.simps) simp
  qed
qed

section \<open>Rounding and the final split\<close>

lemma pow2_mod4: "al = 2 ^ k \<Longrightarrow> max al 4 mod 4 = (0 :: nat)"
proof (cases "k < 2")
  case True
  then show "al = 2 ^ k \<Longrightarrow> max al 4 mod 4 = (0 :: nat)" by (auto simp: less_2_cases_iff)
next
  case False
  then obtain j where "k = 2 + j" by (metis le_Suc_ex not_less)
  then show "al = 2 ^ k \<Longrightarrow> max al 4 mod 4 = (0 :: nat)" by (simp add: max_def power_add)
qed

lemma round_up_div: "0 < al \<Longrightarrow> (n + (al - 1)) div al * al = (if n mod al = 0 then n else n + (al - n mod al))"
  for n al :: nat
proof -
  assume al: "0 < al"
  define q t where "q = n div al" and "t = n mod al"
  have n: "n = al * q + t" by (simp add: q_def t_def)
  have t: "t < al" using al by (simp add: t_def)
  have "(n + (al - 1)) div al = (if t = 0 then q else Suc q)"
    using n t by (auto intro!: div_nat_eqI)
  then show ?thesis using n t by (simp add: t_def[symmetric] mult.commute)
qed

lemma real_size_RoundUp:
  assumes "request_ok sz al"
  shows "RoundUp (wrap (4 + sz)) (max al 4) = real_size sz (max al 4)" "align_ok (real_size sz (max al 4)) (max al 4)"
    "sz + 4 \<le> real_size sz (max al 4)"
proof -
  let ?al = "max al 4"
  have al: "4 \<le> ?al" "?al < 0x40000000" "?al mod 4 = 0" and sz: "0 < sz" "sz < 0x3FFFFFF0"
    using assms pow2_mod4[of al] by (auto simp: request_ok_def)
  have rs: "real_size sz ?al = (if (sz + 4) mod ?al = 0 then sz + 4 else sz + 4 + (?al - (sz + 4) mod ?al))"
    using al round_up_div[of ?al "sz + 4"] by (simp add: real_size_def)
  have w: "wrap (4 + sz) = sz + 4" using sz by (simp add: wrap_def)
  have bound: "real_size sz ?al < 0x80000000" unfolding rs using al sz by auto
  then show "RoundUp (wrap (4 + sz)) ?al = real_size sz ?al"
    unfolding RoundUp_def w rs Let_def by (auto simp: wrap_def)
  have "(sz + 4) mod ?al < ?al" using al by (intro mod_less_divisor) simp
  then show "sz + 4 \<le> real_size sz ?al" unfolding rs by (simp only: split: if_split) linarith
  moreover have "real_size sz ?al mod ?al = 0" by (simp add: real_size_def)
  ultimately show "align_ok (real_size sz ?al) ?al"
    using al bound sz by (auto simp: align_ok_def)
qed

lemma IsPowerOf2_of_nat: "al = 2 ^ k \<Longrightarrow> al < 0x40000000 \<Longrightarrow> IsPowerOf2 (of_nat al)"
proof -
  assume a: "al = 2 ^ k" "al < 0x40000000"
  then have "unat (of_nat al :: u32) = al" by (intro unat_of_nat_u32) simp
  with a(1) show ?thesis by (metis IsPowerOf2_unat)
qed

text \<open>
  What an allocation of \<open>r\<close> bytes, header included, does to a heap with blocks \<open>bs\<close>: the new
  block lies in the heap, overlaps no block in use, leaves their bytes alone and is accounted.
\<close>

definition allocated :: "nat \<Rightarrow> nat \<Rightarrow> 'w alloc \<Rightarrow> block list \<Rightarrow> nat \<Rightarrow> 'w alloc \<Rightarrow> block list \<Rightarrow> bool" where
  "allocated r al st bs p st' bs' \<longleftrightarrow>
     heap_start st + 4 \<le> p \<and> p - 4 + r \<le> heap st' \<and> p mod al = 0 \<and>
     used_blocks (heap_start st) bs' = insert (p - 4, r) (used_blocks (heap_start st) bs) \<and>
     (\<forall>b s. (b, s) \<in> used_blocks (heap_start st) bs \<longrightarrow> b + s \<le> p - 4 \<or> p - 4 + r \<le> b) \<and>
     heap_used st' = heap_used st + r \<and> preserves st bs st'"

lemma allocatedD:
  assumes "allocated r al st bs p st' bs'"
  shows "heap_start st + 4 \<le> p" "p mod al = 0" "preserves st bs st'" "heap_used st' = heap_used st + r"
    "used_blocks (heap_start st) bs' = insert (p - 4, r) (used_blocks (heap_start st) bs)"
    "(b, s) \<in> used_blocks (heap_start st) bs \<Longrightarrow> b + s \<le> p - 4 \<or> p - 4 + r \<le> b"
    "(b, s) \<in> used_blocks (heap_start st) bs \<Longrightarrow> b \<le> x \<Longrightarrow> x < b + s \<Longrightarrow> x < p - 4 \<or> p - 4 + r \<le> x"
    "heap_start st' = heap_start st" "p - 4 + r \<le> heap st'"
proof -
  show "heap_start st + 4 \<le> p" "p mod al = 0" "preserves st bs st'" "heap_used st' = heap_used st + r"
    "used_blocks (heap_start st) bs' = insert (p - 4, r) (used_blocks (heap_start st) bs)"
    "p - 4 + r \<le> heap st'"
    using assms unfolding allocated_def by blast+
  show dis: "b + s \<le> p - 4 \<or> p - 4 + r \<le> b" if "(b, s) \<in> used_blocks (heap_start st) bs"
    using assms that unfolding allocated_def by blast
  show "x < p - 4 \<or> p - 4 + r \<le> x" if "(b, s) \<in> used_blocks (heap_start st) bs" "b \<le> x" "x < b + s"
    using dis[OF that(1)] that(2,3) by linarith
  show "heap_start st' = heap_start st" using assms unfolding allocated_def preserves_def by blast
qed

lemma Malloc_finish:
  assumes inv: "heap_inv st (pre @ (s, False) # post)" and c: "c = heap_start st + total pre"
    and f: "fit r al c (s, False) = Some adj" and al: "align_ok r al"
  shows "\<exists>st'. bindE (Malloc_align c adj st) (\<lambda>(st, chunk). bindE (Malloc_carve r chunk st) (\<lambda>st.
      let st = st\<lparr>heap_used := wrap (heap_used st + hdr_size (mem st) chunk)\<rparr>; ptr = wrap (chunk + 4) in
      assertE (ptr mod al = 0) msg (Inr (ptr, st)))) = Inr (c + adj + 4, st') \<and>
    heap_inv st' (pre @ place r adj s @ post) \<and> heap st' = heap st \<and> world st' = world st \<and>
    allocated r al st (pre @ (s, False) # post) (c + adj + 4) st' (pre @ place r adj s @ post)"
proof -
  note b = heap_inv_block[OF inv c] and d = heap_invD[OF inv]
  have le: "adj + r \<le> s" and ad: "adj = (al - (c + 4) mod al) mod al"
    using f by (auto simp: fit_def Let_def split: if_splits)
  have al4: "4 \<le> al" "al mod 4 = 0" using al by (simp_all add: align_ok_def)
  note ap = adjust_props[OF al4 b(6) ad] and r4 = align_ok_mod4[OF al]
  obtain st1 st2 where s2: "Malloc_align c adj st = Inr (st1, c + adj)" "Malloc_carve r (c + adj) st1 = Inr st2"
      "hdr_size (mem st2) (c + adj) = r" "chain (mem st2) c (place r adj s) (c + s)"
      "\<forall>x. x < c \<or> c + s \<le> x \<longrightarrow> mem st2 x = mem st x" "st2 = st\<lparr>mem := mem st2\<rparr>"
    using Malloc_place_ok[OF inv c al f] by blast
  have fields: "heap_used st2 = heap_used st" "heap st2 = heap st" "heap_start st2 = heap_start st"
      "heap_end st2 = heap_end st" "world st2 = world st"
    by (subst s2(6), simp)+
  have used: "heap_used st + r = used_total (pre @ place r adj s @ post)"
    using d(3) by (simp add: used_total_place)
  have "used_total (pre @ place r adj s @ post) \<le> total (pre @ place r adj s @ post)" by (rule used_total_le)
  also have "\<dots> < 0x80000000" using d(7) by (simp add: total_place[OF le])
  finally have small: "heap_used st + r < 0x100000000" using used by simp
  have top: "c + adj + 4 < 0x100000000" using le b(7) d(6) r4 by linarith
  let ?st = "st2\<lparr>heap_used := heap_used st + r\<rparr>"
  have run: "bindE (Malloc_align c adj st) (\<lambda>(st, chunk). bindE (Malloc_carve r chunk st) (\<lambda>st.
      let st = st\<lparr>heap_used := wrap (heap_used st + hdr_size (mem st) chunk)\<rparr>; ptr = wrap (chunk + 4) in
      assertE (ptr mod al = 0) msg (Inr (ptr, st)))) = Inr (c + adj + 4, ?st)"
    using s2(1-3) small top ap(4) by (simp add: Let_def fields wrap_def)
  have hv: "heap_inv ?st (pre @ place r adj s @ post)"
    by (rule heap_inv_replace[OF inv c, of ?st]) (use s2(4,5) used in \<open>auto simp: fields\<close>)
  have pres: "preserves st (pre @ (s, False) # post) ?st"
    by (rule preserves_outside[OF _ _ c _ inv]) (simp_all add: fields s2(5))
  have dis: "b + z \<le> c + adj \<or> c + adj + r \<le> b"
    if "(b, z) \<in> used_blocks (heap_start st) (pre @ (s, False) # post)" for b z
    using that used_blocks_bound[of b z "heap_start st" pre] used_blocks_bound[of b z "c + s" post] c le
    by (auto simp: add.assoc)
  have ub: "used_blocks (heap_start st) (pre @ place r adj s @ post) =
      insert (c + adj, r) (used_blocks (heap_start st) (pre @ (s, False) # post))"
    using used_blocks_place[OF le, of c] total_place[OF le] c by (auto simp: add.assoc)
  have "allocated r al st (pre @ (s, False) # post) (c + adj + 4) ?st (pre @ place r adj s @ post)"
    unfolding allocated_def ub
    using pres dis ap(4) le c b(7) by (simp add: fields add.commute add.left_commute)
  with run hv show ?thesis by (intro exI[of _ ?st]) (simp add: fields)
qed

lemma Malloc_aligned_unfold:
  assumes "request_ok sz al"
  defines "r \<equiv> real_size sz (max al 4)" and "a \<equiv> max al 4"
  shows "Malloc_aligned sbrk sz al st =
    bindE (case Malloc_search sbrk r a st (heap_start st) False of None \<Rightarrow> Inl Diverges | Some r \<Rightarrow> r) (\<lambda>(st, chunk, adjust).
      bindE (Malloc_align chunk adjust st) (\<lambda>(st, chunk). bindE (Malloc_carve r chunk st) (\<lambda>st.
      let st = st\<lparr>heap_used := wrap (heap_used st + hdr_size (mem st) chunk)\<rparr>; ptr = wrap (chunk + 4) in
      assertE (ptr mod a = 0) ''Returning an unaligned pointer!'' (Inr (ptr, st)))))"
proof -
  note rs = real_size_RoundUp[OF assms(1)]
  have "al \<noteq> 0 \<and> IsPowerOf2 (of_nat al)" "sz \<noteq> 0" "r mod a = 0"
    using assms(1) IsPowerOf2_of_nat rs(2) by (auto simp: request_ok_def align_ok_def r_def a_def)
  then show ?thesis
    by (simp add: Malloc_aligned_def kMaxAlignment_def rs(1) Let_def r_def a_def)
qed

lemma Malloc_fits:
  assumes "heap_inv st bs" "request_ok sz al"
    "first_fit (real_size sz (max al 4)) (max al 4) (heap_start st) bs = Some (c, bs')"
  shows "\<exists>st'. Malloc_aligned sbrk sz al st = Inr (c + 4, st') \<and> heap_inv st' bs' \<and>
    heap st' = heap st \<and> world st' = world st \<and>
    allocated (real_size sz (max al 4)) (max al 4) st bs (c + 4) st' bs'"
proof -
  let ?r = "real_size sz (max al 4)" and ?al = "max al 4"
  note rs = real_size_RoundUp[OF assms(2)]
  have hv: "heap_inv st ([] @ bs)" "heap_start st = heap_start st + total []" using assms(1) by simp_all
  obtain pre s post adj where
    f: "Malloc_search sbrk ?r ?al st (heap_start st) False = Some (Inr (st, heap_start st + total pre, adj))"
      "bs = pre @ (s, False) # post" "fit ?r ?al (heap_start st + total pre) (s, False) = Some adj"
      "c = heap_start st + total pre + adj" "bs' = pre @ place ?r adj s @ post"
    using search_first_fit[OF hv rs(2) assms(3), of sbrk] by blast
  from Malloc_finish[OF assms(1)[unfolded f(2)] refl f(3) rs(2), of "''Returning an unaligned pointer!''"]
  show ?thesis unfolding Malloc_aligned_unfold[OF assms(2)] f by auto
qed

text \<open>
  C7. \<open>Malloc\<close> refines first fit: on a heap whose chunks are the blocks \<open>bs\<close>, when some free block
  can hold the request at its alignment, \<open>Malloc\<close> returns the payload of the first one that
  can, and the chunks afterwards are \<open>bs\<close> with that block split into an unaligned front, the
  allocated block and the rest. The heap is not grown, so this holds whatever \<open>sbrk\<close> does.
\<close>

theorem Malloc_first_fit:
  assumes "heap_inv st bs" "request_ok sz al"
    "first_fit (real_size sz (max al 4)) (max al 4) (heap_start st) bs = Some (c, bs')"
  shows "\<exists>st'. Malloc_aligned sbrk sz al st = Inr (c + 4, st') \<and> heap_inv st' bs' \<and>
    heap st' = heap st \<and> world st' = world st \<and>
    allocated (real_size sz (max al 4)) (max al 4) st bs (c + 4) st' bs'"
  by (rule Malloc_fits[OF assms])

theorem Malloc_first_fit_witness:
  "\<exists>st'. Malloc_aligned (\<lambda>n h w. Inr (0, w)) 12 4
      \<lparr>mem = set_size 0x1000 64 (set_used 0x1000 False (\<lambda>_. 0)), heap = 0x1040, heap_used = 0,
       heap_start = 0x1000, heap_end = 0, world = ()\<rparr> = Inr (0x1004, st') \<and>
     heap_inv st' [(16, True), (48, False)]"
proof -
  let ?st = "\<lparr>mem = set_size 0x1000 64 (set_used 0x1000 False (\<lambda>_. 0)), heap = 0x1040, heap_used = 0,
       heap_start = 0x1000, heap_end = 0, world = ()\<rparr>"
  have inv: "heap_inv ?st [(64, False)]" by (simp add: heap_inv_def ok_block_def)
  have req: "request_ok 12 4" by (auto simp: request_ok_def intro: exI[of _ 2])
  have "first_fit (real_size 12 (max 4 4)) (max 4 4) (heap_start ?st) [(64, False)] = Some (0x1000, [(16, True), (48, False)])"
    by (simp add: real_size_def fit_def place_def)
  from Malloc_first_fit[OF inv req this, of "\<lambda>n h w. Inr (0, w)"] show ?thesis by auto
qed

text \<open>
  The size computation of \<open>Malloc\<close> is not guarded against overflow: \<open>sizeof(MallocHeader) +
  size\<close> wraps for the three largest sizes, and a request for \<open>2 ^ 32 - 3\<close> bytes succeeds with a
  chunk of 4 bytes, its header alone, whenever the first chunk is free and larger.
\<close>

theorem Malloc_overflow:
  assumes "heap_inv st ((s, False) # bs)" "4 < s"
  shows "\<exists>st'. Malloc sbrk 0xFFFFFFFD st = Inr (heap_start st + 4, st') \<and> hdr_size (mem st') (heap_start st) = 4"
proof -
  let ?c = "heap_start st"
  have inv: "heap_inv st ([] @ (s, False) # bs)" and c: "?c = heap_start st + total []" using assms(1) by simp_all
  note b = heap_inv_block[OF inv c] and d = heap_invD[OF inv]
  have pow: "IsPowerOf2 4" using IsPowerOf2_of_nat[of 4 2] by simp
  have top: "?c + 8 \<le> 0x100000000" "wrap (?c + 4) = ?c + 4"
    using assms(2) b(5,7) d(6) by (auto simp: wrap_def)
  have al: "(?c + 4) mod 4 = 0" using d(5) by simp
  have "CanUseChunk 4 4 (mem st) ?c = Some 0"
    using b(1,2,4) al by (simp add: CanUseChunk_def Let_def top)
  then have search: "Malloc_search sbrk 4 4 st ?c False = Some (Inr (st, ?c, 0))"
    by (subst Malloc_search.simps) simp
  have rest: "4 \<le> s - 4"
  proof -
    have "4 dvd s - 4" using b(5) by (simp add: mod_eq_0_iff_dvd dvd_diff_nat)
    then show ?thesis using assms(2) by (auto dest: dvd_imp_le)
  qed
  let ?m = "set_used ?c True (set_size ?c 4 (set_used (?c + 4) False (set_size (?c + 4) (s - 4) (mem st))))"
  have carve: "Malloc_carve 4 ?c st = Inr (upd_mem (\<lambda>_. ?m) st)"
    using b(1,10) rest assms(2) top by (simp add: Malloc_carve_def Let_def NextChunk_at_def upd_mem_def)
  have "Malloc sbrk 0xFFFFFFFD st = Inr (?c + 4,
      (upd_mem (\<lambda>_. ?m) st)\<lparr>heap_used := wrap (heap_used st + hdr_size ?m ?c)\<rparr>)"
    using pow search carve top al
    by (simp add: Malloc_def Malloc_aligned_def kMaxAlignment_def RoundUp_def wrap_def Let_def Malloc_align_def)
  then show ?thesis by simp
qed

theorem Malloc_overflow_witness:
  "\<exists>st'. Malloc (\<lambda>n h w. Inr (0, w)) 0xFFFFFFFD
      \<lparr>mem = set_size 0x1000 64 (set_used 0x1000 False (\<lambda>_. 0)), heap = 0x1040, heap_used = 0,
       heap_start = 0x1000, heap_end = 0, world = ()\<rparr> = Inr (0x1004, st') \<and> hdr_size (mem st') 0x1000 = 4"
  using Malloc_overflow[of "\<lparr>mem = set_size 0x1000 64 (set_used 0x1000 False (\<lambda>_. 0)), heap = 0x1040, heap_used = 0,
       heap_start = 0x1000, heap_end = 0, world = ()\<rparr>" 64 "[]" "\<lambda>n h w. Inr (0, w)"]
  by (simp add: heap_inv_def ok_block_def)

section \<open>The search with growth\<close>

context sbrk_provider
begin

definition found :: "nat \<Rightarrow> nat \<Rightarrow> 'w alloc \<Rightarrow> block list \<Rightarrow> ('w alloc \<times> nat \<times> nat) result option \<Rightarrow> bool" where
  "found r al st bs res \<longleftrightarrow> (\<exists>e. res = Some (Inl e) \<and> out_of_memory e) \<or>
     (\<exists>st' c adj pre s post. res = Some (Inr (st', c, adj)) \<and> alloc_inv hi winv st' (pre @ (s, False) # post) \<and>
        c = heap_start st' + total pre \<and> fit r al c (s, False) = Some adj \<and> preserves st bs st' \<and>
        used_blocks (heap_start st) (pre @ (s, False) # post) = used_blocks (heap_start st) bs)"

lemma found_trans:
  "found r al st' bs' res \<Longrightarrow> preserves st bs st' \<Longrightarrow>
   used_blocks (heap_start st) bs' = used_blocks (heap_start st) bs \<Longrightarrow> found r al st bs res"
proof -
  assume f: "found r al st' bs' res" and p: "preserves st bs st'"
    and u: "used_blocks (heap_start st) bs' = used_blocks (heap_start st) bs"
  have hs: "heap_start st' = heap_start st" using p by (simp add: preserves_def)
  show "found r al st bs res"
  proof (cases "\<exists>e. res = Some (Inl e) \<and> out_of_memory e")
    case True
    then show ?thesis by (auto simp: found_def)
  next
    case False
    then obtain st2 c adj pre s post where
      a: "res = Some (Inr (st2, c, adj))" "alloc_inv hi winv st2 (pre @ (s, False) # post)"
      "c = heap_start st2 + total pre" "fit r al c (s, False) = Some adj" "preserves st' bs' st2"
      "used_blocks (heap_start st') (pre @ (s, False) # post) = used_blocks (heap_start st') bs'"
      using f unfolding found_def by blast
    have "preserves st bs st2" using preserves_trans[OF p a(5)] u by simp
    moreover have "used_blocks (heap_start st) (pre @ (s, False) # post) = used_blocks (heap_start st) bs"
      using a(6) u hs by simp
    ultimately show ?thesis unfolding found_def using a by blast
  qed
qed

text \<open>At the end of the heap the search grows it until the last block fits, or \<open>sbrk\<close> stops it.\<close>

lemma search_at_end:
  assumes "alloc_inv hi winv st (pre @ [(s, False)])" "c = heap_start st + total pre" "align_ok r al"
  shows "found r al st (pre @ [(s, False)]) (Malloc_search sbrk r al st c True)"
  using assms
proof (induction "hi - heap st" arbitrary: st s rule: less_induct)
  case less
  have inv: "heap_inv st (pre @ [(s, False)])" using less.prems(1) by (simp add: alloc_inv_def)
  note cu = CanUseChunk_fit[OF inv less.prems(2,3)] and bl = heap_inv_block[OF inv less.prems(2)]
  have r: "0 < r" "r < 0x80000000" using less.prems(3) by (simp_all add: align_ok_def)
  show ?case
  proof (cases "fit r al c (s, False)")
    case (Some adj)
    then have "Malloc_search sbrk r al st c True = Some (Inr (st, c, adj))"
      using cu by (subst Malloc_search.simps) simp
    then show ?thesis
      unfolding found_def using less.prems Some by (intro disjI2 exI[of _ st] exI[of _ c] exI[of _ adj]
          exI[of _ pre] exI[of _ s] exI[of _ "[]"]) simp
  next
    case None
    from GrowHeap_extend[OF less.prems(1,2) r] show ?thesis
    proof (elim disjE exE conjE)
      fix e assume "GrowHeap sbrk r c st = Inl e" "out_of_memory e"
      then have "Malloc_search sbrk r al st c True = Some (Inl e)"
        using None cu bl(1,3) by (subst Malloc_search.simps) (simp add: Malloc_advance_def)
      with \<open>out_of_memory e\<close> show ?thesis by (simp add: found_def)
    next
      fix st' s' assume g: "GrowHeap sbrk r c st = Inr st'" "alloc_inv hi winv st' (pre @ [(s', False)])"
        "heap st < heap st'" "preserves st (pre @ [(s, False)]) st'"
      have start: "heap_start st' = heap_start st" using g(4) by (simp add: preserves_def)
      have "c \<le> heap st'" using bl(7) g(3) by simp
      then have "Malloc_search sbrk r al st c True = Malloc_search sbrk r al st' c True"
        using None cu bl(1,3) g(1) by (subst Malloc_search.simps) (simp add: Malloc_advance_def)
      moreover have "hi - heap st' < hi - heap st" using g(2,3) by (auto simp: alloc_inv_def)
      ultimately show ?thesis
        using less.hyps[OF _ g(2) _ less.prems(3)] less.prems(2) start
        by (intro found_trans[of r al st' "pre @ [(s', False)]", OF _ g(4)]) simp_all
    qed
  qed
qed

lemma search_found:
  assumes inv: "alloc_inv hi winv st bs" and al: "align_ok r al"
  shows "found r al st bs (Malloc_search sbrk r al st (heap_start st) False)"
proof (cases "first_fit r al (heap_start st) bs")
  case (Some pb)
  obtain p bs' where pb: "pb = (p, bs')" by (cases pb)
  have "heap_inv st ([] @ bs)" "heap_start st = heap_start st + total []"
    using inv by (simp_all add: alloc_inv_def)
  from search_first_fit[OF this al Some[unfolded pb], of sbrk] inv show ?thesis
    unfolding found_def by (metis preserves_refl)
next
  case None
  have hv: "heap_inv st ([] @ bs)" "bs \<noteq> []" "heap_start st = heap_start st + total []"
    using inv by (simp_all add: alloc_inv_def heap_inv_def)
  have r: "0 < r" "r < 0x80000000" using al by (simp_all add: align_ok_def)
  note g = GrowHeap_append[OF inv r]
  have mono: "heap st \<le> heap st'" if "GrowHeap sbrk r (heap st) st = Inr st'" for st' using g that by auto
  have search: "Malloc_search sbrk r al st (heap_start st) False =
      (case GrowHeap sbrk r (heap st) st of Inl e \<Rightarrow> Some (Inl e)
       | Inr st' \<Rightarrow> Malloc_search sbrk r al st' (heap st) True)"
    by (rule search_to_end[OF hv al None]) (rule mono)
  from g show ?thesis
  proof (elim disjE exE conjE)
    fix e assume "GrowHeap sbrk r (heap st) st = Inl e" "out_of_memory e"
    then show ?thesis using search by (simp add: found_def)
  next
    fix st' inc assume st': "GrowHeap sbrk r (heap st) st = Inr st'" "alloc_inv hi winv st' (bs @ [(inc, False)])"
      "preserves st bs st'"
    have "heap st = heap_start st' + total bs"
      using heap_invD(2)[OF hv(1)] st'(3) by (simp add: preserves_def)
    note found_end = search_at_end[OF st'(2) this al]
    have "Malloc_search sbrk r al st (heap_start st) False = Malloc_search sbrk r al st' (heap st) True"
      using search st'(1) by simp
    then show ?thesis using found_trans[OF found_end st'(3)] by simp
  qed
qed

lemma Malloc_aligned_ok:
  assumes inv: "alloc_inv hi winv st bs" and req: "request_ok sz al"
  shows "(\<exists>e. Malloc_aligned sbrk sz al st = Inl e \<and> out_of_memory e) \<or>
    (\<exists>p st' bs'. Malloc_aligned sbrk sz al st = Inr (p, st') \<and> alloc_inv hi winv st' bs' \<and>
       allocated (real_size sz (max al 4)) (max al 4) st bs p st' bs')"
proof -
  let ?al = "max al 4" and ?r = "real_size sz (max al 4)"
  note rs = real_size_RoundUp[OF req]
  let ?res = "Malloc_search sbrk ?r ?al st (heap_start st) False"
  note code = Malloc_aligned_unfold[OF req, of sbrk st]
  show ?thesis
  proof (cases "\<exists>e. ?res = Some (Inl e) \<and> out_of_memory e")
    case True
    then show ?thesis using code by auto
  next
    case False
    then obtain st1 c adj pre s post where
      f: "?res = Some (Inr (st1, c, adj))" "alloc_inv hi winv st1 (pre @ (s, False) # post)"
        "c = heap_start st1 + total pre" "fit ?r ?al c (s, False) = Some adj" "preserves st bs st1"
        "used_blocks (heap_start st) (pre @ (s, False) # post) = used_blocks (heap_start st) bs"
      using search_found[OF inv rs(2)] unfolding found_def by blast
    have hv: "heap_inv st1 (pre @ (s, False) # post)" using f(2) by (simp add: alloc_inv_def)
    obtain st' where st': "Malloc_aligned sbrk sz al st = Inr (c + adj + 4, st')"
      "heap_inv st' (pre @ place ?r adj s @ post)" "heap st' = heap st1" "world st' = world st1"
      "allocated ?r ?al st1 (pre @ (s, False) # post) (c + adj + 4) st' (pre @ place ?r adj s @ post)"
      using Malloc_finish[OF hv f(3,4) rs(2), of "''Returning an unaligned pointer!''"] code f(1) by auto
    have start: "heap_start st1 = heap_start st" using f(5) by (simp add: preserves_def)
    have p2: "preserves st1 (pre @ (s, False) # post) st'" using st'(5) by (simp add: allocated_def)
    have "heap_start st' = heap_start st1" using p2 by (simp add: preserves_def)
    then have "alloc_inv hi winv st' (pre @ place ?r adj s @ post)"
      using f(2) st'(2-4) by (simp add: alloc_inv_def)
    moreover have "preserves st bs st'" using preserves_trans[OF f(5) p2] f(6) by simp
    moreover have "heap_used st1 = heap_used st"
      using heap_used_blocks[OF hv] heap_used_blocks[of st bs] inv f(6) start by (simp add: alloc_inv_def)
    ultimately have "allocated ?r ?al st bs (c + adj + 4) st' (pre @ place ?r adj s @ post)"
      using st'(5) unfolding allocated_def start f(6) by simp
    then show ?thesis using st'(1) \<open>alloc_inv hi winv st' _\<close> by blast
  qed
qed

end

end
