(* ===== verification/FreeCorrect.thy ===== *)
theory FreeCorrect
  imports MallocCorrect
begin

text \<open>
  \<open>Free\<close>, \<open>Realloc\<close>, \<open>Calloc\<close> and \<open>Init\<close>: freeing a block in use removes exactly that block and
  merges it with the free blocks after it, reallocation moves the contents, and no operation
  touches another block in use.
\<close>

section \<open>Free\<close>

definition free_block :: "block \<Rightarrow> bool" where
  "free_block b \<longleftrightarrow> \<not> snd b"

lemma heap_inv_merge:
  assumes inv: "heap_inv st (pre @ (s, False) # (s', False) # post)" and c: "c = heap_start st + total pre"
  shows "heap_inv (upd_mem (set_size c (s + s')) st) (pre @ (s + s', False) # post)"
proof -
  note b = heap_inv_block[OF inv c] and d = heap_invD[OF inv]
  have "heap_inv st ((pre @ [(s, False)]) @ (s', False) # post)" "c + s = heap_start st + total (pre @ [(s, False)])"
    using inv c by simp_all
  note b' = heap_inv_block[OF this]
  let ?m = "set_size c (s + s') (mem st)"
  have old: "?m x = mem st x" if "x < c \<or> c + 4 \<le> x" for x using that by (simp add: set_outside)
  have pre: "chain (mem st) (heap_start st) pre c" and post: "chain (mem st) (c + s + s') post (heap st)"
    using d(1) c by (simp_all add: add.assoc)
  have "chain ?m (heap_start st) pre c" by (rule chain_frame[OF pre]) (simp add: old)
  moreover have "chain ?m (c + s + s') post (heap st)" by (rule chain_frame[OF post]) (use b(4) in \<open>simp add: old\<close>)
  moreover have "s + s' < 0x80000000" using d(7) by simp
  moreover have "(s + s') mod 4 = 0" using b(5) b'(5) by (simp add: mod_eq_0_iff_dvd)
  ultimately show ?thesis
    using d b(2,3) c by (simp add: heap_inv_def ok_block_def add.assoc)
qed

lemma Free_merge_ok:
  assumes "heap_inv st (pre @ (s, False) # post)" "c = heap_start st + total pre"
  shows "\<exists>st'. Free_merge c st = Some st' \<and>
    heap_inv st' (pre @ (s + total (takeWhile free_block post), False) # dropWhile free_block post) \<and>
    (\<forall>x. x < c \<or> c + 4 \<le> x \<longrightarrow> mem st' x = mem st x) \<and> st' = st\<lparr>mem := mem st'\<rparr>"
  using assms
proof (induction post arbitrary: s st)
  case Nil
  note b = heap_inv_block[OF Nil(1,2)]
  have "heap st = c + s" using heap_invD(2)[OF Nil(1)] Nil(2) by simp
  then show ?case using Nil b(8) by (subst Free_merge.simps) simp
next
  case (Cons b0 post)
  obtain s' u where b0: "b0 = (s', u)" by (cases b0)
  note b = heap_inv_block[OF Cons.prems]
  have "heap_inv st ((pre @ [(s, False)]) @ (s', u) # post)" "c + s = heap_start st + total (pre @ [(s, False)])"
    using Cons.prems b0 by simp_all
  note b' = heap_inv_block[OF this]
  show ?case
  proof (cases u)
    case True
    then show ?thesis using Cons.prems b(8) b'(2) b0
      by (subst Free_merge.simps) (simp add: free_block_def)
  next
    case False
    let ?st = "upd_mem (set_size c (s + s')) st"
    have w: "wrap (s + s') = s + s'" using b(10) b'(10) by (simp add: wrap_def)
    have run: "Free_merge c st = Free_merge c ?st"
      using b(1,8) b'(1-3,7,9) False w by (subst Free_merge.simps) (simp add: Let_def)
    have inv: "heap_inv ?st (pre @ (s + s', False) # post)"
      using heap_inv_merge[of st pre s s' post c] Cons.prems b0 False by simp
    from Cons.IH[OF inv] Cons.prems(2) obtain st' where st': "Free_merge c ?st = Some st'"
      "heap_inv st' (pre @ (s + s' + total (takeWhile free_block post), False) # dropWhile free_block post)"
      "\<forall>x. x < c \<or> c + 4 \<le> x \<longrightarrow> mem st' x = mem ?st x" "st' = ?st\<lparr>mem := mem st'\<rparr>" by auto
    have "st' = st\<lparr>mem := mem st'\<rparr>" by (subst st'(4)) (simp add: upd_mem_def)
    with st'(1-3) run b0 False show ?thesis
      by (intro exI[of _ st']) (auto simp: free_block_def[of "(s', False)"] add.assoc set_outside)
  qed
qed

lemma FromPointer_block: "0 < c \<Longrightarrow> c + 4 < 0x100000000 \<Longrightarrow> FromPointer (c + 4) = c"
  by (simp add: FromPointer_def wrap_def)

text \<open>What releasing the block \<open>(c, s)\<close> does: that block and nothing else is gone.\<close>

definition released :: "nat \<Rightarrow> nat \<Rightarrow> 'w alloc \<Rightarrow> block list \<Rightarrow> 'w alloc \<Rightarrow> block list \<Rightarrow> bool" where
  "released c s st bs st' bs' \<longleftrightarrow>
     used_blocks (heap_start st) bs' = used_blocks (heap_start st) bs - {(c, s)} \<and>
     heap_used st' = heap_used st - s \<and> heap st' = heap st \<and> heap_start st' = heap_start st \<and>
     heap_end st' = heap_end st \<and> world st' = world st \<and>
     (\<forall>x. x < c \<or> c + 4 \<le> x \<longrightarrow> mem st' x = mem st x)"

lemma used_blocks_free: "\<forall>b \<in> set bs. free_block b \<Longrightarrow> used_blocks a bs = {} \<and> used_total bs = 0"
  by (induction bs arbitrary: a rule: total.induct) (auto simp: free_block_def)

lemma used_blocks_absorb:
  "used_blocks a ((s + total (takeWhile free_block post), False) # dropWhile free_block post) = used_blocks (a + s) post"
proof -
  have "\<forall>b \<in> set (takeWhile free_block post). free_block b" by (auto dest: set_takeWhileD)
  from conjunct1[OF used_blocks_free[OF this]]
  have "used_blocks (a + s) (takeWhile free_block post @ dropWhile free_block post) =
      used_blocks (a + s + total (takeWhile free_block post)) (dropWhile free_block post)"
    unfolding used_blocks_append by simp
  then show ?thesis by (simp add: add.assoc)
qed

lemma Free_ok:
  assumes inv: "heap_inv st bs" and u: "(c, s) \<in> used_blocks (heap_start st) bs"
  shows "\<exists>st' pre post. Free (c + 4) st = Inr st' \<and> bs = pre @ (s, True) # post \<and> c = heap_start st + total pre \<and>
    heap_inv st' (pre @ (s + total (takeWhile free_block post), False) # dropWhile free_block post) \<and>
    released c s st bs st' (pre @ (s + total (takeWhile free_block post), False) # dropWhile free_block post)"
proof -
  obtain pre post where bs: "bs = pre @ (s, True) # post" and c: "c = heap_start st + total pre"
    using used_block_split[OF u] by blast
  note i = inv[unfolded bs]
  note b = heap_inv_block[OF i c] and d = heap_invD[OF i]
  have fp: "FromPointer (c + 4) = c" using b(4,7,9) d(6) by (intro FromPointer_block) auto
  have used: "s \<le> heap_used st" using d(3) by simp
  let ?st = "(upd_mem (set_used c False) st)\<lparr>heap_used := heap_used st - s\<rparr>"
  have chunk: "chain (mem ?st) c [(s, False)] (c + s)" using b(1,3,5) by (simp add: ok_block_def)
  have "heap_inv ?st (pre @ [(s, False)] @ post)"
    by (rule heap_inv_replace[OF i c chunk]) (use d(3) b(4) in \<open>auto simp: set_outside\<close>)
  then obtain st' where st': "Free_merge c ?st = Some st'"
      "heap_inv st' (pre @ (s + total (takeWhile free_block post), False) # dropWhile free_block post)"
      "\<forall>x. x < c \<or> c + 4 \<le> x \<longrightarrow> mem st' x = mem ?st x" "st' = ?st\<lparr>mem := mem st'\<rparr>"
    using Free_merge_ok[of ?st pre s post c] c by auto
  have run: "Free (c + 4) st = Inr st'"
    using b(1) used st'(1) by (simp add: Free_def fp Let_def)
  have fields: "heap_used st' = heap_used st - s" "heap st' = heap st" "heap_start st' = heap_start st"
      "heap_end st' = heap_end st" "world st' = world st"
    by (subst st'(4), simp)+
  have notin: "(c, s) \<notin> used_blocks (heap_start st) pre \<union> used_blocks (c + s) post"
    using used_blocks_bound[of c s "heap_start st" pre] used_blocks_bound[of c s "c + s" post] c b(3) by auto
  have ub: "used_blocks (heap_start st) (pre @ (s + total (takeWhile free_block post), False) # dropWhile free_block post)
      = used_blocks (heap_start st) bs - {(c, s)}"
    unfolding used_blocks_append used_blocks_absorb using notin c by (auto simp: bs)
  have "released c s st bs st' (pre @ (s + total (takeWhile free_block post), False) # dropWhile free_block post)"
    unfolding released_def ub using st'(3) by (auto simp: fields set_outside)
  with run bs c st'(2) show ?thesis by blast
qed

text \<open>The bytes of the other blocks are outside the released header.\<close>

lemma disjoint_blocks:
  assumes "chain m a bs e" "(b, s) \<in> used_blocks a bs" "(c, t) \<in> used_blocks a bs" "(b, s) \<noteq> (c, t)"
  shows "b + s \<le> c \<or> c + t \<le> b"
proof -
  obtain pre post where bs: "bs = pre @ (s, True) # post" and b: "b = a + total pre"
    using used_block_split[OF assms(2)] by blast
  have "(c, t) \<in> used_blocks a pre \<or> (c, t) \<in> used_blocks (b + s) post"
    using assms(3,4) by (auto simp: bs b add.assoc)
  then show ?thesis
    using used_blocks_bound[of c t a pre] used_blocks_bound[of c t "b + s" post] b by auto
qed

lemma used_block_size: "chain m a bs e \<Longrightarrow> (c, s) \<in> used_blocks a bs \<Longrightarrow> 4 \<le> s \<and> s mod 4 = 0"
  by (induction m a bs e rule: chain.induct) (auto simp: ok_block_ge4 ok_block_def dvd_imp_le split: if_splits)

lemma block_unique:
  "chain m a bs e \<Longrightarrow> (b, s) \<in> used_blocks a bs \<Longrightarrow> (b, t) \<in> used_blocks a bs \<Longrightarrow> s = t"
  using disjoint_blocks[of m a bs e b s b t] used_block_size[of m a bs e b s] used_block_size[of m a bs e b t] by auto

text \<open>A client that writes to the payload of its own block keeps the heap intact.\<close>

lemma heap_inv_payload:
  assumes inv: "heap_inv st bs" and u: "(c, s) \<in> used_blocks (heap_start st) bs"
    and m: "\<And>x. x < c + 4 \<or> c + s \<le> x \<Longrightarrow> m' x = mem st x"
  shows "heap_inv (st\<lparr>mem := m'\<rparr>) bs"
proof -
  obtain pre post where bs: "bs = pre @ (s, True) # post" and c: "c = heap_start st + total pre"
    using used_block_split[OF u] by blast
  note i = inv[unfolded bs]
  note b = heap_inv_block[OF i c]
  have "rd32 m' c = rd32 (mem st) c" using m by (simp add: rd32_def)
  then have "chain m' c [(s, True)] (c + s)"
    using b(1,2,3,5,11) by (simp add: hdr_size_def hdr_used_def ok_block_def)
  then have "heap_inv (st\<lparr>mem := m'\<rparr>) (pre @ [(s, True)] @ post)"
    by (intro heap_inv_replace[OF i c]) (use m heap_invD(3)[OF i] b(4) in auto)
  then show ?thesis by (simp add: bs)
qed

end
