(* ===== verification/ReallocCorrect.thy ===== *)
theory ReallocCorrect
  imports FreeCorrect
begin

text \<open>
  \<open>Realloc\<close>, \<open>Calloc\<close> and \<open>Init\<close> in any heap, and the invariant over every sequence of calls a
  well-behaved client makes.
\<close>

section \<open>Realloc\<close>

text \<open>
  Block \<open>(c, s)\<close> is replaced by one at \<open>q - 4\<close> that holds \<open>sz\<close> bytes: the contents move along, up
  to the smaller of the two sizes, and all other blocks in use keep every byte.
\<close>

definition reallocated :: "nat \<Rightarrow> nat \<Rightarrow> nat \<Rightarrow> 'w alloc \<Rightarrow> block list \<Rightarrow> nat \<Rightarrow> 'w alloc \<Rightarrow> block list \<Rightarrow> bool" where
  "reallocated c s sz st bs q st' bs' \<longleftrightarrow>
     (\<exists>r. sz + 4 \<le> r \<and> used_blocks (heap_start st) bs' = insert (q - 4, r) (used_blocks (heap_start st) bs - {(c, s)})) \<and>
     (\<forall>b z. (b, z) \<in> used_blocks (heap_start st) bs - {(c, s)} \<longrightarrow> b \<noteq> q - 4) \<and>
     heap_start st + 4 \<le> q \<and> q mod 4 = 0 \<and> heap_start st' = heap_start st \<and> heap_end st' = heap_end st \<and>
     (\<forall>i < min sz (s - 4). mem st' (q + i) = mem st (c + 4 + i)) \<and>
     (\<forall>b z x. (b, z) \<in> used_blocks (heap_start st) bs - {(c, s)} \<longrightarrow> b \<le> x \<longrightarrow> x < b + z \<longrightarrow> mem st' x = mem st x)"

lemma request_ok_4: "request_ok sz 4 \<longleftrightarrow> 0 < sz \<and> sz < 0x3FFFFFF0"
  by (auto simp: request_ok_def intro: exI[of _ 2])

lemma block_addr:
  assumes "heap_inv st bs" "(c, s) \<in> used_blocks (heap_start st) bs"
  shows "heap_start st \<le> c" "c + s \<le> heap st" "4 \<le> s" "s mod 4 = 0" "c mod 4 = 0" "FromPointer (c + 4) = c"
    "hdr_size (mem st) c = s" "hdr_used (mem st) c" "s < 0x80000000" "4 < s"
proof -
  obtain pre post where bs: "bs = pre @ (s, True) # post" and c: "c = heap_start st + total pre"
    using used_block_split[OF assms(2)] by blast
  note b = heap_inv_block[OF assms(1)[unfolded bs] c]
  show "heap_start st \<le> c" "c + s \<le> heap st" "4 \<le> s" "s mod 4 = 0" "c mod 4 = 0" "hdr_size (mem st) c = s"
    "hdr_used (mem st) c" "s < 0x80000000" "4 < s"
    using b c by simp_all
  show "FromPointer (c + 4) = c"
    using b heap_invD(6)[OF assms(1)] by (intro FromPointer_block) auto
qed

lemma Realloc_shrink:
  assumes inv: "heap_inv st bs" and u: "(c, s) \<in> used_blocks (heap_start st) bs"
    and r: "4 < r" "r mod 4 = 0" "r + 4 < s" "sz + 4 \<le> r"
  shows "\<exists>bs'. let st1 = upd_mem (set_used (c + r) False) (upd_mem (set_size (c + r) (s - r)) st);
                   st2 = upd_mem (set_size c r) st1;
                   st' = st2\<lparr>heap_used := wrap (heap_used st2 + 0x100000000 - (s - r))\<rparr> in
    hdr_size (mem st1) (c + r) = s - r \<and> hdr_size (mem st2) (c + r) = s - r \<and> heap_inv st' bs' \<and>
    reallocated c s sz st bs (c + 4) st' bs' \<and> heap st' = heap st \<and> world st' = world st"
proof -
  obtain pre post where bs: "bs = pre @ (s, True) # post" and c: "c = heap_start st + total pre"
    using used_block_split[OF u] by blast
  note i = inv[unfolded bs]
  note b = heap_inv_block[OF i c] and d = heap_invD[OF i]
  let ?m = "set_size c r (set_used (c + r) False (set_size (c + r) (s - r) (mem st)))"
  let ?st = "st\<lparr>mem := ?m, heap_used := heap_used st - (s - r)\<rparr>"
  have small: "heap_used st < 0x80000000" using d(3,7) used_total_le[of "pre @ (s, True) # post"] by simp
  have le: "s - r \<le> heap_used st" using d(3) by simp
  have w: "wrap (heap_used st + 0x100000000 - (s - r)) = heap_used st - (s - r)"
    using small le by (intro wrap_sub) simp_all
  have new: "chain ?m c [(r, True), (s - r, False)] (c + s)"
    using b r by (simp add: hdr_set_other ok_block_def mod_eq_0_iff_dvd dvd_diff_nat)
  have out: "?m x = mem st x" if "x < c \<or> (c + 4 \<le> x \<and> x < c + r) \<or> c + s \<le> x" for x
    using that r by (auto simp: set_outside)
  have hv: "heap_inv ?st (pre @ [(r, True), (s - r, False)] @ post)"
    by (rule heap_inv_replace[OF i c]) (use new out d(3) r in auto)
  have notin: "(c, s) \<notin> used_blocks (heap_start st) pre \<union> used_blocks (c + s) post"
    using used_blocks_bound[of c s "heap_start st" pre] used_blocks_bound[of c s "c + s" post] c b(3) by auto
  have rest: "used_blocks (heap_start st) bs - {(c, s)} = used_blocks (heap_start st) pre \<union> used_blocks (c + s) post"
    using notin by (auto simp: bs c add.assoc)
  have "used_blocks (heap_start st) (pre @ [(r, True), (s - r, False)] @ post)
      = insert (c, r) (used_blocks (heap_start st) bs - {(c, s)})"
    unfolding rest using c r by (auto simp: add.assoc)
  moreover have "?m x = mem st x" if "(b, z) \<in> used_blocks (heap_start st) bs - {(c, s)}" "b \<le> x" "x < b + z" for b z x
    using disjoint_blocks[OF heap_invD(1)[OF inv] _ u, of b z] that by (intro out) auto
  moreover have "?m (c + 4 + k) = mem st (c + 4 + k)" if "k < sz" for k
    using that r by (intro out) auto
  moreover have "(c + 4) mod 4 = 0" using b(6) by simp
  ultimately have "reallocated c s sz st bs (c + 4) ?st (pre @ [(r, True), (s - r, False)] @ post)"
    using r(4) c by (auto simp: reallocated_def dest: block_unique[OF heap_invD(1)[OF inv] u[unfolded c]])
  moreover have "(upd_mem (set_size c r) (upd_mem (set_used (c + r) False) (upd_mem (set_size (c + r) (s - r)) st)))
      \<lparr>heap_used := wrap (heap_used st + 0x100000000 - (s - r))\<rparr> = ?st"
    unfolding w by (simp add: upd_mem_def)
  ultimately show ?thesis
    unfolding Let_def upd_mem_simps using hv r b(10)
    by (intro exI[of _ "pre @ [(r, True), (s - r, False)] @ post"]) (simp add: hdr_set_other)
qed

context sbrk_provider
begin

lemma SlowRealloc_ok:
  assumes inv: "alloc_inv hi winv st bs" and u: "(c, s) \<in> used_blocks (heap_start st) bs"
    and sz: "0 < sz" "sz < 0x3FFFFFF0"
  shows "(\<exists>e. SlowRealloc sbrk (c + 4) sz st = Inl e \<and> out_of_memory e) \<or>
    (\<exists>q st' bs'. SlowRealloc sbrk (c + 4) sz st = Inr (q, st') \<and> alloc_inv hi winv st' bs' \<and>
       reallocated c s sz st bs q st' bs')"
proof -
  have req: "request_ok sz 4" using sz by (simp add: request_ok_4)
  have hv: "heap_inv st bs" using inv by (simp add: alloc_inv_def)
  note a = block_addr[OF hv u]
  have old: "wrap (s + 0x100000000 - 4) = s - 4" using a(3,9) by (intro wrap_sub) simp_all
  from Malloc_aligned_ok[OF inv req] show ?thesis
  proof (elim disjE exE conjE)
    fix e assume "Malloc_aligned sbrk sz 4 st = Inl e" "out_of_memory e"
    then show ?thesis by (simp add: SlowRealloc_def Malloc_def kMaxAlignment_def Let_def)
  next
    fix q st1 bs1
    let ?r = "real_size sz (max 4 4)"
    assume m: "Malloc_aligned sbrk sz 4 st = Inr (q, st1)" "alloc_inv hi winv st1 bs1"
      "allocated ?r (max 4 4) st bs q st1 bs1"
    note al = allocatedD[OF m(3)]
    have rs: "sz + 4 \<le> ?r" using real_size_RoundUp(3)[OF req] by simp
    have dis: "c + s \<le> q - 4 \<or> q - 4 + ?r \<le> c" using al(6)[OF u] .
    note start = al(8)
    let ?n = "if sz < s - 4 then sz else s - 4"
    let ?st2 = "upd_mem (memcpy q (c + 4) ?n) st1"
    have h1: "heap_inv st1 bs1" using m(2) by (simp add: alloc_inv_def)
    have uq: "(q - 4, ?r) \<in> used_blocks (heap_start st1) bs1" using al(5) start by simp
    have out: "memcpy q (c + 4) ?n (mem st1) x = mem st1 x" if "x < q \<or> q - 4 + ?r \<le> x" for x
      using that rs al(1) by (intro memcpy_outside) (auto split: if_splits)
    have "heap_inv (st1\<lparr>mem := memcpy q (c + 4) ?n (mem st1)\<rparr>) bs1"
      by (rule heap_inv_payload[OF h1 uq]) (use al(1) out in auto)
    then have h2: "heap_inv ?st2 bs1" by (simp add: upd_mem_def)
    have uc: "(c, s) \<in> used_blocks (heap_start ?st2) bs1" using al(5) u start by simp
    obtain st' bs' where st': "Free (c + 4) ?st2 = Inr st'" "heap_inv st' bs'" "released c s ?st2 bs1 st' bs'"
      using Free_ok[OF h2 uc] by blast
    have run: "SlowRealloc sbrk (c + 4) sz st = Inr (q, st')"
    proof -
      have "q \<noteq> c + 4" using dis a(3) rs al(1) by auto
      then show ?thesis
        unfolding SlowRealloc_def Malloc_def kMaxAlignment_def Let_def a(6) a(7) old
        using m(1) st'(1) by simp
    qed
    have al': "alloc_inv hi winv st' bs'"
      using st'(2,3) m(2) by (simp add: alloc_inv_def released_def)
    have mem': "mem st' x = mem ?st2 x" if "x < c \<or> c + 4 \<le> x" for x
      using st'(3) that by (auto simp: released_def)
    have "mem st' (q + i) = mem st (c + 4 + i)" if i: "i < min sz (s - 4)" for i
    proof -
      have i2: "i < sz" "i < s - 4" using i by simp_all
      then have "q + i < c \<or> c + 4 \<le> q + i" using dis rs al(1) a(3) by linarith
      then have "mem st' (q + i) = mem ?st2 (q + i)" by (rule mem')
      also have "\<dots> = mem st1 (c + 4 + i)"
      proof -
        have "c + 4 + ?n \<le> q \<or> q + ?n \<le> c + 4 \<or> q \<le> c + 4" "i < ?n"
          using dis i2 rs al(1) a(3) by (auto split: if_splits)
        from memcpy_inside[OF this] show ?thesis by simp
      qed
      also have "\<dots> = mem st (c + 4 + i)" using al(3) u i by (auto simp: preserves_def)
      finally show ?thesis .
    qed
    moreover have "mem st' x = mem st x"
      if b: "(b, z) \<in> used_blocks (heap_start st) bs - {(c, s)}" and x: "b \<le> x" "x < b + z" for b z x
    proof -
      have "b + z \<le> c \<or> c + s \<le> b" using disjoint_blocks[OF heap_invD(1)[OF hv] _ u, of b z] b by auto
      then have "mem st' x = mem ?st2 x" using mem'[of x] x a(3) by auto
      also have "\<dots> = mem st1 x"
      proof -
        have "(b, z) \<in> used_blocks (heap_start st) bs" using b by simp
        from al(7)[OF this x] have "x < q \<or> q - 4 + ?r \<le> x" by linarith
        from out[OF this] show ?thesis by simp
      qed
      also have "\<dots> = mem st x" using al(3) b x by (auto simp: preserves_def)
      finally show ?thesis .
    qed
    moreover have "used_blocks (heap_start st) bs' = insert (q - 4, ?r) (used_blocks (heap_start st) bs - {(c, s)})"
      using st'(3) al(5) start dis a(3) rs by (auto simp: released_def)
    moreover have "heap_start st' = heap_start st" "heap_end st' = heap_end st"
      using st'(3) start al(3) by (simp_all add: released_def preserves_def)
    moreover have "b \<noteq> q - 4" if b: "(b, z) \<in> used_blocks (heap_start st) bs - {(c, s)}" for b z
      using al(6)[of b z] used_block_size[OF heap_invD(1)[OF hv], of b z] b rs by auto
    ultimately have "reallocated c s sz st bs q st' bs'"
      unfolding reallocated_def using al(1,2) rs unfolding max.idem by blast
    with run al' show ?thesis by blast
  qed
qed

lemma Realloc_ok:
  assumes inv: "alloc_inv hi winv st bs" and u: "(c, s) \<in> used_blocks (heap_start st) bs"
    and sz: "0 < sz" "sz < 0x3FFFFFF0" and he: "heap_end st \<noteq> 0 \<longrightarrow> heap st \<le> heap_end st"
  shows "(\<exists>e. Realloc sbrk (c + 4) sz st = Inl e \<and> out_of_memory e) \<or>
    (\<exists>q st' bs'. Realloc sbrk (c + 4) sz st = Inr (q, st') \<and> alloc_inv hi winv st' bs' \<and>
       reallocated c s sz st bs q st' bs')"
proof -
  have req: "request_ok sz 4" using sz by (simp add: request_ok_4)
  have hv: "heap_inv st bs" using inv by (simp add: alloc_inv_def)
  note a = block_addr[OF hv u]
  define r where "r = real_size sz 4"
  have r: "RoundUp (wrap (sz + 4)) 4 = r" "r mod 4 = 0" "sz + 4 \<le> r" "r < 0x80000000"
    using real_size_RoundUp[OF req] by (simp_all add: r_def align_ok_def add.commute)
  have pos: "4 < r" using r(2,3) sz by presburger
  have guard: "heap_start st \<le> c + 4" "heap_end st \<noteq> 0 \<longrightarrow> c + 4 < heap_end st" using a he by auto
  have w: "wrap (r + 4) = r + 4" "c + r < 0x100000000 \<Longrightarrow> wrap (c + r) = c + r" using r(4) by (simp_all add: wrap_def)
  note code = Realloc_def[of sbrk "c + 4" sz st]
  consider "s = r" | "r + 4 < s" | "s \<noteq> r" "\<not> r + 4 < s" by blast
  then show ?thesis
  proof cases
    case 1
    have "Realloc sbrk (c + 4) sz st = Inr (c + 4, st)"
      using guard sz r a(6-8) 1 by (simp add: code kMaxAlignment_def)
    moreover have "reallocated c s sz st bs (c + 4) st bs"
      unfolding reallocated_def using r(3) 1 a(1,5) u by (auto dest: block_unique[OF heap_invD(1)[OF hv] u])
    ultimately show ?thesis using inv by blast
  next
    case 2
    let ?st1 = "upd_mem (set_used (c + r) False) (upd_mem (set_size (c + r) (s - r)) st)"
    let ?st2 = "upd_mem (set_size c r) ?st1"
    let ?st' = "?st2\<lparr>heap_used := wrap (heap_used ?st2 + 0x100000000 - (s - r))\<rparr>"
    obtain bs' where bs': "hdr_size (mem ?st1) (c + r) = s - r" "hdr_size (mem ?st2) (c + r) = s - r"
        "heap_inv ?st' bs'" "reallocated c s sz st bs (c + 4) ?st' bs'"
      using Realloc_shrink[OF hv u pos r(2) 2 r(3)] by (auto simp: Let_def)
    have "c + r < 0x100000000" using a(2) 2 heap_invD(6)[OF hv] by simp
    then have "Realloc sbrk (c + 4) sz st = Inr (c + 4, ?st')"
      using guard sz r a(6-8) 2 w bs'(1,2) by (simp add: code kMaxAlignment_def Let_def NextChunk_at_def)
    moreover have "alloc_inv hi winv ?st' bs'" using inv bs'(3) by (simp add: alloc_inv_def)
    ultimately show ?thesis using bs'(4) by blast
  next
    case 3
    then have "Realloc sbrk (c + 4) sz st = SlowRealloc sbrk (c + 4) sz st"
      using guard sz r a(6-8) w by (simp add: code kMaxAlignment_def)
    with SlowRealloc_ok[OF inv u sz] show ?thesis by simp
  qed
qed

lemma Calloc_ok:
  assumes inv: "alloc_inv hi winv st bs" and sz: "0 < num * sz" "num * sz < 0x3FFFFFF0"
  shows "(\<exists>e. Calloc sbrk num sz st = Inl e \<and> out_of_memory e) \<or>
    (\<exists>p st' bs'. Calloc sbrk num sz st = Inr (p, st') \<and> alloc_inv hi winv st' bs' \<and>
       allocated (real_size (num * sz) 4) 4 st bs p st' bs' \<and> (\<forall>i < num * sz. mem st' (p + i) = 0))"
proof -
  let ?n = "num * sz"
  have req: "request_ok ?n 4" using sz by (simp add: request_ok_4)
  have w: "wrap ?n = ?n" using sz by (simp add: wrap_def)
  note code = Calloc_def[of sbrk num sz st, unfolded w Malloc_def kMaxAlignment_def]
  from Malloc_aligned_ok[OF inv req, unfolded max.idem] show ?thesis
  proof (elim disjE exE conjE)
    fix e assume "Malloc_aligned sbrk ?n 4 st = Inl e" "out_of_memory e"
    then show ?thesis by (simp add: code)
  next
    fix p st1 bs1
    let ?r = "real_size ?n 4"
    assume m: "Malloc_aligned sbrk ?n 4 st = Inr (p, st1)" "alloc_inv hi winv st1 bs1"
      "allocated ?r 4 st bs p st1 bs1"
    have rs: "?n + 4 \<le> ?r" using real_size_RoundUp(3)[OF req] by simp
    let ?st = "upd_mem (memset p 0 ?n) st1"
    note al = allocatedD[OF m(3)]
    have new: "(p - 4, ?r) \<in> used_blocks (heap_start st1) bs1" using al(5,8) by simp
    have out: "memset p 0 ?n m x = m x" if "x < p \<or> p - 4 + ?r \<le> x" for m x
      using that rs al(1) by (auto simp: memset_spec)
    have h1: "heap_inv st1 bs1" using m(2) by (simp add: alloc_inv_def)
    have "heap_inv (st1\<lparr>mem := memset p 0 ?n (mem st1)\<rparr>) bs1"
      by (rule heap_inv_payload[OF h1 new]) (use al(1) out in auto)
    then have "alloc_inv hi winv ?st bs1" using m(2) by (simp add: alloc_inv_def upd_mem_def)
    moreover have "preserves st bs ?st"
      unfolding preserves_def
    proof (intro conjI allI impI)
      fix b z x assume b: "(b, z) \<in> used_blocks (heap_start st) bs" "b \<le> x" "x < b + z"
      have "x < p \<or> p - 4 + ?r \<le> x" using al(7)[OF b] by linarith
      then have "mem ?st x = mem st1 x" using out by simp
      also have "\<dots> = mem st x" using al(3) b by (simp add: preserves_def)
      finally show "mem ?st x = mem st x" .
    qed (use al(3) in \<open>simp_all add: preserves_def\<close>)
    then have "allocated ?r 4 st bs p ?st bs1" using m(3) unfolding allocated_def upd_mem_simps by blast
    moreover have "Calloc sbrk num sz st = Inr (p, ?st)" using m(1) by (simp add: code)
    ultimately show ?thesis by (auto simp: memset_spec)
  qed
qed

lemma Init_ok:
  assumes w: "winv lo (world st)" and lo: "0 < lo" "lo mod 4 = 0" "lo \<le> hi" "hi - lo < 0x80000000"
    and run: "Init sbrk lo he st = Inr st'"
  shows "\<exists>s. alloc_inv hi winv st' [(s, False)] \<and> heap_start st' = lo \<and> heap_end st' = he \<and>
    (\<forall>x. x < lo \<or> lo + 4 \<le> x \<longrightarrow> mem st' x = mem st x)"
proof -
  obtain h w' where s: "sbrk 1 lo (world st) = Inr (h, w')" "lo < h"
      "st' = (st\<lparr>heap := h, heap_end := he, heap_used := 0, heap_start := lo, world := w',
              mem := set_size lo (h - lo) (set_used lo False (mem st))\<rparr>)"
    using run by (auto simp: Init_def InitializeHeap_def assertE_Inr_iff bindE_Inr_iff Let_def upd_mem_def)
  have g: "h \<le> hi" "h mod 4 = 0" "winv h w'" using grow[OF w lo(1,3,2) _ _ s(1)] s(2) by auto
  then have "h - lo < 0x80000000" "(h - lo) mod 4 = 0"
    using lo by (auto simp: mod_eq_0_iff_dvd dvd_diff_nat)
  then have "heap_inv st' [(h - lo, False)]"
    using s(2) g lo hi by (simp add: heap_inv_def s(3) ok_block_def)
  then have "alloc_inv hi winv st' [(h - lo, False)]"
    using g lo hi by (simp add: alloc_inv_def s(3))
  then show ?thesis by (intro exI[of _ "h - lo"]) (simp add: s(3) set_outside)
qed

end

end
