(* ===== verification/HeapClient.thy ===== *)
theory HeapClient
  imports ReallocCorrect
begin

text \<open>
  The clients of a heap. \<open>client_run\<close> are the states a heap passes through while its clients
  allocate, reallocate and free their own blocks and write to their own bytes, in any order;
  \<open>live\<close> maps each pointer handed out and not yet freed to the size asked for. The regions of
  live pointers never overlap, and freeing one never fails.
\<close>

inductive client_run :: "'w sbrk \<Rightarrow> 'w alloc \<Rightarrow> 'w alloc \<Rightarrow> (nat \<rightharpoonup> nat) \<Rightarrow> bool"
  for sbrk :: "'w sbrk" and st0 :: "'w alloc" where
  start: "client_run sbrk st0 st0 Map.empty"
| malloc: "client_run sbrk st0 st live \<Longrightarrow> request_ok sz al \<Longrightarrow> Malloc_aligned sbrk sz al st = Inr (p, st') \<Longrightarrow>
    client_run sbrk st0 st' (live(p \<mapsto> sz))"
| calloc: "client_run sbrk st0 st live \<Longrightarrow> 0 < num * sz \<Longrightarrow> num * sz < 0x3FFFFFF0 \<Longrightarrow>
    Calloc sbrk num sz st = Inr (p, st') \<Longrightarrow> client_run sbrk st0 st' (live(p \<mapsto> num * sz))"
| realloc: "client_run sbrk st0 st live \<Longrightarrow> live p = Some n \<Longrightarrow> 0 < sz \<Longrightarrow> sz < 0x3FFFFFF0 \<Longrightarrow>
    Realloc sbrk p sz st = Inr (q, st') \<Longrightarrow> client_run sbrk st0 st' (live(p := None, q \<mapsto> sz))"
| free: "client_run sbrk st0 st live \<Longrightarrow> live p = Some n \<Longrightarrow> Free p st = Inr st' \<Longrightarrow>
    client_run sbrk st0 st' (live(p := None))"
| store: "client_run sbrk st0 st live \<Longrightarrow> live p = Some n \<Longrightarrow> p \<le> a \<Longrightarrow> a < p + n \<Longrightarrow>
    client_run sbrk st0 (upd_mem (\<lambda>m. m(a := v)) st) live"

text \<open>The live pointers are exactly the payloads of the blocks in use, each large enough.\<close>

definition owners :: "nat \<Rightarrow> (nat \<times> nat) set \<Rightarrow> (nat \<rightharpoonup> nat) \<Rightarrow> bool" where
  "owners a U live \<longleftrightarrow>
     (\<forall>p n. live p = Some n \<longrightarrow> a + 4 \<le> p \<and> (\<exists>s. (p - 4, s) \<in> U \<and> n + 4 \<le> s)) \<and>
     (\<forall>b s. (b, s) \<in> U \<longrightarrow> live (b + 4) \<noteq> None)"

lemma ownersE:
  assumes "owners a U live" "live p = Some n"
  obtains s where "(p - 4, s) \<in> U" "a + 4 \<le> p" "n + 4 \<le> s"
  using assms unfolding owners_def by blast

lemma owners_insert:
  assumes "owners a U live" "sz + 4 \<le> r" "a + 4 \<le> p"
  shows "owners a (insert (p - 4, r) U) (live(p \<mapsto> sz))"
  unfolding owners_def
proof (intro conjI allI impI)
  fix q n assume q: "(live(p \<mapsto> sz)) q = Some n"
  show "a + 4 \<le> q" using q assms(1,3) by (auto simp: owners_def split: if_splits)
  show "\<exists>s. (q - 4, s) \<in> insert (p - 4, r) U \<and> n + 4 \<le> s"
  proof (cases "q = p")
    case True
    then show ?thesis using q assms(2) by auto
  next
    case False
    then have "live q = Some n" using q by simp
    with assms(1) show ?thesis unfolding owners_def by blast
  qed
next
  fix b s assume "(b, s) \<in> insert (p - 4, r) U"
  then show "(live(p \<mapsto> sz)) (b + 4) \<noteq> None" using assms by (auto simp: owners_def)
qed

lemma owners_remove:
  assumes o: "owners a U live" and p: "(p - 4, s) \<in> U" "a + 4 \<le> p"
    and uniq: "\<And>t. (p - 4, t) \<in> U \<Longrightarrow> t = s"
  shows "owners a (U - {(p - 4, s)}) (live(p := None))"
  unfolding owners_def
proof (intro conjI allI impI)
  fix q n assume q: "(live(p := None)) q = Some n"
  then have l: "live q = Some n" "q \<noteq> p" by (auto split: if_splits)
  then obtain t where t: "a + 4 \<le> q" "(q - 4, t) \<in> U" "n + 4 \<le> t" using o unfolding owners_def by blast
  show "a + 4 \<le> q" by (rule t(1))
  have "q - 4 \<noteq> p - 4" using l(2) t(1) p(2) by auto
  then show "\<exists>s'. (q - 4, s') \<in> U - {(p - 4, s)} \<and> n + 4 \<le> s'" using t by auto
next
  fix b t assume b: "(b, t) \<in> U - {(p - 4, s)}"
  then have "b \<noteq> p - 4" using uniq by auto
  with b o show "(live(p := None)) (b + 4) \<noteq> None" by (auto simp: owners_def)
qed

context sbrk_provider
begin

lemma client_run_inv:
  assumes "client_run sbrk st0 st live"
    and "alloc_inv hi winv st0 bs0" "used_blocks (heap_start st0) bs0 = {}" "heap_end st0 = hi"
  shows "\<exists>bs. alloc_inv hi winv st bs \<and> owners (heap_start st) (used_blocks (heap_start st) bs) live \<and> heap_end st = hi \<and>
    heap_start st = heap_start st0"
  using assms
proof (induction rule: client_run.induct)
  case start
  then show ?case by (intro exI[of _ bs0]) (simp add: owners_def)
next
  case (malloc st live sz al p st')
  then obtain bs where bs: "alloc_inv hi winv st bs" "owners (heap_start st) (used_blocks (heap_start st) bs) live" "heap_end st = hi"
      "heap_start st = heap_start st0" by blast
  from Malloc_aligned_ok[OF bs(1) malloc.hyps(2)] malloc.hyps(3)
  obtain bs' where a: "alloc_inv hi winv st' bs'" "allocated (real_size sz (max al 4)) (max al 4) st bs p st' bs'" by auto
  note d = allocatedD[OF a(2)]
  show ?case
    using a(1) owners_insert[OF bs(2) real_size_RoundUp(3)[OF malloc.hyps(2)] d(1)] d(3,5,8) bs(3,4)
    by (intro exI[of _ bs']) (simp add: preserves_def fun_upd_def)
next
  case (calloc st live num sz p st')
  then obtain bs where bs: "alloc_inv hi winv st bs" "owners (heap_start st) (used_blocks (heap_start st) bs) live" "heap_end st = hi"
      "heap_start st = heap_start st0" by blast
  from Calloc_ok[OF bs(1) calloc.hyps(2,3)] calloc.hyps(4)
  obtain bs' where a: "alloc_inv hi winv st' bs'" "allocated (real_size (num * sz) 4) 4 st bs p st' bs'" by auto
  note d = allocatedD[OF a(2)]
  have "num * sz + 4 \<le> real_size (num * sz) 4"
    using real_size_RoundUp(3)[of "num * sz" 4] calloc.hyps(2,3) by (simp add: request_ok_4)
  then show ?case
    using a(1) owners_insert[OF bs(2) _ d(1)] d(3,5,8) bs(3,4)
    by (intro exI[of _ bs']) (simp add: preserves_def fun_upd_def)
next
  case (realloc st live p n sz q st')
  then obtain bs where bs: "alloc_inv hi winv st bs" "owners (heap_start st) (used_blocks (heap_start st) bs) live" "heap_end st = hi"
      "heap_start st = heap_start st0" by blast
  have hv: "heap_inv st bs" using bs(1) by (simp add: alloc_inv_def)
  obtain s where s: "(p - 4, s) \<in> used_blocks (heap_start st) bs" "heap_start st + 4 \<le> p"
    using ownersE[OF bs(2) realloc.hyps(2)] .
  have p: "p - 4 + 4 = p" using s(2) by simp
  have he: "heap_end st \<noteq> 0 \<longrightarrow> heap st \<le> heap_end st" using bs by (simp add: alloc_inv_def)
  obtain bs' where a: "alloc_inv hi winv st' bs'" "reallocated (p - 4) s sz st bs q st' bs'"
    using Realloc_ok[OF bs(1) s(1) realloc.hyps(3,4) he] realloc.hyps(5) by (auto simp: p)
  obtain r where r: "sz + 4 \<le> r" "used_blocks (heap_start st) bs' = insert (q - 4, r) (used_blocks (heap_start st) bs - {(p - 4, s)})"
    and q: "heap_start st + 4 \<le> q" "heap_start st' = heap_start st" "heap_end st' = heap_end st"
    using a(2) by (auto simp: reallocated_def)
  have "owners (heap_start st) (used_blocks (heap_start st) bs') (live(p := None, q \<mapsto> sz))"
    unfolding r(2)
    by (intro owners_insert[OF owners_remove[OF bs(2) s]] block_unique[OF heap_invD(1)[OF hv] _ s(1)] r(1) q(1))
  then show ?case using a(1) q bs(3,4) by (intro exI[of _ bs']) (simp add: fun_upd_def)
next
  case (free st live p n st')
  then obtain bs where bs: "alloc_inv hi winv st bs" "owners (heap_start st) (used_blocks (heap_start st) bs) live" "heap_end st = hi"
      "heap_start st = heap_start st0" by blast
  have hv: "heap_inv st bs" using bs(1) by (simp add: alloc_inv_def)
  obtain s where s: "(p - 4, s) \<in> used_blocks (heap_start st) bs" "heap_start st + 4 \<le> p"
    using ownersE[OF bs(2) free.hyps(2)] .
  have p: "p - 4 + 4 = p" using s(2) by simp
  obtain bs' where f: "heap_inv st' bs'" "released (p - 4) s st bs st' bs'"
    using Free_ok[OF hv s(1)] free.hyps(3) unfolding p by auto
  have "owners (heap_start st) (used_blocks (heap_start st) bs') (live(p := None))"
    using owners_remove[OF bs(2) s block_unique[OF heap_invD(1)[OF hv] _ s(1)]] f(2) by (simp add: released_def)
  then show ?case using f bs by (intro exI[of _ bs']) (simp add: released_def alloc_inv_def fun_upd_def)
next
  case (store st live p n a v)
  then obtain bs where bs: "alloc_inv hi winv st bs" "owners (heap_start st) (used_blocks (heap_start st) bs) live" "heap_end st = hi"
      "heap_start st = heap_start st0" by blast
  have hv: "heap_inv st bs" using bs(1) by (simp add: alloc_inv_def)
  obtain s where s: "(p - 4, s) \<in> used_blocks (heap_start st) bs" "heap_start st + 4 \<le> p" "n + 4 \<le> s"
    using ownersE[OF bs(2) store.hyps(2)] .
  have "heap_inv (st\<lparr>mem := (mem st)(a := v)\<rparr>) bs"
    by (rule heap_inv_payload[OF hv s(1)]) (use s(2,3) store.hyps(3,4) in auto)
  then show ?case using bs by (intro exI[of _ bs]) (simp add: alloc_inv_def upd_mem_def)
qed

lemma client_run_safe:
  assumes run: "client_run sbrk st0 st live"
    and "alloc_inv hi winv st0 bs0" "used_blocks (heap_start st0) bs0 = {}" "heap_end st0 = hi"
  shows "(\<forall>p n. live p = Some n \<longrightarrow> heap_start st + 4 \<le> p \<and> p + n \<le> heap st \<and> p mod 4 = 0) \<and>
    (\<forall>p n q m. live p = Some n \<longrightarrow> live q = Some m \<longrightarrow> p \<noteq> q \<longrightarrow> p + n \<le> q \<or> q + m \<le> p) \<and>
    (\<forall>p n. live p = Some n \<longrightarrow> (\<exists>st'. Free p st = Inr st')) \<and> winv (heap st) (world st) \<and> heap st \<le> hi \<and>
    heap_start st = heap_start st0"
proof -
  obtain bs where bs: "alloc_inv hi winv st bs" "owners (heap_start st) (used_blocks (heap_start st) bs) live"
      "heap_start st = heap_start st0"
    using client_run_inv[OF assms] by blast
  have hv: "heap_inv st bs" using bs(1) by (simp add: alloc_inv_def)
  have own: "heap_start st + 4 \<le> p \<and> (\<exists>s. (p - 4, s) \<in> used_blocks (heap_start st) bs \<and> n + 4 \<le> s)"
    if "live p = Some n" for p n using bs(2) that by (simp add: owners_def)
  have "heap_start st + 4 \<le> p \<and> p + n \<le> heap st \<and> p mod 4 = 0" if l: "live p = Some n" for p n
  proof -
    obtain s where s: "heap_start st + 4 \<le> p" "(p - 4, s) \<in> used_blocks (heap_start st) bs" "n + 4 \<le> s" using own[OF l] by blast
    note a = block_addr[OF hv s(2)]
    have "p = p - 4 + 4" using s(1) by simp
    then have "p mod 4 = 0" using a(5) by (metis mod_add_self2)
    then show ?thesis using s a(2) by auto
  qed
  moreover have "p + n \<le> q \<or> q + m \<le> p" if l: "live p = Some n" "live q = Some m" "p \<noteq> q" for p n q m
  proof -
    obtain s t where s: "heap_start st + 4 \<le> p" "(p - 4, s) \<in> used_blocks (heap_start st) bs" "n + 4 \<le> s"
        "heap_start st + 4 \<le> q" "(q - 4, t) \<in> used_blocks (heap_start st) bs" "m + 4 \<le> t"
      using own[OF l(1)] own[OF l(2)] by blast
    have "(p - 4, s) \<noteq> (q - 4, t)" using l(3) s(1,4) by auto
    from disjoint_blocks[OF heap_invD(1)[OF hv] s(2,5) this] s show ?thesis by linarith
  qed
  moreover have "\<exists>st'. Free p st = Inr st'" if l: "live p = Some n" for p n
  proof -
    obtain s where s: "heap_start st + 4 \<le> p" "(p - 4, s) \<in> used_blocks (heap_start st) bs" using own[OF l] by blast
    then have "p - 4 + 4 = p" by simp
    with Free_ok[OF hv s(2)] show ?thesis by auto
  qed
  ultimately show ?thesis using bs(1,3) by (simp add: alloc_inv_def)
qed

end

end
