(* ===== verification/HeapBlocks.thy ===== *)
theory HeapBlocks
  imports HeapClient
begin

text \<open>
  The allocation functions of \<^verbatim>\<open>libc/stdlib.cpp\<close> and what a client may rely on. The file is built
  twice: for the kernel the functions are those of \<open>kmalloc.cpp\<close>, for user programs those of
  \<open>umalloc.cpp\<close>; \<open>libc\<close> is the record of these functions, its two values are in \<open>HeapBuilds\<close>. The
  locale \<open>block_heap\<close> is the contract in terms of the live blocks of a client. \<open>memmove\<close> of \<^verbatim>\<open>libc/string.cpp\<close>, which allocates a temporary block, and
  the C++ containers are written over it.
\<close>

section \<open>The functions of stdlib.cpp\<close>

record 'w libc =
  libc_malloc :: "nat \<Rightarrow> 'w alloc \<Rightarrow> (nat \<times> 'w alloc) result"
  libc_aligned_alloc :: "nat \<Rightarrow> nat \<Rightarrow> 'w alloc \<Rightarrow> (nat \<times> 'w alloc) result"
  libc_free :: "nat \<Rightarrow> 'w alloc \<Rightarrow> 'w alloc result"
  libc_realloc :: "nat \<Rightarrow> nat \<Rightarrow> 'w alloc \<Rightarrow> (nat \<times> 'w alloc) result"
  libc_calloc :: "nat \<Rightarrow> nat \<Rightarrow> 'w alloc \<Rightarrow> (nat \<times> 'w alloc) result"

text \<open>\<open>memmove\<close> copies through a block of its own.\<close>

definition memmove :: "'w libc \<Rightarrow> nat \<Rightarrow> nat \<Rightarrow> nat \<Rightarrow> 'w alloc \<Rightarrow> 'w alloc result" where
  "memmove L dest src sz st =
     (if sz = 0 then Inr st
      else
        bindE (libc_malloc L sz st) (\<lambda>(temp, st).
        let st = upd_mem (memcpy temp src sz) st;
            st = upd_mem (memcpy dest temp sz) st in
        libc_free L temp st))"

section \<open>The contract\<close>

text \<open>The bytes of the blocks of \<open>live\<close> are the same.\<close>

definition keeps :: "(nat \<rightharpoonup> nat) \<Rightarrow> 'w alloc \<Rightarrow> 'w alloc \<Rightarrow> bool" where
  "keeps live st st' \<longleftrightarrow> (\<forall>p n i. live p = Some n \<longrightarrow> i < n \<longrightarrow> mem st' (p + i) = mem st (p + i))"

lemma keepsD: "keeps live st st' \<Longrightarrow> live p = Some n \<Longrightarrow> i < n \<Longrightarrow> mem st' (p + i) = mem st (p + i)"
  by (simp add: keeps_def)

lemma keeps_refl [simp]: "keeps live st st"
  by (simp add: keeps_def)

lemma keeps_trans: "keeps live st st' \<Longrightarrow> keeps live st' st'' \<Longrightarrow> keeps live st st''"
  by (simp add: keeps_def)

lemma keeps_mono: "keeps live st st' \<Longrightarrow> live0 \<subseteq>\<^sub>m live \<Longrightarrow> keeps live0 st st'"
  unfolding keeps_def map_le_def by (metis domI)

locale block_heap =
  fixes L :: "'w libc" and ok :: "'w alloc \<Rightarrow> (nat \<rightharpoonup> nat) \<Rightarrow> bool" and oom :: "error \<Rightarrow> bool"
  assumes malloc: "ok st live \<Longrightarrow> 0 < n \<Longrightarrow> n < 0x3FFFFFF0 \<Longrightarrow>
      (\<exists>e. libc_malloc L n st = Inl e \<and> oom e) \<or>
      (\<exists>p st'. libc_malloc L n st = Inr (p, st') \<and> 0 < p \<and> live p = None \<and> ok st' (live(p \<mapsto> n)) \<and> keeps live st st')"
    and calloc: "ok st live \<Longrightarrow> 0 < n \<Longrightarrow> n < 0x3FFFFFF0 \<Longrightarrow>
      (\<exists>e. libc_calloc L n 1 st = Inl e \<and> oom e) \<or>
      (\<exists>p st'. libc_calloc L n 1 st = Inr (p, st') \<and> 0 < p \<and> live p = None \<and> ok st' (live(p \<mapsto> n)) \<and> keeps live st st' \<and>
         (\<forall>i < n. mem st' (p + i) = 0))"
    and realloc: "ok st live \<Longrightarrow> live p = Some m \<Longrightarrow> 0 < n \<Longrightarrow> n < 0x3FFFFFF0 \<Longrightarrow>
      (\<exists>e. libc_realloc L p n st = Inl e \<and> oom e) \<or>
      (\<exists>q st'. libc_realloc L p n st = Inr (q, st') \<and> 0 < q \<and> (live(p := None)) q = None \<and> ok st' (live(p := None, q \<mapsto> n)) \<and>
         keeps (live(p := None)) st st' \<and> (\<forall>i < min m n. mem st' (q + i) = mem st (p + i)))"
    and free: "ok st live \<Longrightarrow> live p = Some n \<Longrightarrow>
      \<exists>st'. libc_free L p st = Inr st' \<and> ok st' (live(p := None)) \<and> keeps (live(p := None)) st st'"
    and store: "ok st live \<Longrightarrow> live p = Some n \<Longrightarrow> (\<And>a. a < p \<or> p + n \<le> a \<Longrightarrow> f (mem st) a = mem st a) \<Longrightarrow>
      ok (upd_mem f st) live"
    and apart: "ok st live \<Longrightarrow> live p = Some n \<Longrightarrow> live q = Some m \<Longrightarrow> p \<noteq> q \<Longrightarrow> p + n \<le> q \<or> q + m \<le> p"
    and outside: "ok st live \<Longrightarrow> (\<And>a. heap_start st \<le> a \<Longrightarrow> a < heap st \<Longrightarrow> f (mem st) a = mem st a) \<Longrightarrow> ok (upd_mem f st) live"
    and within: "ok st live \<Longrightarrow> live p = Some n \<Longrightarrow> heap_start st \<le> p \<and> p + n \<le> heap st"
    and range: "ok st live \<Longrightarrow> live p = Some n \<Longrightarrow> 0 < p \<and> p + n < 0x100000000"
begin

text \<open>A write inside one block leaves the other blocks alone.\<close>

lemma store_keeps:
  assumes "ok st live" "live p = Some n" "\<And>a. a < p \<or> p + n \<le> a \<Longrightarrow> f (mem st) a = mem st a"
  shows "keeps (live(p := None)) st (upd_mem f st)"
  unfolding keeps_def
proof (intro allI impI)
  fix q m i assume q: "(live(p := None)) q = Some m" "i < m"
  then have "live q = Some m" "q \<noteq> p" by (auto split: if_splits)
  then have "q + m \<le> p \<or> p + n \<le> q" using apart[OF assms(1) _ assms(2), of q m] by auto
  then show "mem (upd_mem f st) (q + i) = mem st (q + i)" using assms(3)[of "q + i"] q(2) by auto
qed

text \<open>
  \<open>memmove\<close> inside a block: the bytes arrive even when the two ranges overlap, the temporary block is
  gone and nothing else has changed.
\<close>

lemma memmove_inside:
  assumes ok: "ok st live" and p: "live p = Some n" and d: "d + sz \<le> n" and s: "s + sz \<le> n" and n: "n < 0x3FFFFFF0"
  shows "(\<exists>e. memmove L (p + d) (p + s) sz st = Inl e \<and> oom e) \<or>
    (\<exists>st'. memmove L (p + d) (p + s) sz st = Inr st' \<and> ok st' live \<and> keeps (live(p := None)) st st' \<and>
       (\<forall>i < n. mem st' (p + i) = (if d \<le> i \<and> i < d + sz then mem st (p + s + (i - d)) else mem st (p + i))))"
proof (cases "sz = 0")
  case True
  then show ?thesis using ok by (auto simp: memmove_def)
next
  case False
  then have "0 < sz" "sz < 0x3FFFFFF0" using d n by auto
  from malloc[OF ok this] show ?thesis
  proof (elim disjE exE conjE)
    fix e assume "libc_malloc L sz st = Inl e" "oom e"
    then show ?thesis using False by (simp add: memmove_def)
  next
    fix t st1 assume m: "libc_malloc L sz st = Inr (t, st1)" "live t = None" "ok st1 (live(t \<mapsto> sz))" "keeps live st st1"
    have pt: "p \<noteq> t" using m(2) p by auto
    have dis: "p + n \<le> t \<or> t + sz \<le> p" using apart[OF m(3), of p n t sz] pt p by simp
    define st2 where "st2 = upd_mem (memcpy t (p + s) sz) st1"
    have out1: "memcpy t (p + s) sz (mem st1) a = mem st1 a" if "a < t \<or> t + sz \<le> a" for a
      using memcpy_outside[of t a sz "p + s" "mem st1"] that by auto
    have ok2: "ok st2 (live(t \<mapsto> sz))" unfolding st2_def
      by (rule store[OF m(3), of t sz]) (simp, rule out1)
    have k2: "keeps live st1 st2"
      using store_keeps[OF m(3), of t sz "memcpy t (p + s) sz"] m(2) out1 by (simp add: st2_def fun_upd_idem)
    have c2: "mem st2 (t + i) = mem st1 (p + s + i)" if "i < sz" for i
      using memcpy_inside[of "p + s" sz t i "mem st1"] dis s that by (auto simp: st2_def)
    define st3 where "st3 = upd_mem (memcpy (p + d) t sz) st2"
    have out: "memcpy (p + d) t sz (mem st2) a = mem st2 a" if "a < p \<or> p + n \<le> a" for a
      using memcpy_outside[of "p + d" a sz t "mem st2"] that d by auto
    have ok3: "ok st3 (live(t \<mapsto> sz))" unfolding st3_def
      by (rule store[OF ok2, of p n]) (use pt p out in auto)
    have k3: "keeps (live(p := None)) st2 st3"
      by (rule keeps_mono[OF store_keeps[OF ok2, of p n "memcpy (p + d) t sz", folded st3_def]])
        (use pt p out m(2) in \<open>auto simp: map_le_def\<close>)
    have c3: "mem st3 (p + d + i) = mem st2 (t + i)" if "i < sz" for i
      using memcpy_inside[of t sz "p + d" i "mem st2"] dis d that by (auto simp: st3_def)
    obtain st4 where st4: "libc_free L t st3 = Inr st4" "ok st4 ((live(t \<mapsto> sz))(t := None))" "keeps ((live(t \<mapsto> sz))(t := None)) st3 st4"
      using free[OF ok3, of t sz] by auto
    have l: "(live(t \<mapsto> sz))(t := None) = live" using m(2) by (simp add: fun_upd_idem)
    have run: "memmove L (p + d) (p + s) sz st = Inr st4"
      using False m(1) st4(1) by (simp add: memmove_def Let_def st2_def st3_def)
    have "mem st4 (p + i) = (if d \<le> i \<and> i < d + sz then mem st (p + s + (i - d)) else mem st (p + i))" if i: "i < n" for i
    proof (cases "d \<le> i \<and> i < d + sz")
      case True
      then have "mem st3 (p + i) = mem st1 (p + s + (i - d))" using c3[of "i - d"] c2[of "i - d"] by auto
      also have "\<dots> = mem st (p + s + (i - d))"
        using keepsD[OF m(4) p, of "s + (i - d)"] True s less_diff_conv2[of d i sz] by (simp add: add.assoc)
      finally show ?thesis using keepsD[OF st4(3)[unfolded l] p i] True by simp
    next
      case False
      then have "mem st3 (p + i) = mem st2 (p + i)" by (auto simp: st3_def intro: memcpy_outside)
      then show ?thesis
        using keepsD[OF st4(3)[unfolded l] p i] keepsD[OF k2 p i] keepsD[OF m(4) p i] False by auto
    qed
    moreover have "keeps (live(p := None)) st st4"
      using m(4) k2 k3 st4(3)[unfolded l] by (meson keeps_trans keeps_mono map_le_imp_upd_le upd_None_map_le)
    ultimately show ?thesis using run st4(2) l by auto
  qed
qed

end

section \<open>A growing heap fulfils the contract\<close>

definition blocks_ok :: "nat \<Rightarrow> (nat \<Rightarrow> 'w \<Rightarrow> bool) \<Rightarrow> 'w alloc \<Rightarrow> (nat \<rightharpoonup> nat) \<Rightarrow> bool" where
  "blocks_ok hi winv st own \<longleftrightarrow>
     (\<exists>bs. alloc_inv hi winv st bs \<and> owners (heap_start st) (used_blocks (heap_start st) bs) own \<and> heap_end st = hi)"

text \<open>The library of the allocator that grows with \<open>sbrk\<close>.\<close>

definition alloc_libc :: "'w sbrk \<Rightarrow> 'w libc" where
  "alloc_libc sbrk =
     \<lparr>libc_malloc = Malloc sbrk, libc_aligned_alloc = (\<lambda>alignment sz. Malloc_aligned sbrk sz alignment), libc_free = Free,
      libc_realloc = Realloc sbrk, libc_calloc = Calloc sbrk\<rparr>"

lemma alloc_libc_simps [simp]:
  "libc_malloc (alloc_libc sbrk) = Malloc sbrk" "libc_free (alloc_libc sbrk) = Free"
  "libc_realloc (alloc_libc sbrk) = Realloc sbrk" "libc_calloc (alloc_libc sbrk) = Calloc sbrk"
  by (simp_all add: alloc_libc_def)

lemma blocks_okE:
  assumes "blocks_ok hi winv st own"
  obtains bs where "alloc_inv hi winv st bs" "heap_inv st bs" "owners (heap_start st) (used_blocks (heap_start st) bs) own" "heap_end st = hi"
  using assms unfolding blocks_ok_def alloc_inv_def by blast

text \<open>The bytes of an owned block lie in the payload of its chunk.\<close>

lemma keeps_payload:
  assumes "owners a U own"
    and "\<And>b z x. (b, z) \<in> U \<Longrightarrow> own (b + 4) \<noteq> None \<Longrightarrow> b + 4 \<le> x \<Longrightarrow> x < b + z \<Longrightarrow> mem st' x = mem st x"
  shows "keeps own st st'"
  unfolding keeps_def
proof (intro allI impI)
  fix p n i assume p: "own p = Some n" "i < n"
  obtain z where z: "(p - 4, z) \<in> U" "a + 4 \<le> p" "n + 4 \<le> z" by (rule ownersE[OF assms(1) p(1)])
  show "mem st' (p + i) = mem st (p + i)" by (rule assms(2)[OF z(1)]) (use z p in auto)
qed

lemma allocated_fresh:
  assumes "owners (heap_start st) (used_blocks (heap_start st) bs) own" "allocated r al st bs p st' bs'" "4 < r"
  shows "own p = None"
proof (rule ccontr)
  assume "own p \<noteq> None"
  then obtain n where "own p = Some n" by blast
  from ownersE[OF assms(1) this] obtain s where s: "(p - 4, s) \<in> used_blocks (heap_start st) bs" "n + 4 \<le> s" by blast
  from allocatedD(6)[OF assms(2) s(1)] s(2) assms(3) show False by auto
qed

context sbrk_provider
begin

lemma blocks_allocated:
  assumes b: "heap_inv st bs" "owners (heap_start st) (used_blocks (heap_start st) bs) own" "heap_end st = hi"
    and a: "alloc_inv hi winv st' bs'" "allocated r 4 st bs p st' bs'" "n + 4 \<le> r" "0 < n"
  shows "0 < p \<and> own p = None \<and> blocks_ok hi winv st' (own(p \<mapsto> n)) \<and> keeps own st st'"
proof -
  note d = allocatedD[OF a(2)]
  have "owners (heap_start st') (used_blocks (heap_start st') bs') (own(p \<mapsto> n))"
    unfolding d(8) d(5) by (rule owners_insert[OF b(2) a(3) d(1)])
  moreover have "keeps own st st'" by (rule keeps_payload[OF b(2)]) (use d(3) in \<open>auto simp: preserves_def\<close>)
  moreover have "heap_end st' = hi" using d(3) b(3) by (simp add: preserves_def)
  ultimately show ?thesis
    using allocated_fresh[OF b(2) a(2)] a d(1) unfolding blocks_ok_def by auto
qed

lemma blocks_malloc:
  assumes "blocks_ok hi winv st own" "0 < n" "n < 0x3FFFFFF0"
  shows "(\<exists>e. Malloc sbrk n st = Inl e \<and> out_of_memory e) \<or>
    (\<exists>p st'. Malloc sbrk n st = Inr (p, st') \<and> 0 < p \<and> own p = None \<and> blocks_ok hi winv st' (own(p \<mapsto> n)) \<and> keeps own st st')"
proof -
  obtain bs where b: "alloc_inv hi winv st bs" "heap_inv st bs" "owners (heap_start st) (used_blocks (heap_start st) bs) own" "heap_end st = hi"
    by (rule blocks_okE[OF assms(1)])
  have req: "request_ok n 4" using assms(2,3) by (simp add: request_ok_4)
  have rs: "n + 4 \<le> real_size n 4" using real_size_RoundUp(3)[OF req] by simp
  from Malloc_aligned_ok[OF b(1) req, unfolded max.idem] blocks_allocated[OF b(2-4) _ _ rs assms(2)]
  show ?thesis unfolding Malloc_def kMaxAlignment_def by blast
qed

lemma blocks_calloc:
  assumes "blocks_ok hi winv st own" "0 < n" "n < 0x3FFFFFF0"
  shows "(\<exists>e. Calloc sbrk n 1 st = Inl e \<and> out_of_memory e) \<or>
    (\<exists>p st'. Calloc sbrk n 1 st = Inr (p, st') \<and> 0 < p \<and> own p = None \<and> blocks_ok hi winv st' (own(p \<mapsto> n)) \<and> keeps own st st' \<and>
       (\<forall>i < n. mem st' (p + i) = 0))"
proof -
  obtain bs where b: "alloc_inv hi winv st bs" "heap_inv st bs" "owners (heap_start st) (used_blocks (heap_start st) bs) own" "heap_end st = hi"
    by (rule blocks_okE[OF assms(1)])
  have req: "request_ok n 4" using assms(2,3) by (simp add: request_ok_4)
  have rs: "n + 4 \<le> real_size n 4" using real_size_RoundUp(3)[OF req] by simp
  from Calloc_ok[OF b(1), of n 1, unfolded mult_1_right, OF assms(2,3)] blocks_allocated[OF b(2-4) _ _ rs assms(2)]
  show ?thesis by blast
qed

lemma blocks_realloc:
  assumes "blocks_ok hi winv st own" "own p = Some m" "0 < n" "n < 0x3FFFFFF0"
  shows "(\<exists>e. Realloc sbrk p n st = Inl e \<and> out_of_memory e) \<or>
    (\<exists>q st'. Realloc sbrk p n st = Inr (q, st') \<and> 0 < q \<and> (own(p := None)) q = None \<and> blocks_ok hi winv st' (own(p := None, q \<mapsto> n)) \<and>
       keeps (own(p := None)) st st' \<and> (\<forall>i < min m n. mem st' (q + i) = mem st (p + i)))"
proof -
  obtain bs where b: "alloc_inv hi winv st bs" "heap_inv st bs" "owners (heap_start st) (used_blocks (heap_start st) bs) own" "heap_end st = hi"
    by (rule blocks_okE[OF assms(1)])
  obtain s where s: "(p - 4, s) \<in> used_blocks (heap_start st) bs" "heap_start st + 4 \<le> p" "m + 4 \<le> s"
    by (rule ownersE[OF b(3) assms(2)])
  have p: "p - 4 + 4 = p" using s(2) by simp
  have he: "heap_end st \<noteq> 0 \<longrightarrow> heap st \<le> heap_end st" using b by (simp add: alloc_inv_def)
  note rest = owners_remove[OF b(3) s(1,2) block_unique[OF heap_invD(1)[OF b(2)] _ s(1)]]
  from Realloc_ok[OF b(1) s(1) assms(3,4) he, unfolded p] show ?thesis
  proof (elim disjE exE conjE)
    fix q st' bs' assume r: "Realloc sbrk p n st = Inr (q, st')" "alloc_inv hi winv st' bs'" "reallocated (p - 4) s n st bs q st' bs'"
    note d = r(3)[unfolded reallocated_def p]
    obtain z where z: "n + 4 \<le> z" "used_blocks (heap_start st) bs' = insert (q - 4, z) (used_blocks (heap_start st) bs - {(p - 4, s)})"
      using d by blast
    have q: "heap_start st + 4 \<le> q" "heap_start st' = heap_start st" "heap_end st' = heap_end st" using d by blast+
    have ok: "blocks_ok hi winv st' (own(p := None, q \<mapsto> n))"
      unfolding blocks_ok_def q z(2) using owners_insert[OF rest z(1) q(1)] r(2) b(4) z(2) q(2) by (intro exI[of _ bs']) (simp add: fun_upd_def)
    have fresh: "(own(p := None)) q = None"
    proof (rule ccontr)
      assume "(own(p := None)) q \<noteq> None"
      then obtain k where k: "(own(p := None)) q = Some k" by blast
      from ownersE[OF rest this] obtain t where t: "(q - 4, t) \<in> used_blocks (heap_start st) bs - {(p - 4, s)}" "k + 4 \<le> t" by blast
      then show False using d by blast
    qed
    have "mem st' (q + i) = mem st (p + i)" if "i < min m n" for i
    proof -
      have "i < min n (s - 4)" using that s(3) by auto
      then show ?thesis using d by blast
    qed
    moreover have "keeps (own(p := None)) st st'" by (rule keeps_payload[OF rest]) (use d in auto)
    ultimately show ?thesis using r(1) ok fresh q(1) by auto
  qed auto
qed

lemma blocks_free:
  assumes "blocks_ok hi winv st own" "own p = Some n"
  shows "\<exists>st'. Free p st = Inr st' \<and> blocks_ok hi winv st' (own(p := None)) \<and> keeps (own(p := None)) st st'"
proof -
  obtain bs where b: "alloc_inv hi winv st bs" "heap_inv st bs" "owners (heap_start st) (used_blocks (heap_start st) bs) own" "heap_end st = hi"
    by (rule blocks_okE[OF assms(1)])
  obtain s where s: "(p - 4, s) \<in> used_blocks (heap_start st) bs" "heap_start st + 4 \<le> p" by (rule ownersE[OF b(3) assms(2)])
  have p: "p - 4 + 4 = p" using s(2) by simp
  obtain st' bs' where f: "Free p st = Inr st'" "heap_inv st' bs'" "released (p - 4) s st bs st' bs'"
    using Free_ok[OF b(2) s(1)] unfolding p by auto
  note rest = owners_remove[OF b(3) s block_unique[OF heap_invD(1)[OF b(2)] _ s(1)]]
  have "blocks_ok hi winv st' (own(p := None))"
    unfolding blocks_ok_def using rest f(2,3) b(1,4) by (intro exI[of _ bs']) (simp add: released_def alloc_inv_def)
  moreover have "keeps (own(p := None)) st st'"
  proof (rule keeps_payload[OF rest])
    fix c z x assume c: "(c, z) \<in> used_blocks (heap_start st) bs - {(p - 4, s)}" "c + 4 \<le> x" "x < c + z"
    then have "c + z \<le> p - 4 \<or> p - 4 + s \<le> c" using disjoint_blocks[OF heap_invD(1)[OF b(2)] _ s(1), of c z] by auto
    then have "x < p - 4 \<or> p - 4 + 4 \<le> x" using c used_block_size[OF heap_invD(1)[OF b(2)] s(1)] by linarith
    then show "mem st' x = mem st x" using f(3) unfolding released_def by blast
  qed
  ultimately show ?thesis using f(1) by blast
qed

lemma blocks_store:
  assumes "blocks_ok hi winv st own" "own p = Some n" "\<And>a. a < p \<or> p + n \<le> a \<Longrightarrow> f (mem st) a = mem st a"
  shows "blocks_ok hi winv (upd_mem f st) own"
proof -
  obtain bs where b: "alloc_inv hi winv st bs" "heap_inv st bs" "owners (heap_start st) (used_blocks (heap_start st) bs) own" "heap_end st = hi"
    by (rule blocks_okE[OF assms(1)])
  obtain s where s: "(p - 4, s) \<in> used_blocks (heap_start st) bs" "heap_start st + 4 \<le> p" "n + 4 \<le> s"
    by (rule ownersE[OF b(3) assms(2)])
  have "heap_inv (st\<lparr>mem := f (mem st)\<rparr>) bs"
    by (rule heap_inv_payload[OF b(2) s(1)]) (rule assms(3), use s(2,3) in auto)
  then show ?thesis using b(1,3,4) unfolding blocks_ok_def by (intro exI[of _ bs]) (simp add: alloc_inv_def upd_mem_def)
qed

lemma blocks_apart:
  assumes "blocks_ok hi winv st own" "own p = Some n" "own q = Some m" "p \<noteq> q"
  shows "p + n \<le> q \<or> q + m \<le> p"
proof -
  obtain bs where b: "heap_inv st bs" "owners (heap_start st) (used_blocks (heap_start st) bs) own" by (rule blocks_okE[OF assms(1)])
  obtain s where s: "(p - 4, s) \<in> used_blocks (heap_start st) bs" "heap_start st + 4 \<le> p" "n + 4 \<le> s" by (rule ownersE[OF b(2) assms(2)])
  obtain t where t: "(q - 4, t) \<in> used_blocks (heap_start st) bs" "heap_start st + 4 \<le> q" "m + 4 \<le> t" by (rule ownersE[OF b(2) assms(3)])
  have "(p - 4, s) \<noteq> (q - 4, t)" using assms(4) s(2) t(2) by auto
  from disjoint_blocks[OF heap_invD(1)[OF b(1)] s(1) t(1) this] s(2,3) t(2,3) show ?thesis by linarith
qed

lemma blocks_outside:
  assumes "blocks_ok hi winv st own" "\<And>a. heap_start st \<le> a \<Longrightarrow> a < heap st \<Longrightarrow> f (mem st) a = mem st a"
  shows "blocks_ok hi winv (upd_mem f st) own"
proof -
  obtain bs where b: "alloc_inv hi winv st bs" "heap_inv st bs" "owners (heap_start st) (used_blocks (heap_start st) bs) own" "heap_end st = hi"
    by (rule blocks_okE[OF assms(1)])
  have "chain (f (mem st)) (heap_start st) bs (heap st)" by (rule chain_frame[OF heap_invD(1)[OF b(2)]]) (rule assms(2))
  then show ?thesis using b unfolding blocks_ok_def by (intro exI[of _ bs]) (simp add: alloc_inv_def heap_inv_def)
qed

lemma blocks_within:
  assumes "blocks_ok hi winv st own" "own p = Some n"
  shows "heap_start st \<le> p \<and> p + n \<le> heap st"
proof -
  obtain bs where b: "heap_inv st bs" "owners (heap_start st) (used_blocks (heap_start st) bs) own" by (rule blocks_okE[OF assms(1)])
  obtain s where s: "(p - 4, s) \<in> used_blocks (heap_start st) bs" "heap_start st + 4 \<le> p" "n + 4 \<le> s" by (rule ownersE[OF b(2) assms(2)])
  show ?thesis using block_addr(2)[OF b(1) s(1)] s(2,3) by linarith
qed

lemma blocks_range:
  assumes "blocks_ok hi winv st own" "own p = Some n"
  shows "0 < p \<and> p + n < 0x100000000"
proof -
  obtain bs where b: "heap_inv st bs" "owners (heap_start st) (used_blocks (heap_start st) bs) own" by (rule blocks_okE[OF assms(1)])
  obtain s where s: "(p - 4, s) \<in> used_blocks (heap_start st) bs" "heap_start st + 4 \<le> p" "n + 4 \<le> s" by (rule ownersE[OF b(2) assms(2)])
  show ?thesis using block_addr(2)[OF b(1) s(1)] heap_invD(6)[OF b(1)] s(2,3) by linarith
qed

end

sublocale sbrk_provider \<subseteq> bh: block_heap "alloc_libc sbrk" "blocks_ok hi winv" out_of_memory
  using blocks_apart
  by unfold_locales (simp_all only: alloc_libc_simps blocks_malloc blocks_calloc blocks_realloc blocks_free blocks_store blocks_outside blocks_within blocks_range, blast)

end
