(* ===== verification/UserHeap.thy ===== *)
theory UserHeap
  imports HeapBlocks
begin

text \<open>
  \<^verbatim>\<open>libc/umalloc.cpp\<close> and the user side of \<^verbatim>\<open>libc/stdlib.cpp\<close>: the heap of a user program, one
  4 MB page that grows in chunks of 1024 bytes. The assertion of \<open>usbrk\<close> compares its argument
  with the heap top of the allocator that calls it; the caller passes just that top.
\<close>

section \<open>Definitions\<close>

definition kChunkSize :: nat where "kChunkSize = 1024"

record user_globals =
  kHeapTop :: nat
  kHeapBottom :: nat

type_synonym user_heap = "user_globals alloc"

definition usbrk_chunk :: "nat \<Rightarrow> nat \<Rightarrow> user_globals \<Rightarrow> (nat \<times> user_globals) result" where
  "usbrk_chunk n h g =
     assertE (wrap (h + wrap (n * kChunkSize)) \<le> kHeapTop g) ''Attempting to allocate beyond the end of the heap.''
       (Inr (wrap (h + wrap (n * kChunkSize)), g))"

definition usbrk_from :: "nat \<Rightarrow> nat \<Rightarrow> nat \<Rightarrow> user_globals \<Rightarrow> (nat \<times> user_globals) result" where
  "usbrk_from allocator_heap n h g =
     assertE (h = allocator_heap) ''This should only be called once the heap top limit is reached.'' (
     assertE (n \<noteq> 0) ''Bad size request'' (
     if n < kChunkSize then usbrk_chunk 1 h g
     else if n mod kChunkSize = 0 then usbrk_chunk (n div kChunkSize) h g
     else usbrk_chunk (n div kChunkSize + 1) h g))"

definition usbrk :: "nat \<Rightarrow> nat \<Rightarrow> user_globals \<Rightarrow> (nat \<times> user_globals) result" where
  "usbrk n h g = usbrk_from h n h g"

definition InitializeUserHeap :: "nat \<Rightarrow> nat \<Rightarrow> user_heap \<Rightarrow> user_heap result" where
  "InitializeUserHeap heap_bottom heap_top st =
     Init usbrk heap_bottom heap_top (st\<lparr>world := \<lparr>kHeapTop = heap_top, kHeapBottom = heap_bottom\<rparr>\<rparr>)"

definition umalloc :: "nat \<Rightarrow> user_heap \<Rightarrow> (nat \<times> user_heap) result" where
  "umalloc sz st = Malloc usbrk sz st"

definition umalloc_aligned :: "nat \<Rightarrow> nat \<Rightarrow> user_heap \<Rightarrow> (nat \<times> user_heap) result" where
  "umalloc_aligned sz alignment st = Malloc_aligned usbrk sz alignment st"

definition ufree :: "nat \<Rightarrow> user_heap \<Rightarrow> user_heap result" where
  "ufree ptr st = Free ptr st"

definition urealloc :: "nat \<Rightarrow> nat \<Rightarrow> user_heap \<Rightarrow> (nat \<times> user_heap) result" where
  "urealloc ptr sz st = Realloc usbrk ptr sz st"

definition ucalloc :: "nat \<Rightarrow> nat \<Rightarrow> user_heap \<Rightarrow> (nat \<times> user_heap) result" where
  "ucalloc num sz st = Calloc usbrk num sz st"

text \<open>The user build of \<^verbatim>\<open>libc/stdlib.cpp\<close>.\<close>

definition user_libc :: "user_globals libc" where
  "user_libc =
     \<lparr>libc_malloc = umalloc, libc_aligned_alloc = (\<lambda>alignment sz. umalloc_aligned sz alignment), libc_free = ufree,
      libc_realloc = urealloc, libc_calloc = ucalloc\<rparr>"

lemma user_libc_alloc: "user_libc = alloc_libc usbrk"
  by (simp add: user_libc_def alloc_libc_def fun_eq_iff umalloc_def umalloc_aligned_def ufree_def urealloc_def ucalloc_def)

section \<open>Growing\<close>

text \<open>User heaps lie in the second gigabyte, far enough from the end of the address space.\<close>

definition uheap_ok :: "u32 \<Rightarrow> nat \<Rightarrow> user_globals \<Rightarrow> bool" where
  "uheap_ok utop h g \<longleftrightarrow> kHeapTop g = unat utop \<and> unat utop < 0x7FFFFC00"

lemma usbrk_ok:
  assumes "uheap_ok utop h g" "h \<le> unat utop" "0 < n" "n < 0x80000000"
  shows "\<exists>k. n \<le> k * 1024 \<and> k * 1024 < n + 1024 \<and>
    usbrk n h g = (if h + k * 1024 \<le> unat utop then Inr (h + k * 1024, g)
                   else Inl (AssertFailed ''Attempting to allocate beyond the end of the heap.''))"
proof -
  have ch: "usbrk_chunk k h g = (if h + k * 1024 \<le> unat utop then Inr (h + k * 1024, g)
      else Inl (AssertFailed ''Attempting to allocate beyond the end of the heap.''))" if "k * 1024 < 0x80000400" for k
    using that assms(1,2) by (simp add: usbrk_chunk_def wrap_def kChunkSize_def uheap_ok_def assertE_def)
  obtain q m where q: "n = q * 1024 + m" "m < 1024" "n div 1024 = q" "n mod 1024 = m"
    using div_mult_mod_eq[of n 1024] mod_less_divisor[of 1024 n] by (metis zero_less_numeral)
  consider "n < 1024" | "1024 \<le> n" "m = 0" | "1024 \<le> n" "0 < m" by linarith
  then show ?thesis
  proof cases
    case 1
    then show ?thesis using ch[of 1] assms(3)
      by (intro exI[of _ 1]) (simp add: usbrk_def usbrk_from_def kChunkSize_def)
  next
    case 2
    have "q * 1024 < 0x80000400" using q(1) assms(4) by linarith
    with 2 show ?thesis using ch[of q] q
      by (intro exI[of _ q]) (simp add: usbrk_def usbrk_from_def kChunkSize_def)
  next
    case 3
    then have "(q + 1) * 1024 < n + 1024" "n \<le> (q + 1) * 1024" using q(1,2) by simp_all
    moreover from this have "(q + 1) * 1024 < 0x80000400" using assms(4) by linarith
    ultimately show ?thesis using ch[of "q + 1"] q(3,4) 3
      by (intro exI[of _ "q + 1"]) (simp add: usbrk_def usbrk_from_def kChunkSize_def)
  qed
qed

interpretation uh: sbrk_provider usbrk "unat utop" "uheap_ok utop" for utop :: u32
proof
  fix h w n h' w'
  assume a: "uheap_ok utop h w" "h \<le> unat utop" "h mod 4 = 0" "0 < n" "n < (0x80000000 :: nat)" "usbrk n h w = Inr (h', w')"
  then obtain k where k: "n \<le> k * 1024" "h' = h + k * 1024" "h' \<le> unat utop" "w' = w"
    using usbrk_ok[OF a(1,2,4,5)] by (auto split: if_splits)
  moreover have "(h + k * 1024) mod 4 = 0"
  proof -
    have "4 dvd h" "(4 :: nat) dvd k * 1024" using a(3) by (auto simp: dvd_mult)
    then have "4 dvd h + k * 1024" by (rule dvd_add)
    then show ?thesis by simp
  qed
  ultimately show "h + n \<le> h' \<and> h' \<le> unat utop \<and> h' mod 4 = 0 \<and> uheap_ok utop h' w'"
    using a(1) by (simp add: uheap_ok_def)
qed (use unat_lt_u32[of utop] in simp)

lemma user_out_of_memory:
  assumes "uh.out_of_memory utop e"
  shows "e = AssertFailed ''No memory left for kernel!'' \<or>
         e = AssertFailed ''Attempting to allocate beyond the end of the heap.''"
proof (rule ccontr)
  assume n: "\<not> ?thesis"
  then obtain n h w where "uheap_ok utop h w" "h \<le> unat utop" "0 < n" "n < 0x80000000" "usbrk n h w = Inl e"
    using assms unfolding uh.out_of_memory_def by blast
  with usbrk_ok[of utop h w n] n show False by (auto split: if_splits)
qed

section \<open>The properties of a user heap\<close>

lemma InitializeUserHeap_ok:
  assumes "0 < lo" "lo mod 4 = 0" "lo + 1024 \<le> unat utop" "unat utop < 0x7FFFFC00"
  shows "\<exists>st'. InitializeUserHeap lo (unat utop) st = Inr st' \<and> alloc_inv (unat utop) (uheap_ok utop) st' [(1024, False)] \<and>
    heap_start st' = lo \<and> heap_end st' = unat utop"
proof -
  let ?w = "\<lparr>kHeapTop = unat utop, kHeapBottom = lo\<rparr>"
  have w: "uheap_ok utop lo ?w" using assms by (simp add: uheap_ok_def)
  have "usbrk 1 lo ?w = Inr (lo + 1024, ?w)"
    using assms by (simp add: usbrk_def usbrk_from_def usbrk_chunk_def kChunkSize_def wrap_def)
  then have run: "InitializeUserHeap lo (unat utop) st =
      Inr (upd_mem (set_size lo 1024) (upd_mem (set_used lo False)
        (st\<lparr>world := ?w, heap := lo + 1024, heap_end := unat utop, heap_used := 0, heap_start := lo\<rparr>)))"
    using assms by (simp add: InitializeUserHeap_def Init_def InitializeHeap_def upd_mem_def)
  moreover have "heap_inv (upd_mem (set_size lo 1024) (upd_mem (set_used lo False)
        (st\<lparr>world := ?w, heap := lo + 1024, heap_end := unat utop, heap_used := 0, heap_start := lo\<rparr>))) [(1024, False)]"
    using assms by (simp add: heap_inv_def ok_block_def)
  ultimately show ?thesis using assms w by (simp add: alloc_inv_def uheap_ok_def)
qed

text \<open>A concrete heap at the page after a program's, with a block of 100 bytes.\<close>

definition empty_user_heap :: user_heap where
  "empty_user_heap = \<lparr>mem = \<lambda>_. 0, heap = 0, heap_used = 0, heap_start = 0, heap_end = 0,
     world = \<lparr>kHeapTop = 0, kHeapBottom = 0\<rparr>\<rparr>"

lemma user_example:
  obtains st0 st1 where "InitializeUserHeap 0x40400000 (unat (0x40800000 :: u32)) empty_user_heap = Inr st0"
    "umalloc 100 st0 = Inr (0x40400004, st1)" "client_run usbrk st0 st1 (Map.empty(0x40400004 \<mapsto> 100))"
    "alloc_inv (unat (0x40800000 :: u32)) (uheap_ok 0x40800000) st1 [(104, True), (920, False)]"
    "heap_end st1 = unat (0x40800000 :: u32)" "heap_start st1 = 0x40400000"
proof -
  let ?top = "0x40800000 :: u32"
  have pre: "0 < (0x40400000 :: nat)" "(0x40400000 :: nat) mod 4 = 0" "0x40400000 + 1024 \<le> unat ?top" "unat ?top < 0x7FFFFC00"
    by simp_all
  obtain st0 where st0: "InitializeUserHeap 0x40400000 (unat ?top) empty_user_heap = Inr st0"
      "alloc_inv (unat ?top) (uheap_ok ?top) st0 [(1024, False)]" "heap_start st0 = 0x40400000" "heap_end st0 = unat ?top"
    using InitializeUserHeap_ok[OF pre, of empty_user_heap] by blast
  have hv: "heap_inv st0 [(1024, False)]" using st0(2) by (simp add: alloc_inv_def)
  have req: "request_ok 100 4" by (simp add: request_ok_4)
  have "first_fit (real_size 100 (max 4 4)) (max 4 4) (heap_start st0) [(1024, False)] =
      Some (0x40400000, [(104, True), (920, False)])"
    by (simp add: real_size_def fit_def place_def st0(3))
  from Malloc_fits[OF hv req this, of usbrk] obtain st1 where
    st1: "Malloc_aligned usbrk 100 4 st0 = Inr (0x40400004, st1)" "heap_inv st1 [(104, True), (920, False)]"
      "heap st1 = heap st0" "world st1 = world st0" "preserves st0 [(1024, False)] st1"
    by (auto simp: allocated_def)
  have "alloc_inv (unat ?top) (uheap_ok ?top) st1 [(104, True), (920, False)]"
    using st0(2) st1 by (simp add: alloc_inv_def preserves_def)
  moreover have "heap_end st1 = unat ?top" "heap_start st1 = 0x40400000"
    using st1(5) st0(3,4) by (simp_all add: preserves_def)
  moreover have "umalloc 100 st0 = Inr (0x40400004, st1)"
    using st1(1) by (simp add: umalloc_def Malloc_def kMaxAlignment_def)
  ultimately show thesis
    using that[OF st0(1)] client_run.malloc[OF client_run.start req st1(1)] by blast
qed

text \<open>
  C9. Memory safety of a user program's heap. After \<open>InitializeUserHeap\<close>, whatever sequence of
  \<open>malloc\<close>, \<open>aligned_alloc\<close>, \<open>calloc\<close>, \<open>realloc\<close> and \<open>free\<close> of its own pointers and of writes to
  its own bytes the program makes, the live regions lie inside the heap, are 4-byte aligned
  and pairwise disjoint, and freeing a live pointer returns.
\<close>

theorem user_heap_safe:
  fixes utop :: u32
  assumes "0 < lo" "lo mod 4 = 0" "lo + 1024 \<le> unat utop" "unat utop < 0x7FFFFC00"
    and "InitializeUserHeap lo (unat utop) st = Inr st0" and "client_run usbrk st0 st1 live"
  shows "(\<forall>p n. live p = Some n \<longrightarrow> lo + 4 \<le> p \<and> p + n \<le> heap st1 \<and> heap st1 \<le> unat utop \<and> p mod 4 = 0) \<and>
    (\<forall>p n q m. live p = Some n \<longrightarrow> live q = Some m \<longrightarrow> p \<noteq> q \<longrightarrow> p + n \<le> q \<or> q + m \<le> p) \<and>
    (\<forall>p n. live p = Some n \<longrightarrow> (\<exists>st'. ufree p st1 = Inr st'))"
proof -
  have i: "alloc_inv (unat utop) (uheap_ok utop) st0 [(1024, False)]" "heap_start st0 = lo" "heap_end st0 = unat utop"
    using InitializeUserHeap_ok[OF assms(1-4), of st] assms(5) by auto
  from uh.client_run_safe[OF assms(6) i(1) _ i(3)] i(2) show ?thesis by (auto simp: ufree_def)
qed

theorem user_heap_safe_witness:
  "\<exists>st0 st1. InitializeUserHeap 0x40400000 (unat (0x40800000 :: u32)) empty_user_heap = Inr st0 \<and>
     umalloc 100 st0 = Inr (0x40400004, st1) \<and> (\<exists>st'. ufree 0x40400004 st1 = Inr st')"
proof (rule user_example)
  fix st0 st1 assume s: "InitializeUserHeap 0x40400000 (unat (0x40800000 :: u32)) empty_user_heap = Inr st0"
    "umalloc 100 st0 = Inr (0x40400004, st1)" "client_run usbrk st0 st1 (Map.empty(0x40400004 \<mapsto> 100))"
  have "\<exists>st'. ufree 0x40400004 st1 = Inr st'" using user_heap_safe[OF _ _ _ _ s(1,3)] by simp
  with s(1,2) show ?thesis by blast
qed



end
