(* ===== verification/KernelHeap.thy ===== *)
theory KernelHeap
  imports HeapBlocks PagingProperties
begin

text \<open>
  \<^verbatim>\<open>kernel/kmalloc.cpp\<close>: the kernel's heap. \<open>ksbrk\<close> grows it by mapping fresh 4 MB frames at its
  top; it is the growing function of the kernel's allocator, and the locale of that interface
  is interpreted on it with the paging invariant as the invariant of its world.
\<close>

section \<open>Definitions\<close>

definition ksbrk_map_page :: "nat \<times> paging \<Rightarrow> (nat \<times> paging) result" where
  "ksbrk_map_page = (\<lambda>(heap_bytes, s).
     bindE (NextFreePhysicalPage (phys s) 1) (\<lambda>p_addr.
     assertE (p_addr \<noteq> 0) ''No free page frames available!'' (
     bindE (AddPage KernelPD (of_nat heap_bytes) p_addr 0 False s) (\<lambda>s.
     Inr (wrap (heap_bytes + kPageSize4M), s)))))"

definition ksbrk_page :: "nat \<Rightarrow> nat \<Rightarrow> paging \<Rightarrow> (nat \<times> paging) result" where
  "ksbrk_page n h s =
     (if unat KERN_HEAP_END < wrap (h + wrap (n * kPageSize4M)) then Inr (0, s)
      else foldE (\<lambda>_. ksbrk_map_page) [0 ..< n] (h, s))"

definition ksbrk :: "nat \<Rightarrow> nat \<Rightarrow> paging \<Rightarrow> (nat \<times> paging) result" where
  "ksbrk nbytes h s =
     (if nbytes < kPageSize4M then ksbrk_page 1 h s
      else if nbytes mod kPageSize4M = 0 then ksbrk_page (nbytes div kPageSize4M) h s
      else ksbrk_page (nbytes div kPageSize4M + 1) h s)"

type_synonym kernel_heap = "paging alloc"

definition InitializeKernelHeap :: "kernel_heap \<Rightarrow> kernel_heap result" where
  "InitializeKernelHeap st = Init ksbrk (unat KERN_HEAP_BEGIN) (unat KERN_HEAP_END) st"

definition kmalloc :: "nat \<Rightarrow> kernel_heap \<Rightarrow> (nat \<times> kernel_heap) result" where
  "kmalloc sz st = Malloc ksbrk sz st"

definition kmalloc_aligned :: "nat \<Rightarrow> nat \<Rightarrow> kernel_heap \<Rightarrow> (nat \<times> kernel_heap) result" where
  "kmalloc_aligned sz alignment st = Malloc_aligned ksbrk sz alignment st"

definition kfree :: "nat \<Rightarrow> kernel_heap \<Rightarrow> kernel_heap result" where
  "kfree ptr st = Free ptr st"

definition krealloc :: "nat \<Rightarrow> nat \<Rightarrow> kernel_heap \<Rightarrow> (nat \<times> kernel_heap) result" where
  "krealloc ptr sz st = Realloc ksbrk ptr sz st"

definition kcalloc :: "nat \<Rightarrow> nat \<Rightarrow> kernel_heap \<Rightarrow> (nat \<times> kernel_heap) result" where
  "kcalloc num sz st = Calloc ksbrk num sz st"

definition GetKernelHeapUsed :: "kernel_heap \<Rightarrow> nat" where
  "GetKernelHeapUsed st = getHeapUsed st"

text \<open>The kernel build of \<^verbatim>\<open>libc/stdlib.cpp\<close>.\<close>

definition kernel_libc :: "paging libc" where
  "kernel_libc =
     \<lparr>libc_malloc = kmalloc, libc_aligned_alloc = (\<lambda>alignment sz. kmalloc_aligned sz alignment), libc_free = kfree,
      libc_realloc = krealloc, libc_calloc = kcalloc\<rparr>"

lemma kernel_libc_alloc: "kernel_libc = alloc_libc ksbrk"
  by (simp add: kernel_libc_def alloc_libc_def fun_eq_iff kmalloc_def kmalloc_aligned_def kfree_def krealloc_def kcalloc_def)

section \<open>Growing maps the new pages\<close>

text \<open>
  The world of the kernel heap with top \<open>h\<close>: the paging invariant holds, the pages of the heap
  below \<open>h\<close> are mapped in the kernel's directory and those from \<open>h\<close> on are not.
\<close>

definition kheap_mapped :: "nat \<Rightarrow> paging \<Rightarrow> bool" where
  "kheap_mapped h s \<longleftrightarrow> paging_inv s \<and> h mod 0x400000 = 0 \<and> 0x2000000 \<le> h \<and> h \<le> 0x40000000 \<and>
     (\<forall>i. 8 \<le> i \<longrightarrow> i < h div 0x400000 \<longrightarrow> present (pd_of s KernelPD ! i)) \<and>
     (\<forall>i. h div 0x400000 \<le> i \<longrightarrow> i < 256 \<longrightarrow> \<not> present (pd_of s KernelPD ! i))"

lemma ksbrk_map_page_ok:
  assumes k: "kheap_mapped h s" and room: "h + 0x400000 \<le> 0x40000000"
  shows "(ksbrk_map_page (h, s) = Inl (AssertFailed ''Memory is full!'') \<and>
      (\<forall>i. 1 \<le> i \<longrightarrow> i < 1024 \<longrightarrow> 0 < refcount (phys s) i)) \<or>
    (\<exists>t. ksbrk_map_page (h, s) = Inr (h + 0x400000, t) \<and> kheap_mapped (h + 0x400000) t)"
proof -
  have inv: "paging_inv s" using k by (simp add: kheap_mapped_def)
  have co: "counts_ok s" using inv by (simp add: paging_inv_def)
  note pc = counts_okD(3)[OF co]
  let ?v = "of_nat h :: u32"
  have u: "unat ?v = h" using room by (intro unat_of_nat_u32) simp
  have idx: "PageIndex4M ?v = h div 0x400000" and al: "Is4MPageAligned ?v"
    using u k by (simp_all add: PageIndex4M_div Is4MPageAligned_def kPageSize4M_def kheap_mapped_def)
  have w: "wrap (h + kPageSize4M) = h + 0x400000" using room by (simp add: wrap_def kPageSize4M_def)
  from NextFreePhysicalPage_full[OF pc, of 1] show ?thesis
  proof (elim disjE exE conjE)
    assume "NextFreePhysicalPage (phys s) 1 = Inl (AssertFailed ''Memory is full!'')"
      "\<forall>i. 1 \<le> i \<longrightarrow> i < 1024 \<longrightarrow> 0 < refcount (phys s) i"
    then show ?thesis by (simp add: ksbrk_map_page_def)
  next
    fix p assume p: "NextFreePhysicalPage (phys s) 1 = Inr p"
    note fresh = NextFreePhysicalPage_ok[OF pc p]
    have "p \<noteq> 0" using fresh by (auto simp: PageIndex4M_def)
    have lt: "h div 0x400000 < 256" using room by simp
    have "\<not> isVirtualMapped s KernelPD ?v" using k lt by (simp add: isVirtualMapped_def idx kheap_mapped_def)
    then obtain t where t: "AddPage KernelPD ?v p 0 False s = Inr t" "paging_inv t"
        "entry_set KernelPD (h div 0x400000) (mk_pde p 0) s t"
      using AddPage_ok[OF inv, of KernelPD ?v p False 0] fresh al by (auto simp: may_map_def idx)
    have len: "length (pd_of s KernelPD) = 1024" using length_pd_of[OF counts_okD(2)[OF co], of KernelPD] by simp
    have pd: "pd_of t KernelPD ! j = (if j = h div 0x400000 then mk_pde p 0 else pd_of s KernelPD ! j)" for j
      using entry_set_nth[OF t(3) _ len, of j] lt by auto
    have "(h + 0x400000) div 0x400000 = h div 0x400000 + 1" "(h + 0x400000) mod 0x400000 = 0"
      using k by (simp_all add: kheap_mapped_def)
    then have "kheap_mapped (h + 0x400000) t"
      using k t(2) room unfolding kheap_mapped_def pd by (auto simp: less_Suc_eq)
    then show ?thesis using p t(1) \<open>p \<noteq> 0\<close> w by (simp add: ksbrk_map_page_def)
  qed
qed

lemma ksbrk_pages_ok:
  assumes "kheap_mapped h s" "h + n * 0x400000 \<le> 0x40000000"
  shows "foldE (\<lambda>_. ksbrk_map_page) [0 ..< n] (h, s) = Inl (AssertFailed ''Memory is full!'') \<or>
    (\<exists>t. foldE (\<lambda>_. ksbrk_map_page) [0 ..< n] (h, s) = Inr (h + n * 0x400000, t) \<and> kheap_mapped (h + n * 0x400000) t)"
  using assms(2)
proof (induction n)
  case 0
  then show ?case using assms(1) by simp
next
  case (Suc n)
  then consider (full) "foldE (\<lambda>_. ksbrk_map_page) [0 ..< n] (h, s) = Inl (AssertFailed ''Memory is full!'')"
    | (run) t where "foldE (\<lambda>_. ksbrk_map_page) [0 ..< n] (h, s) = Inr (h + n * 0x400000, t)" "kheap_mapped (h + n * 0x400000) t"
    by auto
  then show ?case
  proof cases
    case full
    then show ?thesis by (simp add: foldE_append)
  next
    case run
    have "h + n * 0x400000 + 0x400000 \<le> 0x40000000" using Suc.prems by simp
    from ksbrk_map_page_ok[OF run(2) this] show ?thesis
      unfolding foldE_upt_SucI[OF run(1)] by (auto simp: add.commute add.left_commute)
  qed
qed

lemma ksbrk_pages_needed:
  assumes "kheap_mapped h s" "0 < nbytes" "nbytes < 0x80000000"
  shows "\<exists>n. nbytes \<le> n * 0x400000 \<and> 0 < n \<and>
    ksbrk nbytes h s = (if 0x40000000 < h + n * 0x400000 then Inr (0, s) else foldE (\<lambda>_. ksbrk_map_page) [0 ..< n] (h, s))"
proof -
  have pg: "ksbrk_page n h s = (if 0x40000000 < h + n * 0x400000 then Inr (0, s)
      else foldE (\<lambda>_. ksbrk_map_page) [0 ..< n] (h, s))" if "n \<le> 512" for n
    using that assms(1) by (simp add: ksbrk_page_def wrap_def kernel_defs kPageSize4M_def kheap_mapped_def)
  let ?q = "nbytes div 0x400000"
  have q: "?q < 512" "nbytes = ?q * 0x400000 + nbytes mod 0x400000" "nbytes mod 0x400000 < 0x400000"
    using assms(3) by (simp_all add: div_less_iff_less_mult)
  consider "nbytes < 0x400000" | "0x400000 \<le> nbytes" "nbytes mod 0x400000 = 0" | "0x400000 \<le> nbytes" "nbytes mod 0x400000 \<noteq> 0"
    by fastforce
  then show ?thesis
  proof cases
    case 1
    then show ?thesis using pg[of 1] by (intro exI[of _ 1]) (simp add: ksbrk_def kPageSize4M_def)
  next
    case 2
    then show ?thesis using pg[of ?q] q assms(2)
      by (intro exI[of _ ?q]) (auto simp: ksbrk_def kPageSize4M_def div_greater_zero_iff)
  next
    case 3
    then show ?thesis using pg[of "?q + 1"] q
      by (intro exI[of _ "?q + 1"]) (auto simp: ksbrk_def kPageSize4M_def)
  qed
qed

lemma ksbrk_ok:
  assumes "kheap_mapped h s" "0 < nbytes" "nbytes < 0x80000000"
  shows "ksbrk nbytes h s = Inl (AssertFailed ''Memory is full!'') \<or> ksbrk nbytes h s = Inr (0, s) \<or>
    (\<exists>h' t. ksbrk nbytes h s = Inr (h', t) \<and> h + nbytes \<le> h' \<and> kheap_mapped h' t)"
proof -
  obtain n where n: "nbytes \<le> n * 0x400000" "0 < n"
      "ksbrk nbytes h s = (if 0x40000000 < h + n * 0x400000 then Inr (0, s) else foldE (\<lambda>_. ksbrk_map_page) [0 ..< n] (h, s))"
    using ksbrk_pages_needed[OF assms] by blast
  show ?thesis
  proof (cases "0x40000000 < h + n * 0x400000")
    case True
    then show ?thesis using n(3) by simp
  next
    case False
    then show ?thesis using ksbrk_pages_ok[OF assms(1), of n] n by auto
  qed
qed

interpretation kh: sbrk_provider ksbrk "0x40000000" kheap_mapped
proof
  fix h w n h' w'
  assume a: "kheap_mapped h w" "0 < n" "n < (0x80000000 :: nat)" "ksbrk n h w = Inr (h', w')" "h' \<noteq> 0"
  then have r: "h + n \<le> h'" "kheap_mapped h' w'" using ksbrk_ok[OF a(1-3)] by auto
  moreover have "h' mod 4 = 0"
  proof -
    have "h' = 4 * (0x100000 * (h' div 0x400000))"
      using r(2) div_mult_mod_eq[of h' "0x400000"] by (simp add: kheap_mapped_def)
    then show ?thesis by (metis mod_mult_self1_is_0)
  qed
  ultimately show "h + n \<le> h' \<and> h' \<le> 0x40000000 \<and> h' mod 4 = 0 \<and> kheap_mapped h' w'"
    by (simp add: kheap_mapped_def)
qed simp

lemma kernel_out_of_memory:
  assumes "kh.out_of_memory e"
  shows "e = AssertFailed ''No memory left for kernel!'' \<or> e = AssertFailed ''Memory is full!''"
proof (rule ccontr)
  assume n: "\<not> ?thesis"
  then obtain n h w where "kheap_mapped h w" "0 < n" "n < 0x80000000" "ksbrk n h w = Inl e"
    using assms unfolding kh.out_of_memory_def by blast
  with ksbrk_ok[of h w n] n show False by auto
qed

section \<open>The kernel heap from start-up on\<close>

lemma boot_kheap:
  assumes "boot_state s" "InitializePaging kb s = Inr t"
  shows "kheap_mapped 0x2000000 t \<and> refcount (phys t) 3 = 0"
proof -
  have "32 \<le> unat (kb * 1024 :: u32) div kPageSize4M + 1"
    using assms(2) by (simp add: InitializePaging_def Let_def assertE_Inr_iff)
  from InitializePaging_ok[OF assms(1) this] assms(2) obtain f where
    t: "paging_inv t" "live t = {}"
      "kernel_pd t = (replicate 1024 0)[1 := mk_pde KERNEL_START f, 2 := mk_pde PAGE_DIRECTORY_REGION_START f]" by auto
  have "mapcount t 3 = 0" by (simp add: mapcount_def t(2,3) pd_count_set pd_count_zero PageIndex4M_layout)
  then have "refcount (phys t) 3 = 0"
    using t(1) counts_okD(1)[of t 3] by (simp add: paging_inv_def reserved_def)
  moreover have "\<not> present (pd_of t KernelPD ! i)" if "8 \<le> i" "i < 256" for i
    using that by (simp add: pd_of_def t(3) nth_list_update)
  ultimately show ?thesis using t(1) by (simp add: kheap_mapped_def)
qed

lemma boot_InitializeKernelHeap:
  assumes "boot_state s" "InitializePaging kb s = Inr t" "world st = t"
  shows "\<exists>st0. InitializeKernelHeap st = Inr st0 \<and> alloc_inv 0x40000000 kheap_mapped st0 [(0x400000, False)] \<and>
    heap_start st0 = 0x2000000 \<and> heap_end st0 = 0x40000000"
proof -
  note k = boot_kheap[OF assms(1,2)]
  have "\<not> (\<forall>i. 1 \<le> i \<longrightarrow> i < 1024 \<longrightarrow> 0 < refcount (phys t) i)" using k by (auto intro: exI[of _ 3])
  then obtain w where "ksbrk_map_page (0x2000000, t) = Inr (0x2400000, w)"
    using ksbrk_map_page_ok[of "0x2000000" t] k by auto
  then have "ksbrk 1 0x2000000 t = Inr (0x2400000, w)"
    by (simp add: ksbrk_def ksbrk_page_def kPageSize4M_def wrap_def kernel_defs)
  then obtain st0 where st0: "Init ksbrk 0x2000000 0x40000000 st = Inr st0" "heap st0 = 0x2400000"
    using assms(3) by (auto simp: Init_def InitializeHeap_def)
  from kh.Init_ok[OF _ _ _ _ _ st0(1)] k assms(3) obtain z where
    z: "alloc_inv 0x40000000 kheap_mapped st0 [(z, False)]" "heap_start st0 = 0x2000000" "heap_end st0 = 0x40000000" by auto
  have "z = 0x400000" using heap_invD(2)[of st0 "[(z, False)]"] z(1,2) st0(2) by (simp add: alloc_inv_def)
  with z st0(1) show ?thesis by (auto simp: InitializeKernelHeap_def kernel_defs)
qed

text \<open>A concrete kernel heap: the machine after start-up, with one block of 100 bytes.\<close>

lemma kernel_example:
  obtains t st st0 st1 where "InitializePaging 0x1FC00 boot0 = Inr t" "world st = t" "InitializeKernelHeap st = Inr st0"
    "kmalloc 100 st0 = Inr (0x2000004, st1)" "client_run ksbrk st0 st1 (Map.empty(0x2000004 \<mapsto> 100))"
    "alloc_inv 0x40000000 kheap_mapped st0 [(0x400000, False)]"
    "alloc_inv 0x40000000 kheap_mapped st1 [(104, True), (0x3FFF98, False)]" "heap_start st1 = 0x2000000"
proof -
  obtain t where t: "InitializePaging 0x1FC00 boot0 = Inr t" by (rule boot0_up)
  define st where "st = \<lparr>mem = \<lambda>_. 0, heap = 0, heap_used = 0, heap_start = 0, heap_end = 0, world = t\<rparr>"
  have w: "world st = t" by (simp add: st_def)
  obtain st0 where st0: "InitializeKernelHeap st = Inr st0" "alloc_inv 0x40000000 kheap_mapped st0 [(0x400000, False)]"
      "heap_start st0 = 0x2000000"
    using boot_InitializeKernelHeap[OF boot0_boot t w] by blast
  have hv: "heap_inv st0 [(0x400000, False)]" using st0(2) by (simp add: alloc_inv_def)
  have req: "request_ok 100 4" by (simp add: request_ok_4)
  have "first_fit (real_size 100 (max 4 4)) (max 4 4) (heap_start st0) [(0x400000, False)] =
      Some (0x2000000, [(104, True), (0x3FFF98, False)])"
    by (simp add: real_size_def fit_def place_def st0(3))
  from Malloc_fits[OF hv req this, of ksbrk] obtain st1 where
    st1: "Malloc_aligned ksbrk 100 4 st0 = Inr (0x2000004, st1)" "heap_inv st1 [(104, True), (0x3FFF98, False)]"
      "heap st1 = heap st0" "world st1 = world st0" "preserves st0 [(0x400000, False)] st1"
    by (auto simp: allocated_def)
  have "alloc_inv 0x40000000 kheap_mapped st1 [(104, True), (0x3FFF98, False)]"
    using st0(2) st1 by (simp add: alloc_inv_def preserves_def)
  moreover have "heap_start st1 = 0x2000000" using st1(5) st0(3) by (simp add: preserves_def)
  moreover have "kmalloc 100 st0 = Inr (0x2000004, st1)"
    using st1(1) by (simp add: kmalloc_def Malloc_def kMaxAlignment_def)
  ultimately show thesis
    using that[OF t w st0(1)] client_run.malloc[OF client_run.start req st1(1)] st0(2) by blast
qed

text \<open>
  C2. Memory safety of the kernel heap, from start-up on: after \<open>InitializePaging\<close> and
  \<open>InitializeKernelHeap\<close>, whatever the kernel allocates, reallocates, frees and writes, live
  allocations are aligned, inside the kernel heap and pairwise disjoint, freeing one returns,
  the paging invariant still holds, and every byte of an allocation lies in a page that the
  kernel's directory maps.
\<close>

theorem kernel_heap_safe:
  assumes "boot_state s" "InitializePaging kb s = Inr t" "world st = t"
    "InitializeKernelHeap st = Inr st0" "client_run ksbrk st0 st1 owned"
  shows "paging_inv (world st1) \<and>
    (\<forall>p n. owned p = Some n \<longrightarrow> 0x2000000 < p \<and> p + n \<le> 0x40000000 \<and> p mod 4 = 0 \<and> (\<exists>st'. kfree p st1 = Inr st')) \<and>
    (\<forall>p n q m. owned p = Some n \<longrightarrow> owned q = Some m \<longrightarrow> p \<noteq> q \<longrightarrow> p + n \<le> q \<or> q + m \<le> p) \<and>
    (\<forall>p n x. owned p = Some n \<longrightarrow> p \<le> x \<longrightarrow> x < p + n \<longrightarrow> isVirtualMapped (world st1) KernelPD (of_nat x))"
proof -
  have i: "alloc_inv 0x40000000 kheap_mapped st0 [(0x400000, False)]" "heap_start st0 = 0x2000000" "heap_end st0 = 0x40000000"
    using boot_InitializeKernelHeap[OF assms(1-3)] assms(4) by auto
  have none: "used_blocks (heap_start st0) [(0x400000, False)] = {}" by simp
  note safe = kh.client_run_safe[OF assms(5) i(1) none i(3)]
  have start: "heap_start st1 = 0x2000000" and k: "kheap_mapped (heap st1) (world st1)"
    using safe i(2) by simp_all
  have lim: "0x2000000 + 4 \<le> p" "p + n \<le> heap st1" "p mod 4 = 0" if "owned p = Some n" for p n
    using safe start that by auto
  have le: "heap st1 \<le> 0x40000000" using k by (simp add: kheap_mapped_def)
  have "isVirtualMapped (world st1) KernelPD (of_nat x)" if l: "owned p = Some n" "p \<le> x" "x < p + n" for p n x
  proof -
    have x: "0x2000000 \<le> x" "x < heap st1" using lim[OF l(1)] l by auto
    have "unat (of_nat x :: u32) = x" using x le by (intro unat_of_nat_u32) simp
    then have "PageIndex4M (of_nat x) = x div 0x400000" by (simp add: PageIndex4M_div kPageSize4M_def)
    moreover have "8 \<le> x div 0x400000" using div_le_mono[OF x(1), of "0x400000"] by simp
    moreover have "x div 0x400000 < heap st1 div 0x400000"
    proof -
      have "heap st1 = heap st1 div 0x400000 * 0x400000" using k by (auto simp: kheap_mapped_def)
      then show ?thesis using x(2) by (simp add: div_less_iff_less_mult)
    qed
    ultimately show ?thesis using k by (simp add: isVirtualMapped_def kheap_mapped_def)
  qed
  moreover have "paging_inv (world st1)" using k by (simp add: kheap_mapped_def)
  moreover have "0x2000000 < p \<and> p + n \<le> 0x40000000 \<and> p mod 4 = 0 \<and> (\<exists>st'. kfree p st1 = Inr st')"
    if "owned p = Some n" for p n
  proof (intro conjI)
    show "0x2000000 < p" "p + n \<le> 0x40000000" "p mod 4 = 0" using lim[OF that] le by linarith+
    show "\<exists>st'. kfree p st1 = Inr st'" using safe that by (auto simp: kfree_def)
  qed
  ultimately show ?thesis using safe by blast
qed

theorem kernel_heap_safe_witness:
  "\<exists>t st st0 st1. InitializePaging 0x1FC00 boot0 = Inr t \<and> world st = t \<and> InitializeKernelHeap st = Inr st0 \<and>
     kmalloc 100 st0 = Inr (0x2000004, st1) \<and> (\<exists>st'. kfree 0x2000004 st1 = Inr st')"
proof (rule kernel_example)
  fix t and st st0 st1 :: kernel_heap
  assume s: "InitializePaging 0x1FC00 boot0 = Inr t" "world st = t" "InitializeKernelHeap st = Inr st0"
    "kmalloc 100 st0 = Inr (0x2000004, st1)" "client_run ksbrk st0 st1 (Map.empty(0x2000004 \<mapsto> 100))"
  have "\<exists>st'. kfree 0x2000004 st1 = Inr st'" using kernel_heap_safe[OF boot0_boot s(1-3,5)] by simp
  with s show ?thesis by blast
qed

text \<open>
  \<open>kmalloc\<close> with an alignment either stops because virtual or physical memory is exhausted
  (no other assertion of the allocator or of paging can fail), or returns a pointer with that
  alignment to a fresh block that overlaps no block in use and leaves all of them untouched.
\<close>

theorem kmalloc_correct:
  assumes "alloc_inv 0x40000000 kheap_mapped st bs" "request_ok sz al"
  shows "(\<exists>msg. kmalloc_aligned sz al st = Inl (AssertFailed msg) \<and>
      msg \<in> {''No memory left for kernel!'', ''Memory is full!''}) \<or>
    (\<exists>p st' bs'. kmalloc_aligned sz al st = Inr (p, st') \<and> alloc_inv 0x40000000 kheap_mapped st' bs' \<and>
       allocated (real_size sz (max al 4)) (max al 4) st bs p st' bs')"
  using kh.Malloc_aligned_ok[OF assms] kernel_out_of_memory unfolding kmalloc_aligned_def by blast

theorem kmalloc_correct_witness:
  "\<exists>st0 :: kernel_heap. (\<exists>msg. kmalloc_aligned 64 16 st0 = Inl (AssertFailed msg)) \<or>
     (\<exists>p st' bs'. kmalloc_aligned 64 16 st0 = Inr (p, st') \<and> p mod 16 = 0 \<and>
        allocated (real_size 64 16) 16 st0 [(0x400000, False)] p st' bs')"
proof (rule kernel_example)
  fix t and st st0 st1 :: kernel_heap
  assume s: "alloc_inv 0x40000000 kheap_mapped st0 [(0x400000, False)]"
  have "request_ok 64 16" by (auto simp: request_ok_def intro: exI[of _ 4])
  from kmalloc_correct[OF s this] show ?thesis
    by (intro exI[of _ st0]) (auto dest: allocatedD(2))
qed

text \<open>
  \<open>kfree\<close> gives back exactly the block it is passed: the remaining blocks in use are the
  others, their bytes are untouched, the accounted size drops by the size of the block, and
  the freed chunk has absorbed all free chunks that follow it.
\<close>

theorem kfree_correct:
  assumes "alloc_inv 0x40000000 kheap_mapped st bs" "(c, s) \<in> used_blocks (heap_start st) bs"
  shows "\<exists>st' pre post. kfree (c + 4) st = Inr st' \<and> bs = pre @ (s, True) # post \<and>
    (let bs' = pre @ (s + total (takeWhile free_block post), False) # dropWhile free_block post in
     alloc_inv 0x40000000 kheap_mapped st' bs' \<and> released c s st bs st' bs')"
proof -
  have hv: "heap_inv st bs" using assms(1) by (simp add: alloc_inv_def)
  from Free_ok[OF hv assms(2)] obtain st' pre post where f: "Free (c + 4) st = Inr st'" "bs = pre @ (s, True) # post"
      "heap_inv st' (pre @ (s + total (takeWhile free_block post), False) # dropWhile free_block post)"
      "released c s st bs st' (pre @ (s + total (takeWhile free_block post), False) # dropWhile free_block post)" by blast
  then show ?thesis
    using assms(1) by (intro exI[of _ st'] exI[of _ pre] exI[of _ post]) (simp add: kfree_def alloc_inv_def released_def Let_def)
qed

theorem kfree_correct_witness:
  "\<exists>st1 st' :: kernel_heap. kfree 0x2000004 st1 = Inr st' \<and>
     released 0x2000000 104 st1 [(104, True), (0x3FFF98, False)] st' [(0x400000, False)]"
proof (rule kernel_example)
  fix t and st st0 st1 :: kernel_heap
  assume s: "alloc_inv 0x40000000 kheap_mapped st1 [(104, True), (0x3FFF98, False)]" "heap_start st1 = 0x2000000"
  have u: "(0x2000000, 104) \<in> used_blocks (heap_start st1) [(104, True), (0x3FFF98, False)]" by (simp add: s(2))
  obtain st' pre post where f: "kfree 0x2000004 st1 = Inr st'" "[(104, True), (0x3FFF98, False)] = pre @ (104, True) # post"
      "released 0x2000000 104 st1 [(104, True), (0x3FFF98, False)] st'
         (pre @ (104 + total (takeWhile free_block post), False) # dropWhile free_block post)"
    using kfree_correct[OF s(1) u] by (auto simp: Let_def)
  then have "pre = []" "post = [(0x3FFF98, False)]" by (auto simp: Cons_eq_append_conv)
  with f show ?thesis by (auto simp: free_block_def)
qed

end
