(* ===== verification/Scheduler.thy ===== *)
theory Scheduler
  imports KernelHeap
begin

text \<open>
  Tasks and the scheduler: \<^verbatim>\<open>kernel/task.cpp\<close>, \<^verbatim>\<open>kernel/include/ktask.h\<close>, \<^verbatim>\<open>kernel/task.S\<close> and
  \<^verbatim>\<open>kernel/timer.cpp\<close>. A task object is named by its address. The ready queue is a list of
  queue nodes (the address of the node, which lives in the kernel heap, and the task it holds);
  its head is \<open>ReadyQueue\<close>. Loading a task's registers and returning with \<open>iret\<close> is a function
  from the saved registers and the words on the task's stack to the registers of the processor.
\<close>

section \<open>State\<close>

datatype task_state = READY | RUNNING | COMPLETED

record task_regs =
  r_esp :: u32  r_ebp :: u32  r_eax :: u32  r_ebx :: u32  r_ecx :: u32  r_edx :: u32
  r_esi :: u32  r_edi :: u32  r_eflags :: u32  r_eip :: u32
  r_ds :: u16  r_es :: u16  r_fs :: u16  r_gs :: u16  r_cs :: u16

text \<open>\<open>X86Registers\<close>: what the interrupt stub and the processor push.\<close>

record x86_regs =
  x_ds :: u32  x_edi :: u32  x_esi :: u32  x_ebp :: u32  x_esp :: u32  x_ebx :: u32
  x_edx :: u32  x_ecx :: u32  x_eax :: u32  x_int_no :: u32  x_err_code :: u32
  x_eip :: u32  x_cs :: u32  x_eflags :: u32  x_useresp :: u32  x_ss :: u32

record task =
  t_id :: u32
  t_state :: task_state
  t_regs :: task_regs
  t_pd :: pd_ref
  t_user_in_kernel :: bool
  t_parent :: "nat option"
  t_children :: "nat list"
  t_user :: bool
  t_stack :: nat
  t_entry_offset :: u32

record kernel =
  k_tasks :: "nat \<rightharpoonup> task"
  k_queue :: "(nat \<times> nat) list"
  k_current :: "nat option"
  k_main :: "nat option"
  k_next_tid :: u32
  k_heap :: kernel_heap
  k_esp0 :: u32
  k_interrupts :: bool

definition kKernelDataSegment :: u32 where "kKernelDataSegment = 0x10"
definition kUserDataSegment :: u32 where "kUserDataSegment = 0x23"
definition kKernelCodeSegment :: u32 where "kKernelCodeSegment = 0x08"
definition kUserCodeSegment :: u32 where "kUserCodeSegment = 0x1B"
definition IRQ0 :: u32 where "IRQ0 = 32"
definition DEFAULT_THREAD_STACK_SIZE :: nat where "DEFAULT_THREAD_STACK_SIZE = 2048"

definition zero_regs :: task_regs where
  "zero_regs = \<lparr>r_esp = 0, r_ebp = 0, r_eax = 0, r_ebx = 0, r_ecx = 0, r_edx = 0, r_esi = 0, r_edi = 0,
     r_eflags = 0, r_eip = 0, r_ds = 0, r_es = 0, r_fs = 0, r_gs = 0, r_cs = 0\<rparr>"

definition the_task :: "kernel \<Rightarrow> nat \<Rightarrow> task result" where
  "the_task k p = (case k_tasks k p of None \<Rightarrow> Inl (Undefined ''dangling task'') | Some t \<Rightarrow> Inr t)"

definition upd_task :: "nat \<Rightarrow> (task \<Rightarrow> task) \<Rightarrow> kernel \<Rightarrow> kernel" where
  "upd_task p f k = k\<lparr>k_tasks := (k_tasks k)(p := map_option f (k_tasks k p))\<rparr>"

section \<open>Jumping to a task\<close>

text \<open>
  The processor after the jump: the general registers, the segments and the stack segment.
  \<open>SWAP_TASKS\<close> loads everything but \<open>eax\<close>, \<open>eip\<close>, \<open>cs\<close> and \<open>eflags\<close>; the four entry points differ in
  what \<open>iret\<close> finds on the stack.
\<close>

record cpu =
  c_regs :: task_regs
  c_ss :: "u32 option"

definition switch_kernel_task_run :: "task_regs \<Rightarrow> (u32 \<Rightarrow> u32) \<Rightarrow> cpu" where
  "switch_kernel_task_run r stk = \<lparr>c_regs = r\<lparr>r_cs := 0x08\<rparr>, c_ss = None\<rparr>"

definition switch_first_kernel_task_run :: "task_regs \<Rightarrow> (u32 \<Rightarrow> u32) \<Rightarrow> cpu" where
  "switch_first_kernel_task_run r stk =
     (if ucast (stk (r_esp r + 4)) AND 3 = (3 :: u16)
      then \<lparr>c_regs = r\<lparr>r_eip := stk (r_esp r), r_cs := ucast (stk (r_esp r + 4)), r_eflags := stk (r_esp r + 8),
                       r_esp := stk (r_esp r + 12)\<rparr>, c_ss = Some (stk (r_esp r + 16))\<rparr>
      else \<lparr>c_regs = r\<lparr>r_eip := stk (r_esp r), r_cs := ucast (stk (r_esp r + 4)), r_eflags := stk (r_esp r + 8),
                       r_esp := r_esp r + 12\<rparr>, c_ss = None\<rparr>)"

definition switch_first_user_task_run :: "task_regs \<Rightarrow> (u32 \<Rightarrow> u32) \<Rightarrow> cpu" where
  "switch_first_user_task_run r stk = switch_first_kernel_task_run r stk"

definition switch_user_task_run :: "task_regs \<Rightarrow> (u32 \<Rightarrow> u32) \<Rightarrow> cpu" where
  "switch_user_task_run r stk = \<lparr>c_regs = r\<lparr>r_cs := 0x1B\<rparr>, c_ss = Some 0x23\<rparr>"

section \<open>Saving the current task\<close>

text \<open>
  The words of the interrupted stack from \<open>regs->esp\<close> on are the last seven fields of
  \<open>X86Registers\<close>: the stubs of \<^verbatim>\<open>kernel/interrupt.S\<close> push the interrupt number and error code, then
  \<open>pusha\<close> stores that stack pointer in the \<open>esp\<close> field.
\<close>

definition esp_word :: "x86_regs \<Rightarrow> nat \<Rightarrow> u32" where
  "esp_word R i = [x_int_no R, x_err_code R, x_eip R, x_cs R, x_eflags R, x_useresp R, x_ss R] ! i"

definition adjusted_esp :: "bool \<Rightarrow> x86_regs \<Rightarrow> (u32 \<times> bool) result" where
  "adjusted_esp is_user R =
     assertE (esp_word R 0 = IRQ0) ''Expected this to only be called from a timer interrupt.'' (
     assertE (esp_word R 1 = 0) ''No error code should be provided from the timer interrupt handler.'' (
     if \<not> is_user
     then assertE (esp_word R 3 = 0x08) ''Expected this interrupt to be triggerred from a kernel task while in kernel space.''
            (Inr (x_esp R + 20, False))
     else if esp_word R 3 = kUserCodeSegment
     then assertE (esp_word R 6 = kUserDataSegment) ''Expected this task to come from userspace.''
            (Inr (x_useresp R, False))
     else assertE (esp_word R 3 = kKernelCodeSegment) ''Expected this task to be triggerred from kernel code.''
            (Inr (x_esp R + 20, True))))"

definition saved_regs :: "u32 \<Rightarrow> x86_regs \<Rightarrow> task_regs" where
  "saved_regs esp R =
     \<lparr>r_esp = esp, r_ebp = x_ebp R, r_eax = x_eax R, r_ebx = x_ebx R, r_ecx = x_ecx R, r_edx = x_edx R,
      r_esi = x_esi R, r_edi = x_edi R, r_eflags = x_eflags R, r_eip = x_eip R,
      r_ds = ucast (x_ds R), r_es = ucast (x_ds R), r_fs = ucast (x_ds R), r_gs = ucast (x_ds R), r_cs = ucast (x_cs R)\<rparr>"

definition save_current :: "x86_regs \<Rightarrow> nat \<Rightarrow> kernel \<Rightarrow> kernel result" where
  "save_current R cur k =
     bindE (the_task k cur) (\<lambda>t.
     bindE (adjusted_esp (t_user t) R) (\<lambda>(esp, in_kernel).
     Inr (upd_task cur (\<lambda>t. t\<lparr>t_regs := saved_regs esp R, t_user_in_kernel := in_kernel \<or> t_user_in_kernel t\<rparr>) k)))"

section \<open>The scheduler\<close>

definition AddToQueue :: "nat \<Rightarrow> kernel \<Rightarrow> kernel result" where
  "AddToQueue this k =
     bindE (kmalloc 8 (k_heap k)) (\<lambda>(item, h).
     Inr (k\<lparr>k_heap := h, k_queue := (item, this) # k_queue k\<rparr>))"

definition getStackPointer :: "kernel_heap \<Rightarrow> nat \<Rightarrow> nat result" where
  "getStackPointer h allocation =
     assertE (allocation \<noteq> 0) ''stack_allocation_'' (
     let stack_bottom = NextChunk (mem h) (FromPointer allocation) in
     assertE (stack_bottom mod 4 = 0) ''The user stack is not 4 byte aligned.'' (Inr stack_bottom))"

text \<open>The constructor of the base class for a task other than the main one.\<close>

definition Task_construct :: "nat \<Rightarrow> bool \<Rightarrow> pd_ref \<Rightarrow> bool \<Rightarrow> kernel \<Rightarrow> kernel result" where
  "Task_construct this garbage pd is_user k =
     assertE (k_queue k \<noteq> []) ''Scheduling has not yet been initialized.'' (
     case k_current k of
       None \<Rightarrow> Inl (Undefined ''null parent'')
     | Some parent \<Rightarrow>
       let t = \<lparr>t_id = k_next_tid k, t_state = READY, t_regs = zero_regs, t_pd = pd, t_user_in_kernel = garbage,
                t_parent = Some parent, t_children = [], t_user = is_user, t_stack = 0, t_entry_offset = 0\<rparr> in
       Inr (upd_task parent (\<lambda>p. p\<lparr>t_children := t_children p @ [this]\<rparr>)
             (k\<lparr>k_next_tid := k_next_tid k + 1, k_tasks := (k_tasks k)(this \<mapsto> t)\<rparr>)))"

definition push_words :: "nat \<Rightarrow> u32 list \<Rightarrow> kernel_heap \<Rightarrow> nat \<times> kernel_heap" where
  "push_words sp ws h = fold (\<lambda>w (sp, h). (sp - 4, upd_mem (wr32 (sp - 4) (unat w)) h)) ws (sp, h)"

definition KernelTask_construct :: "nat \<Rightarrow> bool \<Rightarrow> u32 \<Rightarrow> u32 \<Rightarrow> u32 \<Rightarrow> kernel \<Rightarrow> kernel result" where
  "KernelTask_construct this garbage func arg exit_fn k =
     bindE (Task_construct this garbage KernelPD False k) (\<lambda>k.
     bindE (kmalloc DEFAULT_THREAD_STACK_SIZE (k_heap k)) (\<lambda>(alloc_ptr, h).
     bindE (getStackPointer h alloc_ptr) (\<lambda>stack_bottom.
     let (sp, h) = push_words stack_bottom [arg, exit_fn, 0x202, kKernelCodeSegment, func] h;
         k = upd_task this (\<lambda>t. t\<lparr>t_stack := alloc_ptr,
               t_regs := (t_regs t)\<lparr>r_ds := ucast kKernelDataSegment, r_cs := ucast kKernelCodeSegment, r_esp := of_nat sp\<rparr>\<rparr>)
               (k\<lparr>k_heap := h\<rparr>) in
     AddToQueue this k)))"

text \<open>The constructor of the main task leaves \<open>user_in_kernel_space_\<close> and \<open>stack_allocation_\<close> uninitialised: \<open>garbage\<close>.\<close>

definition InitScheduler :: "nat \<Rightarrow> bool \<times> nat \<Rightarrow> kernel \<Rightarrow> kernel result" where
  "InitScheduler this garbage k =
     assertE (k_queue k = [] \<and> k_current k = None \<and> k_main k = None) ''This function should not be called twice.'' (
     let t = \<lparr>t_id = k_next_tid k, t_state = RUNNING, t_regs = zero_regs, t_pd = KernelPD, t_user_in_kernel = fst garbage,
              t_parent = None, t_children = [], t_user = False, t_stack = snd garbage, t_entry_offset = 0\<rparr>;
         k = k\<lparr>k_next_tid := k_next_tid k + 1, k_tasks := (k_tasks k)(this \<mapsto> t), k_current := Some this, k_main := Some this\<rparr> in
     bindE (kmalloc 8 (k_heap k)) (\<lambda>(item, h).
     Inr (k\<lparr>k_heap := h, k_queue := [(item, this)]\<rparr>)))"

definition SetupBeforeTaskRun :: "nat \<Rightarrow> (u32 \<Rightarrow> u32) \<Rightarrow> kernel \<Rightarrow> kernel result" where
  "SetupBeforeTaskRun p stk k =
     bindE (the_task k p) (\<lambda>t.
     if \<not> t_user t then Inr k
     else bindE (getStackPointer (k_heap k) (t_stack t)) (\<lambda>esp0.
          let k = k\<lparr>k_esp0 := of_nat esp0\<rparr> in
          assertE (t_state t = READY \<longrightarrow> stk (r_esp (t_regs t)) = USER_START + t_entry_offset t) ''stack_val == USER_START + entry_offset_'' (
          Inr k)))"

text \<open>\<open>schedule\<close> from the removal of an exited task: the search for the node of the current task.\<close>

fun remove_node :: "nat \<Rightarrow> (nat \<times> nat) list \<Rightarrow> (nat \<times> (nat \<times> nat) list) option" where
  "remove_node p [] = None"
| "remove_node p ((node, t) # q) =
     (if t = p then Some (node, q) else map_option (\<lambda>(n, q). (n, (node, t) # q)) (remove_node p q))"

definition remove_current :: "nat \<Rightarrow> kernel \<Rightarrow> kernel result" where
  "remove_current cur k =
     assertE (Some cur \<noteq> k_main k) ''We should not manually be quitting the main kernel task.'' (
     case remove_node cur (k_queue k) of
       None \<Rightarrow> Inl (AssertFailed ''Could not find this task.'')
     | Some (node, q) \<Rightarrow>
       bindE (kfree node (k_heap k)) (\<lambda>h. Inr (k\<lparr>k_queue := q, k_heap := h\<rparr>)))"

text \<open>
  The end of \<open>schedule\<close>: the jump to \<open>task\<close>. \<open>stk\<close> reads the words of the address space of the task.
\<close>

definition dispatch :: "nat \<Rightarrow> bool \<Rightarrow> (u32 \<Rightarrow> u32) \<Rightarrow> kernel \<Rightarrow> (cpu \<times> kernel) result" where
  "dispatch task jump_to_user stk k =
     bindE (SetupBeforeTaskRun task stk k) (\<lambda>k.
     bindE (the_task k task) (\<lambda>t.
     let h = k_heap k;
         k = k\<lparr>k_heap := h\<lparr>world := SwitchPageDirectory (t_pd t) (world h)\<rparr>\<rparr>;
         first_task_run = (t_state t = READY);
         k = upd_task task (\<lambda>t. t\<lparr>t_state := RUNNING\<rparr>) k in
     assertE (first_task_run \<or> r_eip (t_regs t) \<noteq> 0) ''Expected either for this to be the first time this task is run'' (
     let k = k\<lparr>k_current := Some task\<rparr> in
     Inr (if first_task_run \<and> \<not> jump_to_user then switch_first_kernel_task_run (t_regs t) stk
          else if first_task_run \<and> jump_to_user then switch_first_user_task_run (t_regs t) stk
          else if \<not> first_task_run \<and> jump_to_user then switch_user_task_run (t_regs t) stk
          else switch_kernel_task_run (t_regs t) stk, k))))"

text \<open>
  \<open>regs\<close> is null (\<open>None\<close>) when a task exits; \<open>stk p a\<close> is the word at address \<open>a\<close> of the address
  space of task \<open>p\<close>. The first component is the processor after the jump, \<open>None\<close> when
  \<open>schedule\<close> returns to its caller.
\<close>

definition schedule :: "x86_regs option \<Rightarrow> (nat \<Rightarrow> u32 \<Rightarrow> u32) \<Rightarrow> kernel \<Rightarrow> (cpu option \<times> kernel) result" where
  "schedule regs stk k =
     (case k_queue k of
        [] \<Rightarrow> Inr (None, k)
      | [_] \<Rightarrow> Inr (None, k)
      | (node, task) # q \<Rightarrow>
        assertE (\<not> k_interrupts k) ''Interupts should not be enabled at this point.'' (
        case k_current k of None \<Rightarrow> Inl (Undefined ''null current task'')
        | Some cur \<Rightarrow>
          let k = upd_task cur (\<lambda>t. t\<lparr>t_user_in_kernel := False\<rparr>) (k\<lparr>k_queue := q @ [(node, task)]\<rparr>) in
          bindE (the_task k task) (\<lambda>t.
          let jump_to_user = (if t_user_in_kernel t then False else t_user t) in
          bindE (case regs of Some R \<Rightarrow> save_current R cur k | None \<Rightarrow> remove_current cur k) (\<lambda>k.
          bindE (dispatch task jump_to_user (stk task) k) (\<lambda>(c, k).
          Inr (Some c, k))))))"

definition exit_this_task :: "(nat \<Rightarrow> u32 \<Rightarrow> u32) \<Rightarrow> kernel \<Rightarrow> (cpu \<times> kernel) result" where
  "exit_this_task stk k =
     (case k_current k of None \<Rightarrow> Inl (Undefined ''null current task'')
      | Some cur \<Rightarrow>
        let k = upd_task cur (\<lambda>t. t\<lparr>t_state := COMPLETED\<rparr>) (k\<lparr>k_interrupts := False\<rparr>) in
        bindE (schedule None stk k) (\<lambda>(c, k).
        case c of None \<Rightarrow> Inl (PanicError ''Should have jumped to the next task'') | Some c \<Rightarrow> Inr (c, k)))"

text \<open>The destructor of the base class, and the end of scheduling.\<close>

definition Task_destruct :: "nat \<Rightarrow> kernel \<Rightarrow> kernel result" where
  "Task_destruct this k =
     bindE (the_task k this) (\<lambda>t.
     assertE (t_children t = []) ''child_tasks_.empty()'' (
     case t_parent t of
       None \<Rightarrow> Inr (k\<lparr>k_tasks := (k_tasks k)(this := None)\<rparr>)
     | Some parent \<Rightarrow>
       bindE (the_task k parent) (\<lambda>p.
       assertE (this \<in> set (t_children p)) ''Child task does not exist.'' (
       Inr ((upd_task parent (\<lambda>p. p\<lparr>t_children := remove1 this (t_children p)\<rparr>) k)
              \<lparr>k_tasks := (k_tasks (upd_task parent (\<lambda>p. p\<lparr>t_children := remove1 this (t_children p)\<rparr>) k))(this := None)\<rparr>)))))"

section \<open>The timer\<close>

definition kQuanta :: u32 where "kQuanta = 2"

definition TimerCallback :: "x86_regs \<Rightarrow> (nat \<Rightarrow> u32 \<Rightarrow> u32) \<Rightarrow> u32 \<times> kernel \<Rightarrow> (cpu option \<times> u32 \<times> kernel) result" where
  "TimerCallback R stk = (\<lambda>(tick, k).
     let tick = tick + 1 in
     if tick mod kQuanta = 0
     then bindE (schedule (Some R) stk k) (\<lambda>(c, k). Inr (c, tick, k))
     else Inr (None, tick, k))"

definition InitTimer_divisor :: "u32 \<Rightarrow> (u8 \<times> u8) result" where
  "InitTimer_divisor frequency =
     (if frequency = 0 then Inl (Undefined ''division by zero'')
      else let divisor = 1193180 div frequency in
           assertE (divisor \<le> 0xFFFF) ''Divisor cannot fit in 16 bits.'' (
           Inr (ucast (divisor AND 0xFF), ucast (drop_bit 8 divisor AND 0xFF))))"

end
