(* ===== verification/SchedulerInvariant.thy ===== *)
theory SchedulerInvariant
  imports Scheduler
begin

text \<open>
  The invariant of the scheduler. The ready queue is never empty and its last task is the
  running one, no task is queued twice, every queued task is alive, the main task never leaves
  the queue, and the queue nodes and the stacks of the tasks are distinct live allocations of the
  kernel heap. \<open>schedule\<close>, \<open>exit_this_task\<close> and the creation of a task keep it.
\<close>

section \<open>Allocations the scheduler owns\<close>

definition owned :: "kernel_heap \<Rightarrow> nat set \<Rightarrow> bool" where
  "owned h P \<longleftrightarrow> (\<exists>bs. alloc_inv 0x40000000 kheap_mapped h bs \<and>
     (\<forall>p \<in> P. heap_start h + 4 \<le> p \<and> (\<exists>s. (p - 4, s) \<in> used_blocks (heap_start h) bs)))"

lemma owned_subset: "owned h P \<Longrightarrow> Q \<subseteq> P \<Longrightarrow> owned h Q"
  unfolding owned_def by blast

lemma kmalloc_block:
  assumes "alloc_inv 0x40000000 kheap_mapped h bs" "request_ok n 4" "kmalloc n h = Inr (p, h')"
  obtains bs' where "alloc_inv 0x40000000 kheap_mapped h' bs'" "allocated (real_size n 4) 4 h bs p h' bs'"
proof -
  have "Malloc_aligned ksbrk n 4 h = Inr (p, h')" using assms(3) by (simp add: kmalloc_def Malloc_def kMaxAlignment_def)
  then show thesis using kh.Malloc_aligned_ok[OF assms(1,2)] that by auto
qed

lemma owned_kmalloc:
  assumes "owned h P" "request_ok n 4" "kmalloc n h = Inr (p, h')"
  shows "owned h' (insert p P) \<and> p \<notin> P"
proof -
  obtain bs where bs: "alloc_inv 0x40000000 kheap_mapped h bs"
      "\<And>q. q \<in> P \<Longrightarrow> heap_start h + 4 \<le> q \<and> (\<exists>s. (q - 4, s) \<in> used_blocks (heap_start h) bs)"
    using assms(1) unfolding owned_def by blast
  obtain bs' where a: "alloc_inv 0x40000000 kheap_mapped h' bs'" "allocated (real_size n 4) 4 h bs p h' bs'"
    using kmalloc_block[OF bs(1) assms(2,3)] .
  note d = allocatedD[OF a(2)]
  have r: "0 < real_size n 4" using real_size_RoundUp(3)[OF assms(2)] by simp
  have ch: "chain (mem h) (heap_start h) bs (heap h)" using bs(1) heap_invD(1) by (auto simp: alloc_inv_def)
  have "p \<notin> P"
  proof
    assume "p \<in> P"
    then obtain s where s: "(p - 4, s) \<in> used_blocks (heap_start h) bs" using bs(2) by blast
    show False using d(6)[OF s] used_block_size[OF ch s] r by linarith
  qed
  then show ?thesis using a(1) bs(2) d(1,5,8) unfolding owned_def by (intro conjI exI[of _ bs']) auto
qed

lemma owned_kfree:
  assumes "owned h P" "p \<in> P"
  obtains h' where "kfree p h = Inr h'" "owned h' (P - {p})"
proof -
  obtain bs where bs: "alloc_inv 0x40000000 kheap_mapped h bs"
      "\<And>q. q \<in> P \<Longrightarrow> heap_start h + 4 \<le> q \<and> (\<exists>s. (q - 4, s) \<in> used_blocks (heap_start h) bs)"
    using assms(1) unfolding owned_def by blast
  obtain s where s: "heap_start h + 4 \<le> p" "(p - 4, s) \<in> used_blocks (heap_start h) bs" using bs(2) assms(2) by blast
  have hv: "heap_inv h bs" using bs(1) by (simp add: alloc_inv_def)
  have p: "p - 4 + 4 = p" using s(1) by simp
  obtain h' bs' where f: "Free p h = Inr h'" "heap_inv h' bs'" "released (p - 4) s h bs h' bs'"
    using Free_ok[OF hv s(2)] unfolding p by blast
  have "alloc_inv 0x40000000 kheap_mapped h' bs'" using f bs(1) by (simp add: alloc_inv_def released_def)
  moreover have "heap_start h' + 4 \<le> q \<and> (\<exists>s. (q - 4, s) \<in> used_blocks (heap_start h') bs')" if q: "q \<in> P - {p}" for q
  proof -
    obtain t where t: "heap_start h + 4 \<le> q" "(q - 4, t) \<in> used_blocks (heap_start h) bs" using bs(2) q by blast
    have "q - 4 \<noteq> p - 4" using t(1) s(1) q by auto
    then show ?thesis using t f(3) by (auto simp: released_def)
  qed
  ultimately have "owned h' (P - {p})" unfolding owned_def by blast
  with f(1) that show thesis by (simp add: kfree_def)
qed

lemma owned_switch: "owned h P \<Longrightarrow> owned (h\<lparr>world := SwitchPageDirectory d (world h)\<rparr>) P"
proof -
  have k: "kheap_mapped a (SwitchPageDirectory d s) = kheap_mapped a s" for a s
    by (simp add: SwitchPageDirectory_def kheap_mapped_def paging_inv_def counts_ok_def paging_wf_def mapcount_def synced_def pd_of_def split: pd_ref.splits)
  assume "owned h P"
  then show ?thesis by (simp add: owned_def alloc_inv_def heap_inv_def k)
qed

lemma owned_stack:
  assumes "owned h P" "p \<in> P"
  obtains s where "getStackPointer h p = Inr (p + s)" "(p + s) mod 4 = 0"
proof -
  obtain bs z where bs: "heap_inv h bs" "heap_start h + 4 \<le> p" "(p - 4, z) \<in> used_blocks (heap_start h) bs"
    using assms unfolding owned_def alloc_inv_def by blast
  note b = block_addr[OF bs(1,3)]
  have p: "p - 4 + 4 = p" using bs(2) by simp
  have "heap h < 0x100000000" using heap_invD(6)[OF bs(1)] .
  then have "NextChunk (mem h) (FromPointer p) = p + (z - 4)"
    using b p by (auto simp: NextChunk_def wrap_def)
  moreover have "p + (z - 4) = p - 4 + z" using p b(3) by simp
  then have "(p + (z - 4)) mod 4 = 0" using b(4,5) by presburger
  ultimately show thesis using that[of "z - 4"] bs(2) by (simp add: getStackPointer_def)
qed

section \<open>The invariant\<close>

abbreviation queued :: "kernel \<Rightarrow> nat set" where
  "queued k \<equiv> snd ` set (k_queue k)"

abbreviation nodes :: "kernel \<Rightarrow> nat set" where
  "nodes k \<equiv> fst ` set (k_queue k)"

definition stacks :: "kernel \<Rightarrow> nat set" where
  "stacks k = {t_stack t | p t. p \<in> queued k \<and> k_tasks k p = Some t \<and> Some p \<noteq> k_main k}"

definition task_ok :: "kernel \<Rightarrow> nat \<Rightarrow> task \<Rightarrow> bool" where
  "task_ok k p t \<longleftrightarrow> t_state t \<noteq> COMPLETED \<and> (k_current k = Some p \<longrightarrow> t_state t = RUNNING) \<and>
     (t_state t = RUNNING \<longrightarrow> k_current k \<noteq> Some p \<longrightarrow> r_eip (t_regs t) \<noteq> 0) \<and>
     (t_user t \<longrightarrow> Some p \<noteq> k_main k)"

definition sched_inv :: "kernel \<Rightarrow> bool" where
  "sched_inv k \<longleftrightarrow> k_queue k \<noteq> [] \<and> k_current k = Some (snd (last (k_queue k))) \<and>
     distinct (map fst (k_queue k)) \<and> distinct (map snd (k_queue k)) \<and>
     (\<exists>m \<in> queued k. k_main k = Some m) \<and> (\<forall>p \<in> queued k. \<exists>t. k_tasks k p = Some t \<and> task_ok k p t) \<and>
     owned (k_heap k) (nodes k \<union> stacks k) \<and> nodes k \<inter> stacks k = {}"

lemma sched_invD:
  assumes "sched_inv k"
  shows "k_queue k \<noteq> []" "k_current k = Some (snd (last (k_queue k)))" "distinct (map fst (k_queue k))"
    "distinct (map snd (k_queue k))" "\<exists>m \<in> queued k. k_main k = Some m"
    "p \<in> queued k \<Longrightarrow> \<exists>t. k_tasks k p = Some t \<and> task_ok k p t"
    "owned (k_heap k) (nodes k \<union> stacks k)" "nodes k \<inter> stacks k = {}"
  using assms unfolding sched_inv_def by blast+

lemma stacksI: "p \<in> queued k \<Longrightarrow> k_tasks k p = Some t \<Longrightarrow> Some p \<noteq> k_main k \<Longrightarrow> t_stack t \<in> stacks k"
  unfolding stacks_def by blast

lemma stacks_mono:
  assumes "queued k' \<subseteq> queued k" "k_main k' = k_main k"
    and "\<And>x. x \<in> queued k' \<Longrightarrow> map_option t_stack (k_tasks k' x) = map_option t_stack (k_tasks k x)"
  shows "stacks k' \<subseteq> stacks k"
proof
  fix a assume "a \<in> stacks k'"
  then obtain p t where p: "a = t_stack t" "p \<in> queued k'" "k_tasks k' p = Some t" "Some p \<noteq> k_main k'" unfolding stacks_def by blast
  then obtain u where "k_tasks k p = Some u" "t_stack u = a" using assms(3)[of p] by (cases "k_tasks k p") auto
  with p assms(1,2) show "a \<in> stacks k" using stacksI[of p k u] by auto
qed

lemma upd_task_simps [simp]:
  "k_tasks (upd_task p f k) q = (if q = p then map_option f (k_tasks k p) else k_tasks k q)"
  "k_queue (upd_task p f k) = k_queue k" "k_current (upd_task p f k) = k_current k" "k_main (upd_task p f k) = k_main k"
  "k_heap (upd_task p f k) = k_heap k" "k_interrupts (upd_task p f k) = k_interrupts k" "k_esp0 (upd_task p f k) = k_esp0 k"
  by (simp_all add: upd_task_def)

lemma the_task_Some [simp]: "k_tasks k p = Some t \<Longrightarrow> the_task k p = Inr t"
  by (simp add: the_task_def)

section \<open>Jumping to a task succeeds\<close>

definition jump :: "task \<Rightarrow> bool \<Rightarrow> (u32 \<Rightarrow> u32) \<Rightarrow> cpu" where
  "jump t to_user stk =
     (if t_state t = READY then switch_first_kernel_task_run (t_regs t) stk
      else if to_user then switch_user_task_run (t_regs t) stk else switch_kernel_task_run (t_regs t) stk)"

text \<open>What the check before the first jump to a user task reads is what its constructor put there.\<close>

definition entry_ok :: "task \<Rightarrow> (u32 \<Rightarrow> u32) \<Rightarrow> bool" where
  "entry_ok t stk \<longleftrightarrow> (t_user t \<longrightarrow> t_state t = READY \<longrightarrow> stk (r_esp (t_regs t)) = USER_START + t_entry_offset t)"

lemma dispatch_ok:
  assumes t: "k_tasks k p = Some t" and ok: "t_state t = READY \<or> r_eip (t_regs t) \<noteq> 0" "t_user t \<longrightarrow> t_stack t \<in> P"
    and own: "owned (k_heap k) P" and entry: "entry_ok t stk"
  shows "\<exists>e. dispatch p ju stk k = Inr (jump t ju stk, (upd_task p (\<lambda>t. t\<lparr>t_state := RUNNING\<rparr>) k)
     \<lparr>k_esp0 := e, k_heap := (k_heap k)\<lparr>world := SwitchPageDirectory (t_pd t) (world (k_heap k))\<rparr>, k_current := Some p\<rparr>)"
proof -
  have "\<exists>e. SetupBeforeTaskRun p stk k = Inr (k\<lparr>k_esp0 := e\<rparr>)"
  proof (cases "t_user t")
    case True
    then obtain s where "getStackPointer (k_heap k) (t_stack t) = Inr (t_stack t + s)" using owned_stack[OF own] ok(2) by blast
    then show ?thesis using t True entry by (auto simp: SetupBeforeTaskRun_def entry_ok_def Let_def assertE_def)
  next
    case False
    then have "SetupBeforeTaskRun p stk k = Inr (k\<lparr>k_esp0 := k_esp0 k\<rparr>)" using t by (simp add: SetupBeforeTaskRun_def)
    then show ?thesis by blast
  qed
  then obtain e where "SetupBeforeTaskRun p stk k = Inr (k\<lparr>k_esp0 := e\<rparr>)" by blast
  then have "dispatch p ju stk k = Inr (jump t ju stk, (upd_task p (\<lambda>t. t\<lparr>t_state := RUNNING\<rparr>) k)
     \<lparr>k_esp0 := e, k_heap := (k_heap k)\<lparr>world := SwitchPageDirectory (t_pd t) (world (k_heap k))\<rparr>, k_current := Some p\<rparr>)"
    using t ok(1) by (simp add: dispatch_def Let_def assertE_def jump_def upd_task_def switch_first_user_task_run_def)
  then show ?thesis by blast
qed

section \<open>A timer tick\<close>

text \<open>An interrupt frame the scheduler accepts for a task: the assertions of \<open>schedule\<close> hold on it.\<close>

definition frame_ok :: "task \<Rightarrow> x86_regs \<Rightarrow> bool" where
  "frame_ok t R \<longleftrightarrow> x_int_no R = IRQ0 \<and> x_err_code R = 0 \<and> x_eip R \<noteq> 0 \<and>
     (if t_user t then x_cs R = kUserCodeSegment \<and> x_ss R = kUserDataSegment \<or> x_cs R = kKernelCodeSegment
      else x_cs R = kKernelCodeSegment)"

definition from_user :: "x86_regs \<Rightarrow> bool" where
  "from_user R \<longleftrightarrow> x_cs R = kUserCodeSegment"

text \<open>The task with its context saved.\<close>

definition suspended :: "x86_regs \<Rightarrow> task \<Rightarrow> task" where
  "suspended R t = t\<lparr>t_regs := saved_regs (if from_user R then x_useresp R else x_esp R + 20) R,
     t_user_in_kernel := t_user t \<and> \<not> from_user R\<rparr>"

lemmas segment_defs = kUserCodeSegment_def kKernelCodeSegment_def kUserDataSegment_def kKernelDataSegment_def

lemma save_current_ok:
  assumes "k_tasks k cur = Some t" "frame_ok t R"
  shows "save_current R cur (upd_task cur (\<lambda>t. t\<lparr>t_user_in_kernel := False\<rparr>) k) = Inr (upd_task cur (suspended R) k)"
proof -
  have "adjusted_esp (t_user t) R = Inr (if from_user R then x_useresp R else x_esp R + 20, t_user t \<and> \<not> from_user R)"
    using assms(2) by (auto simp: adjusted_esp_def frame_ok_def esp_word_def from_user_def segment_defs split: if_splits)
  then show ?thesis
    using assms(1) by (simp add: save_current_def upd_task_def fun_upd_def suspended_def cong: if_cong)
qed

text \<open>The state \<open>schedule\<close> leaves when it runs \<open>p\<close> instead of \<open>cur\<close>.\<close>

definition switched :: "x86_regs \<Rightarrow> nat \<Rightarrow> nat \<Rightarrow> kernel \<Rightarrow> kernel \<Rightarrow> bool" where
  "switched R cur p k k' \<longleftrightarrow> k_queue k' = tl (k_queue k) @ [hd (k_queue k)] \<and> k_current k' = Some p \<and> k_main k' = k_main k \<and>
     k_tasks k' = (k_tasks k)(cur := map_option (suspended R) (k_tasks k cur),
                              p := map_option (\<lambda>t. t\<lparr>t_state := RUNNING\<rparr>) (k_tasks k p)) \<and>
     (\<exists>d. k_heap k' = (k_heap k)\<lparr>world := SwitchPageDirectory d (world (k_heap k))\<rparr>)"

lemma sched_inv_head:
  assumes "sched_inv k" "k_queue k = (n, p) # q" "q \<noteq> []" "k_current k = Some cur"
  shows "p \<noteq> cur" "cur = snd (last q)" "cur \<in> queued k" "p \<in> queued k" "last q \<in> set q"
proof -
  show l: "last q \<in> set q" using assms(3) by simp
  show c: "cur = snd (last q)" using assms by (simp add: sched_inv_def)
  show "p \<noteq> cur" using assms(1,2) l unfolding c sched_inv_def by (auto simp: image_iff)
  show "cur \<in> queued k" "p \<in> queued k" using assms(2) l unfolding c by (auto intro: imageI)
qed

lemma schedule_tick:
  assumes inv: "sched_inv k" and q: "k_queue k = (n, p) # q" "q \<noteq> []" and i: "\<not> k_interrupts k"
    and cur: "k_current k = Some cur" "k_tasks k cur = Some tc" "frame_ok tc R"
    and t: "k_tasks k p = Some t" "entry_ok t (stk p)"
  shows "\<exists>k'. schedule (Some R) stk k = Inr (Some (jump t (t_user t \<and> \<not> t_user_in_kernel t) (stk p)), k') \<and> switched R cur p k k'"
proof -
  note h = sched_inv_head[OF inv q cur(1)]
  obtain m qs where qm: "q = m # qs" using q(2) by (cases q) auto
  let ?k1 = "upd_task cur (suspended R) (k\<lparr>k_queue := q @ [(n, p)]\<rparr>)"
  have ok: "task_ok k p t" and own: "owned (k_heap k) (nodes k \<union> stacks k)" using inv h t(1) unfolding sched_inv_def by auto
  have "t_user t \<longrightarrow> t_stack t \<in> nodes k \<union> stacks k" using ok stacksI[OF h(4) t(1)] by (auto simp: task_ok_def)
  moreover have "t_state t = READY \<or> r_eip (t_regs t) \<noteq> 0" using ok h(1) cur(1) by (cases "t_state t") (auto simp: task_ok_def)
  ultimately obtain e where d: "dispatch p ju (stk p) ?k1 = Inr (jump t ju (stk p), (upd_task p (\<lambda>t. t\<lparr>t_state := RUNNING\<rparr>) ?k1)
     \<lparr>k_esp0 := e ju, k_heap := (k_heap k)\<lparr>world := SwitchPageDirectory (t_pd t) (world (k_heap k))\<rparr>, k_current := Some p\<rparr>)" for ju
    using dispatch_ok[of ?k1 p t "nodes k \<union> stacks k" "stk p"] own t h(1) by (simp, metis)
  let ?ju = "t_user t \<and> \<not> t_user_in_kernel t"
  let ?k2 = "(upd_task p (\<lambda>t. t\<lparr>t_state := RUNNING\<rparr>) ?k1)
     \<lparr>k_esp0 := e ?ju, k_heap := (k_heap k)\<lparr>world := SwitchPageDirectory (t_pd t) (world (k_heap k))\<rparr>, k_current := Some p\<rparr>"
  have "schedule (Some R) stk k = Inr (Some (jump t ?ju (stk p)), ?k2)"
    using q qm i cur t h(1) d save_current_ok[of "k\<lparr>k_queue := q @ [(n, p)]\<rparr>" cur tc R]
    by (cases "t_user_in_kernel t") (simp_all add: schedule_def)
  moreover have "switched R cur p k ?k2"
    using q h(1) unfolding switched_def by (intro conjI exI[of _ "t_pd t"]) (auto simp: upd_task_def fun_upd_def)
  ultimately show ?thesis by blast
qed

lemma suspended_simps [simp]:
  "t_state (suspended R t) = t_state t" "t_user (suspended R t) = t_user t" "t_stack (suspended R t) = t_stack t"
  "r_eip (t_regs (suspended R t)) = x_eip R"
  by (simp_all add: suspended_def saved_regs_def)

lemma switched_inv:
  assumes inv: "sched_inv k" and q: "k_queue k = (n, p) # q" "q \<noteq> []"
    and cur: "k_current k = Some cur" "x_eip R \<noteq> 0" and sw: "switched R cur p k k'"
  shows "sched_inv k'"
proof -
  note h = sched_inv_head[OF inv q cur(1)]
  have sw: "k_queue k' = q @ [(n, p)]" "k_current k' = Some p" "k_main k' = k_main k"
      "k_tasks k' x = (if x = p then map_option (\<lambda>t. t\<lparr>t_state := RUNNING\<rparr>) (k_tasks k p)
         else if x = cur then map_option (suspended R) (k_tasks k cur) else k_tasks k x)" for x
    using sw q(1) by (auto simp: switched_def)
  have own: "owned (k_heap k') (nodes k \<union> stacks k)"
    using inv owned_switch assms(6) by (auto simp: sched_inv_def switched_def)
  have sets: "queued k' = queued k" "nodes k' = nodes k" using q sw(1) by auto
  have stk: "map_option t_stack (k_tasks k' x) = map_option t_stack (k_tasks k x)" for x
    using h(1) by (simp add: sw(4) option.map_comp comp_def)
  have st: "stacks k' = stacks k"
    by (intro equalityI stacks_mono) (simp_all add: stk sets sw(3))
  have "\<exists>t. k_tasks k' x = Some t \<and> task_ok k' x t" if x: "x \<in> queued k" for x
  proof -
    obtain t where t: "k_tasks k x = Some t" "task_ok k x t" using sched_invD(6)[OF inv x] by blast
    then show ?thesis using h(1) cur unfolding task_ok_def sw(2-4) by (cases "t_state t") auto
  qed
  moreover have "distinct (map fst (k_queue k'))" "distinct (map snd (k_queue k'))"
    using inv q unfolding sw(1) sched_inv_def by auto
  ultimately show ?thesis
    using sched_invD(5,8)[OF inv] own unfolding sched_inv_def sets st by (simp add: sw(1-3))
qed

section \<open>The exit of a task\<close>

lemma remove_node_last:
  "distinct (map snd (q @ r)) \<Longrightarrow> q \<noteq> [] \<Longrightarrow>
     remove_node (snd (last q)) (q @ r) = Some (fst (last q), butlast q @ r)"
proof (induction q)
  case (Cons x q)
  obtain a b where x: "x = (a, b)" by (cases x)
  show ?case
  proof (cases "q = []")
    case False
    then have "b \<noteq> snd (last q)" using Cons.prems(1) last_in_set[OF False] by (auto simp: x image_iff)
    with False show ?thesis using Cons by (simp add: x)
  qed (simp add: x)
qed simp

definition exited :: "nat \<Rightarrow> nat \<Rightarrow> kernel \<Rightarrow> kernel \<Rightarrow> bool" where
  "exited cur p k k' \<longleftrightarrow> k_queue k' = butlast (tl (k_queue k)) @ [hd (k_queue k)] \<and> k_current k' = Some p \<and> k_main k' = k_main k \<and>
     k_tasks k' = (k_tasks k)(cur := map_option (\<lambda>t. t\<lparr>t_state := COMPLETED, t_user_in_kernel := False\<rparr>) (k_tasks k cur),
                              p := map_option (\<lambda>t. t\<lparr>t_state := RUNNING\<rparr>) (k_tasks k p)) \<and>
     owned (k_heap k') (nodes k \<union> stacks k - {fst (last (k_queue k))})"

lemma exit_task:
  assumes inv: "sched_inv k" and q: "k_queue k = (n, p) # q" "q \<noteq> []"
    and cur: "k_current k = Some cur" "k_main k \<noteq> Some cur" and t: "k_tasks k p = Some t" "entry_ok t (stk p)"
  shows "\<exists>k'. exit_this_task stk k = Inr (jump t (t_user t \<and> \<not> t_user_in_kernel t) (stk p), k') \<and> exited cur p k k'"
proof -
  note h = sched_inv_head[OF inv q cur(1)]
  obtain m qs where qm: "q = m # qs" using q(2) by (cases q) auto
  let ?f = "\<lambda>t. t\<lparr>t_state := COMPLETED, t_user_in_kernel := False\<rparr>"
  have ok: "task_ok k p t" and own: "owned (k_heap k) (nodes k \<union> stacks k)" and dist: "distinct (map snd (q @ [(n, p)]))"
    and disj: "nodes k \<inter> stacks k = {}"
    using inv h t(1) q(1) unfolding sched_inv_def by auto
  let ?node = "fst (last q)"
  have node: "?node \<in> nodes k" using q h(5) by (auto intro: imageI)
  obtain hp where hp: "kfree ?node (k_heap k) = Inr hp" "owned hp (nodes k \<union> stacks k - {?node})"
    using owned_kfree[OF own] node by blast
  let ?k0 = "upd_task cur ?f (k\<lparr>k_interrupts := False, k_queue := q @ [(n, p)]\<rparr>)"
  let ?k1 = "?k0\<lparr>k_queue := butlast q @ [(n, p)], k_heap := hp\<rparr>"
  have rm: "remove_current cur ?k0 = Inr ?k1"
    using remove_node_last[OF dist q(2)] hp(1) cur(2) h(2) by (simp add: remove_current_def)
  have "t_user t \<longrightarrow> t_stack t \<in> nodes k \<union> stacks k - {?node}" using ok stacksI[OF h(4) t(1)] node disj by (auto simp: task_ok_def)
  moreover have "t_state t = READY \<or> r_eip (t_regs t) \<noteq> 0" using ok h(1) cur(1) by (cases "t_state t") (auto simp: task_ok_def)
  ultimately obtain e where d: "dispatch p ju (stk p) ?k1 = Inr (jump t ju (stk p), (upd_task p (\<lambda>t. t\<lparr>t_state := RUNNING\<rparr>) ?k1)
     \<lparr>k_esp0 := e ju, k_heap := hp\<lparr>world := SwitchPageDirectory (t_pd t) (world hp)\<rparr>, k_current := Some p\<rparr>)" for ju
    using dispatch_ok[of ?k1 p t "nodes k \<union> stacks k - {?node}" "stk p"] hp(2) t h(1) by (simp, metis)
  let ?ju = "t_user t \<and> \<not> t_user_in_kernel t"
  let ?k2 = "(upd_task p (\<lambda>t. t\<lparr>t_state := RUNNING\<rparr>) ?k1)
     \<lparr>k_esp0 := e ?ju, k_heap := hp\<lparr>world := SwitchPageDirectory (t_pd t) (world hp)\<rparr>, k_current := Some p\<rparr>"
  have fuse: "upd_task cur (\<lambda>t. t\<lparr>t_user_in_kernel := False\<rparr>)
      ((upd_task cur (\<lambda>t. t\<lparr>t_state := COMPLETED\<rparr>) (k\<lparr>k_interrupts := False\<rparr>))\<lparr>k_queue := q @ [(n, p)]\<rparr>) = ?k0"
    by (simp add: upd_task_def option.map_comp comp_def)
  have "schedule None stk (upd_task cur (\<lambda>t. t\<lparr>t_state := COMPLETED\<rparr>) (k\<lparr>k_interrupts := False\<rparr>)) =
      Inr (Some (jump t ?ju (stk p)), ?k2)"
    unfolding schedule_def Let_def using q qm cur t h(1) d rm fuse
    by (cases "t_user_in_kernel t") simp_all
  then have "exit_this_task stk k = Inr (jump t ?ju (stk p), ?k2)" using cur(1) by (simp add: exit_this_task_def)
  moreover have "exited cur p k ?k2"
    using q h(1,2) owned_switch[OF hp(2)] unfolding exited_def by (auto simp: upd_task_def fun_upd_def)
  ultimately show ?thesis by blast
qed

lemma exited_inv:
  assumes inv: "sched_inv k" and q: "k_queue k = (n, p) # q" "q \<noteq> []"
    and cur: "k_current k = Some cur" "k_main k \<noteq> Some cur" and ex: "exited cur p k k'"
  shows "sched_inv k' \<and> queued k' = queued k - {cur}"
proof -
  note h = sched_inv_head[OF inv q cur(1)]
  have split: "q = butlast q @ [last q]" using q(2) by simp
  have d: "distinct (map fst (butlast q @ [last q] @ [(n, p)]))" "distinct (map snd (butlast q @ [last q] @ [(n, p)]))"
    using inv q split unfolding sched_inv_def by (metis append_assoc distinct_rotate map_append rotate1.simps(2) distinct1_rotate rotate1_map)+
  have ex: "k_queue k' = butlast q @ [(n, p)]" "k_current k' = Some p" "k_main k' = k_main k"
      "k_tasks k' x = (if x = p then map_option (\<lambda>t. t\<lparr>t_state := RUNNING\<rparr>) (k_tasks k p)
         else if x = cur then map_option (\<lambda>t. t\<lparr>t_state := COMPLETED, t_user_in_kernel := False\<rparr>) (k_tasks k cur) else k_tasks k x)"
      "owned (k_heap k') (nodes k \<union> stacks k - {fst (last q)})" for x
    using ex q by (auto simp: exited_def)
  have sq: "set q = insert (last q) (set (butlast q))" using arg_cong[OF split, of set] by simp
  have "queued k = insert cur (queued k')" "cur \<notin> queued k'"
    using q ex(1) h(2) d(2) by (auto simp: sq)
  then have sets: "queued k' = queued k - {cur}" by auto
  have "nodes k = insert (fst (last q)) (nodes k')" "fst (last q) \<notin> nodes k'"
    using q ex(1) d(1) by (auto simp: sq)
  then have nds: "nodes k' = nodes k - {fst (last q)}" by auto
  have st: "stacks k' \<subseteq> stacks k"
    by (rule stacks_mono) (auto simp: sets ex(3,4) option.map_comp comp_def)
  have "fst (last q) \<in> nodes k" using q h(5) by (auto intro: imageI)
  then have "fst (last q) \<notin> stacks k" using sched_invD(8)[OF inv] by blast
  then have "owned (k_heap k') (nodes k' \<union> stacks k')" using nds st by (intro owned_subset[OF ex(5)]) auto
  moreover have "\<exists>t. k_tasks k' x = Some t \<and> task_ok k' x t" if x: "x \<in> queued k'" for x
  proof -
    obtain t where t: "k_tasks k x = Some t" "task_ok k x t" using sched_invD(6)[OF inv, of x] x sets by blast
    then show ?thesis using h(1) cur x unfolding task_ok_def ex(2-4) sets by (cases "t_state t") auto
  qed
  moreover have "\<exists>m \<in> queued k'. k_main k' = Some m" using inv cur(2) sets ex(3) unfolding sched_inv_def by auto
  moreover have "nodes k' \<inter> stacks k' = {}" using inv nds st unfolding sched_inv_def by auto
  ultimately have "sched_inv k'" using d unfolding sched_inv_def by (simp add: ex(1,2))
  then show ?thesis using sets by blast
qed

end
