(* ===== verification/SchedulerProperties.thy ===== *)
theory SchedulerProperties
  imports SchedulerInvariant
begin

text \<open>
  What the scheduler guarantees: the states it passes through from \<open>InitScheduler\<close> on, round-robin
  order, the restoration of an interrupted context, and the first run of a new kernel task.
\<close>

section \<open>Creating a kernel task\<close>

lemma push_words_5:
  assumes "20 \<le> sp"
  shows "push_words sp [a, b, c, d, e] h = (sp - 20, h\<lparr>mem := wr32 (sp - 20) (unat e) (wr32 (sp - 16) (unat d)
    (wr32 (sp - 12) (unat c) (wr32 (sp - 8) (unat b) (wr32 (sp - 4) (unat a) (mem h)))))\<rparr>)"
  using assms by (simp add: push_words_def upd_mem_def)

lemma unat_add_u32: "unat (of_nat n + m :: u32) = n + unat m" if "n + unat m < 0x100000000"
proof -
  have "of_nat n + m = (of_nat (n + unat m) :: u32)" by simp
  then show ?thesis using that unat_of_nat_u32[of "n + unat m"] by simp
qed

lemma stack_words:
  fixes a b c d e :: u32
  assumes "\<And>x. sp \<le> x \<Longrightarrow> x < sp + 20 \<Longrightarrow> m x = wr32 sp (unat e) (wr32 (sp + 4) (unat d)
    (wr32 (sp + 8) (unat c) (wr32 (sp + 12) (unat b) (wr32 (sp + 16) (unat a) m0)))) x"
  shows "map (rd32 m) [sp, sp + 4, sp + 8, sp + 12, sp + 16] = map unat [e, d, c, b, a]"
proof -
  let ?m = "wr32 sp (unat e) (wr32 (sp + 4) (unat d)
    (wr32 (sp + 8) (unat c) (wr32 (sp + 12) (unat b) (wr32 (sp + 16) (unat a) m0))))"
  have eq: "rd32 m x = rd32 ?m x" if "sp \<le> x" "x + 4 \<le> sp + 20" for x
    using that assms unfolding rd32_def by auto
  have w: "unat x mod 0x100000000 = unat x" for x :: u32 using unat_lt_u32[of x] by simp
  show ?thesis by (simp add: eq rd32_wr32_other rd32_wr32_same w)
qed

text \<open>A kernel task's stack is a block of the heap; a later allocation does not touch its words.\<close>

lemma spawn_block:
  assumes own: "owned h P" and m: "kmalloc DEFAULT_THREAD_STACK_SIZE h = Inr (p, h1)"
  obtains bs where "alloc_inv 0x40000000 kheap_mapped h1 bs" "(p - 4, 2052) \<in> used_blocks (heap_start h1) bs"
    "heap_start h1 + 4 \<le> p" "p + 2048 \<le> 0x40000000" "getStackPointer h1 p = Inr (p + 2048)"
    "\<And>q. q \<in> P \<Longrightarrow> heap_start h1 + 4 \<le> q \<and> (\<exists>s. (q - 4, s) \<in> used_blocks (heap_start h1) bs)"
proof -
  have req: "request_ok DEFAULT_THREAD_STACK_SIZE 4" by (simp add: request_ok_4 DEFAULT_THREAD_STACK_SIZE_def)
  have rs: "real_size DEFAULT_THREAD_STACK_SIZE 4 = 2052" by (simp add: real_size_def DEFAULT_THREAD_STACK_SIZE_def)
  obtain bs where bs: "alloc_inv 0x40000000 kheap_mapped h bs"
      "\<And>q. q \<in> P \<Longrightarrow> heap_start h + 4 \<le> q \<and> (\<exists>s. (q - 4, s) \<in> used_blocks (heap_start h) bs)"
    using own unfolding owned_def by blast
  obtain bs1 where a1: "alloc_inv 0x40000000 kheap_mapped h1 bs1" "allocated 2052 4 h bs p h1 bs1"
    using kmalloc_block[OF bs(1) req m] unfolding rs .
  note d = allocatedD[OF a1(2)]
  have hv: "heap_inv h1 bs1" and u: "(p - 4, 2052) \<in> used_blocks (heap_start h1) bs1" using a1(1) d(5,8) by (simp_all add: alloc_inv_def)
  note b = block_addr[OF hv u]
  have p: "p - 4 + 4 = p" "heap_start h1 + 4 \<le> p" using d(1,8) by simp_all
  have "p + 2048 \<le> heap h1" using b(2) p by linarith
  then have le: "p + 2048 \<le> 0x40000000" using a1(1) by (simp add: alloc_inv_def)
  then have "NextChunk (mem h1) (FromPointer p) = p + 2048" using b p by (simp add: NextChunk_def wrap_def)
  moreover have "p + 2048 = p - 4 + 2052" using p by simp
  then have "(p + 2048) mod 4 = 0" using b(5) by presburger
  ultimately have "getStackPointer h1 p = Inr (p + 2048)" using p by (simp add: getStackPointer_def)
  with a1(1) u p(2) le show thesis by (rule that) (use bs(2) d(5,8) in auto)
qed

lemma spawn_stack:
  assumes own: "owned h P" and m: "kmalloc DEFAULT_THREAD_STACK_SIZE h = Inr (p, h1)"
    and h2: "h2 = h1\<lparr>mem := wr32 (p + 2028) (unat (e :: u32)) (wr32 (p + 2032) (unat (d :: u32))
      (wr32 (p + 2036) (unat (c :: u32)) (wr32 (p + 2040) (unat (b :: u32)) (wr32 (p + 2044) (unat (a :: u32)) (mem h1)))))\<rparr>"
    and q: "kmalloc 8 h2 = Inr (item, h3)"
  shows "owned h3 (insert item (insert p P)) \<and> item \<notin> insert p P \<and> p \<notin> P \<and>
    map (rd32 (mem h3)) [p + 2028, p + 2032, p + 2036, p + 2040, p + 2044] = map unat [e, d, c, b, a]"
proof -
  have req: "request_ok DEFAULT_THREAD_STACK_SIZE 4" "request_ok 8 4" by (simp_all add: request_ok_4 DEFAULT_THREAD_STACK_SIZE_def)
  obtain bs1 where b1: "alloc_inv 0x40000000 kheap_mapped h1 bs1" "(p - 4, 2052) \<in> used_blocks (heap_start h1) bs1"
    "heap_start h1 + 4 \<le> p" "\<And>q. q \<in> P \<Longrightarrow> heap_start h1 + 4 \<le> q \<and> (\<exists>s. (q - 4, s) \<in> used_blocks (heap_start h1) bs1)"
    using spawn_block[OF own m] by metis
  have "heap_inv h1 bs1" using b1(1) by (simp add: alloc_inv_def)
  then have "heap_inv h2 bs1" unfolding h2 by (rule heap_inv_payload[OF _ b1(2)]) (use b1(3) in \<open>auto simp: wr32_outside\<close>)
  then have a2: "alloc_inv 0x40000000 kheap_mapped h2 bs1" using b1(1) by (simp add: alloc_inv_def h2)
  have "owned h2 (insert p P)"
    unfolding owned_def using a2 b1(2-4) by (intro exI[of _ bs1]) (auto simp: h2)
  note own2 = owned_kmalloc[OF this req(2) q]
  obtain bs3 where a3: "alloc_inv 0x40000000 kheap_mapped h3 bs3" "allocated (real_size 8 4) 4 h2 bs1 item h3 bs3"
    using kmalloc_block[OF a2 req(2) q] .
  have same: "mem h3 x = mem h2 x" if "p + 2028 \<le> x" "x < p + 2028 + 20" for x
    using allocatedD(3)[OF a3(2)] b1(2,3) that unfolding preserves_def by (auto simp: h2)
  have "map (rd32 (mem h3)) [p + 2028, p + 2028 + 4, p + 2028 + 8, p + 2028 + 12, p + 2028 + 16] = map unat [e, d, c, b, a]"
    by (rule stack_words[where ?m0.0 = "mem h1"]) (simp add: same h2 add.commute)
  then show ?thesis using own2 owned_kmalloc[OF own req(1) m] by (simp add: add.commute)
qed

text \<open>The fields of a task that only its own run or suspension changes.\<close>

definition context_of :: "task \<Rightarrow> task_state \<times> task_regs \<times> bool \<times> bool \<times> nat" where
  "context_of t = (t_state t, t_regs t, t_user_in_kernel t, t_user t, t_stack t)"

definition new_task :: "kernel \<Rightarrow> bool \<Rightarrow> nat \<Rightarrow> nat \<Rightarrow> task" where
  "new_task k g parent p = \<lparr>t_id = k_next_tid k, t_state = READY,
     t_regs = zero_regs\<lparr>r_ds := ucast kKernelDataSegment, r_cs := ucast kKernelCodeSegment, r_esp := of_nat (p + 2028)\<rparr>,
     t_pd = KernelPD, t_user_in_kernel = g, t_parent = Some parent, t_children = [], t_user = False, t_stack = p, t_entry_offset = 0\<rparr>"

definition spawned :: "nat \<Rightarrow> u32 \<Rightarrow> u32 \<Rightarrow> u32 \<Rightarrow> kernel \<Rightarrow> kernel \<Rightarrow> bool" where
  "spawned this func arg exit_fn k k' \<longleftrightarrow>
     (\<exists>item p g parent. k_queue k' = (item, this) # k_queue k \<and> k_tasks k' this = Some (new_task k g parent p) \<and>
        p + 2048 \<le> 0x40000000 \<and> item \<notin> insert p (nodes k \<union> stacks k) \<and> p \<notin> nodes k \<union> stacks k \<and>
        owned (k_heap k') (insert item (insert p (nodes k \<union> stacks k))) \<and>
        map (rd32 (mem (k_heap k'))) [p + 2028, p + 2032, p + 2036, p + 2040, p + 2044] =
          map unat [func, kKernelCodeSegment, 0x202, exit_fn, arg]) \<and>
     k_current k' = k_current k \<and> k_main k' = k_main k \<and> k_interrupts k' = k_interrupts k \<and>
     (\<forall>x. x \<noteq> this \<longrightarrow> map_option context_of (k_tasks k' x) = map_option context_of (k_tasks k x))"

lemma KernelTask_construct_spawned:
  assumes own: "owned (k_heap k) (nodes k \<union> stacks k)" and par: "k_queue k \<noteq> []" "k_current k = Some parent" "parent \<noteq> this"
    and con: "KernelTask_construct this g func arg exit_fn k = Inr k'"
  shows "spawned this func arg exit_fn k k'"
proof -
  let ?t = "\<lparr>t_id = k_next_tid k, t_state = READY, t_regs = zero_regs, t_pd = KernelPD, t_user_in_kernel = g,
                t_parent = Some parent, t_children = [], t_user = False, t_stack = 0, t_entry_offset = 0\<rparr>"
  let ?k0 = "upd_task parent (\<lambda>p. p\<lparr>t_children := t_children p @ [this]\<rparr>)
             (k\<lparr>k_next_tid := k_next_tid k + 1, k_tasks := (k_tasks k)(this \<mapsto> ?t)\<rparr>)"
  have k0: "Task_construct this g KernelPD False k = Inr ?k0" using par by (simp add: Task_construct_def)
  obtain p h1 sb where p: "kmalloc DEFAULT_THREAD_STACK_SIZE (k_heap k) = Inr (p, h1)" "getStackPointer h1 p = Inr sb"
    using con k0 by (auto simp: KernelTask_construct_def bindE_Inr_iff)
  have sp: "getStackPointer h1 p = Inr (p + 2048)" and le: "p + 2048 \<le> 0x40000000" using spawn_block[OF own p(1)] by metis+
  let ?h2 = "h1\<lparr>mem := wr32 (p + 2028) (unat func) (wr32 (p + 2032) (unat kKernelCodeSegment)
      (wr32 (p + 2036) (unat (0x202 :: u32)) (wr32 (p + 2040) (unat exit_fn) (wr32 (p + 2044) (unat arg) (mem h1)))))\<rparr>"
  have pw: "push_words (p + 2048) [arg, exit_fn, 0x202, kKernelCodeSegment, func] h1 = (p + 2028, ?h2)"
    using push_words_5[of "p + 2048" arg exit_fn "0x202" kKernelCodeSegment func h1] by (simp only:) (simp add: add.commute)
  let ?k1 = "upd_task this (\<lambda>t. t\<lparr>t_stack := p,
      t_regs := (t_regs t)\<lparr>r_ds := ucast kKernelDataSegment, r_cs := ucast kKernelCodeSegment, r_esp := of_nat (p + 2028)\<rparr>\<rparr>)
      (?k0\<lparr>k_heap := ?h2\<rparr>)"
  have "AddToQueue this ?k1 = Inr k'"
    using con k0 p(1) sp pw by (simp add: KernelTask_construct_def Let_def del: of_nat_add)
  then obtain item h3 where q: "kmalloc 8 ?h2 = Inr (item, h3)" "k' = ?k1\<lparr>k_heap := h3, k_queue := (item, this) # k_queue k\<rparr>"
    by (auto simp: AddToQueue_def bindE_Inr_iff)
  note st = spawn_stack[OF own p(1) refl q(1)]
  have "k_tasks k' this = Some (new_task k g parent p)" using par(3) by (simp add: q(2) new_task_def del: of_nat_add)
  moreover have "map_option context_of (k_tasks k' x) = map_option context_of (k_tasks k x)" if "x \<noteq> this" for x
    using that by (simp add: q(2) option.map_comp comp_def context_of_def cong: option.map_cong)
  ultimately show ?thesis using st le q(2) unfolding spawned_def by (intro conjI exI[of _ item] exI[of _ p] exI[of _ g] exI[of _ parent]) simp_all
qed

lemma spawned_inv:
  assumes inv: "sched_inv k" and fresh: "k_tasks k this = None" and sp: "spawned this func arg exit_fn k k'"
  shows "sched_inv k'"
proof -
  obtain item p g parent where s: "k_queue k' = (item, this) # k_queue k" "k_tasks k' this = Some (new_task k g parent p)"
      "item \<notin> insert p (nodes k \<union> stacks k)" "p \<notin> nodes k \<union> stacks k" "owned (k_heap k') (insert item (insert p (nodes k \<union> stacks k)))"
      "k_current k' = k_current k" "k_main k' = k_main k"
    and ctx: "\<And>x. x \<noteq> this \<Longrightarrow> map_option context_of (k_tasks k' x) = map_option context_of (k_tasks k x)"
    using sp unfolding spawned_def by blast
  have nq: "this \<notin> queued k" using sched_invD(6)[OF inv, of this] fresh by auto
  have nd: "nodes k' = insert item (nodes k)" "queued k' = insert this (queued k)" by (simp_all add: s(1))
  have old: "\<exists>u. k_tasks k x = Some u \<and> context_of u = context_of t" if "x \<noteq> this" "k_tasks k' x = Some t" for x t
    using ctx[OF that(1)] that(2) by (cases "k_tasks k x") auto
  have st: "stacks k' \<subseteq> insert p (stacks k)"
  proof
    fix a assume "a \<in> stacks k'"
    then obtain x t where x: "a = t_stack t" "x \<in> queued k'" "k_tasks k' x = Some t" "Some x \<noteq> k_main k'" unfolding stacks_def by blast
    show "a \<in> insert p (stacks k)"
    proof (cases "x = this")
      case True
      then have "t = new_task k g parent p" using x(3) s(2) by simp
      then show ?thesis using x(1) by (simp add: new_task_def)
    next
      case False
      then obtain u where u: "k_tasks k x = Some u" "context_of u = context_of t" using old x(3) by blast
      then have "t_stack u = a" "x \<in> queued k" using x(1,2) nd(2) False by (auto simp: context_of_def)
      then show ?thesis using stacksI[of x k u] u(1) x(4) s(7) by auto
    qed
  qed
  have ok: "\<exists>t. k_tasks k' x = Some t \<and> task_ok k' x t" if x: "x \<in> queued k'" for x
  proof (cases "x = this")
    case True
    then have "k_current k \<noteq> Some x" "k_main k \<noteq> Some x" using sched_invD(1,2,5)[OF inv] nq by (auto intro: rev_image_eqI)
    then show ?thesis using True s(2,6) by (simp add: task_ok_def new_task_def)
  next
    case False
    then obtain u where u: "k_tasks k x = Some u" "task_ok k x u" using sched_invD(6)[OF inv, of x] x nd(2) by blast
    then obtain t where "k_tasks k' x = Some t" "context_of t = context_of u" using ctx[OF False] by (cases "k_tasks k' x") auto
    then show ?thesis using u(2) by (auto simp: task_ok_def context_of_def s(6,7))
  qed
  have "nodes k \<inter> stacks k = {}" using sched_invD(8)[OF inv] .
  then have "nodes k' \<inter> stacks k' = {}" using st s(3,4) unfolding nd(1) by blast
  moreover have "owned (k_heap k') (nodes k' \<union> stacks k')" by (rule owned_subset[OF s(5)]) (use st nd(1) in blast)
  moreover have "\<forall>x \<in> queued k'. \<exists>t. k_tasks k' x = Some t \<and> task_ok k' x t" using ok by blast
  moreover have "item \<notin> nodes k" using s(3) by blast
  ultimately show ?thesis
    using sched_invD(1-5)[OF inv] nq unfolding sched_inv_def by (simp add: s(1,6,7))
qed

section \<open>Steps of the scheduler\<close>

text \<open>
  What can happen to the scheduler: a timer interrupt with a frame the processor pushes for
  the running task, the exit of the running task, the creation of a kernel task. The second argument
  is the processor after a jump to a task. The check before the first run of a user task reads what
  the constructor of the task wrote (\<open>entry_ok\<close>).
\<close>

definition entries_ok :: "kernel \<Rightarrow> (nat \<Rightarrow> u32 \<Rightarrow> u32) \<Rightarrow> bool" where
  "entries_ok k stk \<longleftrightarrow> (\<forall>p t. k_tasks k p = Some t \<longrightarrow> entry_ok t (stk p))"

inductive sched_step :: "kernel \<Rightarrow> cpu option \<Rightarrow> kernel \<Rightarrow> bool" where
  tick: "k_current k = Some cur \<Longrightarrow> k_tasks k cur = Some t \<Longrightarrow> frame_ok t R \<Longrightarrow> entries_ok k stk \<Longrightarrow>
    schedule (Some R) stk (k\<lparr>k_interrupts := False\<rparr>) = Inr (c, k') \<Longrightarrow> sched_step k c k'"
| exit: "entries_ok k stk \<Longrightarrow> exit_this_task stk k = Inr (c, k') \<Longrightarrow> sched_step k (Some c) k'"
| spawn: "k_tasks k this = None \<Longrightarrow> KernelTask_construct this g func arg exit_fn k = Inr k' \<Longrightarrow> sched_step k None k'"

inductive sched_reachable :: "kernel \<Rightarrow> bool" where
  init: "owned (k_heap k) {} \<Longrightarrow> InitScheduler main g k = Inr k' \<Longrightarrow> sched_reachable k'"
| step: "sched_reachable k \<Longrightarrow> sched_step k c k' \<Longrightarrow> sched_reachable k'"

text \<open>What a step does to a task that is queued but not running.\<close>

definition waits :: "nat \<Rightarrow> kernel \<Rightarrow> cpu option \<Rightarrow> kernel \<Rightarrow> bool" where
  "waits A k c k' \<longleftrightarrow> (\<forall>t. A \<in> queued k \<longrightarrow> k_current k \<noteq> Some A \<longrightarrow> k_tasks k A = Some t \<longrightarrow>
     A \<in> queued k' \<and> (\<exists>t'. k_tasks k' A = Some t' \<and>
       (if k_current k' = Some A then \<exists>stk. c = Some (jump t (t_user t \<and> \<not> t_user_in_kernel t) stk)
        else context_of t' = context_of t)))"

lemma sched_inv_interrupts: "sched_inv (k\<lparr>k_interrupts := b\<rparr>) = sched_inv k"
  by (simp add: sched_inv_def stacks_def task_ok_def)

lemma schedule_single: "length (k_queue k) \<le> 1 \<Longrightarrow> schedule regs stk k = Inr (None, k)"
  by (auto simp: schedule_def split: list.splits)

lemma tick_effect:
  assumes inv: "sched_inv k" and cur: "k_current k = Some cur" "k_tasks k cur = Some t" "frame_ok t R"
    and e: "entries_ok k stk"
  shows "\<exists>c k'. schedule (Some R) stk (k\<lparr>k_interrupts := False\<rparr>) = Inr (c, k') \<and> sched_inv k' \<and> waits A k c k' \<and>
    k_queue k' = rotate1 (k_queue k) \<and> k_main k' = k_main k"
proof (cases "length (k_queue k) \<le> 1")
  case True
  then have "rotate1 (k_queue k) = k_queue k" by (cases "k_queue k") auto
  moreover have "waits A k None (k\<lparr>k_interrupts := False\<rparr>)"
    using sched_invD(1,2)[OF inv] True by (cases "k_queue k") (auto simp: waits_def)
  ultimately show ?thesis
    using True inv schedule_single[of "k\<lparr>k_interrupts := False\<rparr>" "Some R" stk] by (simp add: sched_inv_interrupts)
next
  case False
  then obtain n p q where q: "k_queue k = (n, p) # q" "q \<noteq> []" by (cases "k_queue k") force+
  note h = sched_inv_head[OF inv q cur(1)]
  obtain u where u: "k_tasks k p = Some u" using sched_invD(6)[OF inv h(4)] by blast
  let ?k = "k\<lparr>k_interrupts := False\<rparr>"
  obtain k' where k': "schedule (Some R) stk ?k = Inr (Some (jump u (t_user u \<and> \<not> t_user_in_kernel u) (stk p)), k')"
      "switched R cur p ?k k'"
    using schedule_tick[of ?k n p q cur t R u stk] inv q cur u e by (auto simp: sched_inv_interrupts entries_ok_def)
  have "sched_inv k'"
    using switched_inv[OF _ _ q(2) _ _ k'(2), of n] inv q cur by (simp add: sched_inv_interrupts frame_ok_def)
  moreover have "waits A k (Some (jump u (t_user u \<and> \<not> t_user_in_kernel u) (stk p))) k'"
    using k'(2) q u cur h(1) by (auto simp: waits_def switched_def)
  ultimately show ?thesis using k' q by (auto simp: switched_def)
qed

lemma exit_effect:
  assumes inv: "sched_inv k" and e: "entries_ok k stk" and ex: "exit_this_task stk k = Inr (c, k')"
  shows "sched_inv k' \<and> waits A k (Some c) k'"
proof -
  obtain cur where cur: "k_current k = Some cur" using sched_invD(2)[OF inv] by blast
  have "\<not> length (k_queue k) \<le> 1"
    using ex cur by (auto simp: exit_this_task_def schedule_single)
  then obtain n p q where q: "k_queue k = (n, p) # q" "q \<noteq> []" by (cases "k_queue k") force+
  note h = sched_inv_head[OF inv q cur]
  obtain u where u: "k_tasks k p = Some u" using sched_invD(6)[OF inv h(4)] by blast
  obtain m qs where qm: "q = m # qs" using q(2) by (cases q) auto
  have main: "k_main k \<noteq> Some cur"
    using ex cur q qm by (auto simp: exit_this_task_def schedule_def remove_current_def bindE_Inr_iff)
  have entry: "entry_ok u (stk p)" using e u by (simp add: entries_ok_def)
  obtain k1 where k1: "exit_this_task stk k = Inr (jump u (t_user u \<and> \<not> t_user_in_kernel u) (stk p), k1)" "exited cur p k k1"
    using exit_task[OF inv q cur main u, of stk] entry by blast
  then have c: "c = jump u (t_user u \<and> \<not> t_user_in_kernel u) (stk p)" "k1 = k'" using ex by simp_all
  note i = exited_inv[OF inv q cur main k1(2)]
  have "waits A k (Some c) k'"
    using k1(2) i u cur h(1) unfolding c by (auto simp: waits_def exited_def)
  with i c(2) show ?thesis by blast
qed

lemma exit_returns:
  assumes inv: "sched_inv k" and e: "entries_ok k stk" and cur: "k_current k = Some cur" and main: "k_main k \<noteq> Some cur"
  shows "\<exists>c k' p. exit_this_task stk k = Inr (c, k') \<and> sched_inv k' \<and> queued k' = queued k - {cur} \<and> exited cur p k k'"
proof -
  obtain n p q where q: "k_queue k = (n, p) # q" using sched_invD(1)[OF inv] by (cases "k_queue k") auto
  have "q \<noteq> []"
  proof
    assume "q = []"
    then show False using sched_invD(2,5)[OF inv] main cur q by simp
  qed
  note q = q this
  note h = sched_inv_head[OF inv q cur]
  obtain u where u: "k_tasks k p = Some u" using sched_invD(6)[OF inv h(4)] by blast
  have entry: "entry_ok u (stk p)" using e u by (simp add: entries_ok_def)
  obtain k' where k': "exit_this_task stk k = Inr (jump u (t_user u \<and> \<not> t_user_in_kernel u) (stk p), k')" "exited cur p k k'"
    using exit_task[OF inv q cur main u, of stk] entry by blast
  with exited_inv[OF inv q cur main k'(2)] show ?thesis by blast
qed

lemma sched_step_effect:
  assumes "sched_step k c k'" "sched_inv k"
  shows "sched_inv k' \<and> waits A k c k'"
  using assms
proof (induction rule: sched_step.induct)
  case (tick k cur t R stk c k')
  then show ?case using tick_effect[OF tick.prems tick.hyps(1-4), of A] by auto
next
  case (exit k stk c k')
  then show ?case using exit_effect by blast
next
  case (spawn k this g func arg exit_fn k')
  obtain parent where par: "k_current k = Some parent" "parent \<in> queued k" using sched_invD(1,2)[OF spawn.prems] by auto
  have ne: "x \<noteq> this" if "x \<in> queued k" for x using sched_invD(6)[OF spawn.prems that] spawn.hyps(1) by auto
  have sp: "spawned this func arg exit_fn k k'"
    using KernelTask_construct_spawned[OF sched_invD(7,1)[OF spawn.prems] par(1) ne[OF par(2)] spawn.hyps(2)] .
  have "waits A k None k'"
    unfolding waits_def
  proof (intro allI impI)
    fix t assume A: "A \<in> queued k" "k_current k \<noteq> Some A" "k_tasks k A = Some t"
    have "map_option context_of (k_tasks k' A) = map_option context_of (k_tasks k A)"
      using sp ne[OF A(1)] unfolding spawned_def by blast
    then obtain t' where "k_tasks k' A = Some t'" "context_of t' = context_of t" using A(3) by (cases "k_tasks k' A") auto
    then show "A \<in> queued k' \<and> (\<exists>t'. k_tasks k' A = Some t' \<and>
       (if k_current k' = Some A then \<exists>stk. None = Some (jump t (t_user t \<and> \<not> t_user_in_kernel t) stk)
        else context_of t' = context_of t))"
      using sp A(1,2) by (auto simp: spawned_def)
  qed
  with spawned_inv[OF spawn.prems spawn.hyps(1) sp] show ?case by blast
qed

lemma InitScheduler_inv:
  assumes own: "owned (k_heap k) {}" and i: "InitScheduler main g k = Inr k'"
  shows "sched_inv k' \<and> k_current k' = Some main \<and> k_main k' = Some main \<and> queued k' = {main}"
proof -
  have req: "request_ok 8 4" by (simp add: request_ok_4)
  obtain item h where m: "kmalloc 8 (k_heap k) = Inr (item, h)" and k': "k_queue k' = [(item, main)]" "k_current k' = Some main"
      "k_main k' = Some main" "k_heap k' = h" "\<exists>t. k_tasks k' main = Some t \<and> t_state t = RUNNING \<and> \<not> t_user t"
    using i by (auto simp: InitScheduler_def Let_def assertE_Inr_iff bindE_Inr_iff)
  have "stacks k' = {}" by (auto simp: stacks_def k')
  then show ?thesis
    using owned_kmalloc[OF own req m] k'(5) unfolding sched_inv_def task_ok_def by (auto simp: k'(1-4))
qed

lemma sched_reachable_sched_inv: "sched_reachable k \<Longrightarrow> sched_inv k"
  by (induction rule: sched_reachable.induct) (auto dest: InitScheduler_inv sched_step_effect)

section \<open>Examples\<close>

lemma kmalloc_room:
  assumes "alloc_inv 0x40000000 kheap_mapped h bs" "request_ok n 4"
    "first_fit (real_size n 4) 4 (heap_start h) bs = Some (c, bs')"
  shows "\<exists>h'. kmalloc n h = Inr (c + 4, h') \<and> alloc_inv 0x40000000 kheap_mapped h' bs' \<and> heap_start h' = heap_start h \<and> world h' = world h"
proof -
  have hv: "heap_inv h bs" using assms(1) by (simp add: alloc_inv_def)
  from Malloc_fits[OF hv assms(2), of c bs' ksbrk] assms(3) obtain h' where
    "Malloc_aligned ksbrk n 4 h = Inr (c + 4, h')" "heap_inv h' bs'" "heap h' = heap h" "world h' = world h" "heap_start h' = heap_start h"
    by (auto simp: allocated_def preserves_def)
  then show ?thesis using assms(1) by (simp add: alloc_inv_def kmalloc_def Malloc_def kMaxAlignment_def)
qed

lemma kmalloc_fits:
  assumes "alloc_inv 0x40000000 kheap_mapped h bs" "request_ok n 4"
    "first_fit (real_size n 4) 4 (heap_start h) bs = Some (c, bs')"
  obtains h' where "kmalloc n h = Inr (c + 4, h')" "alloc_inv 0x40000000 kheap_mapped h' bs'" "heap_start h' = heap_start h"
  using kmalloc_room[OF assms] by blast

definition kernel0 :: "kernel_heap \<Rightarrow> kernel" where
  "kernel0 h = \<lparr>k_tasks = Map.empty, k_queue = [], k_current = None, k_main = None, k_next_tid = 0, k_heap = h, k_esp0 = 0, k_interrupts = True\<rparr>"

text \<open>A timer interrupt in kernel code.\<close>

definition frame0 :: x86_regs where
  "frame0 = \<lparr>x_ds = 0x10, x_edi = 1, x_esi = 2, x_ebp = 3, x_esp = 0x2100000, x_ebx = 4, x_edx = 5, x_ecx = 6, x_eax = 7,
     x_int_no = IRQ0, x_err_code = 0, x_eip = 0x400100, x_cs = kKernelCodeSegment, x_eflags = 0x202, x_useresp = 0, x_ss = 0\<rparr>"

text \<open>The kernel after start-up with its main task (at 1) running and a kernel task (at 2) waiting.\<close>

lemma sched_example:
  obtains h k0 k1 where "owned h {}" "InitScheduler 1 (False, 0) (kernel0 h) = Inr k0" "k_tasks k0 2 = None"
    "KernelTask_construct 2 False 0x401000 7 0x402000 k0 = Inr k1" "k_tasks k1 1 \<noteq> None" "dom (k_tasks k1) = {1, 2}"
    "\<And>p t. k_tasks k1 p = Some t \<Longrightarrow> \<not> t_user t"
proof -
  obtain t where t: "InitializePaging 0x1FC00 boot0 = Inr t" by (rule boot0_up)
  obtain h where h: "alloc_inv 0x40000000 kheap_mapped h [(0x400000, False)]" "heap_start h = 0x2000000"
    using boot_InitializeKernelHeap[OF boot0_boot t, of "\<lparr>mem = \<lambda>_. 0, heap = 0, heap_used = 0, heap_start = 0, heap_end = 0, world = t\<rparr>"]
    by auto
  have req: "request_ok 8 4" "request_ok 2048 4" by (simp_all add: request_ok_4)
  have own: "owned h {}" using h(1) by (auto simp: owned_def)
  obtain h1 where h1: "kmalloc 8 h = Inr (0x2000004, h1)" "alloc_inv 0x40000000 kheap_mapped h1 [(12, True), (0x3FFFF4, False)]" "heap_start h1 = 0x2000000"
    by (rule kmalloc_fits[OF h(1) req(1), of "0x2000000" "[(12, True), (0x3FFFF4, False)]"]) (simp_all add: h(2) real_size_def fit_def place_def)
  obtain h2 where h2: "kmalloc 2048 h1 = Inr (0x2000010, h2)" "alloc_inv 0x40000000 kheap_mapped h2 [(12, True), (2052, True), (0x3FF7F0, False)]" "heap_start h2 = 0x2000000"
    by (rule kmalloc_fits[OF h1(2) req(2), of "0x200000C" "[(12, True), (2052, True), (0x3FF7F0, False)]"])
      (simp_all add: h1(3) real_size_def fit_def place_def)
  let ?m = "wr32 (0x2000010 + 2028) (unat (0x401000 :: u32)) (wr32 (0x2000010 + 2032) (unat kKernelCodeSegment)
      (wr32 (0x2000010 + 2036) (unat (0x202 :: u32)) (wr32 (0x2000010 + 2040) (unat (0x402000 :: u32)) (wr32 (0x2000010 + 2044) (unat (7 :: u32)) (mem h2)))))"
  have u: "(0x200000C, 2052) \<in> used_blocks (heap_start h2) [(12, True), (2052, True), (0x3FF7F0, False)]" by (simp add: h2(3))
  have "heap_inv (h2\<lparr>mem := ?m\<rparr>) [(12, True), (2052, True), (0x3FF7F0, False)]"
    by (rule heap_inv_payload[OF _ u]) (use h2(2) in \<open>auto simp: wr32_outside alloc_inv_def\<close>)
  then have a3: "alloc_inv 0x40000000 kheap_mapped (h2\<lparr>mem := ?m\<rparr>) [(12, True), (2052, True), (0x3FF7F0, False)]"
    using h2(2) by (simp add: alloc_inv_def)
  obtain h3 where h3: "kmalloc 8 (h2\<lparr>mem := ?m\<rparr>) = Inr (0x2000814, h3)"
    by (rule kmalloc_fits[OF a3 req(1), of "0x2000810"]) (simp_all add: h2(3) real_size_def fit_def place_def)
  obtain k0 t0 where k0: "InitScheduler 1 (False, 0) (kernel0 h) = Inr k0" "k_heap k0 = h1" "k_queue k0 = [(0x2000004, 1)]" "k_current k0 = Some 1"
      "k_tasks k0 = [1 \<mapsto> t0]" "\<not> t_user t0"
    using h1(1) by (auto simp: InitScheduler_def kernel0_def)
  have sp: "getStackPointer h2 0x2000010 = Inr (0x2000010 + 2048)"
    using spawn_block[of h1 "{}" "0x2000010" h2] h1(2) h2(1) by (auto simp: owned_def DEFAULT_THREAD_STACK_SIZE_def)
  have pw: "push_words (0x2000010 + 2048) [7, 0x402000, 0x202, kKernelCodeSegment, 0x401000] h2 = (0x2000010 + 2028, h2\<lparr>mem := ?m\<rparr>)"
    by (simp add: push_words_5)
  have "\<exists>k1. KernelTask_construct 2 False 0x401000 7 0x402000 k0 = Inr k1"
    using k0(2-6) h2(1) sp pw h3
    by (simp add: KernelTask_construct_def Task_construct_def AddToQueue_def DEFAULT_THREAD_STACK_SIZE_def upd_task_def)
  then obtain k1 where k1: "KernelTask_construct 2 False 0x401000 7 0x402000 k0 = Inr k1" by blast
  note inv = InitScheduler_inv[of "kernel0 h" 1 "(False, 0)" k0] own k0(1)
  then have "sched_inv k0" by (simp add: kernel0_def)
  then have "spawned 2 0x401000 7 0x402000 k0 k1"
    using KernelTask_construct_spawned[OF sched_invD(7), of k0 1 2 False] k0(3,4) k1 by auto
  then obtain g parent p where sp: "k_tasks k1 2 = Some (new_task k0 g parent p)"
    and ctx: "\<And>x. x \<noteq> 2 \<Longrightarrow> map_option context_of (k_tasks k1 x) = map_option context_of (k_tasks k0 x)"
    unfolding spawned_def by blast
  have one: "\<exists>t. k_tasks k1 1 = Some t \<and> \<not> t_user t" using ctx[of 1] k0(5,6) by (auto simp: context_of_def)
  have "k_tasks k1 x = None" if "x \<noteq> 1" "x \<noteq> 2" for x using ctx[OF that(2)] that(1) k0(5) by simp
  then have dom: "k_tasks k1 x = None \<or> x = 1 \<or> x = 2" for x by blast
  have "x \<in> dom (k_tasks k1) \<longleftrightarrow> x \<in> {1, 2}" for x using dom[of x] sp one by auto
  then have "dom (k_tasks k1) = {1, 2}" by blast
  moreover have "\<not> t_user t" if "k_tasks k1 x = Some t" for x t
    using that dom[of x] sp one by (auto simp: new_task_def)
  ultimately show thesis using that[OF own k0(1) _ k1] k0(5) one by auto
qed

section \<open>Properties\<close>



text \<open>A number of timer interrupts in a row.\<close>

inductive ticks :: "nat \<Rightarrow> kernel \<Rightarrow> kernel \<Rightarrow> bool" where
  none: "ticks 0 k k"
| more: "ticks n k k1 \<Longrightarrow> k_current k1 = Some cur \<Longrightarrow> k_tasks k1 cur = Some t \<Longrightarrow> frame_ok t R \<Longrightarrow> entries_ok k1 stk \<Longrightarrow>
    schedule (Some R) stk (k1\<lparr>k_interrupts := False\<rparr>) = Inr (c, k2) \<Longrightarrow> ticks (Suc n) k k2"

lemma ticks_rotate:
  assumes "ticks n k k'" "sched_inv k"
  shows "sched_inv k' \<and> k_queue k' = rotate n (k_queue k)"
  using assms
proof (induction rule: ticks.induct)
  case (more n k k1 cur t R stk c k2)
  then have k1: "sched_inv k1" "k_queue k1 = rotate n (k_queue k)" by blast+
  from tick_effect[OF k1(1) more.hyps(2-5)] more.hyps(6) k1(2) show ?case by (auto simp: rotate1_rotate_swap)
qed simp

lemma last_rotate: "i < length xs \<Longrightarrow> last (rotate (Suc i) xs) = xs ! i"
proof -
  assume i: "i < length xs"
  then have "Suc i + (length xs - 1) = i + length xs" by simp
  moreover have "xs \<noteq> []" using i by auto
  ultimately show ?thesis using i by (subst last_conv_nth) (simp_all add: nth_rotate del: rotate_Suc)
qed


lemma example_tick:
  assumes "sched_inv k" "\<And>p t. k_tasks k p = Some t \<Longrightarrow> \<not> t_user t"
  obtains cur t c k' where "k_current k = Some cur" "k_tasks k cur = Some t" "frame_ok t frame0" "entries_ok k (\<lambda>_ _. 0)"
    "schedule (Some frame0) (\<lambda>_ _. 0) (k\<lparr>k_interrupts := False\<rparr>) = Inr (c, k')"
proof -
  obtain cur t where c: "k_current k = Some cur" "k_tasks k cur = Some t"
    using sched_invD(1,2,6)[OF assms(1)] by (metis imageI last_in_set)
  have f: "frame_ok t frame0" "entries_ok k (\<lambda>_ _. 0)"
    using assms(2) c by (auto simp: frame_ok_def frame0_def entries_ok_def entry_ok_def)
  with tick_effect[OF assms(1) c f] c that show thesis by blast
qed

lemma waiting_example:
  obtains h k0 k1 where "sched_inv k0" "k_tasks k0 2 = None" "KernelTask_construct 2 False 0x401000 7 0x402000 k0 = Inr k1" "sched_inv k1"
    "spawned 2 0x401000 7 0x402000 k0 k1" "k_current k1 = Some 1" "length (k_queue k1) = 2" "snd (k_queue k1 ! 0) = 2" "snd (k_queue k1 ! 1) = 1"
    "\<And>p t. k_tasks k1 p = Some t \<Longrightarrow> \<not> t_user t" "owned h {}" "InitScheduler 1 (False, 0) (kernel0 h) = Inr k0"
proof (rule sched_example)
  fix h k0 k1
  assume e: "owned h {}" "InitScheduler 1 (False, 0) (kernel0 h) = Inr k0" "k_tasks k0 2 = None"
    "KernelTask_construct 2 False 0x401000 7 0x402000 k0 = Inr k1" "\<And>p t. k_tasks k1 p = Some t \<Longrightarrow> \<not> t_user t"
  have k0: "sched_inv k0" "k_current k0 = Some 1" "queued k0 = {1}" using InitScheduler_inv[OF _ e(2)] e(1) by (simp_all add: kernel0_def)
  have sp: "spawned 2 0x401000 7 0x402000 k0 k1"
    using KernelTask_construct_spawned[OF sched_invD(7,1)[OF k0(1)] k0(2) _ e(4)] by simp
  have "card (queued k0) = length (k_queue k0)" using distinct_card[OF sched_invD(4)[OF k0(1)]] by simp
  then have "length (k_queue k0) = 1" using k0(3) by simp
  moreover have "snd (k_queue k0 ! 0) = 1" using k0(3) sched_invD(1)[OF k0(1)] by (metis imageI length_greater_0_conv nth_mem singletonD)
  ultimately show thesis
    using that[OF k0(1) e(3,4) spawned_inv[OF k0(1) e(3) sp] sp _ _ _ _ e(5) e(1,2)] sp k0(2) by (auto simp: spawned_def)
qed


text \<open>Steps during which task \<open>A\<close> does not run.\<close>

inductive away :: "nat \<Rightarrow> kernel \<Rightarrow> kernel \<Rightarrow> bool" for A where
  start: "away A k k"
| step: "away A k k1 \<Longrightarrow> sched_step k1 c k2 \<Longrightarrow> k_current k2 \<noteq> Some A \<Longrightarrow> away A k k2"

lemma away_waits:
  assumes "away A k k'" "sched_inv k" "A \<in> queued k" "k_current k \<noteq> Some A" "k_tasks k A = Some t"
  shows "sched_inv k' \<and> A \<in> queued k' \<and> k_current k' \<noteq> Some A \<and> (\<exists>t'. k_tasks k' A = Some t' \<and> context_of t' = context_of t)"
  using assms
proof (induction rule: away.induct)
  case (step k k1 c k2)
  then obtain t1 where k1: "sched_inv k1" "A \<in> queued k1" "k_current k1 \<noteq> Some A" "k_tasks k1 A = Some t1" "context_of t1 = context_of t"
    by blast
  from sched_step_effect[OF step.hyps(2) k1(1), of A] k1 step.hyps(3) show ?case by (auto simp: waits_def)
qed auto

text \<open>The processor as the interrupt found it.\<close>

definition interrupted :: "x86_regs \<Rightarrow> cpu" where
  "interrupted R = \<lparr>c_regs = saved_regs (if from_user R then x_useresp R else x_esp R + 20) R,
     c_ss = (if from_user R then Some (x_ss R) else None)\<rparr>"

lemma jump_suspended:
  assumes "frame_ok t R" "t_state t = RUNNING"
  shows "jump (suspended R t) (t_user t \<and> \<not> (t_user t \<and> \<not> from_user R)) stk = interrupted R"
proof -
  have "t_regs (suspended R t) = saved_regs (if from_user R then x_useresp R else x_esp R + 20) R" by (simp add: suspended_def)
  then show ?thesis
    using assms unfolding frame_ok_def from_user_def
    by (auto simp: jump_def switch_kernel_task_run_def switch_user_task_run_def saved_regs_def interrupted_def segment_defs
        from_user_def split: if_splits)
qed

lemma jump_cong:
  assumes "context_of t = context_of u"
  shows "jump t (t_user t \<and> \<not> t_user_in_kernel t) stk = jump u (t_user u \<and> \<not> t_user_in_kernel u) stk"
  using assms by (simp add: context_of_def jump_def)



text \<open>
  C14. The first run of a kernel task: after the constructor, the next timer interrupt jumps to the task's
  function in kernel mode with interrupts enabled, on a stack whose top two words are the address of
  \<open>exit_this_task\<close>, to which the function returns, and the argument.
\<close>

theorem KernelTask_first_run:
  assumes "sched_inv k" "k_tasks k this = None" "KernelTask_construct this g func arg exit_fn k = Inr k1"
    and "k_current k1 = Some cur" "k_tasks k1 cur = Some t" "frame_ok t R" "entries_ok k1 stk"
    and "\<And>a. stk this a = of_nat (rd32 (mem (k_heap k1)) (unat a))"
  shows "\<exists>c k2. schedule (Some R) stk (k1\<lparr>k_interrupts := False\<rparr>) = Inr (Some c, k2) \<and> k_current k2 = Some this \<and>
    r_eip (c_regs c) = func \<and> r_cs (c_regs c) = 0x08 \<and> r_eflags (c_regs c) = 0x202 \<and> r_ds (c_regs c) = 0x10 \<and> c_ss c = None \<and>
    rd32 (mem (k_heap k2)) (unat (r_esp (c_regs c))) = unat exit_fn \<and>
    rd32 (mem (k_heap k2)) (unat (r_esp (c_regs c) + 4)) = unat arg"
proof -
  obtain parent where par: "k_current k = Some parent" "parent \<in> queued k" using sched_invD(1,2)[OF assms(1)] by auto
  have ne: "x \<noteq> this" if "x \<in> queued k" for x using sched_invD(6)[OF assms(1) that] assms(2) by auto
  have sp: "spawned this func arg exit_fn k k1"
    by (rule KernelTask_construct_spawned[OF sched_invD(7,1)[OF assms(1)] par(1) ne[OF par(2)] assms(3)])
  note inv = spawned_inv[OF assms(1,2) sp]
  obtain item p g parent where s: "k_queue k1 = (item, this) # k_queue k" "k_tasks k1 this = Some (new_task k g parent p)" "p + 2048 \<le> 0x40000000"
      "map (rd32 (mem (k_heap k1))) [p + 2028, p + 2032, p + 2036, p + 2040, p + 2044] = map unat [func, kKernelCodeSegment, 0x202, exit_fn, arg]"
    using sp unfolding spawned_def by blast
  let ?t = "new_task k g parent p" and ?k = "k1\<lparr>k_interrupts := False\<rparr>"
  obtain k2 where k2: "schedule (Some R) stk ?k = Inr (Some (jump ?t False (stk this)), k2)" "switched R cur this ?k k2"
    using schedule_tick[of ?k item this "k_queue k" cur t R ?t stk] inv s(1,2) assms(4-7) sched_invD(1)[OF assms(1)]
    by (auto simp: sched_inv_interrupts entries_ok_def new_task_def)
  have u: "unat (of_nat p + w :: u32) = p + unat w" if "unat w < 0x10000" for w :: u32 using that s(3) by (intro unat_add_u32) simp
  have w: "stk this (of_nat p + 2028) = func" "stk this (of_nat p + 2032) = kKernelCodeSegment" "stk this (of_nat p + 2036) = 0x202"
    using s(4) by (simp_all add: assms(8) u)
  have esp: "r_esp (t_regs ?t) = of_nat p + 2028" by (simp add: new_task_def)
  have "jump ?t False (stk this) = \<lparr>c_regs = (t_regs ?t)\<lparr>r_eip := func, r_cs := 8, r_eflags := 0x202, r_esp := of_nat p + 2040\<rparr>, c_ss = None\<rparr>"
    using w by (simp add: jump_def esp switch_first_kernel_task_run_def segment_defs add.assoc) (simp add: new_task_def)
  moreover have "mem (k_heap k2) = mem (k_heap k1)" using k2(2) by (auto simp: switched_def)
  ultimately show ?thesis
    using k2 s(4) by (auto simp: u add.assoc new_task_def segment_defs switched_def)
qed

theorem KernelTask_first_run_witness:
  "\<exists>k k1 stk c k2. KernelTask_construct 2 False 0x401000 7 0x402000 k = Inr k1 \<and>
     schedule (Some frame0) stk (k1\<lparr>k_interrupts := False\<rparr>) = Inr (Some c, k2) \<and> r_eip (c_regs c) = 0x401000 \<and>
     rd32 (mem (k_heap k2)) (unat (r_esp (c_regs c))) = 0x402000 \<and> rd32 (mem (k_heap k2)) (unat (r_esp (c_regs c) + 4)) = 7"
proof (rule waiting_example)
  fix k0 k1 assume k: "sched_inv k0" "k_tasks k0 2 = None" "KernelTask_construct 2 False 0x401000 7 0x402000 k0 = Inr k1" "sched_inv k1"
    "\<And>p t. k_tasks k1 p = Some t \<Longrightarrow> \<not> t_user t"
  obtain cur t where t: "k_current k1 = Some cur" "k_tasks k1 cur = Some t" "frame_ok t frame0"
    by (rule example_tick[OF k(4,5)])
  let ?stk = "\<lambda>_ a. of_nat (rd32 (mem (k_heap k1)) (unat a)) :: u32"
  have "entries_ok k1 ?stk" using k(5) by (auto simp: entries_ok_def entry_ok_def)
  from KernelTask_first_run[OF k(1-3) t this refl] k(3) show ?thesis by fastforce
qed

end
