(* ===== verification/Print.thy ===== *)
theory Print
  imports Prelude
begin

text \<open>
  \<^verbatim>\<open>utils/print.cpp\<close>, \<^verbatim>\<open>utils/include/print.h\<close> and \<^verbatim>\<open>libc/printf.cpp\<close>: formatting of numbers
  and of format strings. A function that prints through a \<open>PutFunc\<close> is the string of characters
  it puts; one that can stop half way returns that string with the error that stopped it.
\<close>

unbundle bit_operations_syntax

section \<open>Numbers\<close>

definition PrintNibble :: "nat \<Rightarrow> string" where
  "PrintNibble val = (if val < 10 then [char_of (48 + val)] else [char_of (97 + val - 10)])"

definition PrintHex8 :: "u8 \<Rightarrow> string" where
  "PrintHex8 val = PrintNibble (unat (drop_bit 4 val)) @ PrintNibble (unat (val AND 0xF))"

definition PrintHex16 :: "u16 \<Rightarrow> string" where
  "PrintHex16 val = PrintHex8 (ucast (drop_bit 8 val)) @ PrintHex8 (ucast val)"

definition PrintHex32 :: "u32 \<Rightarrow> string" where
  "PrintHex32 val = PrintHex16 (ucast (drop_bit 16 val)) @ PrintHex16 (ucast val)"

definition PrintHex64 :: "u64 \<Rightarrow> string" where
  "PrintHex64 val = PrintHex32 (ucast (drop_bit 32 val)) @ PrintHex32 (ucast val)"

text \<open>
  The loop of \<open>PrintDecimalImpl\<close>: \<open>idx\<close> is the position of \<open>buffer_ptr\<close> in the buffer and \<open>buffer\<close>
  the digits written so far; writing below the buffer is undefined.
\<close>

fun PrintDecimal_loop :: "nat \<Rightarrow> string \<Rightarrow> nat \<Rightarrow> string result" where
  "PrintDecimal_loop 0 buffer val = Inl (Undefined ''write before the buffer'')"
| "PrintDecimal_loop (Suc idx) buffer val =
     (let buffer = char_of (val mod 10 + 48) # buffer;
          val = val div 10 in
      if val \<noteq> 0 then PrintDecimal_loop idx buffer val else Inr buffer)"

definition PrintDecimal_u32 :: "u32 \<Rightarrow> string result" where
  "PrintDecimal_u32 val = PrintDecimal_loop 10 [] (unat val)"

definition PrintDecimal_u64 :: "u64 \<Rightarrow> string result" where
  "PrintDecimal_u64 val = PrintDecimal_loop 20 [] (unat val)"

definition PrintDecimal_i32 :: "u32 \<Rightarrow> string result" where
  "PrintDecimal_i32 val =
     (if 0 \<le> sint val then PrintDecimal_u32 val
      else if sint val = - 2147483648 then Inr ''-2147483648''
      else bindE (PrintDecimal_u32 (- val)) (\<lambda>s. Inr (CHR ''-'' # s)))"

section \<open>Formatted printing\<close>

text \<open>
  The types \<open>PrintFormatter\<close> is specialised for. Smaller integers are promoted to 32 bits by
  the call of \<open>PrintDecimal\<close>.
\<close>

datatype print_arg =
    ArgChar char
  | ArgU8 u8 | ArgU16 u16 | ArgU32 u32 | ArgU64 u64
  | ArgI8 u8 | ArgI16 u16 | ArgI32 u32
  | ArgHex8 u8 | ArgHex16 u16 | ArgHex32 u32 | ArgHex64 u64
  | ArgStr string | ArgPtr u32 | ArgNullptr | ArgBool bool

fun PrintFormatter :: "print_arg \<Rightarrow> string result" where
  "PrintFormatter (ArgChar c) = Inr [c]"
| "PrintFormatter (ArgU8 v) = PrintDecimal_u32 (ucast v)"
| "PrintFormatter (ArgU16 v) = PrintDecimal_u32 (ucast v)"
| "PrintFormatter (ArgU32 v) = PrintDecimal_u32 v"
| "PrintFormatter (ArgU64 v) = PrintDecimal_u64 v"
| "PrintFormatter (ArgI8 v) = PrintDecimal_i32 (scast v)"
| "PrintFormatter (ArgI16 v) = PrintDecimal_i32 (scast v)"
| "PrintFormatter (ArgI32 v) = PrintDecimal_i32 v"
| "PrintFormatter (ArgHex8 v) = Inr (''0x'' @ PrintHex8 v)"
| "PrintFormatter (ArgHex16 v) = Inr (''0x'' @ PrintHex16 v)"
| "PrintFormatter (ArgHex32 v) = Inr (''0x'' @ PrintHex32 v)"
| "PrintFormatter (ArgHex64 v) = Inr (''0x'' @ PrintHex64 v)"
| "PrintFormatter (ArgStr s) = Inr s"
| "PrintFormatter (ArgPtr p) = Inr (''0x'' @ PrintHex32 p)"
| "PrintFormatter ArgNullptr = Inr ''<nullptr>''"
| "PrintFormatter (ArgBool b) = Inr (if b then ''true'' else ''false'')"

type_synonym printed = "string \<times> error option"

definition putP :: "string \<Rightarrow> printed \<Rightarrow> printed" where
  "putP s r = (s @ fst r, snd r)"

definition formatP :: "print_arg \<Rightarrow> printed \<Rightarrow> printed" where
  "formatP a r = (case PrintFormatter a of Inl e \<Rightarrow> ([], Some e) | Inr s \<Rightarrow> putP s r)"

text \<open>
  The three overloads: no argument left prints the rest of the string, the last argument is
  used for every placeholder that remains, an earlier argument for one placeholder.
\<close>

fun Print :: "string \<Rightarrow> print_arg list \<Rightarrow> printed" where
  "Print data [] = (data, None)"
| "Print [] (val # rest) = ([], None)"
| "Print (c # data) (val # rest) =
     (if c = CHR ''{''
      then formatP val
        (case data of
           [] \<Rightarrow> ([], Some Trap)
         | d # data' \<Rightarrow>
             if d \<noteq> CHR ''}'' then ([], Some Trap)
             else if rest = [] then Print data' [val] else Print data' rest)
      else putP [c] (Print data (val # rest)))"

section \<open>printf\<close>

text \<open>The variadic arguments as the caller passes them; reading one at another type is undefined.\<close>

datatype va_val = VInt u32 | VStr string | VPtr u32

fun printf :: "string \<Rightarrow> va_val list \<Rightarrow> printed" where
  "printf [] ap = ([], None)"
| "printf (c # fmt) ap =
     (if c \<noteq> CHR ''%'' then putP [c] (printf fmt ap)
      else case fmt of
        [] \<Rightarrow> ([], Some Trap)
      | d # fmt' \<Rightarrow>
          if d = CHR ''c'' then
            (case ap of VInt i # ap \<Rightarrow> putP [char_of (unat i mod 256)] (printf fmt' ap)
             | _ \<Rightarrow> ([], Some (Undefined ''va_arg'')))
          else if d = CHR ''d'' then
            (case ap of VInt i # ap \<Rightarrow> formatP (ArgI32 i) (printf fmt' ap)
             | _ \<Rightarrow> ([], Some (Undefined ''va_arg'')))
          else if d = CHR ''u'' then
            (case ap of VInt i # ap \<Rightarrow> formatP (ArgU32 i) (printf fmt' ap)
             | _ \<Rightarrow> ([], Some (Undefined ''va_arg'')))
          else if d = CHR ''s'' then
            (case ap of VStr s # ap \<Rightarrow> putP s (printf fmt' ap)
             | _ \<Rightarrow> ([], Some (Undefined ''va_arg'')))
          else if d = CHR ''p'' then
            (case ap of VPtr p # ap \<Rightarrow> formatP (ArgPtr p) (printf fmt' ap)
             | _ \<Rightarrow> ([], Some (Undefined ''va_arg'')))
          else if d = CHR ''x'' then
            (case ap of VInt u # ap \<Rightarrow> formatP (ArgHex32 u) (printf fmt' ap)
             | _ \<Rightarrow> ([], Some (Undefined ''va_arg'')))
          else ([], Some Trap))"

section \<open>Reading numbers back\<close>

definition digit_of :: "char \<Rightarrow> nat" where
  "digit_of c = (let n = of_char c in if n < 58 then n - 48 else n - 87)"

fun value_of :: "nat \<Rightarrow> string \<Rightarrow> nat" where
  "value_of base [] = 0"
| "value_of base (c # s) = digit_of c * base ^ length s + value_of base s"

lemma value_of_append: "value_of base (s @ t) = value_of base s * base ^ length t + value_of base t"
  by (induction s) (simp_all add: power_add algebra_simps)

lemma digit_of_decimal: "n < 10 \<Longrightarrow> digit_of (char_of (n + 48)) = n"
  by (simp add: digit_of_def Let_def)

lemma PrintDecimal_loop_ok:
  assumes "val < 10 ^ idx" "0 < idx"
  shows "\<exists>s. PrintDecimal_loop idx buffer val = Inr (s @ buffer) \<and> value_of 10 s = val \<and> length s \<le> idx \<and>
    0 < length s \<and> (val \<noteq> 0 \<longrightarrow> 10 ^ (length s - 1) \<le> val)"
  using assms
proof (induction idx buffer val rule: PrintDecimal_loop.induct)
  case (1 buffer val)
  then show ?case by simp
next
  case (2 idx buffer val)
  let ?c = "char_of (val mod 10 + 48)"
  show ?case
  proof (cases "val div 10 = 0")
    case True
    then show ?thesis
      using digit_of_decimal[of "val mod 10"] by (intro exI[of _ "[?c]"]) (auto simp: div_eq_0_iff)
  next
    case False
    have lt: "val div 10 < 10 ^ idx" using "2.prems"(1) by (simp add: div_less_iff_less_mult mult.commute)
    moreover have "0 < idx" using lt False by (cases idx) auto
    ultimately obtain s where s: "PrintDecimal_loop idx (?c # buffer) (val div 10) = Inr (s @ ?c # buffer)"
        "value_of 10 s = val div 10" "length s \<le> idx" "0 < length s" "10 ^ (length s - 1) \<le> val div 10"
      using "2.IH"[OF refl refl False] False by auto
    have "10 ^ length s \<le> val"
    proof -
      have "10 ^ length s = 10 * (10 :: nat) ^ (length s - 1)" using s(4) by (cases "length s") auto
      also have "\<dots> \<le> 10 * (val div 10)" using s(5) by simp
      also have "\<dots> \<le> val" by simp
      finally show ?thesis .
    qed
    then show ?thesis
      using s False digit_of_decimal[of "val mod 10"]
      by (intro exI[of _ "s @ [?c]"]) (simp add: value_of_append)
  qed
qed

text \<open>
  C15. Decimal printing of unsigned integers never writes outside its buffer (10 characters for
  32 bits, 20 for 64), and the digits read back as the number, with no leading zero.
\<close>

theorem PrintDecimal_roundtrip:
  "(\<exists>s. PrintDecimal_u32 v = Inr s \<and> value_of 10 s = unat v \<and> length s \<le> 10 \<and> (v = 0 \<or> 10 ^ (length s - 1) \<le> unat v)) \<and>
   (\<exists>s. PrintDecimal_u64 w = Inr s \<and> value_of 10 s = unat w \<and> length s \<le> 20 \<and> (w = 0 \<or> 10 ^ (length s - 1) \<le> unat w))"
proof -
  have "unat v < 10 ^ 10" using unat_lt_u32[of v] by simp
  moreover have "unat w < 10 ^ 20"
  proof -
    have "unat w < 2 ^ LENGTH(64)" by (rule unsigned_less)
    then show ?thesis by simp
  qed
  ultimately show ?thesis
    using PrintDecimal_loop_ok[of "unat v" 10 "[]"] PrintDecimal_loop_ok[of "unat w" 20 "[]"]
    by (auto simp: PrintDecimal_u32_def PrintDecimal_u64_def unsigned_eq_0_iff)
qed

text \<open>A signed number: an optional minus and digits.\<close>

fun signed_value :: "string \<Rightarrow> int" where
  "signed_value [] = 0"
| "signed_value (c # s) = (if c = CHR ''-'' then - int (value_of 10 s) else int (value_of 10 (c # s)))"

lemma digit_chars: "PrintDecimal_loop idx buffer val = Inr s \<Longrightarrow> CHR ''-'' \<notin> set buffer \<Longrightarrow> CHR ''-'' \<notin> set s"
proof (induction idx buffer val arbitrary: s rule: PrintDecimal_loop.induct)
  case (2 idx buffer val)
  have "char_of (val mod 10 + 48) \<noteq> CHR ''-''"
  proof
    assume "char_of (val mod 10 + 48) = CHR ''-''"
    then have "(of_char (char_of (val mod 10 + 48) :: char) :: nat) = of_char (CHR ''-'')" by simp
    moreover have "val mod 10 < 10" by simp
    ultimately show False by simp
  qed
  with 2 show ?case by (auto simp: Let_def split: if_splits)
qed simp

lemma PrintDecimal_u32_ok:
  obtains s where "PrintDecimal_u32 v = Inr s" "value_of 10 s = unat v" "CHR ''-'' \<notin> set s" "s \<noteq> []"
proof -
  have "unat v < 10 ^ 10" using unat_lt_u32[of v] by simp
  then obtain s where s: "PrintDecimal_loop 10 [] (unat v) = Inr s" "value_of 10 s = unat v" "s \<noteq> []"
    using PrintDecimal_loop_ok[of "unat v" 10 "[]"] by auto
  with digit_chars[OF s(1)] that show thesis by (simp add: PrintDecimal_u32_def)
qed

lemma signed_value_plain: "CHR ''-'' \<notin> set s \<Longrightarrow> signed_value s = int (value_of 10 s)"
  by (cases s) auto

lemma uint_bounded_u32: "0 \<le> uint (v :: u32)" "uint v < 4294967296"
  using uint_lt2p[of v] by simp_all

lemma sint_u32: "sint (v :: u32) = (if uint v < 2147483648 then uint v else uint v - 4294967296)"
proof -
  have s: "sint v = (uint v + 2147483648) mod 4294967296 - 2147483648"
    by (simp add: sint_uint signed_take_bit_eq_take_bit_shift take_bit_eq_mod)
  show ?thesis
  proof (cases "uint v < 2147483648")
    case True
    then show ?thesis using s uint_bounded_u32[of v] by simp
  next
    case False
    have "uint v + 2147483648 = (uint v - 2147483648) + 4294967296" by simp
    then have "(uint v + 2147483648) mod 4294967296 = (uint v - 2147483648) mod 4294967296"
      by (metis mod_add_self2)
    then show ?thesis using s False uint_bounded_u32[of v] by simp
  qed
qed

lemma unat_neg_sint:
  fixes v :: u32
  assumes "sint v < 0" "sint v \<noteq> - 2147483648"
  shows "int (unat (- v)) = - sint v"
  using assms uint_word_ariths(4)[of v] uint_bounded_u32[of v]
  by (simp add: sint_u32 zmod_zminus1_eq_if split: if_splits)

text \<open>
  Printing a signed 32-bit integer always succeeds and reads back as its value, also for
  the most negative one, which has no negation in 32 bits.
\<close>

theorem PrintDecimal_i32_roundtrip:
  "\<exists>s. PrintDecimal_i32 v = Inr s \<and> signed_value s = sint v"
proof -
  consider "0 \<le> sint v" | "sint v = - 2147483648" | "sint v < 0" "sint v \<noteq> - 2147483648" by linarith
  then show ?thesis
  proof cases
    case 1
    obtain s where s: "PrintDecimal_u32 v = Inr s" "value_of 10 s = unat v" "CHR ''-'' \<notin> set s"
      by (rule PrintDecimal_u32_ok)
    have "int (unat v) = sint v" using 1 uint_bounded_u32[of v] by (simp add: sint_u32 split: if_splits)
    moreover have "PrintDecimal_i32 v = PrintDecimal_u32 v" using 1 by (simp add: PrintDecimal_i32_def)
    ultimately show ?thesis using s by (intro exI[of _ s]) (simp add: signed_value_plain)
  next
    case 2
    then show ?thesis by (simp add: PrintDecimal_i32_def digit_of_def)
  next
    case 3
    obtain s where s: "PrintDecimal_u32 (- v) = Inr s" "value_of 10 s = unat (- v)"
      by (rule PrintDecimal_u32_ok)
    with 3 unat_neg_sint[OF 3] show ?thesis by (simp add: PrintDecimal_i32_def)
  qed
qed

section \<open>Hexadecimal\<close>

lemma PrintNibble_ok: "n < 16 \<Longrightarrow> value_of 16 (PrintNibble n) = n \<and> length (PrintNibble n) = 1"
  by (simp add: PrintNibble_def digit_of_def Let_def)

lemma unat_and_15: "unat (v AND 0xF :: u8) = unat v mod 16"
proof -
  have e: "v AND 0xF = take_bit 4 v" by (simp add: take_bit_eq_mask mask_eq_exp_minus_1)
  show ?thesis unfolding e unsigned_take_bit_eq by (simp add: take_bit_eq_mod)
qed

lemma unat_hi: "unat (drop_bit n w) = unat w div 2 ^ n" for w :: "'a::len word"
  by (simp only: unat_drop_bit_eq) (simp add: drop_bit_eq_div)

lemma unat_lo: "unat (ucast w :: 'b::len word) = unat w mod 2 ^ LENGTH('b)" for w :: "'a::len word"
  by (simp add: unsigned_ucast_eq take_bit_eq_mod)

lemma unat_bound: "unat w < 2 ^ LENGTH('a)" for w :: "'a::len word"
  by (rule unsigned_less)

lemma PrintHex8_ok: "value_of 16 (PrintHex8 v) = unat v \<and> length (PrintHex8 v) = 2"
proof -
  have "unat v div 16 < 16" using unat_bound[of v] by simp
  then show ?thesis
    using PrintNibble_ok[of "unat v div 16"] PrintNibble_ok[of "unat v mod 16"]
    by (simp add: PrintHex8_def value_of_append unat_hi unat_and_15)
qed

lemma PrintHex16_ok: "value_of 16 (PrintHex16 v) = unat v \<and> length (PrintHex16 v) = 4"
proof -
  have "unat v div 256 mod 256 = unat v div 256" using unat_bound[of v] by simp
  then show ?thesis
    using PrintHex8_ok[of "ucast (drop_bit 8 v)"] PrintHex8_ok[of "ucast v"]
    by (simp add: PrintHex16_def value_of_append unat_hi unat_lo)
qed

lemma PrintHex32_ok: "value_of 16 (PrintHex32 v) = unat v \<and> length (PrintHex32 v) = 8"
proof -
  have "unat v div 65536 mod 65536 = unat v div 65536" using unat_bound[of v] by simp
  then show ?thesis
    using PrintHex16_ok[of "ucast (drop_bit 16 v)"] PrintHex16_ok[of "ucast v"]
    by (simp add: PrintHex32_def value_of_append unat_hi unat_lo)
qed

lemma PrintHex64_ok: "value_of 16 (PrintHex64 v) = unat v \<and> length (PrintHex64 v) = 16"
proof -
  have "unat v div 4294967296 mod 4294967296 = unat v div 4294967296" using unat_bound[of v] by simp
  then show ?thesis
    using PrintHex32_ok[of "ucast (drop_bit 32 v)"] PrintHex32_ok[of "ucast v"]
    by (simp add: PrintHex64_def value_of_append unat_hi unat_lo)
qed

text \<open>
  The hexadecimal printers print the value in the full width of the type, two digits per
  byte, and the digits read back as the value.
\<close>

theorem PrintHex_roundtrip:
  "value_of 16 (PrintHex8 a) = unat a \<and> length (PrintHex8 a) = 2 \<and>
   value_of 16 (PrintHex16 b) = unat b \<and> length (PrintHex16 b) = 4 \<and>
   value_of 16 (PrintHex32 c) = unat c \<and> length (PrintHex32 c) = 8 \<and>
   value_of 16 (PrintHex64 d) = unat d \<and> length (PrintHex64 d) = 16"
  using PrintHex8_ok PrintHex16_ok PrintHex32_ok PrintHex64_ok by simp

section \<open>Format strings\<close>

lemma Print_literal:
  "CHR ''{'' \<notin> set l \<Longrightarrow> Print (l @ d) (v # rest) = putP l (Print d (v # rest))"
  by (induction l) (auto simp: putP_def)

lemma Print_literal_end: "CHR ''{'' \<notin> set l \<Longrightarrow> Print l args = (if args = [] then (l, None) else (l, None))"
  by (cases args) (use Print_literal[of l "[]"] in \<open>auto simp: putP_def\<close>)

text \<open>A format string with one literal before the first placeholder and one after each.\<close>

fun template :: "string \<Rightarrow> string list \<Rightarrow> string" where
  "template l [] = l"
| "template l (l' # ls) = l @ ''{}'' @ template l' ls"

fun filled :: "string \<Rightarrow> (string \<times> string) list \<Rightarrow> string" where
  "filled l [] = l"
| "filled l ((s, l') # ps) = l @ s @ filled l' ps"

lemma Print_template:
  assumes "length args = length ls" "\<forall>x \<in> set (l # ls). CHR ''{'' \<notin> set x"
    "\<forall>i < length args. PrintFormatter (args ! i) = Inr (outs ! i)" "length outs = length args"
  shows "Print (template l ls) args = (filled l (zip outs ls), None)"
  using assms
proof (induction ls arbitrary: l args outs)
  case Nil
  then show ?case by simp
next
  case (Cons l' ls)
  then obtain a as out os where a: "args = a # as" "outs = out # os" by (metis length_Suc_conv)
  have f: "PrintFormatter a = Inr out" using Cons.prems(3) a by force
  have rest: "\<forall>i < length as. PrintFormatter (as ! i) = Inr (os ! i)"
    using Cons.prems(3) a by (metis Suc_less_eq length_Cons nth_Cons_Suc)
  have "Print (template l' ls) as = (filled l' (zip os ls), None)"
    using Cons.IH[of as l' os] Cons.prems a rest by simp
  moreover have "as = [] \<Longrightarrow> Print (template l' ls) [a] = (filled l' (zip os ls), None)"
    using Cons.prems a Print_literal_end[of l' "[a]"] by simp
  ultimately show ?case
    using Cons.prems(2) a f by (simp add: Print_literal putP_def formatP_def)
qed

text \<open>
  \<open>Print\<close> on a format string with exactly as many placeholders as arguments never traps
  and prints the literals with each argument's text in place of its placeholder, in order.
\<close>

theorem Print_correct:
  assumes "length args = length ls" "\<forall>x \<in> set (l # ls). CHR ''{'' \<notin> set x"
    "\<forall>i < length args. PrintFormatter (args ! i) = Inr (outs ! i)" "length outs = length args"
  shows "Print (template l ls) args = (filled l (zip outs ls), None)"
  by (rule Print_template[OF assms])

theorem Print_correct_witness:
  "Print (template ''a='' ['', b='', ''.'']) [ArgBool True, ArgHex8 0x2a] = (''a=true, b=0x2a.'', None)"
proof -
  have hex: "PrintHex8 0x2a = ''2a''"
    by code_simp
  have "\<forall>i < length [ArgBool True, ArgHex8 0x2a]. PrintFormatter ([ArgBool True, ArgHex8 0x2a] ! i) = Inr ([''true'', ''0x2a''] ! i)"
    using hex by (simp add: less_Suc_eq)
  from Print_correct[OF _ _ this, of "['', b='', ''.'']" "''a=''"] show ?thesis by simp
qed

text \<open>
  The last argument serves every placeholder that remains: a format string with two
  placeholders and one argument prints the argument twice, and never reports a shortage.
\<close>

theorem Print_last_reused:
  assumes "\<forall>x \<in> {l, l', l''}. CHR ''{'' \<notin> set x" "PrintFormatter a = Inr s"
  shows "Print (l @ ''{}'' @ l' @ ''{}'' @ l'') [a] = (l @ s @ l' @ s @ l'', None)"
  using assms Print_literal_end[of l'' "[a]"] by (simp add: Print_literal putP_def formatP_def)

theorem Print_last_reused_witness: "Print ''{}{}'' [ArgBool True] = (''truetrue'', None)"
  using Print_last_reused[of "[]" "[]" "[]" "ArgBool True" "''true''"] by simp

section \<open>printf conversions\<close>

datatype conv = Text string | Cc u32 | Cd u32 | Cu u32 | Cs string | Cp u32 | Cx u32

fun conv_fmt :: "conv \<Rightarrow> string" where
  "conv_fmt (Text t) = t" | "conv_fmt (Cc _) = ''%c''" | "conv_fmt (Cd _) = ''%d''" | "conv_fmt (Cu _) = ''%u''"
| "conv_fmt (Cs _) = ''%s''" | "conv_fmt (Cp _) = ''%p''" | "conv_fmt (Cx _) = ''%x''"

fun conv_args :: "conv \<Rightarrow> va_val list" where
  "conv_args (Text t) = []" | "conv_args (Cc i) = [VInt i]" | "conv_args (Cd i) = [VInt i]" | "conv_args (Cu i) = [VInt i]"
| "conv_args (Cs s) = [VStr s]" | "conv_args (Cp p) = [VPtr p]" | "conv_args (Cx i) = [VInt i]"

fun conv_out :: "conv \<Rightarrow> string" where
  "conv_out (Text t) = t"
| "conv_out (Cc i) = [char_of (unat i mod 256)]"
| "conv_out (Cd i) = (case PrintDecimal_i32 i of Inr s \<Rightarrow> s | Inl _ \<Rightarrow> [])"
| "conv_out (Cu i) = (case PrintDecimal_u32 i of Inr s \<Rightarrow> s | Inl _ \<Rightarrow> [])"
| "conv_out (Cs s) = s"
| "conv_out (Cp p) = ''0x'' @ PrintHex32 p"
| "conv_out (Cx i) = ''0x'' @ PrintHex32 i"

fun conv_ok :: "conv \<Rightarrow> bool" where
  "conv_ok (Text t) \<longleftrightarrow> CHR ''%'' \<notin> set t"
| "conv_ok _ \<longleftrightarrow> True"

lemma printf_text: "CHR ''%'' \<notin> set t \<Longrightarrow> printf (t @ fmt) ap = putP t (printf fmt ap)"
  by (induction t) (auto simp: putP_def)

lemma PrintDecimal_u32_Inr: "\<exists>s. PrintDecimal_u32 v = Inr s"
  using PrintDecimal_u32_ok[of v] by blast

lemma PrintDecimal_i32_Inr: "\<exists>s. PrintDecimal_i32 v = Inr s"
  using PrintDecimal_u32_Inr[of v] PrintDecimal_u32_Inr[of "- v"] by (auto simp: PrintDecimal_i32_def)

lemma printf_conv:
  "conv_ok c \<Longrightarrow> printf (conv_fmt c @ fmt) (conv_args c @ ap) = putP (conv_out c) (printf fmt ap)"
proof (cases c)
  case (Cd i)
  then show ?thesis using PrintDecimal_i32_Inr[of i] by (auto simp: formatP_def)
next
  case (Cu i)
  then show ?thesis using PrintDecimal_u32_Inr[of i] by (auto simp: formatP_def)
qed (simp_all add: printf_text formatP_def)

text \<open>
  \<open>printf\<close> with a format built from text without percent signs and the six conversions it
  supports, called with arguments of the types the conversions expect, never traps and prints
  the text and the converted arguments in order.
\<close>

theorem printf_correct:
  assumes "\<forall>c \<in> set cs. conv_ok c"
  shows "printf (concat (map conv_fmt cs)) (concat (map conv_args cs)) = (concat (map conv_out cs), None)"
  using assms by (induction cs) (simp_all add: printf_conv putP_def)

theorem printf_correct_witness:
  "printf ''n=%s!'' [VStr ''ok''] = (''n=ok!'', None)"
  using printf_correct[of "[Text ''n='', Cs ''ok'', Text ''!'']"] by simp

end
