(* ===== verification/Builtins.thy ===== *)
theory Builtins
  imports Prelude
begin

text \<open>
  \<^verbatim>\<open>utils/builtins.cpp\<close>: 64-bit division and remainder for a 32-bit target, computed by shifting
  and subtracting without branches. They are equal to division and remainder of natural numbers.
\<close>

unbundle bit_operations_syntax

section \<open>Definitions\<close>

text \<open>\<open>__builtin_clzll\<close> for a positive argument.\<close>

definition clz :: "u64 \<Rightarrow> nat" where
  "clz x = length (takeWhile (\<lambda>i. \<not> bit x i) (rev [0 ..< 64]))"

text \<open>The difference of the two counts as a 32-bit unsigned number.\<close>

definition shift_amount :: "u64 \<Rightarrow> u64 \<Rightarrow> u32" where
  "shift_amount n d = of_nat (if d \<noteq> 0 then clz d else 64) - of_nat (if n \<noteq> 0 then clz n else 64)"

text \<open>One round of the loop, on the remainder, the shifted dividend and the carry.\<close>

definition div_round :: "u64 \<Rightarrow> u64 \<times> u64 \<times> u64 \<Rightarrow> u64 \<times> u64 \<times> u64" where
  "div_round d = (\<lambda>(r, n, carry).
     let r = push_bit 1 r OR drop_bit 63 n;
         n = push_bit 1 n OR carry;
         s = signed_drop_bit 63 (d - r - 1);
         carry = s AND 1;
         r = r - (d AND s) in
     (r, n, carry))"

definition div_loop :: "u64 \<Rightarrow> nat \<Rightarrow> u64 \<Rightarrow> u64 \<times> u64 \<times> u64" where
  "div_loop d sr n = (div_round d ^^ sr) (drop_bit sr n, push_bit (64 - sr) n, 0)"

definition udivdi3 :: "u64 \<Rightarrow> u64 \<Rightarrow> u64" where
  "udivdi3 n d =
     (let sr = shift_amount n d in
      if 63 < sr then 0
      else if sr = 63 then n
      else case div_loop d (unat (sr + 1)) n of (r, n, carry) \<Rightarrow> push_bit 1 n OR carry)"

definition umoddi3 :: "u64 \<Rightarrow> u64 \<Rightarrow> u64" where
  "umoddi3 n d =
     (let sr = shift_amount n d in
      if 63 < sr then n
      else if sr = 63 then 0
      else case div_loop d (unat (sr + 1)) n of (r, n, carry) \<Rightarrow> r)"

section \<open>Leading zeros\<close>

lemma takeWhile_rev_upt:
  "length (takeWhile (\<lambda>i. \<not> P i) (rev [0 ..< n])) = n \<and> (\<forall>i < n. \<not> P i) \<or>
   (\<exists>m < n. length (takeWhile (\<lambda>i. \<not> P i) (rev [0 ..< n])) = n - 1 - m \<and> P m \<and> (\<forall>i. m < i \<longrightarrow> i < n \<longrightarrow> \<not> P i))"
proof (induction n)
  case (Suc n)
  show ?case
  proof (cases "P n")
    case True
    then show ?thesis by (auto intro!: exI[of _ n])
  next
    case False
    from Suc.IH show ?thesis
    proof (elim disjE exE conjE)
      fix m assume "m < n" "length (takeWhile (\<lambda>i. \<not> P i) (rev [0 ..< n])) = n - 1 - m" "P m" "\<forall>i. m < i \<longrightarrow> i < n \<longrightarrow> \<not> P i"
      then show ?thesis using False by (intro disjI2 exI[of _ m]) (auto simp: less_Suc_eq)
    qed (use False in \<open>auto simp: less_Suc_eq\<close>)
  qed
qed simp

lemma unat_lt_u64: "unat (x :: u64) < 2 ^ 64"
  using unsigned_less[of x] by simp

lemma unat_drop: "unat (drop_bit k x :: u64) = unat x div 2 ^ k"
  by (subst unat_drop_bit_eq) (rule drop_bit_eq_div)

lemma unat_push: "unat (push_bit k x :: u64) = unat x * 2 ^ k mod 2 ^ 64"
  by (subst unsigned_push_bit_eq) (simp add: push_bit_eq_mult take_bit_eq_mod)

lemma clz_bounds:
  assumes "x \<noteq> 0"
  shows "clz x \<le> 63" "2 ^ (63 - clz x) \<le> unat x" "unat x < 2 ^ (64 - clz x)"
proof -
  have ex: "\<exists>m < 64. bit x m" using assms bit_eq_iff[of x 0] bit_imp_le_length by fastforce
  have "clz x = 64 \<and> (\<forall>i < 64. \<not> bit x i) \<or>
    (\<exists>m < 64. clz x = 64 - 1 - m \<and> bit x m \<and> (\<forall>i. m < i \<longrightarrow> i < 64 \<longrightarrow> \<not> bit x i))"
    unfolding clz_def by (rule takeWhile_rev_upt)
  then obtain m where m: "m < 64" "clz x = 64 - 1 - m" "bit x m" "\<forall>i. m < i \<longrightarrow> i < 64 \<longrightarrow> \<not> bit x i"
    using ex by blast
  show "clz x \<le> 63" using m(2) by simp
  have "drop_bit m x \<noteq> 0" 
  proof
    assume "drop_bit m x = 0"
    moreover have "bit (drop_bit m x) 0" using m(3) by (simp add: bit_drop_bit_eq)
    ultimately show False by simp
  qed
  then have "unat (drop_bit m x) \<noteq> 0" by (simp add: unat_eq_0)
  then have "unat x div 2 ^ m \<noteq> 0" by (simp only: unat_drop not_False_eq_True)
  then have "2 ^ m \<le> unat x" by (simp add: div_eq_0_iff)
  then show "2 ^ (63 - clz x) \<le> unat x" using m(1,2) by simp
  have "drop_bit (Suc m) x = 0"
  proof (rule bit_eqI)
    fix i show "bit (drop_bit (Suc m) x) i = bit 0 i"
      using m(4) bit_imp_le_length[of x "Suc m + i"] by (auto simp: bit_drop_bit_eq)
  qed
  then have "unat x div 2 ^ Suc m = 0" by (metis unat_drop unsigned_0)
  then have "unat x < 2 ^ Suc m" by (simp add: div_eq_0_iff del: power_Suc)
  then show "unat x < 2 ^ (64 - clz x)" using m(1,2) by (simp add: Suc_diff_le)
qed

section \<open>One round\<close>

lemma unat_shift_in:
  assumes "unat c \<le> 1"
  shows "unat (push_bit 1 x OR c :: u64) = 2 * unat x mod 2 ^ 64 + unat c"
proof -
  have "unat c = 0 \<or> unat c = 1" using assms by auto
  then have c: "c = 0 \<or> c = 1" by (auto simp: unat_eq_0 intro: unat_eqI)
  have "push_bit 1 x OR c = push_bit 1 x + c"
    by (rule disjunctive_add[symmetric]) (use c in \<open>auto simp: bit_push_bit_iff bit_1_iff bit_0\<close>)
  moreover have p: "unat (push_bit 1 x) = 2 * unat x mod 2 ^ 64"
    using unat_word_ariths(2)[of 2 x] by (simp add: push_bit_eq_mult mult.commute)
  moreover have "2 * unat x mod 2 ^ 64 + unat c < 2 ^ 64"
  proof -
    have "even (2 * unat x mod 2 ^ 64)" by (simp add: even_mod_2_iff dvd_mod)
    moreover have "2 * unat x mod 2 ^ 64 < 2 ^ 64" by simp
    moreover have "odd (2 ^ 64 - 1 :: nat)" by simp
    ultimately have "2 * unat x mod 2 ^ 64 \<noteq> 2 ^ 64 - 1" by metis
    then show ?thesis using assms \<open>2 * unat x mod 2 ^ 64 < 2 ^ 64\<close> by linarith
  qed
  ultimately show ?thesis using unat_word_ariths(1)[of "push_bit 1 x" c] by simp
qed

lemma sign_mask: "signed_drop_bit 63 (x :: u64) = (if 2 ^ 63 \<le> unat x then - 1 else 0)"
proof -
  have "bit x 63 \<longleftrightarrow> bit (unat x) 63" by (simp add: bit_unsigned_iff)
  also have "\<dots> \<longleftrightarrow> odd (unat x div 2 ^ 63)" by (rule bit_iff_odd)
  also have "\<dots> \<longleftrightarrow> 2 ^ 63 \<le> unat x"
  proof -
    have "unat x div 2 ^ 63 < 2" using unat_lt_u64[of x] by (simp add: div_less_iff_less_mult)
    then have "odd (unat x div 2 ^ 63) \<longleftrightarrow> unat x div 2 ^ 63 \<noteq> 0" by (cases "unat x div 2 ^ 63" rule: nat.exhaust) auto
    then show ?thesis by (simp add: div_eq_0_iff not_less)
  qed
  finally show ?thesis by (auto intro!: bit_eqI simp: bit_signed_drop_bit_iff less_Suc_eq_le not_le split: if_splits)
qed

lemma uint_of_int_u64: "uint (of_int k :: u64) = k mod 2 ^ 64"
  by (simp add: unsigned_of_int take_bit_eq_mod)

lemma wrap_below:
  assumes "b < 2 ^ 64" "a < 2 ^ 64"
  shows "(int a - int b - 1) mod 2 ^ 64 = (if a \<le> b then 2 ^ 64 - 1 - (int b - int a) else int a - int b - 1)"
proof (cases "a \<le> b")
  case True
  have "(int a - int b - 1) mod 2 ^ 64 = (int a - int b - 1 + 2 ^ 64) mod 2 ^ 64" by (intro mod_add_self2[symmetric])
  also have "\<dots> = int a - int b - 1 + 2 ^ 64" using True assms by (intro mod_pos_pos_trivial) auto
  finally show ?thesis using True by simp
next
  case False
  then show ?thesis using assms by (simp add: mod_pos_pos_trivial)
qed

lemma nat_wrap_below:
  assumes "int x = (if a \<le> b then 2 ^ 64 - 1 - (int b - int a) else int a - int b - 1)" "b < 2 ^ 64"
  shows "x = (if a \<le> b then 2 ^ 64 - 1 - (b - a) else a - b - 1)"
  using assms by (auto split: if_splits)

lemma div_round_nat:
  assumes c: "unat c \<le> 1"
    and R: "R = 2 * unat r + unat n div 2 ^ 63" "R < 2 ^ 64" "R < unat d + 2 ^ 63" "unat d \<le> R + 2 ^ 63"
    and step: "div_round d (r, n, c) = (r', n', c')"
  shows "unat r' = (if unat d \<le> R then R - unat d else R)" "unat n' = 2 * unat n mod 2 ^ 64 + unat c"
    "unat c' = (if unat d \<le> R then 1 else 0)"
proof -
  have top: "unat (drop_bit 63 n) = unat n div 2 ^ 63" by (rule unat_drop)
  have "unat n div 2 ^ 63 \<le> 1" using unat_lt_u64[of n] by (simp add: less_Suc_eq_le[symmetric] div_less_iff_less_mult)
  then have le: "unat (drop_bit 63 n) \<le> 1" by (simp only: top)
  let ?r = "push_bit 1 r OR drop_bit 63 n"
  have r: "unat ?r = R" using unat_shift_in[OF le, of r] R(1,2) by (simp only: top) simp
  have "unat (d - ?r - 1) = (if unat d \<le> R then 2 ^ 64 - 1 - (R - unat d) else unat d - R - 1)"
  proof -
    have eq: "d - ?r - 1 = of_int (int (unat d) - int R - 1)" by (simp add: r[symmetric])
    have "uint (d - ?r - 1) = (int (unat d) - int R - 1) mod 2 ^ 64" unfolding eq by (rule uint_of_int_u64)
    moreover have "(int (unat d) - int R - 1) mod 2 ^ 64 =
        (if unat d \<le> R then 2 ^ 64 - 1 - (int R - int (unat d)) else int (unat d) - int R - 1)"
      by (rule wrap_below[OF R(2) unat_lt_u64])
    moreover have "int (unat (d - ?r - 1)) = uint (d - ?r - 1)" by simp
    ultimately show ?thesis by (intro nat_wrap_below R(2)) argo
  qed
  then have s: "signed_drop_bit 63 (d - ?r - 1) = (if unat d \<le> R then - 1 else 0)"
    using R(3,4) by (auto simp: sign_mask)
  have "r' = ?r - (d AND signed_drop_bit 63 (d - ?r - 1))" "n' = push_bit 1 n OR c" "c' = signed_drop_bit 63 (d - ?r - 1) AND 1"
    using step by (simp_all add: div_round_def Let_def)
  then have "r' = (if unat d \<le> R then ?r - d else ?r)" "n' = push_bit 1 n OR c" "c' = (if unat d \<le> R then 1 else 0)" using s by auto
  then show "unat r' = (if unat d \<le> R then R - unat d else R)" "unat n' = 2 * unat n mod 2 ^ 64 + unat c"
    "unat c' = (if unat d \<le> R then 1 else 0)"
    using r unat_shift_in[OF c, of n] unat_sub[of d ?r] by (auto simp: word_le_nat_alt)
qed

section \<open>The loop\<close>

text \<open>
  After \<open>j\<close> of \<open>S\<close> rounds the leading bits of the dividend, all but the last \<open>S - j\<close>, are divided: the
  remainder is in \<open>r\<close>, the last bit of the quotient in the carry, the other bits of it at the bottom
  of \<open>n\<close> and the bits of the dividend still to come at the top of \<open>n\<close>.
\<close>

definition divided :: "nat \<Rightarrow> nat \<Rightarrow> nat \<Rightarrow> u64 \<times> u64 \<times> u64 \<Rightarrow> bool" where
  "divided N D k = (\<lambda>(r, n, c).
     unat r = N div 2 ^ k mod D \<and> unat c = N div 2 ^ k div D mod 2 \<and>
     unat n = N mod 2 ^ k * 2 ^ (64 - k) + N div 2 ^ k div D div 2)"

lemma div_pow_Suc: "N div 2 ^ k = 2 * (N div 2 ^ Suc k) + N mod 2 ^ Suc k div 2 ^ k" for N :: nat
proof -
  have "N = 2 ^ Suc k * (N div 2 ^ Suc k) + N mod 2 ^ Suc k" by simp
  then have "N div 2 ^ k = (2 ^ k * (2 * (N div 2 ^ Suc k)) + N mod 2 ^ Suc k) div 2 ^ k" by (simp add: algebra_simps)
  also have "\<dots> = 2 * (N div 2 ^ Suc k) + N mod 2 ^ Suc k div 2 ^ k" by (rule div_mult_self4) simp
  finally show ?thesis .
qed

lemma div_double_step:
  assumes "0 < D" "A = 2 * B + (b :: nat)" "b \<le> 1" "R = 2 * (B mod D) + b"
  shows "A mod D = (if D \<le> R then R - D else R)" "A div D = 2 * (B div D) + (if D \<le> R then 1 else 0)"
proof -
  have R: "R < 2 * D" using assms(3,4) mod_less_divisor[OF assms(1), of B] by linarith
  have "2 * B = 2 * (D * (B div D) + B mod D)" by simp
  also have "\<dots> = D * (2 * (B div D)) + 2 * (B mod D)" by (simp only: algebra_simps)
  finally have A: "A = D * (2 * (B div D)) + R" using assms(2,4) by linarith
  have "R div D = (if D \<le> R then 1 else 0)" "R mod D = (if D \<le> R then R - D else R)"
    using R assms(1) by (auto simp: div_if mod_if)
  then show "A mod D = (if D \<le> R then R - D else R)" "A div D = 2 * (B div D) + (if D \<le> R then 1 else 0)"
    unfolding A using assms(1) by simp_all
qed

lemma divided_step:
  assumes inv: "divided N D (Suc k) st" and D: "0 < D" "D = unat d" and k: "k < 63" and N: "N < 2 ^ 64"
    and big: "D \<le> 2 ^ 63 \<or> k = 0 \<and> 2 ^ 63 \<le> N"
  shows "divided N D k (div_round d st)"
proof -
  obtain r n c where st: "st = (r, n, c)" by (cases st)
  obtain r' n' c' where step: "div_round d (r, n, c) = (r', n', c')" by (cases "div_round d (r, n, c)")
  let ?B = "N div 2 ^ Suc k" and ?q = "N div 2 ^ Suc k div D" and ?m = "N mod 2 ^ Suc k"
  have i: "unat r = ?B mod D" "unat c = ?q mod 2" "unat n = ?m * 2 ^ (63 - k) + ?q div 2"
    using inv by (simp_all add: divided_def st)
  have half: "2 ^ (63 - k) * 2 ^ k = (2 ^ 63 :: nat)" using k by (simp flip: power_add)
  have "64 - k = Suc (63 - k)" using k by simp
  then have e64: "(2 :: nat) * 2 ^ (63 - k) = 2 ^ (64 - k)" by simp
  have m: "?m < 2 ^ Suc k" by simp
  have "?q \<le> ?B" by (rule div_le_dividend)
  also have "?B < 2 ^ (63 - k)" using N half by (simp add: div_less_iff_less_mult algebra_simps)
  finally have q: "?q < 2 ^ (63 - k)" .
  let ?b = "?m div 2 ^ k"
  have "?b < 2" by (rule less_mult_imp_div_less) (use m in simp)
  then have b: "?b \<le> 1" by linarith
  have top: "unat n div 2 ^ 63 = ?b"
  proof -
    have "unat n div 2 ^ (63 - k) = ?m" using q i(3) by simp
    then show ?thesis using half by (metis div_mult2_eq)
  qed
  let ?R = "2 * (?B mod D) + ?b"
  note ds = div_double_step[OF D(1) div_pow_Suc b refl]
  have "?B mod D < D" using D(1) by simp
  then have R: "?R < 2 * D" using b by linarith
  have R64: "?R < 2 ^ 64 \<and> ?R < D + 2 ^ 63 \<and> D \<le> ?R + 2 ^ 63"
  proof (cases "D \<le> 2 ^ 63")
    case True
    then have "x < 2 ^ 64 \<and> x < D + 2 ^ 63 \<and> D \<le> x + 2 ^ 63" if "x < 2 * D" for x using that by auto
    then show ?thesis using R by blast
  next
    case False
    then have z: "k = 0" "2 ^ 63 \<le> N" using big by auto
    then have "?B < D" using N False by simp
    then have "?R = N" using z(1) div_pow_Suc[of N 0] by simp
    then show ?thesis using N z(2) False unat_lt_u64[of d] D(2) by simp
  qed
  have c: "unat c \<le> 1" using i(2) by simp
  have "?R = 2 * unat r + unat n div 2 ^ 63" by (simp only: top i(1))
  note nat = div_round_nat[OF c this _ _ _ step, folded D(2)]
  have r': "unat r' = (if D \<le> ?R then ?R - D else ?R)" and c': "unat c' = (if D \<le> ?R then 1 else 0)"
    and n': "unat n' = 2 * unat n mod 2 ^ 64 + unat c" using nat R64 by blast+
  have "2 * unat n mod 2 ^ 64 = N mod 2 ^ k * 2 ^ (64 - k) + 2 * (?q div 2)"
  proof -
    have mk: "?m = 2 ^ k * ?b + N mod 2 ^ k"
    proof -
      have "?m mod 2 ^ k = N mod 2 ^ k" by (rule mod_mod_cancel) (simp add: le_imp_power_dvd)
      then show ?thesis using mult_div_mod_eq[of "2 ^ k" ?m] by simp
    qed
    have "2 * unat n = 2 * (2 ^ (63 - k) * 2 ^ k) * ?b + N mod 2 ^ k * (2 * 2 ^ (63 - k)) + 2 * (?q div 2)"
      unfolding i(3) by (subst mk) (simp only: algebra_simps)
    also have "\<dots> = 2 ^ 64 * ?b + (N mod 2 ^ k * 2 ^ (64 - k) + 2 * (?q div 2))"
      unfolding half e64 by simp
    finally have e: "2 * unat n = 2 ^ 64 * ?b + (N mod 2 ^ k * 2 ^ (64 - k) + 2 * (?q div 2))" .
    have "N mod 2 ^ k * 2 ^ (64 - k) + 2 * (?q div 2) < 2 ^ 64"
    proof -
      have "N mod 2 ^ k + 1 \<le> 2 ^ k" by (simp add: Suc_le_eq)
      then have "(N mod 2 ^ k + 1) * 2 ^ (64 - k) \<le> 2 ^ k * 2 ^ (64 - k)" by (rule mult_right_mono) simp
      moreover have "2 ^ k * 2 ^ (64 - k) = (2 ^ 64 :: nat)" using k by (simp flip: power_add)
      moreover have "2 * (?q div 2) \<le> ?q" by (rule times_div_less_eq_dividend)
      then have "2 * (?q div 2) < 2 ^ (64 - k)" using q unfolding e64[symmetric] by linarith
      ultimately show ?thesis by (simp add: algebra_simps)
    qed
    then show ?thesis unfolding e by simp
  qed
  then have "unat n' = N mod 2 ^ k * 2 ^ (64 - k) + N div 2 ^ k div D div 2"
    unfolding n' i(2) ds(2) by simp
  then show ?thesis using r' c' ds by (simp add: divided_def st step)
qed

lemma div_rounds:
  assumes "divided N D k st" "0 < D" "D = unat d" "k \<le> 63" "N < 2 ^ 64" "j \<le> k"
    and "D \<le> 2 ^ 63 \<or> k \<le> 1 \<and> 2 ^ 63 \<le> N"
  shows "divided N D (k - j) ((div_round d ^^ j) st)"
  using assms(6)
proof (induction j)
  case (Suc j)
  then have i: "divided N D (Suc (k - Suc j)) ((div_round d ^^ j) st)" by (simp add: Suc_diff_Suc)
  have "divided N D (k - Suc j) (div_round d ((div_round d ^^ j) st))"
    by (rule divided_step[OF i assms(2,3) _ assms(5)]) (use assms(4,7) Suc.prems in auto)
  then show ?case by simp
qed (use assms(1) in simp)

lemma shift_amount_unat:
  fixes n d :: u64
  assumes d: "d \<noteq> 0"
  defines "cn \<equiv> if n \<noteq> 0 then clz n else 64"
  shows "unat (shift_amount n d) = (if cn \<le> clz d then clz d - cn else 2 ^ 32 + clz d - cn)" "cn \<le> 64"
proof -
  show cn: "cn \<le> 64" using clz_bounds(1)[of n] by (auto simp: cn_def)
  have cd: "clz d \<le> 63" by (rule clz_bounds(1)[OF d])
  have s: "shift_amount n d = of_nat (clz d) - of_nat cn" using d by (simp add: shift_amount_def cn_def)
  show "unat (shift_amount n d) = (if cn \<le> clz d then clz d - cn else 2 ^ 32 + clz d - cn)"
  proof (cases "cn \<le> clz d")
    case True
    then have "shift_amount n d = of_nat (clz d - cn)" by (simp add: s of_nat_diff)
    then show ?thesis using True cd unat_of_nat_u32[of "clz d - cn"] by simp
  next
    case False
    have "of_nat (2 ^ 32 + clz d - cn) = (of_nat (2 ^ 32 + clz d) :: u32) - of_nat cn"
      using cn by (intro of_nat_diff) simp
    also have "\<dots> = shift_amount n d" by (simp add: s)
    finally show ?thesis using False cn cd unat_of_nat_u32[of "2 ^ 32 + clz d - cn"] by simp
  qed
qed

lemma shift_amount_cases:
  assumes d: "d \<noteq> 0"
  shows "63 < shift_amount n d \<Longrightarrow> unat n < unat d"
    "shift_amount n d \<le> 63 \<Longrightarrow> n \<noteq> 0 \<and> clz n \<le> clz d \<and> unat (shift_amount n d) = clz d - clz n"
proof -
  note cd = clz_bounds[OF d] and u = shift_amount_unat[OF d, of n]
  show "n \<noteq> 0 \<and> clz n \<le> clz d \<and> unat (shift_amount n d) = clz d - clz n" if le: "shift_amount n d \<le> 63"
    using le u cd(1) by (auto simp: word_le_nat_alt split: if_splits)
  show "unat n < unat d" if gt: "63 < shift_amount n d"
  proof (cases "n = 0")
    case True
    then show ?thesis using d by (simp add: unat_gt_0)
  next
    case False
    then have c: "clz d < clz n" using gt u(1) cd(1) by (auto simp: word_less_nat_alt split: if_splits)
    have "unat n < 2 ^ (64 - clz n)" by (rule clz_bounds(3)[OF False])
    also have "\<dots> \<le> 2 ^ (63 - clz d)" by (rule power_increasing) (use c in auto)
    also have "\<dots> \<le> unat d" by (rule cd(2))
    finally show ?thesis .
  qed
qed

lemma div_loop_divided:
  assumes d: "d \<noteq> 0" and sr: "shift_amount n d < 63"
  shows "divided (unat n) (unat d) 0 (div_loop d (unat (shift_amount n d + 1)) n)"
proof -
  let ?S = "clz d - clz n + 1"
  have c: "n \<noteq> 0" "clz n \<le> clz d" "unat (shift_amount n d) = clz d - clz n" using shift_amount_cases(2)[OF d] sr by auto
  have S: "unat (shift_amount n d + 1) = ?S" "?S \<le> 63"
    using c(3) sr by (simp_all add: unat_word_ariths word_less_nat_alt)
  note cd = clz_bounds[OF d] and cn = clz_bounds[OF c(1)]
  have lead: "unat n div 2 ^ ?S < unat d"
  proof -
    have "64 - clz n = (63 - clz d) + ?S" using c(2) cd(1) by simp
    then have "2 ^ (64 - clz n) = (2 ^ (63 - clz d) * 2 ^ ?S :: nat)" by (simp only: power_add)
    also have "\<dots> \<le> unat d * 2 ^ ?S" using cd(2) by simp
    finally show ?thesis using cn(3) by (intro less_mult_imp_div_less) simp
  qed
  have "unat (push_bit (64 - ?S) n) = unat n * 2 ^ (64 - ?S) mod (2 ^ ?S * 2 ^ (64 - ?S))"
    using S(2) by (simp only: unat_push flip: power_add) simp
  then have "unat (push_bit (64 - ?S) n) = unat n mod 2 ^ ?S * 2 ^ (64 - ?S)" by (simp only: mod_mult_mult2)
  then have "divided (unat n) (unat d) ?S (drop_bit ?S n, push_bit (64 - ?S) n, 0)"
    using lead by (simp add: divided_def unat_drop)
  moreover have "unat d \<le> 2 ^ 63 \<or> ?S \<le> 1 \<and> 2 ^ 63 \<le> unat n"
  proof (cases "clz d = 0")
    case True
    then have "clz n = 0" using c(2) by simp
    then show ?thesis using cn(2) True by simp
  next
    case False
    then have "(2 :: nat) ^ (64 - clz d) \<le> 2 ^ 63" by (intro power_increasing) auto
    then show ?thesis using cd(3) by linarith
  qed
  ultimately have "divided (unat n) (unat d) (?S - ?S) ((div_round d ^^ ?S) (drop_bit ?S n, push_bit (64 - ?S) n, 0))"
    by (intro div_rounds S(2) unat_lt_u64) (use d in \<open>auto simp: unat_gt_0\<close>)
  then show ?thesis by (simp only: div_loop_def S(1)) simp
qed

section \<open>Properties\<close>

lemma shift_amount_63:
  assumes "d \<noteq> 0" "shift_amount n d = 63"
  shows "d = 1"
proof -
  have "clz d = 63" using shift_amount_cases(2)[OF assms(1), of n] assms(2) clz_bounds(1)[OF assms(1)] by auto
  then have "unat d = 1" using clz_bounds(2,3)[OF assms(1)] by simp
  then show ?thesis by (intro unat_eqI) simp
qed



end
