(* ===== verification/DescriptorTables.thy ===== *)
theory DescriptorTables
  imports Scheduler
begin

text \<open>
  \<^verbatim>\<open>kernel/descriptortables.cpp\<close> and \<^verbatim>\<open>kernel/isr.cpp\<close>: the segment and interrupt tables the kernel loads
  into the processor, the remapping of the interrupt controllers, and the dispatch of an interrupt to
  the handler registered for it. The addresses of the tables, of the task state segment and of the
  assembly stubs are parameters (\<^verbatim>\<open>kernel/interrupt.S\<close> defines the stubs).
\<close>

unbundle bit_operations_syntax

section \<open>State\<close>

record gdt_entry_t =
  g_limit_low :: u16
  g_base_low :: u16
  g_base_middle :: u8
  g_access :: u8
  g_granularity :: u8
  g_base_high :: u8

record idt_entry_t =
  i_base_lo :: u16
  i_sel :: u16
  i_always0 :: u8
  i_flags :: u8
  i_base_hi :: u16

record tss_entry_t =
  tss_prev :: u32  tss_esp0 :: u32  tss_ss0 :: u32  tss_esp1 :: u32  tss_ss1 :: u32  tss_esp2 :: u32  tss_ss2 :: u32
  tss_cr3 :: u32  tss_eip :: u32  tss_eflags :: u32  tss_eax :: u32  tss_ecx :: u32  tss_edx :: u32  tss_ebx :: u32
  tss_esp :: u32  tss_ebp :: u32  tss_esi :: u32  tss_edi :: u32  tss_es :: u32  tss_cs :: u32  tss_ss :: u32
  tss_ds :: u32  tss_fs :: u32  tss_gs :: u32  tss_ldt :: u32  tss_trap :: u16  tss_iomap_base :: u16

text \<open>A table pointer is a limit and a base. \<open>ports\<close> are the bytes written to ports, oldest first.\<close>

record tables =
  gdt_entries :: "gdt_entry_t list"
  gdt_ptr :: "u16 \<times> u32"
  idt_entries :: "idt_entry_t list"
  idt_ptr :: "u16 \<times> u32"
  tss_entry :: tss_entry_t
  ports :: "(u16 \<times> u8) list"
  loaded :: "u32 list"

record stubs =
  at_gdt :: u32
  at_gdt_ptr :: u32
  at_idt :: u32
  at_idt_ptr :: u32
  at_tss :: u32
  isr :: "nat \<Rightarrow> u32"
  irq :: "nat \<Rightarrow> u32"

definition kDPLUser :: u8 where "kDPLUser = 0x60"
definition kNumGDTEntries :: nat where "kNumGDTEntries = 6"

definition idt_zero :: idt_entry_t where
  "idt_zero = \<lparr>i_base_lo = 0, i_sel = 0, i_always0 = 0, i_flags = 0, i_base_hi = 0\<rparr>"

definition tss_zero :: tss_entry_t where
  "tss_zero = \<lparr>tss_prev = 0, tss_esp0 = 0, tss_ss0 = 0, tss_esp1 = 0, tss_ss1 = 0, tss_esp2 = 0, tss_ss2 = 0,
     tss_cr3 = 0, tss_eip = 0, tss_eflags = 0, tss_eax = 0, tss_ecx = 0, tss_edx = 0, tss_ebx = 0, tss_esp = 0, tss_ebp = 0,
     tss_esi = 0, tss_edi = 0, tss_es = 0, tss_cs = 0, tss_ss = 0, tss_ds = 0, tss_fs = 0, tss_gs = 0, tss_ldt = 0,
     tss_trap = 0, tss_iomap_base = 0\<rparr>"

definition Write8 :: "u16 \<Rightarrow> u8 \<Rightarrow> tables \<Rightarrow> tables" where
  "Write8 port v s = s\<lparr>ports := ports s @ [(port, v)]\<rparr>"

section \<open>The global descriptor table\<close>

definition GDTSetGate :: "nat \<Rightarrow> u32 \<Rightarrow> u32 \<Rightarrow> u8 \<Rightarrow> u8 \<Rightarrow> tables \<Rightarrow> tables" where
  "GDTSetGate num base limit access gran s =
     s\<lparr>gdt_entries := (gdt_entries s)[num :=
       \<lparr>g_limit_low = ucast (limit AND 0xFFFF),
        g_base_low = ucast (base AND 0xFFFF),
        g_base_middle = ucast (drop_bit 16 base AND 0xFF),
        g_access = access,
        g_granularity = ucast (drop_bit 16 limit AND 0x0F) OR (gran AND 0xF0),
        g_base_high = ucast (drop_bit 24 base AND 0xFF)\<rparr>]\<rparr>"

definition WriteTSS :: "stubs \<Rightarrow> nat \<Rightarrow> u16 \<Rightarrow> u32 \<Rightarrow> tables \<Rightarrow> tables" where
  "WriteTSS A num ss0 esp0 s =
     (let t = tss_zero\<lparr>tss_ss0 := ucast ss0, tss_esp0 := esp0, tss_iomap_base := 104, tss_cs := 0x0B,
                tss_ss := 0x13, tss_ds := 0x13, tss_es := 0x13, tss_fs := 0x13, tss_gs := 0x13\<rparr> in
      GDTSetGate num (at_tss A) 104 0xE9 0 (s\<lparr>tss_entry := t\<rparr>))"

definition InitGDT :: "stubs \<Rightarrow> tables \<Rightarrow> tables" where
  "InitGDT A s =
     (let s = s\<lparr>gdt_ptr := (of_nat (8 * kNumGDTEntries - 1), at_gdt A)\<rparr>;
          s = GDTSetGate 0 0 0 0 0 s;
          s = GDTSetGate 1 0 0xFFFFFFFF 0x9A 0xCF s;
          s = GDTSetGate 2 0 0xFFFFFFFF 0x92 0xCF s;
          s = GDTSetGate 3 0 0xFFFFFFFF 0xFA 0xCF s;
          s = GDTSetGate 4 0 0xFFFFFFFF 0xF2 0xCF s;
          s = WriteTSS A 5 0x10 0 s in
      s\<lparr>loaded := loaded s @ [at_gdt_ptr A, at_tss A]\<rparr>)"

section \<open>The interrupt descriptor table\<close>

definition IDTSetGate :: "nat \<Rightarrow> u32 \<Rightarrow> u16 \<Rightarrow> u8 \<Rightarrow> tables \<Rightarrow> tables" where
  "IDTSetGate num base sel flags s =
     s\<lparr>idt_entries := (idt_entries s)[num :=
       \<lparr>i_base_lo = ucast (base AND 0xFFFF), i_sel = sel, i_always0 = 0, i_flags = flags,
        i_base_hi = ucast (drop_bit 16 base AND 0xFFFF)\<rparr>]\<rparr>"

text \<open>The writes to the two interrupt controllers: initialisation, vector offsets, cascade, mode, masks.\<close>

definition kPicWrites :: "(u16 \<times> u8) list" where
  "kPicWrites = [(0x20, 0x11), (0xA0, 0x11), (0x21, 0x20), (0xA1, 0x28), (0x21, 0x04), (0xA1, 0x02),
     (0x21, 0x01), (0xA1, 0x01), (0x21, 0x00), (0xA1, 0x00)]"

text \<open>The calls for the exceptions, in the order of the source: the one for \<open>isr30\<close> sets gate 39.\<close>

definition kIsrGates :: "(nat \<times> nat) list" where
  "kIsrGates = map (\<lambda>n. (n, n)) [0 ..< 30] @ [(39, 30), (31, 31)]"

definition InitIDT :: "stubs \<Rightarrow> tables \<Rightarrow> tables" where
  "InitIDT A s =
     (let s = s\<lparr>idt_ptr := (8 * 256 - 1, at_idt A), idt_entries := replicate 256 idt_zero\<rparr>;
          s = fold (\<lambda>(p, v). Write8 p v) kPicWrites s;
          s = fold (\<lambda>(g, n). IDTSetGate g (isr A n) 0x08 0x8E) kIsrGates s;
          s = fold (\<lambda>n. IDTSetGate (32 + n) (irq A n) 0x08 0x8E) [0 ..< 16] s;
          s = IDTSetGate 128 (isr A 128) 0x08 (0x8E OR kDPLUser) s in
      s\<lparr>loaded := loaded s @ [at_idt_ptr A]\<rparr>)"

definition InitDescriptorTables :: "stubs \<Rightarrow> tables \<Rightarrow> tables" where
  "InitDescriptorTables A s = InitIDT A (InitGDT A s)"

definition set_kernel_stack :: "u32 \<Rightarrow> tables \<Rightarrow> tables" where
  "set_kernel_stack stack s = s\<lparr>tss_entry := (tss_entry s)\<lparr>tss_esp0 := stack\<rparr>\<rparr>"

section \<open>How the processor reads the tables\<close>

definition seg_base :: "gdt_entry_t \<Rightarrow> u32" where
  "seg_base e = ucast (g_base_low e) OR push_bit 16 (ucast (g_base_middle e)) OR push_bit 24 (ucast (g_base_high e))"

definition seg_limit :: "gdt_entry_t \<Rightarrow> u32" where
  "seg_limit e = (let l = ucast (g_limit_low e) OR push_bit 16 (ucast (g_granularity e AND 0x0F)) in
     if bit (g_granularity e) 7 then push_bit 12 l OR 0xFFF else l)"

definition access_dpl :: "u8 \<Rightarrow> nat" where
  "access_dpl a = unat (drop_bit 5 a AND 3)"

definition gate_base :: "idt_entry_t \<Rightarrow> u32" where
  "gate_base e = ucast (i_base_lo e) OR push_bit 16 (ucast (i_base_hi e))"

definition gate_present :: "idt_entry_t \<Rightarrow> bool" where
  "gate_present e = bit (i_flags e) 7"

section \<open>Reading back what was written\<close>

lemma masks:
  "(0xFFFF :: u32) = mask 16" "(0xFF :: u32) = mask 8" "(0xF :: u32) = mask 4" "(0xF :: u8) = mask 4" "(0xFFF :: u32) = mask 12"
  by (simp_all add: mask_eq_exp_minus_1)

lemma seg_base_split:
  "ucast (ucast (base AND 0xFFFF) :: u16) OR push_bit 16 (ucast (ucast (drop_bit 16 base AND 0xFF) :: u8)) OR
   push_bit 24 (ucast (ucast (drop_bit 24 base AND 0xFF) :: u8)) = (base :: u32)" (is "?l = _")
proof (rule bit_word_eqI)
  fix n assume "n < LENGTH(32)"
  then show "bit ?l n = bit base n" by (cases "n < 24"; cases "n < 16") (auto simp: bit_simps masks)
qed

lemma gate_base_split:
  "ucast (ucast (base AND 0xFFFF) :: u16) OR push_bit 16 (ucast (ucast (drop_bit 16 base AND 0xFFFF) :: u16)) = (base :: u32)"
  by (rule bit_eqI) (auto simp: bit_simps masks)

text \<open>The interrupt table as the processor sees it: handler address, segment and flags of each present gate.\<close>

definition gates :: "tables \<Rightarrow> nat \<Rightarrow> (u32 \<times> u16 \<times> u8) option" where
  "gates s m = (if m < length (idt_entries s) \<and> gate_present (idt_entries s ! m)
     then Some (gate_base (idt_entries s ! m), i_sel (idt_entries s ! m), i_flags (idt_entries s ! m)) else None)"

lemma gates_loaded: "gates (s\<lparr>loaded := x\<rparr>) = gates s"
  by (rule ext) (simp add: gates_def)

lemma gates_IDTSetGate:
  "g < length (idt_entries s) \<Longrightarrow> bit fl 7 \<Longrightarrow> gates (IDTSetGate g b sel fl s) = (gates s)(g \<mapsto> (b, sel, fl))"
  by (rule ext) (simp add: gates_def IDTSetGate_def nth_list_update gate_base_def gate_base_split gate_present_def)

lemma length_IDTSetGate [simp]: "length (idt_entries (IDTSetGate g b sel fl s)) = length (idt_entries s)"
  by (simp add: IDTSetGate_def)

lemma gates_fold:
  assumes "\<And>x. x \<in> set xs \<Longrightarrow> g x < length (idt_entries s)" "bit fl 7"
  shows "gates (fold (\<lambda>x. IDTSetGate (g x) (b x) sel fl) xs s) = fold (\<lambda>x f. f(g x \<mapsto> (b x, sel, fl))) xs (gates s) \<and>
    length (idt_entries (fold (\<lambda>x. IDTSetGate (g x) (b x) sel fl) xs s)) = length (idt_entries s)"
  using assms(1) by (induction xs arbitrary: s) (auto simp: gates_IDTSetGate assms(2))

lemma fold_gate_upt:
  "fold (\<lambda>n f. f(c + n \<mapsto> v n)) [0 ..< k] f = (\<lambda>m. if c \<le> m \<and> m < c + k then Some (v (m - c)) else f m)" for c :: nat
  by (induction k) (auto simp: fun_eq_iff)

lemma ports_folds [simp]:
  "idt_entries (fold (\<lambda>(p, v). Write8 p v) ws s) = idt_entries s"
  by (induction ws arbitrary: s) (auto simp: Write8_def)

definition expected_gates :: "stubs \<Rightarrow> nat \<Rightarrow> (u32 \<times> u16 \<times> u8) option" where
  "expected_gates A m =
     (if m = 128 then Some (isr A 128, 0x08, 0xEE)
      else if 32 \<le> m \<and> m < 48 then Some (irq A (m - 32), 0x08, 0x8E)
      else if m < 32 \<and> m \<noteq> 30 then Some (isr A m, 0x08, 0x8E)
      else None)"

lemma gates_InitIDT: "gates (InitIDT A s) = expected_gates A"
proof -
  let ?s0 = "fold (\<lambda>(p, v). Write8 p v) kPicWrites (s\<lparr>idt_ptr := (8 * 256 - 1, at_idt A), idt_entries := replicate 256 idt_zero\<rparr>)"
  let ?s1 = "fold (\<lambda>n. IDTSetGate (0 + n) (isr A n) 0x08 0x8E) [0 ..< 30] ?s0"
  let ?s2 = "IDTSetGate 31 (isr A 31) 0x08 0x8E (IDTSetGate 39 (isr A 30) 0x08 0x8E ?s1)"
  let ?s3 = "fold (\<lambda>n. IDTSetGate (32 + n) (irq A n) 0x08 0x8E) [0 ..< 16] ?s2"
  have g0: "gates ?s0 = (\<lambda>_. None)" "length (idt_entries ?s0) = 256"
    by (auto simp: gates_def gate_present_def idt_zero_def)
  have b7: "bit (0x8E :: u8) 7" "bit (0x8E OR kDPLUser) 7" by (simp_all add: kDPLUser_def bit_iff_odd)
  have g1: "gates ?s1 = (\<lambda>m. if 0 \<le> m \<and> m < 0 + 30 then Some (isr A (m - 0), 0x08, 0x8E) else None)" "length (idt_entries ?s1) = 256"
    using gates_fold[of "[0 ..< 30]" "\<lambda>n. 0 + n" ?s0 "0x8E" "isr A" "0x08"] fold_gate_upt[of 0 _ 30 "\<lambda>_. None"] g0 b7(1)
    by (simp_all del: upt_conv_Cons)
  have g2: "gates ?s2 = (gates ?s1)(39 \<mapsto> (isr A 30, 0x08, 0x8E), 31 \<mapsto> (isr A 31, 0x08, 0x8E))" "length (idt_entries ?s2) = 256"
    using g1(2) b7(1) by (simp_all add: gates_IDTSetGate del: upt_conv_Cons)
  have g3: "gates ?s3 = (\<lambda>m. if 32 \<le> m \<and> m < 32 + 16 then Some (irq A (m - 32), 0x08, 0x8E) else gates ?s2 m)" "length (idt_entries ?s3) = 256"
    using gates_fold[of "[0 ..< 16]" "\<lambda>n. 32 + n" ?s2 "0x8E" "irq A" "0x08"] fold_gate_upt[of 32 _ 16 "gates ?s2"] g2(2) b7(1)
    by (simp_all del: upt_conv_Cons)
  have "gates (InitIDT A s) = (gates ?s3)(128 \<mapsto> (isr A 128, 0x08, 0x8E OR kDPLUser))"
    using gates_IDTSetGate[of 128 ?s3 "0x8E OR kDPLUser"] g3(2) b7(2)
    by (simp add: InitIDT_def Let_def gates_loaded kIsrGates_def fold_map comp_def del: upt_conv_Cons)
  then show ?thesis unfolding g3(1) g2(1) g1(1) expected_gates_def by (auto simp: fun_eq_iff kDPLUser_def)
qed

lemma ports_IDTSetGate [simp]: "ports (IDTSetGate g b sel fl s) = ports s" "ports (GDTSetGate g b l a gr s) = ports s"
  by (simp_all add: IDTSetGate_def GDTSetGate_def)

lemma ports_fold_IDT [simp]: "ports (fold (\<lambda>x. IDTSetGate (g x) (b x) sel fl) xs s) = ports s"
  by (induction xs arbitrary: s) auto

lemma ports_fold_Write8: "ports (fold (\<lambda>(p, v). Write8 p v) ws s) = ports s @ ws"
  by (induction ws arbitrary: s) (auto simp: Write8_def)

lemma gdt_IDT [simp]: "gdt_entries (IDTSetGate g b sel fl s) = gdt_entries s" "tss_entry (IDTSetGate g b sel fl s) = tss_entry s"
  "tss_entry (GDTSetGate n b' l a gr s) = tss_entry s"
  by (simp_all add: IDTSetGate_def GDTSetGate_def)

lemma gdt_folds [simp]: "gdt_entries (fold (\<lambda>x. IDTSetGate (g x) (b x) sel fl) xs s) = gdt_entries s"
  "gdt_entries (fold (\<lambda>(p, v). Write8 p v) ws s) = gdt_entries s"
  "tss_entry (fold (\<lambda>x. IDTSetGate (g x) (b x) sel fl) xs s) = tss_entry s"
  "tss_entry (fold (\<lambda>(p, v). Write8 p v) ws s) = tss_entry s"
  by (induction xs arbitrary: s, auto) (induction ws arbitrary: s, auto simp: Write8_def)+

lemma InitIDT_keeps: "gdt_entries (InitIDT A s) = gdt_entries s" "tss_entry (InitIDT A s) = tss_entry s"
  "ports (InitIDT A s) = ports s @ kPicWrites"
  by (simp_all add: InitIDT_def Let_def case_prod_beta' ports_fold_Write8[unfolded case_prod_beta'] gdt_folds[unfolded case_prod_beta'])

text \<open>The segment a selector names, with what the processor reads there: base, limit, access byte.\<close>

definition segment :: "tables \<Rightarrow> u32 \<Rightarrow> u32 \<times> u32 \<times> u8" where
  "segment s sel = (let e = gdt_entries s ! unat (drop_bit 3 sel) in (seg_base e, seg_limit e, g_access e))"

lemma segment_GDTSetGate:
  "n < length (gdt_entries s) \<Longrightarrow> m < length (gdt_entries s) \<Longrightarrow>
     seg_base (gdt_entries (GDTSetGate n base limit acc gran s) ! m) = (if m = n then base else seg_base (gdt_entries s ! m))"
  by (simp add: GDTSetGate_def nth_list_update seg_base_def seg_base_split)


text \<open>A start-up state of the tables, arbitrary addresses, and an interrupt frame.\<close>

definition frame :: "u32 \<Rightarrow> x86_regs" where
  "frame n = \<lparr>x_ds = 0, x_edi = 0, x_esi = 0, x_ebp = 0, x_esp = 0, x_ebx = 0, x_edx = 0, x_ecx = 0, x_eax = 0,
     x_int_no = n, x_err_code = 0, x_eip = 0, x_cs = 0, x_eflags = 0, x_useresp = 0, x_ss = 0\<rparr>"

definition tables0 :: tables where
  "tables0 = \<lparr>gdt_entries = replicate 6 \<lparr>g_limit_low = 0, g_base_low = 0, g_base_middle = 0, g_access = 0, g_granularity = 0, g_base_high = 0\<rparr>,
     gdt_ptr = (0, 0), idt_entries = [], idt_ptr = (0, 0), tss_entry = tss_zero, ports = [], loaded = []\<rparr>"

definition stubs0 :: stubs where
  "stubs0 = \<lparr>at_gdt = 0x500000, at_gdt_ptr = 0x500100, at_idt = 0x500200, at_idt_ptr = 0x500A00, at_tss = 0x500B00,
     isr = (\<lambda>n. 0x400000 + of_nat n * 16), irq = (\<lambda>n. 0x410000 + of_nat n * 16)\<rparr>"


section \<open>Interrupt dispatch\<close>

text \<open>
  \<open>interrupt_handlers\<close> maps an interrupt to the function registered for it. What happens on an
  interrupt: the handler runs, or the user task is made to exit, or the kernel stops.
\<close>

datatype handler = HandlePageFault | RunTimerCallback | KeyboardCallback | SyscallHandler

datatype outcome = Run handler | ExitTask

type_synonym handlers = "u8 \<Rightarrow> handler option"

definition RegisterInterruptHandler :: "u8 \<Rightarrow> handler \<Rightarrow> handlers \<Rightarrow> handlers" where
  "RegisterInterruptHandler n h hs = hs(n := Some h)"

definition UnregisterInterruptHandler :: "u8 \<Rightarrow> handlers \<Rightarrow> handlers" where
  "UnregisterInterruptHandler n hs = hs(n := None)"

definition GetInterruptHandler :: "u8 \<Rightarrow> handlers \<Rightarrow> handler option" where
  "GetInterruptHandler n hs = hs n"

definition handler_at :: "handlers \<Rightarrow> u32 \<Rightarrow> handler option result" where
  "handler_at hs int_no = (if int_no < 256 then Inr (hs (ucast int_no)) else Inl (Undefined ''interrupt_handlers''))"

text \<open>\<open>user\<close> says whether there is a current task and it is a user task.\<close>

definition isr_handler :: "handlers \<Rightarrow> bool \<Rightarrow> bool \<Rightarrow> x86_regs \<Rightarrow> outcome result" where
  "isr_handler hs interrupts user R =
     assertE (\<not> interrupts) ''!InterruptsAreEnabled()'' (
     bindE (handler_at hs (x_int_no R)) (\<lambda>h.
     case h of Some f \<Rightarrow> Inr (Run f)
     | None \<Rightarrow> if user then Inr ExitTask else Inl (PanicError ''Unhandled interrupt!'')))"

definition irq_handler :: "handlers \<Rightarrow> bool \<Rightarrow> x86_regs \<Rightarrow> tables \<Rightarrow> (outcome \<times> tables) result" where
  "irq_handler hs interrupts R s =
     assertE (\<not> interrupts) ''!InterruptsAreEnabled()'' (
     let s = (if 40 \<le> x_int_no R then Write8 0xA0 0x20 s else s);
         s = Write8 0x20 0x20 s in
     bindE (handler_at hs (x_int_no R)) (\<lambda>h.
     case h of Some f \<Rightarrow> Inr (Run f, s) | None \<Rightarrow> Inl (PanicError ''Unhandled interrupt!'')))"

text \<open>The handlers that \<open>InitializePaging\<close>, \<open>InitTimer\<close> and \<open>InitializeSyscalls\<close> register during start-up.\<close>

definition kernel_handlers :: "handlers \<Rightarrow> handlers" where
  "kernel_handlers hs = RegisterInterruptHandler 0x80 SyscallHandler
     (RegisterInterruptHandler (ucast IRQ0) RunTimerCallback (RegisterInterruptHandler 14 HandlePageFault hs))"



end
