(* ===== verification/Vfs.thy ===== *)
theory Vfs
  imports CString
begin

text \<open>
  The virtual file system: \<^verbatim>\<open>utils/vfs.cpp\<close> and \<^verbatim>\<open>utils/include/vfs.h\<close>.

  A \<open>std::string\<close> is the list of its characters, none of them 0 (\<^verbatim>\<open>libcxx/include/string\<close>
  clamps every construction at the terminator). A node is a file or a directory that owns its
  nodes. A pointer to a node is a cursor: the list of indices that leads to it from the root.
  Nodes are only ever appended, so cursors stay valid, and the parent of a directory, set once
  by \<open>mkdir_once\<close> to the directory that owns it, is its cursor without the last index. The
  parent of a file is not always its directory and is a field of the model.
\<close>

section \<open>Strings and paths\<close>

type_synonym str = "u8 list"

definition kDirectory :: u8 where "kDirectory = 0x35"
definition kPathSeparator :: u8 where "kPathSeparator = 0x2F"

definition dot :: u8 where "dot = 0x2E"

text \<open>\<open>find\<close>: the position of the character, or the size for \<open>end()\<close>.\<close>

definition str_find :: "u8 \<Rightarrow> str \<Rightarrow> nat" where
  "str_find c s = length (takeWhile (\<lambda>x. x \<noteq> c) s)"

text \<open>The byte after the last character is 0, which is no space: the loop stops on the empty string.\<close>

fun InplaceLStrip :: "str \<Rightarrow> str" where
  "InplaceLStrip [] = []"
| "InplaceLStrip (c # s) = (if isspace c then InplaceLStrip s else c # s)"

text \<open>The loop does not test for the empty string: it would read the byte before the buffer.\<close>

function RStrip_loop :: "str \<Rightarrow> str result" where
  "RStrip_loop path =
     (if path = [] then Inl (Undefined ''end() - 1 of an empty string'')
      else if \<not> isspace (last path) then Inr path
      else RStrip_loop (butlast path))"
  by pat_completeness auto
termination by (relation "measure length") auto

declare RStrip_loop.simps [simp del]

definition InplaceRStrip :: "str \<Rightarrow> str result" where
  "InplaceRStrip path = (if path = [] then Inr path else RStrip_loop path)"

definition SplitHead :: "str \<Rightarrow> str \<times> str" where
  "SplitHead path =
     (if path \<noteq> [] \<and> path ! 0 = kPathSeparator then ([kPathSeparator], drop 1 path)
      else let sep = str_find kPathSeparator path in
        if sep \<noteq> length path then (take sep path, drop (sep + 1) path) else (path, []))"

definition SimplifyName :: "str \<Rightarrow> str result" where
  "SimplifyName name =
     bindE (InplaceRStrip (InplaceLStrip name)) (\<lambda>name.
     if name = [] then Inr name
     else if length name = 1 \<and> name ! 0 = dot then Inr name
     else
       let name = (if 2 \<le> length name \<and> name ! 0 = dot \<and> name ! 1 = kPathSeparator then drop 2 name else name);
           found_sep = str_find kPathSeparator name in
       if found_sep = length name then Inr name
       else if found_sep = 0 \<and> length name = 1 then Inr name
       else if found_sep = length name - 1 then Inr (take found_sep name)
       else Inr name)"

section \<open>Nodes\<close>

type_synonym cursor = "nat list"

datatype node =
    File str "u8 list" cursor
  | Directory str "node list"

fun getName :: "node \<Rightarrow> str" where
  "getName (File name contents parent) = name"
| "getName (Directory name nodes) = name"

fun is_dir :: "node \<Rightarrow> bool" where
  "is_dir (File name contents parent) = False"
| "is_dir (Directory name nodes) = True"

fun getNodes :: "node \<Rightarrow> node list" where
  "getNodes (File name contents parent) = []"
| "getNodes (Directory name nodes) = nodes"

fun getContents :: "node \<Rightarrow> u8 list" where
  "getContents (File name contents parent) = contents"
| "getContents (Directory name nodes) = []"

text \<open>The node a cursor points to, and the tree with that node replaced.\<close>

fun node_at :: "node \<Rightarrow> cursor \<Rightarrow> node option" where
  "node_at n [] = Some n"
| "node_at n (i # c) = (if i < length (getNodes n) then node_at (getNodes n ! i) c else None)"

fun upd_at :: "node \<Rightarrow> cursor \<Rightarrow> node \<Rightarrow> node" where
  "upd_at n [] x = x"
| "upd_at (Directory name nodes) (i # c) x = Directory name (nodes[i := upd_at (nodes ! i) c x])"
| "upd_at (File name contents parent) (i # c) x = File name contents parent"

text \<open>Dereferencing a cursor that leads nowhere does not happen in the source; it would be undefined.\<close>

definition deref :: "node \<Rightarrow> cursor \<Rightarrow> node result" where
  "deref root c = (case node_at root c of None \<Rightarrow> Inl (Undefined ''dangling node'') | Some n \<Rightarrow> Inr n)"

text \<open>\<open>rtti::cast<Directory>\<close> asserts the kind, \<open>rtti::dyn_cast_or_null\<close> gives a null pointer.\<close>

definition cast_Directory :: "node \<Rightarrow> cursor \<Rightarrow> cursor result" where
  "cast_Directory root c = bindE (deref root c) (\<lambda>n. assertE (is_dir n) ''Casting to invalid type.'' (Inr c))"

definition dyn_cast_or_null :: "(node \<Rightarrow> bool) \<Rightarrow> node \<Rightarrow> cursor option \<Rightarrow> cursor option result" where
  "dyn_cast_or_null classof root c =
     (case c of None \<Rightarrow> Inr None
      | Some c \<Rightarrow> bindE (deref root c) (\<lambda>n. Inr (if classof n then Some c else None)))"

function root_cursor :: "cursor \<Rightarrow> cursor" where
  "root_cursor c = (if c = [] then c else root_cursor (butlast c))"
  by pat_completeness auto
termination by (relation "measure length") auto

declare root_cursor.simps [simp del]

definition GetRootDir :: "node \<Rightarrow> cursor \<Rightarrow> cursor result" where
  "GetRootDir root c = cast_Directory root (root_cursor c)"

section \<open>Lookup\<close>

fun find_node :: "str \<Rightarrow> node list \<Rightarrow> nat \<Rightarrow> nat option result" where
  "find_node head [] i = Inr None"
| "find_node head (n # nodes) i =
     bindE (SimplifyName (getName n)) (\<lambda>simplified.
     if head = simplified then Inr (Some i) else find_node head nodes (i + 1))"

lemma bindE_cong [fundef_cong]:
  "m = m' \<Longrightarrow> (\<And>x. m' = Inr x \<Longrightarrow> f x = f' x) \<Longrightarrow> bindE m f = bindE m' f'"
  by (auto simp: bindE_def split: sum.splits)

lemma length_InplaceLStrip: "length (InplaceLStrip s) \<le> length s"
  by (induction s) auto

lemma length_RStrip_loop: "RStrip_loop s = Inr t \<Longrightarrow> length t \<le> length s"
proof (induction s rule: RStrip_loop.induct)
  case (1 path)
  then show ?case using RStrip_loop.simps[of path] by (fastforce split: if_splits)
qed

lemma length_SimplifyName: "SimplifyName s = Inr t \<Longrightarrow> length t \<le> length s"
  using length_InplaceLStrip[of s] length_RStrip_loop[of "InplaceLStrip s"]
  by (fastforce simp: SimplifyName_def InplaceRStrip_def Let_def bindE_Inr_iff split: if_splits)

lemma SplitHead_shorter:
  assumes "name \<noteq> []" "SplitHead name = (head, rest)"
  shows "length rest < length name" and "rest \<noteq> [] \<Longrightarrow> head \<noteq> [kPathSeparator] \<Longrightarrow> length head < length name"
  using assms length_takeWhile_le[of "\<lambda>x. x \<noteq> kPathSeparator" name]
  by (auto simp: SplitHead_def Let_def str_find_def split: if_splits)

function GetNodeImpl :: "node \<Rightarrow> cursor \<Rightarrow> str \<Rightarrow> cursor option result" where
  "GetNodeImpl root dir path =
     bindE (SimplifyName path) (\<lambda>name.
     if name = [] then Inr None
     else if name = [dot] then Inr (Some dir)
     else if name ! 0 = kPathSeparator \<and> length name = 1 then bindE (GetRootDir root dir) (\<lambda>c. Inr (Some c))
     else if fst (SplitHead name) = [kPathSeparator] then
       bindE (GetRootDir root dir) (\<lambda>c. GetNodeImpl root c (snd (SplitHead name)))
     else if snd (SplitHead name) = [] then
       bindE (deref root dir) (\<lambda>n.
       bindE (find_node (fst (SplitHead name)) (getNodes n) 0) (\<lambda>i.
       Inr (map_option (\<lambda>i. dir @ [i]) i)))
     else
       bindE (GetNodeImpl root dir (fst (SplitHead name))) (\<lambda>c.
       bindE (dyn_cast_or_null is_dir root c) (\<lambda>c.
       case c of None \<Rightarrow> Inr None | Some subdir \<Rightarrow> GetNodeImpl root subdir (snd (SplitHead name)))))"
  by pat_completeness auto
termination
  by (relation "measure (\<lambda>(root, dir, path). length path)")
    (auto dest!: length_SimplifyName intro!: less_le_trans[OF SplitHead_shorter(1)[OF _ surjective_pairing]]
       less_le_trans[OF SplitHead_shorter(2)[OF _ surjective_pairing]])

declare GetNodeImpl.simps [simp del]

definition getNode :: "node \<Rightarrow> cursor \<Rightarrow> str \<Rightarrow> cursor option result" where
  "getNode root dir path = GetNodeImpl root dir path"

definition getFile :: "node \<Rightarrow> cursor \<Rightarrow> str \<Rightarrow> cursor option result" where
  "getFile root dir path = bindE (GetNodeImpl root dir path) (dyn_cast_or_null (\<lambda>n. \<not> is_dir n) root)"

definition getDir :: "node \<Rightarrow> cursor \<Rightarrow> str \<Rightarrow> cursor option result" where
  "getDir root dir path = bindE (GetNodeImpl root dir path) (dyn_cast_or_null is_dir root)"

section \<open>Making directories and files\<close>

fun push_node :: "node \<Rightarrow> node \<Rightarrow> node" where
  "push_node (Directory name nodes) n = Directory name (nodes @ [n])"
| "push_node (File name contents parent) n = File name contents parent"

text \<open>The operations return the cursor of the node they make or find, and the tree.\<close>

definition mkdir_once :: "node \<Rightarrow> cursor \<Rightarrow> str \<Rightarrow> (cursor \<times> node) result" where
  "mkdir_once root dir path =
     bindE (SimplifyName path) (\<lambda>normalized_name.
     bindE (getNode root dir normalized_name) (\<lambda>node.
     case node of
       Some c \<Rightarrow> bindE (cast_Directory root c) (\<lambda>c. Inr (c, root))
     | None \<Rightarrow> bindE (deref root dir) (\<lambda>n.
         let root = upd_at root dir (push_node n (Directory normalized_name [])) in
         bindE (cast_Directory root (dir @ [length (getNodes n)])) (\<lambda>c. Inr (c, root)))))"

function mkdir_loop :: "node \<Rightarrow> cursor \<Rightarrow> str \<Rightarrow> (cursor \<times> node) result" where
  "mkdir_loop root current_dir path =
     (if path = [] then Inr (current_dir, root)
      else let sep = str_find kPathSeparator path in
        bindE (mkdir_once root current_dir (take (sep + 1) path)) (\<lambda>(c, root).
        mkdir_loop root c (drop (sep + 1) path)))"
  by pat_completeness auto
termination by (relation "measure (\<lambda>(root, dir, path). length path)") auto

declare mkdir_loop.simps [simp del]

definition mkdir :: "node \<Rightarrow> cursor \<Rightarrow> str \<Rightarrow> (cursor \<times> node) result" where
  "mkdir root dir name = bindE (SimplifyName name) (\<lambda>path. mkdir_loop root dir path)"

function mkfile_loop :: "node \<Rightarrow> cursor \<Rightarrow> str \<Rightarrow> (cursor \<times> str \<times> node) result" where
  "mkfile_loop root current_dir path =
     (let sep = str_find kPathSeparator path in
      if sep = length path then Inr (current_dir, path, root)
      else
        bindE (mkdir_once root current_dir (take (sep + 1) path)) (\<lambda>(c, root).
        mkfile_loop root c (drop (sep + 1) path)))"
  by pat_completeness auto
termination by (relation "measure (\<lambda>(root, dir, path). length path)") (auto simp: str_find_def intro!: diff_less)

declare mkfile_loop.simps [simp del]

definition mkfile :: "node \<Rightarrow> cursor \<Rightarrow> str \<Rightarrow> (cursor \<times> node) result" where
  "mkfile root dir name =
     bindE (SimplifyName name) (\<lambda>path.
     assertE (\<not> (path \<noteq> [] \<and> path ! 0 = kPathSeparator)) ''path[0] != kPathSeparator'' (
     bindE (mkfile_loop root dir path) (\<lambda>(current_dir, path, root).
     assertE (path \<noteq> []) ''Missing filename'' (
     bindE (deref root current_dir) (\<lambda>n.
     Inr (current_dir @ [length (getNodes n)], upd_at root current_dir (push_node n (File path [] dir))))))))"

text \<open>\<open>vector::resize\<close> only grows: the bytes of a longer file stay after the data.\<close>

fun File_Write :: "node \<Rightarrow> u8 list \<Rightarrow> node" where
  "File_Write (File name contents parent) data = File name (data @ drop (length data) contents) parent"
| "File_Write (Directory name nodes) data = Directory name nodes"

section \<open>Archives\<close>

definition kTarBlockSize :: nat where "kTarBlockSize = 512"

text \<open>The offsets of the fields of \<open>TarBlock\<close> that are read, and the size of \<open>size\<close>.\<close>

definition tar_name :: nat where "tar_name = 0"
definition tar_size :: nat where "tar_size = 124"
definition tar_size_len :: nat where "tar_size_len = 12"
definition tar_type :: nat where "tar_type = 156"
definition tar_ustar :: nat where "tar_ustar = 257"
definition tar_prefix :: nat where "tar_prefix = 345"

fun oct2bin_loop :: "mem \<Rightarrow> nat \<Rightarrow> nat \<Rightarrow> u32 \<Rightarrow> u32 result" where
  "oct2bin_loop m c 0 n = Inr n"
| "oct2bin_loop m c (Suc k) n =
     assertE (sint (m c) \<ge> 48) ''*c >= 0x30'' (oct2bin_loop m (c + 1) k (n * 8 + of_int (sint (m c) - 48)))"

definition oct2bin :: "mem \<Rightarrow> nat \<Rightarrow> nat \<Rightarrow> u32 result" where
  "oct2bin m str sz = oct2bin_loop m str sz 0"

definition IsZeroPage :: "mem \<Rightarrow> nat \<Rightarrow> bool" where
  "IsZeroPage m tar_page \<longleftrightarrow> list_all (\<lambda>i. m (tar_page + i) = 0) [0 ..< kTarBlockSize]"

text \<open>The \<open>std::string\<close> made from a pointer to characters.\<close>

definition string_at :: "mem \<Rightarrow> nat \<Rightarrow> str result" where
  "string_at m p = bindE (strlen m p) (\<lambda>n. Inr (map (\<lambda>i. m (p + i)) [0 ..< n]))"

definition getFullPath :: "str \<Rightarrow> str \<Rightarrow> str" where
  "getFullPath prefix name = prefix @ name"

text \<open>
  One round of the loop of \<open>IterateUSTAR\<close>. The callbacks get the prefix and the name (a file also its size
  and the address of its data) and the state that stands for \<open>arg\<close>, and say whether to go on. \<open>None\<close>
  as the next block means that the loop ends. \<open>magic\<close> is the address of the literal \<open>"ustar"\<close>.
\<close>

definition IterateUSTAR_round ::
  "nat \<Rightarrow> mem \<Rightarrow> (str \<Rightarrow> str \<Rightarrow> 's \<Rightarrow> (bool \<times> 's) result) \<Rightarrow> (str \<Rightarrow> str \<Rightarrow> u32 \<Rightarrow> nat \<Rightarrow> 's \<Rightarrow> (bool \<times> 's) result) \<Rightarrow>
   nat \<Rightarrow> 's \<Rightarrow> (nat option \<times> 's) result" where
  "IterateUSTAR_round magic m dircallback filecallback tar s =
     (if IsZeroPage m tar \<and> IsZeroPage m (tar + kTarBlockSize) then Inr (None, s)
      else
        assertE (memcmp m (tar + tar_ustar) magic 5 = 0) ''Expected UStar format'' (
        bindE (oct2bin m (tar + tar_size) (tar_size_len - 1)) (\<lambda>filesize.
        if m (tar + tar_type) = kDirectory then
          assertE (filesize = 0) ''A directory should have no file size.'' (
          bindE (string_at m (tar + tar_prefix)) (\<lambda>prefix.
          bindE (string_at m (tar + tar_name)) (\<lambda>name.
          bindE (dircallback prefix name s) (\<lambda>(continue, s).
          Inr (if continue then Some (tar + kTarBlockSize) else None, s)))))
        else
          assertE (filesize \<noteq> 0) ''filesize'' (
          let data = tar + kTarBlockSize;
              num_chunks = (if unat filesize mod kTarBlockSize \<noteq> 0 then unat filesize div kTarBlockSize + 1
                            else unat filesize div kTarBlockSize) in
          bindE (string_at m (tar + tar_prefix)) (\<lambda>prefix.
          bindE (string_at m (tar + tar_name)) (\<lambda>name.
          bindE (filecallback prefix name filesize data s) (\<lambda>(continue, s).
          Inr (if continue then Some (data + num_chunks * kTarBlockSize) else None, s))))))))"

partial_function (option) IterateUSTAR_loop ::
  "nat \<Rightarrow> mem \<Rightarrow> (str \<Rightarrow> str \<Rightarrow> 's \<Rightarrow> (bool \<times> 's) result) \<Rightarrow> (str \<Rightarrow> str \<Rightarrow> u32 \<Rightarrow> nat \<Rightarrow> 's \<Rightarrow> (bool \<times> 's) result) \<Rightarrow>
   nat \<Rightarrow> 's \<Rightarrow> 's result option" where
  "IterateUSTAR_loop magic m dircallback filecallback tar s =
     (case IterateUSTAR_round magic m dircallback filecallback tar s of
        Inl e \<Rightarrow> Some (Inl e)
      | Inr (next, s) \<Rightarrow>
          (case next of None \<Rightarrow> Some (Inr s)
           | Some tar \<Rightarrow> IterateUSTAR_loop magic m dircallback filecallback tar s))"

definition IterateUSTAR ::
  "nat \<Rightarrow> mem \<Rightarrow> (str \<Rightarrow> str \<Rightarrow> 's \<Rightarrow> (bool \<times> 's) result) \<Rightarrow> (str \<Rightarrow> str \<Rightarrow> u32 \<Rightarrow> nat \<Rightarrow> 's \<Rightarrow> (bool \<times> 's) result) \<Rightarrow>
   nat \<Rightarrow> 's \<Rightarrow> 's result" where
  "IterateUSTAR magic m dircallback filecallback archive s =
     bindE (terminates (IterateUSTAR_loop magic m dircallback filecallback archive s)) (\<lambda>r. r)"

definition parse_dircallback :: "str \<Rightarrow> str \<Rightarrow> node \<Rightarrow> (bool \<times> node) result" where
  "parse_dircallback prefix name root =
     bindE (mkdir root [] (getFullPath prefix name)) (\<lambda>(c, root). Inr (True, root))"

definition parse_filecallback :: "mem \<Rightarrow> str \<Rightarrow> str \<Rightarrow> u32 \<Rightarrow> nat \<Rightarrow> node \<Rightarrow> (bool \<times> node) result" where
  "parse_filecallback m prefix name sz data root =
     bindE (mkfile root [] (getFullPath prefix name)) (\<lambda>(c, root).
     bindE (deref root c) (\<lambda>file.
     Inr (True, upd_at root c (File_Write file (map (\<lambda>i. m (data + i)) [0 ..< unat sz])))))"

definition ParseUSTAR :: "nat \<Rightarrow> mem \<Rightarrow> nat \<Rightarrow> node result" where
  "ParseUSTAR magic m archive =
     IterateUSTAR magic m parse_dircallback (parse_filecallback m) archive (Directory [kPathSeparator] [])"

end
