(* ===== verification/VfsCorrect.thy ===== *)
theory VfsCorrect
  imports Vfs "HOL-Library.Sublist"
begin

text \<open>
  The file system as its users see it: a map from paths, lists of component names, to directories and
  file contents. \<open>getNode\<close> and its variants read this map, \<open>mkdir\<close> and \<open>mkfile\<close> extend it, and parsing an
  archive builds the map the archive describes.
\<close>

section \<open>Paths\<close>

abbreviation sep :: u8 where "sep \<equiv> kPathSeparator"

text \<open>Component names that \<open>SimplifyName\<close> leaves alone.\<close>

definition plain :: "str \<Rightarrow> bool" where
  "plain c \<longleftrightarrow> c \<noteq> [] \<and> sep \<notin> set c \<and> c \<noteq> [dot] \<and> \<not> isspace (hd c) \<and> \<not> isspace (last c)"

fun join :: "str list \<Rightarrow> str" where
  "join [] = []"
| "join (c # cs) = c @ (if cs = [] then [] else sep # join cs)"

text \<open>A path as it may be written: with a leading \<open>./\<close> and a trailing separator.\<close>

definition render :: "bool \<Rightarrow> str list \<Rightarrow> bool \<Rightarrow> str" where
  "render lead cs trail = (if lead then [dot, sep] else []) @ join cs @ (if trail then [sep] else [])"

lemma string_at_cstr: "cstr m p s \<Longrightarrow> string_at m p = Inr s"
  unfolding string_at_def strlen_ok bindE_simps by (auto simp: cstr_def intro!: nth_equalityI)

lemma isspace_sep [simp]: "\<not> isspace sep" "\<not> isspace dot"
  by (simp_all add: isspace_def kPathSeparator_def dot_def)

lemma dot_sep [simp]: "dot \<noteq> sep" "sep \<noteq> dot"
  by (simp_all add: kPathSeparator_def dot_def)

lemma LStrip_id: "\<not> isspace (hd s) \<Longrightarrow> InplaceLStrip s = s"
  by (cases s) auto

lemma RStrip_id: "s = [] \<or> \<not> isspace (last s) \<Longrightarrow> InplaceRStrip s = Inr s"
  using RStrip_loop.simps[of s] by (auto simp: InplaceRStrip_def)

lemma str_find_append: "c \<notin> set s \<Longrightarrow> str_find c (s @ c # t) = length s" "c \<notin> set s \<Longrightarrow> str_find c s = length s"
  by (induction s) (auto simp: str_find_def)

lemma join_ne [simp]: "plain c \<Longrightarrow> join (c # cs) \<noteq> []"
  by (auto simp: plain_def)

lemma hd_join: "plain c \<Longrightarrow> hd (join (c # cs) @ t) = hd c"
  by (auto simp: plain_def)

lemma last_join: "cs \<noteq> [] \<Longrightarrow> \<forall>c \<in> set cs. plain c \<Longrightarrow> join cs \<noteq> [] \<and> \<not> isspace (last (join cs))"
  by (induction cs) (auto simp: plain_def)

text \<open>What is left of a path after stripping and removing a leading \<open>./\<close>.\<close>

lemma Simplify_core:
  assumes "plain c" "\<not> isspace (last (c @ r))" "r = [] \<or> hd r = sep"
  shows "SimplifyName (c @ r) = Inr (if length r = 1 then c else c @ r)"
    and "SimplifyName (dot # sep # c @ r) = Inr (if length r = 1 then c else c @ r)"
proof -
  have c: "c \<noteq> []" "sep \<notin> set c" "\<not> isspace (hd c)" and nd: "c \<noteq> [dot]" using assms(1) by (auto simp: plain_def)
  have f: "str_find sep (c @ r) = length c" using assms(3) c(2) by (cases r) (auto simp: str_find_append)
  have n1: "\<not> (length (c @ r) = 1 \<and> (c @ r) ! 0 = dot)" using c(1) nd by (cases c) auto
  have n2: "\<not> (2 \<le> length (c @ r) \<and> (c @ r) ! 0 = dot \<and> (c @ r) ! 1 = sep)"
  proof (cases "length c = 1")
    case True
    then show ?thesis using nd by (cases c) auto
  next
    case False
    with c(1) have "1 < length c" by (cases c) auto
    then show ?thesis using c(2) by (metis nth_append nth_mem)
  qed
  define nm where "nm = c @ r"
  have l: "length c = length nm - 1 \<longleftrightarrow> length r = 1" "length c = length nm \<longleftrightarrow> r = []" "length c \<noteq> 0" "nm \<noteq> []" "take (length c) nm = c"
    using c(1) by (cases c; auto simp: nm_def)+
  note n = f[folded nm_def] n1[folded nm_def] n2[folded nm_def] assms(2)[folded nm_def]
  have tail: "(if str_find sep nm = length nm then Inr nm else if str_find sep nm = 0 \<and> length nm = 1 then Inr nm
      else if str_find sep nm = length nm - 1 then Inr (take (str_find sep nm) nm) else Inr nm) =
     (Inr (if length r = 1 then c else nm) :: str result)"
    unfolding n(1) using l by auto
  have h: "hd nm = hd c" using c(1) by (simp add: nm_def)
  have s: "InplaceRStrip (InplaceLStrip nm) = Inr nm" "InplaceRStrip (InplaceLStrip (dot # sep # nm)) = Inr (dot # sep # nm)"
    using n(4) c(3) h l(4) by (simp_all add: LStrip_id RStrip_id)
  show "SimplifyName (c @ r) = Inr (if length r = 1 then c else c @ r)"
    unfolding nm_def[symmetric] SimplifyName_def s bindE_simps if_not_P[OF n(2)] if_not_P[OF n(3)] if_not_P[OF l(4)] Let_def tail by (rule refl)
  have d: "2 \<le> length (dot # sep # nm) \<and> (dot # sep # nm) ! 0 = dot \<and> (dot # sep # nm) ! 1 = sep"
    "drop 2 (dot # sep # nm) = nm" "\<not> (length (dot # sep # nm) = 1 \<and> (dot # sep # nm) ! 0 = dot)" "dot # sep # nm \<noteq> []"
    by simp_all
  show "SimplifyName (dot # sep # c @ r) = Inr (if length r = 1 then c else c @ r)"
    unfolding nm_def[symmetric] SimplifyName_def s bindE_simps if_not_P[OF d(4)] if_not_P[OF d(3)] if_P[OF d(1)] d(2) Let_def tail by (rule refl)
qed

lemma Simplify_plain [simp]: "plain c \<Longrightarrow> SimplifyName c = Inr c"
  using Simplify_core(1)[of c "[]"] by (simp add: plain_def)

lemma Simplify_plain_sep [simp]: "plain c \<Longrightarrow> SimplifyName (c @ [sep]) = Inr c"
  using Simplify_core(1)[of c "[sep]"] by simp

lemma Simplify_render:
  assumes "\<forall>c \<in> set cs. plain c" "cs = [] \<longrightarrow> \<not> trail"
  shows "SimplifyName (render lead cs trail) = Inr (render False cs (trail \<and> length cs \<noteq> 1))"
proof (cases cs)
  case Nil
  have "InplaceLStrip [dot, sep] = [dot, sep]" "InplaceRStrip [dot, sep] = Inr [dot, sep]" "str_find sep [] = 0"
    by (auto intro: RStrip_id LStrip_id simp: str_find_def)
  then show ?thesis using Nil assms(2) by (cases lead) (auto simp: render_def SimplifyName_def InplaceRStrip_def Let_def str_find_def)
next
  case (Cons c ds)
  let ?r = "(if ds = [] then [] else sep # join ds) @ (if trail then [sep] else [])"
  have e: "render lead cs trail = (if lead then [dot, sep] else []) @ c @ ?r" "render False cs (trail \<and> length cs \<noteq> 1) = (if length ?r = 1 then c else c @ ?r)"
    using Cons assms(1) last_join[of ds] by (auto simp: render_def)
  have "\<not> isspace (last (c @ ?r))"
    using last_join[of ds] Cons assms(1) by (auto simp: plain_def)
  moreover have "?r = [] \<or> hd ?r = sep" by auto
  ultimately show ?thesis using Simplify_core[of c ?r] assms(1) Cons unfolding e by auto
qed

lemma Simplify_join: "\<forall>c \<in> set cs. plain c \<Longrightarrow> SimplifyName (join cs) = Inr (join cs)"
  using Simplify_render[of cs False False] by (simp add: render_def)

lemma SplitHead_join:
  assumes "plain c"
  shows "SplitHead (join (c # cs)) = (c, join cs)"
proof -
  have c: "c \<noteq> []" "sep \<notin> set c" "c ! 0 \<noteq> sep" using assms by (cases c; auto simp: plain_def)+
  then have "join (c # cs) ! 0 \<noteq> sep" by (simp add: nth_append)
  then show ?thesis using c by (simp add: SplitHead_def str_find_append)
qed

section \<open>Trees\<close>

text \<open>The first node with a name.\<close>

fun idx :: "str \<Rightarrow> node list \<Rightarrow> nat option" where
  "idx c [] = None"
| "idx c (n # ns) = (if getName n = c then Some 0 else map_option Suc (idx c ns))"

fun names_ok :: "node \<Rightarrow> bool" where
  "names_ok (File name contents parent) = True"
| "names_ok (Directory name nodes) = (\<forall>n \<in> set nodes. plain (getName n) \<and> names_ok n)"

lemma idx_bound: "idx c ns = Some i \<Longrightarrow> i < length ns \<and> getName (ns ! i) = c"
  by (induction ns arbitrary: i) (auto split: if_splits)

lemma idx_None: "idx c ns = None \<longleftrightarrow> (\<forall>n \<in> set ns. getName n \<noteq> c)"
  by (induction ns) auto

lemma idx_append: "idx c (ns @ ms) = (case idx c ns of Some i \<Rightarrow> Some i | None \<Rightarrow> map_option ((+) (length ns)) (idx c ms))"
  by (induction ns) (cases "idx c ms"; auto split: option.splits)+

lemma idx_update: "i < length ns \<Longrightarrow> getName x = getName (ns ! i) \<Longrightarrow> idx c (ns[i := x]) = idx c ns"
  by (induction ns arbitrary: i) (auto split: nat.splits)

lemma find_node_idx:
  "\<forall>n \<in> set ns. plain (getName n) \<Longrightarrow> find_node c ns k = Inr (map_option ((+) k) (idx c ns))"
  by (induction ns arbitrary: k) (auto split: option.splits simp: map_option_case)

lemma node_at_append: "node_at n (c @ d) = Option.bind (node_at n c) (\<lambda>x. node_at x d)"
  by (induction n c rule: node_at.induct) auto

lemma upd_at_append:
  "node_at n c = Some x \<Longrightarrow> upd_at n (c @ d) y = upd_at n c (upd_at x d y)"
proof (induction n c y arbitrary: x rule: upd_at.induct)
  case (3 name contents parent i c x)
  then show ?case by simp
qed (auto split: if_splits)

lemma node_at_upd_at: "node_at n c = Some x \<Longrightarrow> node_at (upd_at n c y) c = Some y"
proof (induction n c y arbitrary: x rule: upd_at.induct)
  case (3 name contents parent i c x)
  then show ?case by simp
qed (auto split: if_splits)

lemma upd_at_upd_at: "node_at n c = Some x \<Longrightarrow> upd_at (upd_at n c y) c z = upd_at n c z"
proof (induction n c y arbitrary: x rule: upd_at.induct)
  case (3 name contents parent i c x)
  then show ?case by simp
qed (auto split: if_splits)

lemma upd_at_same: "node_at n c = Some x \<Longrightarrow> upd_at n c x = n"
proof (induction n c x arbitrary: x rule: upd_at.induct)
  case (3 name contents parent i c x)
  then show ?case by simp
qed (auto split: if_splits)

lemma names_ok_node_at: "names_ok n \<Longrightarrow> node_at n c = Some x \<Longrightarrow> names_ok x"
proof (induction n c rule: node_at.induct)
  case (2 n i c)
  then show ?case by (cases n) (auto split: if_splits)
qed simp

lemma getName_upd_at: "node_at n c = Some x \<Longrightarrow> getName y = getName x \<Longrightarrow> getName (upd_at n c y) = getName n"
  by (induction n c y rule: upd_at.induct) auto

lemma names_ok_upd_at: "names_ok n \<Longrightarrow> node_at n c = Some x \<Longrightarrow> names_ok y \<Longrightarrow> getName y = getName x \<Longrightarrow> names_ok (upd_at n c y)"
proof (induction n c y rule: upd_at.induct)
  case (2 name nodes i c y)
  from 2(3) have i: "i < length nodes" "node_at (nodes ! i) c = Some x" by (auto split: if_splits)
  have "names_ok (upd_at (nodes ! i) c y)" "getName (upd_at (nodes ! i) c y) = getName (nodes ! i)"
    using 2 i getName_upd_at[OF i(2)] by auto
  then show ?case using 2(2) i(1) by (auto dest!: set_update_subset_insert[THEN subsetD])
qed auto

section \<open>The map of paths\<close>

datatype entry = D | F "u8 list"

fun entry_of :: "node \<Rightarrow> entry" where
  "entry_of (File name contents parent) = F contents"
| "entry_of (Directory name nodes) = D"

fun walk :: "node \<Rightarrow> str list \<Rightarrow> cursor option" where
  "walk n [] = Some []"
| "walk n (c # cs) = (case idx c (getNodes n) of None \<Rightarrow> None | Some i \<Rightarrow> map_option ((#) i) (walk (getNodes n ! i) cs))"

fun entry_at :: "node \<Rightarrow> str list \<Rightarrow> entry option" where
  "entry_at n [] = Some (entry_of n)"
| "entry_at n (c # cs) = (case idx c (getNodes n) of None \<Rightarrow> None | Some i \<Rightarrow> entry_at (getNodes n ! i) cs)"

lemma entry_at_walk: "entry_at n cs = (case walk n cs of None \<Rightarrow> None | Some c \<Rightarrow> map_option entry_of (node_at n c))"
  by (induction n cs rule: entry_at.induct) (auto split: option.splits dest: idx_bound)

lemma walk_node_at: "walk n cs = Some c \<Longrightarrow> \<exists>x. node_at n c = Some x"
  by (induction n cs arbitrary: c rule: walk.induct) (auto split: option.splits dest: idx_bound)

lemma deref_eq: "deref root d = Inr n \<longleftrightarrow> node_at root d = Some n"
  by (auto simp: deref_def split: option.splits)

lemma names_ok_plain: "names_ok n \<Longrightarrow> \<forall>x \<in> set (getNodes n). plain (getName x)"
  by (cases n) auto

lemma GetNodeImpl_plain:
  assumes "names_ok root" "node_at root d = Some n" "plain c"
  shows "GetNodeImpl root d c = Inr (map_option (\<lambda>i. d @ [i]) (idx c (getNodes n)))"
proof -
  have pl: "\<forall>x \<in> set (getNodes n). plain (getName x)" using names_ok_plain names_ok_node_at assms by blast
  have nz: "c \<noteq> []" "c \<noteq> [dot]" "c ! 0 \<noteq> sep" "c \<noteq> [sep]" using assms(3) by (cases c; auto simp: plain_def)+
  have sp: "SplitHead c = (c, [])" using SplitHead_join[OF assms(3), of "[]"] by simp
  show ?thesis
    by (subst GetNodeImpl.simps)
      (simp add: assms(3) nz sp deref_def assms(2) find_node_idx[OF pl] option.map_comp comp_def)
qed

lemma is_dir_walk: "\<not> is_dir n \<Longrightarrow> walk n (c # cs) = None"
  by (cases n) auto

lemma GetNodeImpl_join:
  assumes "names_ok root" "cs \<noteq> []" "\<forall>c \<in> set cs. plain c" "node_at root d = Some n"
  shows "GetNodeImpl root d (join cs) = Inr (map_option (append d) (walk n cs))"
  using assms(2-)
proof (induction cs arbitrary: d n)
  case Nil
  then show ?case by simp
next
  case (Cons c cs)
  then have c: "plain c" by simp
  show ?case
  proof (cases "cs = []")
    case True
    then show ?thesis using GetNodeImpl_plain[OF assms(1) Cons.prems(3) c] by (simp split: option.splits add: map_option_case)
  next
    case False
    have j: "join (c # cs) \<noteq> []" "join (c # cs) \<noteq> [dot]" "\<not> (join (c # cs) ! 0 = sep \<and> length (join (c # cs)) = 1)"
      "c \<noteq> [sep]" "join cs \<noteq> []"
      using c False last_join[of cs] Cons.prems by (auto simp: plain_def length_Suc_conv append_eq_Cons_conv)
    have "GetNodeImpl root d (join (c # cs)) =
       bindE (GetNodeImpl root d c) (\<lambda>s. bindE (dyn_cast_or_null is_dir root s) (\<lambda>s.
         case s of None \<Rightarrow> Inr None | Some sub \<Rightarrow> GetNodeImpl root sub (join cs)))"
      by (subst GetNodeImpl.simps, subst Simplify_join[OF Cons.prems(2)], unfold bindE_simps SplitHead_join[OF c] fst_conv snd_conv)
         (use j in \<open>auto simp del: join.simps\<close>)
    also have "\<dots> = Inr (map_option (append d) (walk n (c # cs)))"
    proof (cases "idx c (getNodes n)")
      case None
      then show ?thesis by (simp add: GetNodeImpl_plain[OF assms(1) Cons.prems(3) c] dyn_cast_or_null_def)
    next
      case (Some i)
      let ?x = "getNodes n ! i"
      have x: "node_at root (d @ [i]) = Some ?x" using idx_bound[OF Some] Cons.prems(3) by (simp add: node_at_append)
      then have "deref root (d @ [i]) = Inr ?x" by (simp add: deref_eq)
      moreover have "walk ?x cs = None" if "\<not> is_dir ?x" using that is_dir_walk False by (cases cs) auto
      ultimately show ?thesis using Cons.IH[OF False _ x] Cons.prems(2) Some
        by (cases "is_dir ?x") (auto simp: GetNodeImpl_plain[OF assms(1) Cons.prems(3) c] dyn_cast_or_null_def option.map_comp comp_def)
    qed
    finally show ?thesis .
  qed
qed

section \<open>Making nodes\<close>

text \<open>
  The tree with the directories of a path made and \<open>g\<close> applied to the last one, the cursor of that
  directory, and the directory before \<open>g\<close>.
\<close>

fun mk :: "(node \<Rightarrow> node) \<Rightarrow> node \<Rightarrow> str list \<Rightarrow> node" where
  "mk g n [] = g n"
| "mk g n (c # cs) = Directory (getName n)
     (case idx c (getNodes n) of
        Some i \<Rightarrow> (getNodes n)[i := mk g (getNodes n ! i) cs]
      | None \<Rightarrow> getNodes n @ [mk g (Directory c []) cs])"

fun mk_cur :: "node \<Rightarrow> str list \<Rightarrow> cursor" where
  "mk_cur n [] = []"
| "mk_cur n (c # cs) =
     (case idx c (getNodes n) of
        Some i \<Rightarrow> i # mk_cur (getNodes n ! i) cs
      | None \<Rightarrow> length (getNodes n) # mk_cur (Directory c []) cs)"

fun target :: "node \<Rightarrow> str list \<Rightarrow> node" where
  "target n [] = n"
| "target n (c # cs) =
     (case idx c (getNodes n) of Some i \<Rightarrow> target (getNodes n ! i) cs | None \<Rightarrow> target (Directory c []) cs)"

text \<open>No file is in the way.\<close>

fun dirs_ok :: "node \<Rightarrow> str list \<Rightarrow> bool" where
  "dirs_ok n [] = is_dir n"
| "dirs_ok n (c # cs) = (is_dir n \<and> (case idx c (getNodes n) of Some i \<Rightarrow> dirs_ok (getNodes n ! i) cs | None \<Rightarrow> True))"

lemma dirs_ok_new: "dirs_ok (Directory c []) cs"
  by (cases cs) auto

lemma dirs_ok_is_dir: "dirs_ok n cs \<Longrightarrow> is_dir n"
  by (cases cs) auto

lemma is_dir_eq: "is_dir n \<Longrightarrow> Directory (getName n) (getNodes n) = n"
  by (cases n) auto

lemma dirs_ok_entries: "(\<forall>q. prefix q cs \<longrightarrow> entry_at n q = None \<or> entry_at n q = Some D) \<Longrightarrow> dirs_ok n cs"
proof (induction n cs rule: dirs_ok.induct)
  case (1 n)
  then show ?case by (cases n) auto
next
  case (2 n c cs)
  from 2(2)[rule_format, of "[]"] have "is_dir n" by (cases n) auto
  moreover have "dirs_ok (getNodes n ! i) cs" if "idx c (getNodes n) = Some i" for i
    using 2(1)[OF that] 2(2)[rule_format, of "c # _"] that by auto
  ultimately show ?case by (auto split: option.splits)
qed

lemma getName_mk: "(\<And>m. getName (g m) = getName m) \<Longrightarrow> getName (mk g n cs) = getName n"
  by (cases cs) auto

lemma names_ok_mk:
  assumes "names_ok n" "\<forall>c \<in> set cs. plain c" "\<And>m. getName (g m) = getName m" "names_ok (g (target n cs))"
  shows "names_ok (mk g n cs)"
  using assms(1,2,4)
proof (induction n cs rule: target.induct)
  case (2 n c cs)
  have n: "\<forall>x \<in> set (getNodes n). plain (getName x) \<and> names_ok x" using 2(3) by (cases n) auto
  show ?case
  proof (cases "idx c (getNodes n)")
    case None
    then have "names_ok (mk g (Directory c []) cs)" using 2 by simp
    then show ?thesis using n None 2(4) by (auto simp: getName_mk assms(3))
  next
    case (Some i)
    then have "names_ok (mk g (getNodes n ! i) cs)" using 2 n idx_bound[OF Some] by auto
    then show ?thesis using n Some idx_bound[OF Some] by (auto simp: getName_mk assms(3) dest!: set_update_subset_insert[THEN subsetD])
  qed
qed auto

lemma upd_at_mk: "upd_at (mk g n cs) (mk_cur n cs) x = mk (\<lambda>_. x) n cs"
proof (induction n cs rule: target.induct)
  case (2 n c cs)
  then show ?case by (cases "idx c (getNodes n)") (simp_all add: idx_bound[of c])
qed simp

lemma node_at_mk: "node_at (mk g n cs) (mk_cur n cs) = Some (g (target n cs))"
  by (induction n cs rule: target.induct) (auto split: option.splits dest: idx_bound)

lemma walk_mk: "walk (mk (\<lambda>m. m) n cs) cs = Some (mk_cur n cs)"
proof (induction n cs rule: target.induct)
  case (2 n c cs)
  have nm: "getName (mk (\<lambda>m. m) x cs) = getName x" for x by (rule getName_mk) simp
  show ?case
  proof (cases "idx c (getNodes n)")
    case None
    then show ?thesis using 2(1)[OF None] by (simp add: idx_append nm)
  next
    case (Some i)
    then show ?thesis using 2(2)[OF Some] idx_bound[OF Some] by (simp add: idx_update nm)
  qed
qed simp

lemma mk_const: "mk (\<lambda>_. g (target n cs)) n cs = mk g n cs"
  by (induction n cs rule: target.induct) (auto split: option.splits)

lemma target_is_dir: "dirs_ok n cs \<Longrightarrow> is_dir (target n cs)"
  by (induction n cs rule: target.induct) (auto split: option.splits simp: dirs_ok_new)

lemma names_ok_target: "names_ok n \<Longrightarrow> names_ok (target n cs)"
proof (induction n cs rule: target.induct)
  case (2 n c cs)
  have "names_ok (getNodes n ! i)" if "idx c (getNodes n) = Some i" for i
    using 2(3) idx_bound[OF that] by (cases n) auto
  then show ?case using 2 by (auto split: option.splits)
qed simp

text \<open>The map of paths of the tree that is made.\<close>

lemma entry_at_mk:
  assumes "\<And>m. getName (g m) = getName m"
  shows "entry_at (mk g n cs) p =
    (if prefix cs p then entry_at (g (target n cs)) (drop (length cs) p)
     else if prefix p cs then Some D else entry_at n p)"
proof (induction n cs arbitrary: p rule: target.induct)
  case (1 n)
  then show ?case by simp
next
  case (2 n c cs)
  show ?case
  proof (cases p)
    case Nil
    then show ?thesis by simp
  next
    case (Cons a q)
    let ?ns = "getNodes n"
    show ?thesis
    proof (cases "idx c ?ns")
      case None
      have "idx a (?ns @ [mk g (Directory c []) cs]) = (if a = c then Some (length ?ns) else idx a ?ns)"
        using None by (auto simp: idx_append getName_mk assms split: option.splits)
      moreover have "entry_at (Directory c []) q = None" if "\<not> prefix q cs" using that by (cases q) auto
      ultimately show ?thesis using 2(1)[OF None, of q] None Cons
        by (auto simp: nth_append split: option.splits dest: idx_bound)
    next
      case (Some i)
      have "idx a (?ns[i := mk g (?ns ! i) cs]) = idx a ?ns"
        using idx_bound[OF Some] by (intro idx_update) (auto simp: getName_mk assms)
      then show ?thesis using 2(2)[OF Some, of q] Some Cons idx_bound[OF Some]
        by (auto simp: nth_list_update split: option.splits dest: idx_bound)
    qed
  qed
qed

lemma entry_at_target: "dirs_ok n cs \<Longrightarrow> entry_at (target n cs) p = (if p = [] then Some D else entry_at n (cs @ p))"
proof (induction n cs rule: target.induct)
  case (1 n)
  then show ?case by (cases n) auto
next
  case (2 n c cs)
  have "entry_at (Directory c []) (cs @ p) = None" if "cs @ p \<noteq> []" using that by (cases "cs @ p") auto
  then show ?case using 2 by (auto simp: dirs_ok_new split: option.splits)
qed

lemma mkdir_once_plain:
  assumes "names_ok root" "node_at root d = Some n" "plain c" "is_dir n" "SimplifyName path = Inr c"
    "\<And>i. idx c (getNodes n) = Some i \<Longrightarrow> is_dir (getNodes n ! i)"
  shows "mkdir_once root d path =
    (case idx c (getNodes n) of
       Some i \<Rightarrow> Inr (d @ [i], root)
     | None \<Rightarrow> Inr (d @ [length (getNodes n)], upd_at root d (Directory (getName n) (getNodes n @ [Directory c []]))))"
proof (cases "idx c (getNodes n)")
  case None
  have p: "push_node n x = Directory (getName n) (getNodes n @ [x])" for x using assms(4) by (cases n) auto
  let ?r = "upd_at root d (Directory (getName n) (getNodes n @ [Directory c []]))"
  have "node_at ?r (d @ [length (getNodes n)]) = Some (Directory c [])"
    using assms(2) by (simp add: node_at_append node_at_upd_at)
  then show ?thesis using None assms(2,5) GetNodeImpl_plain[OF assms(1-3)]
    by (simp add: mkdir_once_def getNode_def deref_def p cast_Directory_def Let_def)
next
  case (Some i)
  have "node_at root (d @ [i]) = Some (getNodes n ! i)" using idx_bound[OF Some] assms(2) by (simp add: node_at_append)
  then show ?thesis using Some assms(5) assms(6)[OF Some] GetNodeImpl_plain[OF assms(1-3)]
    by (simp add: mkdir_once_def getNode_def cast_Directory_def deref_def)
qed

text \<open>One round of the two loops: the first component is made, the rest follows in the directory made.\<close>

lemma mk_round:
  assumes "names_ok root" "node_at root d = Some n" "plain c" "dirs_ok n (c # cs)" "SimplifyName path = Inr c"
    "\<forall>c \<in> set cs. plain c"
  obtains d' root' n' where "mkdir_once root d path = Inr (d', root')" "names_ok root'" "node_at root' d' = Some n'"
    "dirs_ok n' cs" "d' @ mk_cur n' cs = d @ mk_cur n (c # cs)"
    "upd_at root' d' (mk (\<lambda>m. m) n' cs) = upd_at root d (mk (\<lambda>m. m) n (c # cs))"
proof (cases "idx c (getNodes n)")
  case None
  let ?m = "Directory (getName n) (getNodes n @ [Directory c []])"
  have nd: "is_dir n" using assms(4) by simp
  have nn: "names_ok ?m" using names_ok_node_at[OF assms(1,2)] assms(3) by (cases n) auto
  show thesis
  proof (rule that)
    show "mkdir_once root d path = Inr (d @ [length (getNodes n)], upd_at root d ?m)"
      using mkdir_once_plain[OF assms(1-3) nd assms(5)] None by simp
    show "names_ok (upd_at root d ?m)" using names_ok_upd_at[OF assms(1,2) nn] by simp
    show "node_at (upd_at root d ?m) (d @ [length (getNodes n)]) = Some (Directory c [])"
      using assms(2) by (simp add: node_at_append node_at_upd_at)
    show "dirs_ok (Directory c []) cs" by (rule dirs_ok_new)
    show "(d @ [length (getNodes n)]) @ mk_cur (Directory c []) cs = d @ mk_cur n (c # cs)" using None by simp
    show "upd_at (upd_at root d ?m) (d @ [length (getNodes n)]) (mk (\<lambda>m. m) (Directory c []) cs) = upd_at root d (mk (\<lambda>m. m) n (c # cs))"
      using upd_at_append[OF node_at_upd_at[OF assms(2)], of ?m "[length (getNodes n)]"] None
      by (simp add: upd_at_upd_at[OF assms(2)])
  qed
next
  case (Some i)
  have nd: "is_dir n" "dirs_ok (getNodes n ! i) cs" using assms(4) Some by auto
  have dir: "is_dir (getNodes n ! j)" if "idx c (getNodes n) = Some j" for j using that nd(2) Some dirs_ok_is_dir by auto
  have x: "node_at root (d @ [i]) = Some (getNodes n ! i)" using idx_bound[OF Some] assms(2) by (simp add: node_at_append)
  show thesis
  proof (rule that)
    show "mkdir_once root d path = Inr (d @ [i], root)"
      using mkdir_once_plain[OF assms(1-3) nd(1) assms(5) dir] Some by simp
    show "upd_at root (d @ [i]) (mk (\<lambda>m. m) (getNodes n ! i) cs) = upd_at root d (mk (\<lambda>m. m) n (c # cs))"
      using upd_at_append[OF assms(2), of "[i]"] Some nd(1) by (cases n) auto
  qed (use assms(1) x nd(2) Some in auto)
qed


lemma mkdir_loop_join:
  assumes "names_ok root" "node_at root d = Some n" "\<forall>c \<in> set cs. plain c" "dirs_ok n cs" "t = [] \<or> t = [sep]" "cs = [] \<longrightarrow> t = []"
  shows "mkdir_loop root d (join cs @ t) = Inr (d @ mk_cur n cs, upd_at root d (mk (\<lambda>m. m) n cs))"
  using assms
proof (induction cs arbitrary: root d n)
  case Nil
  then show ?case by (subst mkdir_loop.simps) (simp add: upd_at_same)
next
  case (Cons c cs)
  have c: "plain c" "\<forall>c \<in> set cs. plain c" using Cons.prems(3) by auto
  let ?p = "join (c # cs) @ t" and ?k = "str_find sep (join (c # cs) @ t)"
  let ?r = "if cs = [] then t else sep # join cs @ t"
  have e: "?p = c @ ?r" by simp
  have k: "?k = length c" unfolding e using c(1) Cons.prems(5) by (auto simp: plain_def str_find_append)
  have "SimplifyName (c @ take 1 ?r) = Inr c" using c(1) Cons.prems(5) by (cases "?r = []") auto
  then have p: "?p \<noteq> []" "SimplifyName (take (?k + 1) ?p) = Inr c" "drop (?k + 1) ?p = join cs @ (if cs = [] then [] else t)"
    unfolding k unfolding e using Cons.prems(5) c(1) by (auto simp: plain_def)
  obtain d' root' n' where r: "mkdir_once root d (take (?k + 1) ?p) = Inr (d', root')" "names_ok root'" "node_at root' d' = Some n'"
      "dirs_ok n' cs" "d' @ mk_cur n' cs = d @ mk_cur n (c # cs)" "upd_at root' d' (mk (\<lambda>m. m) n' cs) = upd_at root d (mk (\<lambda>m. m) n (c # cs))"
    using mk_round[OF Cons.prems(1,2) c(1) Cons.prems(4) p(2) c(2)] by blast
  have "mkdir_loop root' d' (join cs @ (if cs = [] then [] else t)) = Inr (d @ mk_cur n (c # cs), upd_at root d (mk (\<lambda>m. m) n (c # cs)))"
  proof (cases "cs = []")
    case True
    then show ?thesis using r(3,5,6) by (subst mkdir_loop.simps) (simp add: upd_at_same)
  next
    case False
    then show ?thesis using Cons.IH[OF r(2,3) c(2) r(4) Cons.prems(5)] unfolding r(5,6) by auto
  qed
  then show ?case by (subst mkdir_loop.simps) (simp only: p(1,3) r(1) Let_def bindE_simps prod.case if_False)
qed

lemma mkfile_loop_join:
  assumes "names_ok root" "node_at root d = Some n" "\<forall>c \<in> set cs. plain c" "dirs_ok n cs" "plain f"
  shows "mkfile_loop root d (join (cs @ [f])) = Inr (d @ mk_cur n cs, f, upd_at root d (mk (\<lambda>m. m) n cs))"
  using assms
proof (induction cs arbitrary: root d n)
  case Nil
  then show ?case by (subst mkfile_loop.simps) (simp add: upd_at_same str_find_append plain_def)
next
  case (Cons c cs)
  have c: "plain c" "\<forall>c \<in> set cs. plain c" "sep \<notin> set c" using Cons.prems(3) by (auto simp: plain_def)
  let ?p = "join ((c # cs) @ [f])"
  have p: "str_find sep ?p = length c" "length c \<noteq> length ?p" "take (length c + 1) ?p = c @ [sep]" "drop (length c + 1) ?p = join (cs @ [f])"
    using c by (auto simp: str_find_append)
  obtain d' root' n' where r: "mkdir_once root d (take (length c + 1) ?p) = Inr (d', root')" "names_ok root'" "node_at root' d' = Some n'"
      "dirs_ok n' cs" "d' @ mk_cur n' cs = d @ mk_cur n (c # cs)" "upd_at root' d' (mk (\<lambda>m. m) n' cs) = upd_at root d (mk (\<lambda>m. m) n (c # cs))"
    using mk_round[OF Cons.prems(1,2) c(1) Cons.prems(4) Simplify_plain_sep[OF c(1)] c(2)] unfolding p(3) by blast
  show ?case using Cons.IH[OF r(2,3) c(2) r(4) Cons.prems(5)] r(5,6)
    by (subst mkfile_loop.simps) (simp only: p r(1)[unfolded p(3)] Let_def bindE_simps prod.case if_False)
qed

section \<open>The operations on the map of paths\<close>

type_synonym fs = "str list \<Rightarrow> entry option"

definition fs_mkdir :: "str list \<Rightarrow> fs \<Rightarrow> fs" where
  "fs_mkdir cs fs = (\<lambda>p. if prefix p cs then Some D else fs p)"

definition fs_mkfile :: "str list \<Rightarrow> u8 list \<Rightarrow> fs \<Rightarrow> fs" where
  "fs_mkfile cs data fs = (\<lambda>p. if p = cs then Some (F data) else if prefix p cs then Some D else fs p)"

definition no_file_on :: "str list \<Rightarrow> fs \<Rightarrow> bool" where
  "no_file_on cs fs \<longleftrightarrow> list_all (\<lambda>q. fs q = None \<or> fs q = Some D) (prefixes cs)"

lemma no_file_on_dirs_ok: "no_file_on cs (entry_at n) \<Longrightarrow> dirs_ok n cs"
  by (rule dirs_ok_entries) (simp add: no_file_on_def list_all_iff)

lemma mkdir_spec:
  assumes "names_ok root" "\<forall>c \<in> set cs. plain c" "no_file_on cs (entry_at root)" "cs = [] \<longrightarrow> \<not> trail"
  shows "mkdir root [] (render lead cs trail) = Inr (mk_cur root cs, mk (\<lambda>m. m) root cs)"
    and "names_ok (mk (\<lambda>m. m) root cs)" and "entry_at (mk (\<lambda>m. m) root cs) = fs_mkdir cs (entry_at root)"
    and "is_dir (mk (\<lambda>m. m) root cs)" and "node_at (mk (\<lambda>m. m) root cs) (mk_cur root cs) = Some (target root cs)"
proof -
  have d: "dirs_ok root cs" by (rule no_file_on_dirs_ok[OF assms(3)])
  let ?t = "if trail \<and> length cs \<noteq> 1 then [sep] else []"
  have "mkdir_loop root [] (join cs @ ?t) = Inr ([] @ mk_cur root cs, upd_at root [] (mk (\<lambda>m. m) root cs))"
    using assms(4) by (intro mkdir_loop_join[OF assms(1) _ assms(2) d]) auto
  then show "mkdir root [] (render lead cs trail) = Inr (mk_cur root cs, mk (\<lambda>m. m) root cs)"
    using Simplify_render[OF assms(2,4), of lead] by (simp add: mkdir_def render_def)
  show "names_ok (mk (\<lambda>m. m) root cs)" using names_ok_target[OF assms(1)] by (intro names_ok_mk[OF assms(1,2)]) auto
  show "entry_at (mk (\<lambda>m. m) root cs) = fs_mkdir cs (entry_at root)"
    by (auto simp: fun_eq_iff entry_at_mk fs_mkdir_def entry_at_target[OF d] elim!: prefixE)
  show "is_dir (mk (\<lambda>m. m) root cs)" using d by (cases cs) auto
  show "node_at (mk (\<lambda>m. m) root cs) (mk_cur root cs) = Some (target root cs)" by (simp add: node_at_mk)
qed


lemma fs_mkfile_entries:
  assumes "dirs_ok n ds" "entry_at n (ds @ [f]) = None"
  shows "entry_at (mk (\<lambda>m. push_node m (File f data par)) n ds) = fs_mkfile (ds @ [f]) data (entry_at n)"
proof
  fix p
  let ?g = "\<lambda>m. push_node m (File f data par)"
  have nm: "getName (?g m) = getName m" for m by (cases m) auto
  let ?m = "target n ds"
  have m: "is_dir ?m" by (rule target_is_dir[OF assms(1)])
  have fr: "idx f (getNodes ?m) = None" using assms(2) entry_at_target[OF assms(1), of "[f]"] by (auto split: option.splits)
  have g: "entry_at (?g ?m) q = (if q = [f] then Some (F data) else entry_at ?m q)" for q
  proof (cases q)
    case Nil
    then show ?thesis using m by (cases ?m) auto
  next
    case (Cons a r)
    have "getNodes (?g ?m) = getNodes ?m @ [File f data par]" using m by (cases ?m) auto
    then show ?thesis using Cons fr by (cases r) (auto simp: idx_append nth_append split: option.splits dest: idx_bound)
  qed
  show "entry_at (mk ?g n ds) p = fs_mkfile (ds @ [f]) data (entry_at n) p"
    by (auto simp: entry_at_mk[OF nm] g fs_mkfile_def entry_at_target[OF assms(1)] prefix_snoc elim!: prefixE simp del: entry_at.simps)
qed

lemma mkfile_spec:
  assumes "names_ok root" "\<forall>c \<in> set (ds @ [f]). plain c" "no_file_on ds (entry_at root)" "entry_at root (ds @ [f]) = None"
  defines "c \<equiv> mk_cur root ds @ [length (getNodes (target root ds))]"
  shows "mkfile root [] (render lead (ds @ [f]) False) = Inr (c, mk (\<lambda>m. push_node m (File f [] [])) root ds)"
    and "node_at (mk (\<lambda>m. push_node m (File f data [])) root ds) c = Some (File f data [])"
    and "upd_at (mk (\<lambda>m. push_node m (File f data [])) root ds) c (File f data' []) = mk (\<lambda>m. push_node m (File f data' [])) root ds"
    and "names_ok (mk (\<lambda>m. push_node m (File f data [])) root ds)"
    and "entry_at (mk (\<lambda>m. push_node m (File f data [])) root ds) = fs_mkfile (ds @ [f]) data (entry_at root)"
proof -
  let ?g = "\<lambda>data m. push_node m (File f data [])"
  have d: "dirs_ok root ds" by (rule no_file_on_dirs_ok[OF assms(3)])
  have pl: "\<forall>c \<in> set ds. plain c" "plain f" using assms(2) by auto
  have m: "is_dir (target root ds)" by (rule target_is_dir[OF d])
  have jn: "join (ds @ [f]) \<noteq> []" "hd (join (ds @ [f])) \<noteq> sep"
    using pl by (cases ds; auto simp: plain_def; metis hd_append2 list.set_sel(1))+
  have "mkfile_loop root [] (join (ds @ [f])) = Inr (mk_cur root ds, f, mk (\<lambda>m. m) root ds)"
    using mkfile_loop_join[OF assms(1) _ pl(1) d pl(2)] by simp
  then show "mkfile root [] (render lead (ds @ [f]) False) = Inr (c, mk (?g []) root ds)"
    using Simplify_render[OF assms(2), of False lead] jn pl(2) mk_const[of "?g []" root ds]
    by (simp add: mkfile_def render_def hd_conv_nth deref_def node_at_mk c_def upd_at_mk plain_def)
  have l: "node_at (?g data (target root ds)) [length (getNodes (target root ds))] = Some (File f data [])" for data
    using m by (cases "target root ds") auto
  then show "node_at (mk (?g data) root ds) c = Some (File f data [])" by (simp add: c_def node_at_append node_at_mk)
  have "upd_at (?g data (target root ds)) [length (getNodes (target root ds))] (File f data' []) = ?g data' (target root ds)"
    using m by (cases "target root ds") auto
  then show "upd_at (mk (?g data) root ds) c (File f data' []) = mk (?g data') root ds"
    using upd_at_append[OF node_at_mk[of "?g data" root ds]] mk_const[of "?g data'" root ds] by (simp add: c_def upd_at_mk)
  have "getName (?g data m) = getName m" for m by (cases m) auto
  moreover have "names_ok (?g data (target root ds))" using names_ok_target[OF assms(1), of ds] pl(2) by (cases "target root ds") auto
  ultimately show "names_ok (mk (?g data) root ds)" by (intro names_ok_mk[OF assms(1) pl(1)]) auto
  show "entry_at (mk (?g data) root ds) = fs_mkfile (ds @ [f]) data (entry_at root)"
    by (rule fs_mkfile_entries[OF d assms(4)])
qed

end
