(* ===== verification/VfsProperties.thy ===== *)
theory VfsProperties
  imports VfsCorrect
begin

text \<open>
  What the users of the file system rely on: lookups read the map of paths, making a directory extends
  it, and \<open>ParseUSTAR\<close> of an archive ends and returns the tree the archive describes. The last rests on a
  contract between \<open>IterateUSTAR\<close> and its callbacks, the locale \<open>ustar_client\<close>.
\<close>

section \<open>Lookups\<close>

text \<open>What the callers of \<open>getFile\<close> read through the pointer they get.\<close>

definition read_file :: "node \<Rightarrow> str \<Rightarrow> u8 list option result" where
  "read_file root path = bindE (getFile root [] path) (\<lambda>c.
     case c of None \<Rightarrow> Inr None | Some c \<Rightarrow> bindE (deref root c) (\<lambda>n. Inr (Some (getContents n))))"

lemma getFile_walk:
  assumes "names_ok root" "cs \<noteq> []" "\<forall>c \<in> set cs. plain c"
  shows "read_file root (join cs) = Inr (case entry_at root cs of Some (F data) \<Rightarrow> Some data | _ \<Rightarrow> None)"
    and "bindE (getDir root [] (join cs)) (\<lambda>c. Inr (c \<noteq> None)) = Inr (entry_at root cs = Some D)"
proof -
  have g: "GetNodeImpl root [] (join cs) = Inr (map_option (append []) (walk root cs))"
    by (rule GetNodeImpl_join[OF assms]) simp
  have *: "read_file root (join cs) = Inr (case entry_at root cs of Some (F data) \<Rightarrow> Some data | _ \<Rightarrow> None) \<and>
    bindE (getDir root [] (join cs)) (\<lambda>c. Inr (c \<noteq> None)) = Inr (entry_at root cs = Some D)"
  proof (cases "walk root cs")
    case None
    then show ?thesis using g by (simp add: entry_at_walk getFile_def getDir_def dyn_cast_or_null_def read_file_def)
  next
    case (Some c)
    obtain x where x: "node_at root c = Some x" using walk_node_at[OF Some] by blast
    then show ?thesis using g Some
      by (cases x) (simp_all add: entry_at_walk getFile_def getDir_def dyn_cast_or_null_def read_file_def deref_def)
  qed
  then show "read_file root (join cs) = Inr (case entry_at root cs of Some (F data) \<Rightarrow> Some data | _ \<Rightarrow> None)"
    "bindE (getDir root [] (join cs)) (\<lambda>c. Inr (c \<noteq> None)) = Inr (entry_at root cs = Some D)" by auto
qed

text \<open>
  In a tree whose names are plain, looking up a path given as its components always returns: the
  file of that path is found with its contents exactly when the map of paths has a file there, and a
  directory exactly when it has a directory there.
\<close>

theorem lookup_refines:
  assumes "names_ok root" "cs \<noteq> []" "\<forall>c \<in> set cs. plain c"
  shows "read_file root (join cs) = Inr (case entry_at root cs of Some (F data) \<Rightarrow> Some data | _ \<Rightarrow> None) \<and>
    bindE (getDir root [] (join cs)) (\<lambda>c. Inr (c \<noteq> None)) = Inr (entry_at root cs = Some D)"
  using getFile_walk[OF assms] by simp

text \<open>A tree with a directory \<open>a\<close> that holds a file \<open>b\<close>.\<close>

definition tree0 :: node where
  "tree0 = Directory [sep] [Directory [0x61] [File [0x62] [1, 2, 3] []]]"

lemma tree0_ok: "names_ok tree0" "plain [0x61]" "plain [0x62]"
  by (auto simp: tree0_def plain_def kPathSeparator_def dot_def isspace_def)

theorem lookup_refines_witness: "read_file tree0 [0x61, 0x2F, 0x62] = Inr (Some [1, 2, 3])"
  using lookup_refines[of tree0 "[[0x61], [0x62]]"] tree0_ok by (simp add: tree0_def kPathSeparator_def)

text \<open>
  C21. \<open>mkdir\<close> makes every missing directory of its path, written with or without a leading \<open>./\<close> and
  a trailing separator, and changes nothing else: afterwards the prefixes of the path are directories, every other
  path leads to what it led to before, and looking the path up finds the directory returned.
\<close>

theorem mkdir_refines:
  assumes "names_ok root" "cs \<noteq> []" "\<forall>c \<in> set cs. plain c" "no_file_on cs (entry_at root)"
  shows "\<exists>c root'. mkdir root [] (render lead cs trail) = Inr (c, root') \<and> names_ok root' \<and>
    entry_at root' = fs_mkdir cs (entry_at root) \<and> getDir root' [] (join cs) = Inr (Some c)"
proof -
  let ?t = "mk (\<lambda>m. m) root cs"
  note s = mkdir_spec[OF assms(1,3,4), of trail]
  have t: "names_ok ?t" using s(2) assms(2) by simp
  have w: "walk ?t cs = Some (mk_cur root cs)" by (rule walk_mk)
  have d: "is_dir (target root cs)" by (rule target_is_dir[OF no_file_on_dirs_ok[OF assms(4)]])
  have "getDir ?t [] (join cs) = Inr (Some (mk_cur root cs))"
    using GetNodeImpl_join[OF t assms(2,3), of "[]"] w d
    by (simp add: getDir_def dyn_cast_or_null_def deref_def node_at_mk)
  then show ?thesis using s assms(2) by blast
qed

theorem mkdir_refines_witness:
  "\<exists>c root'. mkdir tree0 [] [0x2E, 0x2F, 0x61, 0x2F, 0x61, 0x2F] = Inr (c, root') \<and>
     entry_at root' [[0x61], [0x61]] = Some D \<and> entry_at root' [[0x61], [0x62]] = Some (F [1, 2, 3])"
proof -
  have "entry_at tree0 [] = Some D" "entry_at tree0 [[0x61]] = Some D" "entry_at tree0 [[0x61], [0x61]] = None"
    "entry_at tree0 [[0x61], [0x62]] = Some (F [1, 2, 3])"
    by (simp_all add: tree0_def)
  then show ?thesis using mkdir_refines[of tree0 "[[0x61], [0x61]]" True True] tree0_ok
    by (auto simp: kPathSeparator_def dot_def no_file_on_def fs_mkdir_def render_def simp del: entry_at.simps)
qed

section \<open>Archives\<close>

text \<open>
  An entry of an archive: its prefix and name fields, the components of the path the two make up, and the data
  of a file.
\<close>

datatype tar_entry = TarDir str str "str list" | TarFile str str "str list" "u8 list"

fun apply_entry :: "tar_entry \<Rightarrow> fs \<Rightarrow> fs" where
  "apply_entry (TarDir pre nm cs) fs = fs_mkdir cs fs"
| "apply_entry (TarFile pre nm cs data) fs = fs_mkfile cs data fs"

text \<open>An entry that can be added: a well-formed path, no file on the way, and a file that is new and not empty.\<close>

fun addable :: "tar_entry \<Rightarrow> fs \<Rightarrow> bool" where
  "addable (TarDir pre nm cs) fs \<longleftrightarrow>
     list_all plain cs \<and> no_file_on cs fs \<and>
     (\<exists>lead trail. pre @ nm = render lead cs trail \<and> (cs = [] \<longrightarrow> \<not> trail))"
| "addable (TarFile pre nm cs data) fs \<longleftrightarrow>
     cs \<noteq> [] \<and> list_all plain cs \<and> no_file_on (butlast cs) fs \<and> fs cs = None \<and>
     (\<exists>lead. pre @ nm = render lead cs False) \<and> data \<noteq> [] \<and> length data < 2 ^ 32"

fun addable_all :: "tar_entry list \<Rightarrow> fs \<Rightarrow> bool" where
  "addable_all [] fs \<longleftrightarrow> True"
| "addable_all (e # es) fs \<longleftrightarrow> addable e fs \<and> addable_all es (apply_entry e fs)"

text \<open>A header in memory, and a whole archive: the entries, each file rounded up to blocks, and two zero blocks.\<close>

definition ustar :: str where "ustar = [0x75, 0x73, 0x74, 0x61, 0x72]"

definition header_at :: "mem \<Rightarrow> nat \<Rightarrow> str \<Rightarrow> str \<Rightarrow> nat \<Rightarrow> bool" where
  "header_at m a pre nm n \<longleftrightarrow> cstr m (a + tar_prefix) pre \<and> cstr m (a + tar_name) nm \<and> cstr m (a + tar_ustar) ustar \<and>
     (\<forall>i < 11. m (a + tar_size + i) = of_nat (48 + n div 8 ^ (10 - i) mod 8))"

definition blocks :: "nat \<Rightarrow> nat" where
  "blocks n = (if n mod kTarBlockSize \<noteq> 0 then n div kTarBlockSize + 1 else n div kTarBlockSize)"

fun archive_at :: "mem \<Rightarrow> nat \<Rightarrow> tar_entry list \<Rightarrow> bool" where
  "archive_at m a [] \<longleftrightarrow> IsZeroPage m a \<and> IsZeroPage m (a + kTarBlockSize)"
| "archive_at m a (TarDir pre nm cs # es) \<longleftrightarrow>
     header_at m a pre nm 0 \<and> m (a + tar_type) = kDirectory \<and> archive_at m (a + kTarBlockSize) es"
| "archive_at m a (TarFile pre nm cs data # es) \<longleftrightarrow>
     header_at m a pre nm (length data) \<and> m (a + tar_type) \<noteq> kDirectory \<and>
     map (\<lambda>i. m (a + kTarBlockSize + i)) [0 ..< length data] = data \<and>
     archive_at m (a + kTarBlockSize + blocks (length data) * kTarBlockSize) es"

lemma oct2bin_loop_digits:
  assumes "\<forall>i < k. m (c + i) = of_nat (48 + n div 8 ^ (k - 1 - i) mod 8)"
  shows "oct2bin_loop m c k acc = Inr (acc * 8 ^ k + of_nat (n mod 8 ^ k))"
  using assms
proof (induction k arbitrary: c acc)
  case 0
  then show ?case by simp
next
  case (Suc k)
  let ?d = "n div 8 ^ k mod 8"
  have "m c = of_nat (48 + ?d)" using Suc.prems[rule_format, of 0] by simp
  moreover have "?d \<in> {0 ..< 8}" by simp
  then have "?d = 0 \<or> ?d = 1 \<or> ?d = 2 \<or> ?d = 3 \<or> ?d = 4 \<or> ?d = 5 \<or> ?d = 6 \<or> ?d = 7" by auto
  ultimately have d: "sint (m c) = int (48 + ?d)" by auto
  have "m (c + 1 + i) = of_nat (48 + n div 8 ^ (k - 1 - i) mod 8)" if "i < k" for i
  proof -
    have "Suc k - 1 - (i + 1) = k - 1 - i" using that by simp
    then show ?thesis using Suc.prems[rule_format, of "i + 1"] that by (simp add: add.assoc)
  qed
  then have "oct2bin_loop m c (Suc k) acc = Inr ((acc * 8 + of_nat ?d) * 8 ^ k + of_nat (n mod 8 ^ k))"
    using Suc.IH[of "c + 1"] d by simp
  moreover have "n mod 8 ^ Suc k = ?d * 8 ^ k + n mod 8 ^ k" using mod_mult2_eq[of n "8 ^ k" 8] by (simp add: mult.commute)
  ultimately show ?case by (simp add: algebra_simps)
qed

lemma header_read:
  assumes "header_at m a pre nm n" "cstr m magic ustar" "n < 2 ^ 32"
  shows "memcmp m (a + tar_ustar) magic 5 = 0" "oct2bin m (a + tar_size) (tar_size_len - 1) = Inr (of_nat n)"
    "string_at m (a + tar_prefix) = Inr pre" "string_at m (a + tar_name) = Inr nm" "\<not> IsZeroPage m a"
proof -
  have c: "cstr m (a + tar_ustar) ustar" using assms(1) by (simp add: header_at_def)
  have len: "length ustar = 5" by (simp add: ustar_def)
  have "\<forall>i < 5. m (a + tar_ustar + i) = m (magic + i)" "m (a + tar_ustar + 5) = m (magic + 5)"
    using c assms(2) len unfolding cstr_def by auto
  then show "memcmp m (a + tar_ustar) magic 5 = 0" by (simp add: memcmp_run)
  have "n mod 8 ^ 11 = n" using assms(3) by simp
  then show "oct2bin m (a + tar_size) (tar_size_len - 1) = Inr (of_nat n)"
    using oct2bin_loop_digits[of 11 m "a + tar_size" n 0] assms(1) by (simp add: oct2bin_def tar_size_len_def header_at_def)
  show "string_at m (a + tar_prefix) = Inr pre" "string_at m (a + tar_name) = Inr nm"
    using assms(1) by (simp_all add: header_at_def string_at_cstr)
  have "m (a + 257) \<noteq> 0" using c by (auto simp: cstr_Cons ustar_def tar_ustar_def)
  then show "\<not> IsZeroPage m a" by (auto simp: IsZeroPage_def list_all_iff kTarBlockSize_def intro!: bexI[of _ 257])
qed

text \<open>
  The contract between \<open>IterateUSTAR\<close> and its callbacks: on an entry that can be added each callback returns,
  asks to go on, keeps its invariant and acts on the map of paths as the entry says. A client of
  this kind has, after the whole archive, applied the entries in order.
\<close>

locale ustar_client =
  fixes inv :: "'s \<Rightarrow> bool" and paths :: "'s \<Rightarrow> fs" and m :: mem
    and dircb :: "str \<Rightarrow> str \<Rightarrow> 's \<Rightarrow> (bool \<times> 's) result"
    and filecb :: "str \<Rightarrow> str \<Rightarrow> u32 \<Rightarrow> nat \<Rightarrow> 's \<Rightarrow> (bool \<times> 's) result"
  assumes dir_law: "inv s \<Longrightarrow> addable (TarDir pre nm cs) (paths s) \<Longrightarrow>
      \<exists>s'. dircb pre nm s = Inr (True, s') \<and> inv s' \<and> paths s' = fs_mkdir cs (paths s)"
    and file_law: "inv s \<Longrightarrow> addable (TarFile pre nm cs data) (paths s) \<Longrightarrow>
      map (\<lambda>i. m (a + i)) [0 ..< length data] = data \<Longrightarrow>
      \<exists>s'. filecb pre nm (of_nat (length data)) a s = Inr (True, s') \<and> inv s' \<and> paths s' = fs_mkfile cs data (paths s)"
begin

lemma iterate:
  assumes "cstr m magic ustar" "archive_at m a es" "addable_all es (paths s)" "inv s"
  shows "\<exists>s'. IterateUSTAR_loop magic m dircb filecb a s = Some (Inr s') \<and> inv s' \<and> paths s' = fold apply_entry es (paths s)"
  using assms(2-)
proof (induction es arbitrary: a s)
  case Nil
  then show ?case by (subst IterateUSTAR_loop.simps) (simp add: IterateUSTAR_round_def)
next
  case (Cons e es)
  show ?case
  proof (cases e)
    case (TarDir pre nm cs)
    have h: "header_at m a pre nm 0" "m (a + tar_type) = kDirectory" "archive_at m (a + kTarBlockSize) es" using Cons.prems(1) TarDir by auto
    have add: "addable (TarDir pre nm cs) (paths s)" using Cons.prems(2) TarDir by (simp del: addable.simps)
    obtain s1 where s1: "dircb pre nm s = Inr (True, s1)" "inv s1" "paths s1 = fs_mkdir cs (paths s)"
      using dir_law[OF Cons.prems(3) add] by blast
    have "IterateUSTAR_round magic m dircb filecb a s = Inr (Some (a + kTarBlockSize), s1)"
      using h(2) s1(1) header_read[OF h(1) assms(1)] by (simp add: IterateUSTAR_round_def)
    then show ?thesis using Cons.IH[OF h(3) _ s1(2)] Cons.prems(2) s1(3) TarDir by (subst IterateUSTAR_loop.simps) simp
  next
    case (TarFile pre nm cs data)
    let ?n = "length data"
    have h: "header_at m a pre nm ?n" "m (a + tar_type) \<noteq> kDirectory" "map (\<lambda>i. m (a + kTarBlockSize + i)) [0 ..< ?n] = data"
      "archive_at m (a + kTarBlockSize + blocks ?n * kTarBlockSize) es" using Cons.prems(1) TarFile by auto
    have n: "0 < ?n" "?n < 2 ^ 32" using Cons.prems(2) TarFile by auto
    then have u: "unat (of_nat ?n :: u32) = ?n" by (simp only: unat_of_nat_u32)
    then have nz: "of_nat ?n \<noteq> (0 :: u32)" using n(1) by (metis less_numeral_extra(3) unat_0)
    have add: "addable (TarFile pre nm cs data) (paths s)" using Cons.prems(2) TarFile by (simp del: addable.simps)
    obtain s1 where s1: "filecb pre nm (of_nat ?n) (a + kTarBlockSize) s = Inr (True, s1)" "inv s1" "paths s1 = fs_mkfile cs data (paths s)"
      using file_law[OF Cons.prems(3) add h(3)] by blast
    have "IterateUSTAR_round magic m dircb filecb a s = Inr (Some (a + kTarBlockSize + blocks ?n * kTarBlockSize), s1)"
      using h(2) s1(1) nz header_read[OF h(1) assms(1) n(2)] unfolding IterateUSTAR_round_def
      by (simp only: u blocks_def Let_def if_False bindE_simps assertE_simps prod.case simp_thms if_True)
    then show ?thesis using Cons.IH[OF h(4) _ s1(2)] Cons.prems(2) s1(3) TarFile by (subst IterateUSTAR_loop.simps) simp
  qed
qed

end

interpretation parse: ustar_client "\<lambda>root. names_ok root" entry_at m parse_dircallback "parse_filecallback m" for m
proof
  fix s pre nm cs
  assume s: "names_ok s" "addable (TarDir pre nm cs) (entry_at s)"
  obtain lead trail where p: "pre @ nm = render lead cs trail" "cs = [] \<longrightarrow> \<not> trail" using s(2) by auto
  note sp = mkdir_spec[OF s(1) _ _ p(2)]
  have "\<forall>c \<in> set cs. plain c" "no_file_on cs (entry_at s)" using s(2) by (auto simp: list_all_iff)
  then show "\<exists>s'. parse_dircallback pre nm s = Inr (True, s') \<and> names_ok s' \<and> entry_at s' = fs_mkdir cs (entry_at s)"
    using sp by (simp add: parse_dircallback_def getFullPath_def p(1))
next
  fix s :: node and pre nm cs and data :: "u8 list" and a
  assume s: "names_ok s" "addable (TarFile pre nm cs data) (entry_at s)" and d: "map (\<lambda>i. m (a + i)) [0 ..< length data] = data"
  obtain ds f where cs: "cs = ds @ [f]" using s(2) by (cases cs rule: rev_cases) auto
  obtain lead where p: "pre @ nm = render lead cs False" using s(2) by auto
  have "unat (of_nat (length data) :: u32) = length data" using s(2) by (simp only: unat_of_nat_u32 addable.simps)
  then have dd: "map (\<lambda>i. m (a + i)) [0 ..< unat (of_nat (length data) :: u32)] = data" by (simp only: d)
  have "\<forall>c \<in> set (ds @ [f]). plain c" "no_file_on ds (entry_at s)" "entry_at s (ds @ [f]) = None" using s(2) cs by (auto simp: list_all_iff)
  note sp = mkfile_spec[OF s(1) this]
  show "\<exists>s'. parse_filecallback m pre nm (of_nat (length data)) a s = Inr (True, s') \<and> names_ok s' \<and> entry_at s' = fs_mkfile cs data (entry_at s)"
    unfolding parse_filecallback_def getFullPath_def p cs sp(1) dd bindE_simps prod.case
    using sp(2)[of "[]"] sp(3)[of "[]" data] sp(4)[of data] sp(5)[of data] by (simp add: deref_def)
qed

text \<open>
  C20. Parsing an archive laid out in the USTAR format ends without failing and returns a tree whose map of
  paths is what the entries, applied in order to an empty root, describe: every file has its
  contents, every directory is there, and nothing else is. The entries must have well-formed paths, no
  file may be given twice or lie on the path of another entry, and files must not be empty.
\<close>

theorem ParseUSTAR_correct:
  assumes "cstr m magic ustar" "archive_at m a es" "addable_all es (\<lambda>p. if p = [] then Some D else None)"
  shows "\<exists>root. ParseUSTAR magic m a = Inr root \<and> names_ok root \<and>
    entry_at root = fold apply_entry es (\<lambda>p. if p = [] then Some D else None)"
proof -
  let ?r = "Directory [sep] []"
  have e: "entry_at ?r = (\<lambda>p. if p = [] then Some D else None)"
  proof
    show "entry_at ?r p = (if p = [] then Some D else None)" for p by (cases p) auto
  qed
  show ?thesis using parse.iterate[OF assms(1,2), of ?r] assms(3) unfolding ParseUSTAR_def IterateUSTAR_def e by auto
qed

text \<open>An archive with the directory \<open>a\<close> and the file \<open>a/b\<close> of one byte; the literal is at 9000.\<close>

definition archive0 :: mem where
  "archive0 x =
     (if x = 0 \<or> x = 512 then 0x61 else if x = 1 \<or> x = 513 then 0x2F else if x = 514 then 0x62
      else if x = 156 then 0x35 else if x = 668 then 0x30
      else if x = 646 then 0x31 else if 124 \<le> x \<and> x < 135 \<or> 636 \<le> x \<and> x < 646 then 0x30
      else if 257 \<le> x \<and> x < 262 then ustar ! (x - 257) else if 769 \<le> x \<and> x < 774 then ustar ! (x - 769)
      else if 9000 \<le> x \<and> x < 9005 then ustar ! (x - 9000) else if x = 1024 then 7 else 0)"

lemma archive0_ok:
  "cstr archive0 9000 ustar"
  "archive_at archive0 0 [TarDir [] [0x61, 0x2F] [[0x61]], TarFile [] [0x61, 0x2F, 0x62] [[0x61], [0x62]] [7]]"
proof -
  show "cstr archive0 9000 ustar" by (simp add: cstr_Cons cstr_Nil ustar_def archive0_def)
  have z: "IsZeroPage archive0 1536" "IsZeroPage archive0 2048"
    by (auto simp: IsZeroPage_def list_all_iff archive0_def kTarBlockSize_def)
  have h: "header_at archive0 0 [] [0x61, 0x2F] 0"
    by (auto simp: header_at_def cstr_Cons cstr_Nil ustar_def archive0_def tar_prefix_def tar_name_def tar_ustar_def tar_size_def)
  have "archive0 (512 + 124 + i) = of_nat (48 + 1 div 8 ^ (10 - i) mod 8)" if "i < 11" for i
  proof (cases "i = 10")
    case False
    with that have "(1 :: nat) div 8 ^ (10 - i) = 0" by (intro div_less one_less_power) auto
    then show ?thesis using that False by (simp add: archive0_def)
  qed (simp add: archive0_def)
  then have "header_at archive0 512 [] [0x61, 0x2F, 0x62] 1"
    by (auto simp: header_at_def cstr_Cons cstr_Nil ustar_def archive0_def tar_prefix_def tar_name_def tar_ustar_def tar_size_def)
  then show "archive_at archive0 0 [TarDir [] [0x61, 0x2F] [[0x61]], TarFile [] [0x61, 0x2F, 0x62] [[0x61], [0x62]] [7]]"
    using z h by (simp add: kTarBlockSize_def tar_type_def kDirectory_def blocks_def) (simp add: archive0_def)
qed

theorem ParseUSTAR_correct_witness:
  "\<exists>root. ParseUSTAR 9000 archive0 0 = Inr root \<and> entry_at root [[0x61]] = Some D \<and>
     entry_at root [[0x61], [0x62]] = Some (F [7]) \<and> entry_at root [[0x62]] = None"
proof -
  let ?fs = "\<lambda>p. if p = [] then Some D else None"
  have r: "[0x61, 0x2F] = render False [[0x61]] True" "[0x61, 0x2F, 0x62] = render False [[0x61], [0x62]] False"
    by (simp_all add: render_def kPathSeparator_def)
  have "\<exists>lead trail. [0x61, 0x2F] = render lead [[0x61]] trail" "\<exists>lead. [0x61, 0x2F, 0x62] = render lead [[0x61], [0x62]] False"
    using r by blast+
  then have "addable_all [TarDir [] [0x61, 0x2F] [[0x61]], TarFile [] [0x61, 0x2F, 0x62] [[0x61], [0x62]] [7]] ?fs"
    using tree0_ok by (simp add: no_file_on_def fs_mkdir_def)
  from ParseUSTAR_correct[OF archive0_ok this] show ?thesis
    by (auto simp: fs_mkdir_def fs_mkfile_def simp del: entry_at.simps)
qed

end
