(* ===== verification/Elf.thy ===== *)
theory Elf
  imports UserHeap VfsCorrect
begin

text \<open>
  Loading programs: \<^verbatim>\<open>libc/elf.cpp\<close>, \<^verbatim>\<open>libc/include/elf.h\<close>, the start-up code of a program,
  \<^verbatim>\<open>libc/pre-main.cpp\<close>, and \<^verbatim>\<open>libc/system.cpp\<close>.

  The structures of the file format are read from memory field by field, at the offsets of the
  C structures. Log messages are left out, the lookups made for them are not. What comes
  from the compiler's placing of data is an argument: the addresses of string literals
  and of the variable length arrays on the stack.
\<close>

section \<open>File format\<close>

definition rd16 :: "mem \<Rightarrow> nat \<Rightarrow> nat" where
  "rd16 m a = unat (m a) + 0x100 * unat (m (a + 1))"

definition w32 :: "mem \<Rightarrow> nat \<Rightarrow> u32" where
  "w32 m a = of_nat (rd32 m a)"

record Elf32_Ehdr =
  e_ident :: "u8 list"
  e_entry :: u32
  e_phoff :: u32
  e_shoff :: u32
  e_phnum :: nat
  e_shnum :: nat
  e_shstrndx :: nat

definition getElfHdr :: "mem \<Rightarrow> nat \<Rightarrow> Elf32_Ehdr" where
  "getElfHdr m elf =
     \<lparr>e_ident = map (\<lambda>i. m (elf + i)) [0 ..< 16], e_entry = w32 m (elf + 24), e_phoff = w32 m (elf + 28),
      e_shoff = w32 m (elf + 32), e_phnum = rd16 m (elf + 44), e_shnum = rd16 m (elf + 48), e_shstrndx = rd16 m (elf + 50)\<rparr>"

record Elf32_Phdr =
  p_type :: u32
  p_offset :: u32
  p_vaddr :: u32
  p_paddr :: u32
  p_filesz :: u32
  p_memsz :: u32
  p_flags :: u32
  p_align :: u32

definition phdr_at :: "mem \<Rightarrow> nat \<Rightarrow> nat \<Rightarrow> Elf32_Phdr" where
  "phdr_at m phdr i =
     (let a = phdr + i * 32 in
      \<lparr>p_type = w32 m a, p_offset = w32 m (a + 4), p_vaddr = w32 m (a + 8), p_paddr = w32 m (a + 12),
       p_filesz = w32 m (a + 16), p_memsz = w32 m (a + 20), p_flags = w32 m (a + 24), p_align = w32 m (a + 28)\<rparr>)"

definition PT_LOAD :: u32 where "PT_LOAD = 1"
definition PT_DYNAMIC :: u32 where "PT_DYNAMIC = 2"

definition IsValidElf :: "Elf32_Ehdr \<Rightarrow> bool" where
  "IsValidElf hdr \<longleftrightarrow> e_ident hdr ! 0 = 0x7F \<and> e_ident hdr ! 1 = 0x45 \<and> e_ident hdr ! 2 = 0x4C \<and> e_ident hdr ! 3 = 0x46"

text \<open>A section header is a pointer; these are the fields that are read.\<close>

definition sh_name :: "mem \<Rightarrow> nat \<Rightarrow> u32" where "sh_name m shdr = w32 m shdr"
definition sh_addr :: "mem \<Rightarrow> nat \<Rightarrow> u32" where "sh_addr m shdr = w32 m (shdr + 12)"
definition sh_offset :: "mem \<Rightarrow> nat \<Rightarrow> u32" where "sh_offset m shdr = w32 m (shdr + 16)"
definition sh_size :: "mem \<Rightarrow> nat \<Rightarrow> u32" where "sh_size m shdr = w32 m (shdr + 20)"

definition DT_NULL :: u32 where "DT_NULL = 0"
definition DT_REL :: u32 where "DT_REL = 17"
definition DT_RELSZ :: u32 where "DT_RELSZ = 18"
definition R_386_RELATIVE :: u8 where "R_386_RELATIVE = 8"

definition ELF32_R_TYPE :: "u32 \<Rightarrow> u8" where "ELF32_R_TYPE i = ucast i"

section \<open>Sections and symbols\<close>

definition getSectionHdr :: "mem \<Rightarrow> nat \<Rightarrow> nat" where
  "getSectionHdr m elf = elf + unat (e_shoff (getElfHdr m elf))"

definition getStrTabHdr :: "mem \<Rightarrow> nat \<Rightarrow> nat" where
  "getStrTabHdr m elf = getSectionHdr m elf + e_shstrndx (getElfHdr m elf) * 40"

definition getSectionHdrStrTab :: "mem \<Rightarrow> nat \<Rightarrow> nat" where
  "getSectionHdrStrTab m elf = elf + unat (sh_offset m (getStrTabHdr m elf))"

fun find_section :: "mem \<Rightarrow> nat \<Rightarrow> nat \<Rightarrow> nat \<Rightarrow> nat list \<Rightarrow> nat option result" where
  "find_section m shdr strtab section_name [] = Inr None"
| "find_section m shdr strtab section_name (i # is) =
     (let section_hdr = shdr + i * 40;
          name = strtab + unat (sh_name m section_hdr) in
      bindE (strcmp m section_name name) (\<lambda>c.
      if c = 0 then Inr (Some section_hdr) else find_section m shdr strtab section_name is))"

definition getSectionHdr_named :: "mem \<Rightarrow> nat \<Rightarrow> nat \<Rightarrow> nat option result" where
  "getSectionHdr_named m elf section_name =
     find_section m (getSectionHdr m elf) (getSectionHdrStrTab m elf) section_name [0 ..< e_shnum (getElfHdr m elf)]"

definition getSection :: "mem \<Rightarrow> nat \<Rightarrow> nat \<Rightarrow> nat option result" where
  "getSection m elf section_name =
     bindE (getSectionHdr_named m elf section_name) (\<lambda>h. Inr (map_option (\<lambda>h. elf + unat (sh_offset m h)) h))"

text \<open>The addresses of the literals with section names.\<close>

record literals =
  lit_symtab :: nat
  lit_strtab :: nat
  lit_got :: nat
  lit_bss :: nat

definition getSymTabHdr :: "literals \<Rightarrow> mem \<Rightarrow> nat \<Rightarrow> nat option result" where
  "getSymTabHdr L m elf = getSectionHdr_named m elf (lit_symtab L)"

definition getStrTab :: "literals \<Rightarrow> mem \<Rightarrow> nat \<Rightarrow> nat option result" where
  "getStrTab L m elf = getSection m elf (lit_strtab L)"

definition getSymTab :: "literals \<Rightarrow> mem \<Rightarrow> nat \<Rightarrow> nat option result" where
  "getSymTab L m elf = getSection m elf (lit_symtab L)"

text \<open>Without a string table the pointer the names are indexed from is null.\<close>

fun find_symbol :: "literals \<Rightarrow> mem \<Rightarrow> nat \<Rightarrow> nat \<Rightarrow> nat \<Rightarrow> nat list \<Rightarrow> nat option result" where
  "find_symbol L m elf symtab symbol_name [] = Inr None"
| "find_symbol L m elf symtab symbol_name (i # is) =
     (let symbol = symtab + i * 16 in
      bindE (getStrTab L m elf) (\<lambda>strtab.
      bindE (strcmp m symbol_name ((case strtab of None \<Rightarrow> 0 | Some p \<Rightarrow> p) + unat (w32 m symbol))) (\<lambda>c.
      if c = 0 then Inr (Some symbol) else find_symbol L m elf symtab symbol_name is)))"

definition getSymbol :: "literals \<Rightarrow> mem \<Rightarrow> nat \<Rightarrow> nat \<Rightarrow> nat option result" where
  "getSymbol L m elf symbol_name =
     bindE (getSymTab L m elf) (\<lambda>symtab.
     case symtab of
       None \<Rightarrow> Inr None
     | Some symtab \<Rightarrow>
         bindE (getSymTabHdr L m elf) (\<lambda>hdr.
         case hdr of None \<Rightarrow> Inl (Undefined ''null section header'')
         | Some hdr \<Rightarrow>
             let symtab_size = unat (sh_size m hdr) in
             assertE (symtab_size mod 16 = 0) ''Symbol table size is not multiple of symbol struct.'' (
             find_symbol L m elf symtab symbol_name [0 ..< symtab_size div 16])))"

definition getSymbolIndex :: "literals \<Rightarrow> mem \<Rightarrow> nat \<Rightarrow> nat \<Rightarrow> nat result" where
  "getSymbolIndex L m elf symbol =
     bindE (getSymTab L m elf) (\<lambda>symtab. Inr (wrap (symbol + 0x100000000 - (case symtab of None \<Rightarrow> 0 | Some p \<Rightarrow> p)) div 16))"

section \<open>Packing arguments\<close>

fun PackArgv :: "nat list \<Rightarrow> nat \<Rightarrow> mem \<Rightarrow> mem result" where
  "PackArgv [] packed_argv m = Inr m"
| "PackArgv (arg # argv) packed_argv m =
     bindE (strlen m arg) (\<lambda>len.
     let m = memcpy packed_argv arg len m;
         m = m(packed_argv + len := 0) in
     PackArgv argv (packed_argv + len + 1) m)"

definition kArgMax :: nat where "kArgMax = 4096"

text \<open>Pointers into the packed strings, collected in order; the array of the caller has \<open>ARG_MAX\<close> elements.\<close>

function UnpackArgv_loop :: "mem \<Rightarrow> nat \<Rightarrow> nat \<Rightarrow> nat \<Rightarrow> nat list \<Rightarrow> nat list result" where
  "UnpackArgv_loop m packed_argv_size i packed_argv argv =
     (if i < packed_argv_size then
        if length argv < kArgMax then
          bindE (strlen m packed_argv) (\<lambda>len.
          UnpackArgv_loop m packed_argv_size (i + len + 1) (packed_argv + len + 1) (argv @ [packed_argv]))
        else Inl (Undefined ''argv is full'')
      else Inr argv)"
  by pat_completeness auto
termination by (relation "measure (\<lambda>(m, sz, i, p, argv). sz - i)") auto

declare UnpackArgv_loop.simps [simp del]

definition UnpackArgv :: "mem \<Rightarrow> nat \<Rightarrow> nat \<Rightarrow> nat list result" where
  "UnpackArgv m packed_argv_size packed_argv = UnpackArgv_loop m packed_argv_size 0 packed_argv []"

section \<open>Loading\<close>

fun first_loadable :: "mem \<Rightarrow> nat \<Rightarrow> nat option \<Rightarrow> nat list \<Rightarrow> nat option" where
  "first_loadable m phdr first [] = first"
| "first_loadable m phdr first (i # is) =
     (if p_type (phdr_at m phdr i) = PT_LOAD then Some i else first_loadable m phdr (Some i) is)"

text \<open>The search from the end does not stop at the first header.\<close>

fun last_loadable :: "mem \<Rightarrow> nat \<Rightarrow> nat \<Rightarrow> nat result" where
  "last_loadable m phdr 0 =
     (if p_type (phdr_at m phdr 0) = PT_LOAD then Inr 0 else Inl (Undefined ''program header before the first''))"
| "last_loadable m phdr (Suc i) = (if p_type (phdr_at m phdr (Suc i)) = PT_LOAD then Inr (Suc i) else last_loadable m phdr i)"

text \<open>The virtual address of the first loadable segment and the span up to the end of the last one.\<close>

definition loadable_span :: "mem \<Rightarrow> nat \<Rightarrow> (u32 \<times> u32) result" where
  "loadable_span m elf =
     (let hdr = getElfHdr m elf; phdr = elf + unat (e_phoff hdr); program_entry_point = e_entry hdr in
      case first_loadable m phdr None [0 ..< e_phnum hdr] of
        None \<Rightarrow> Inl (AssertFailed ''Could not find any loadable segments.'')
      | Some i \<Rightarrow>
          assertE (e_phnum hdr > 0) ''No phdrs.'' (
          bindE (last_loadable m phdr (e_phnum hdr - 1)) (\<lambda>j.
          let first = phdr_at m phdr i; last = phdr_at m phdr j in
          assertE (p_vaddr last \<ge> p_vaddr first) ''Out of order loadable segments.'' (
          assertE (p_vaddr first \<le> program_entry_point \<and> program_entry_point < p_vaddr last + p_memsz last)
            ''The program entry point is not within the range of loadable segments.'' (
          Inr (p_vaddr first, p_vaddr last + p_memsz last - p_vaddr first))))))"

fun get_offset_bias :: "mem \<Rightarrow> nat \<Rightarrow> u32 \<Rightarrow> nat list \<Rightarrow> u32 result" where
  "get_offset_bias m phdr vaddr [] = Inl (Undefined ''__builtin_unreachable'')"
| "get_offset_bias m phdr vaddr (i # is) =
     (let segment = phdr_at m phdr i in
      if p_vaddr segment > vaddr \<or> vaddr \<ge> p_vaddr segment + p_memsz segment then get_offset_bias m phdr vaddr is
      else Inr (p_offset segment + (vaddr - p_vaddr segment)))"

definition copy_segment :: "nat \<Rightarrow> nat \<Rightarrow> u32 \<Rightarrow> u32 \<Rightarrow> nat \<Rightarrow> mem \<Rightarrow> mem" where
  "copy_segment elf phdr prog base i m =
     (let segment = phdr_at m phdr i in
      if p_type segment \<noteq> PT_LOAD then m
      else memcpy (unat (prog + p_vaddr segment - base)) (elf + unat (p_offset segment)) (unat (p_memsz segment)) m)"

fun find_dynamic :: "mem \<Rightarrow> nat \<Rightarrow> nat list \<Rightarrow> u32 option" where
  "find_dynamic m phdr [] = None"
| "find_dynamic m phdr (i # is) =
     (if p_type (phdr_at m phdr i) = PT_DYNAMIC then Some (p_offset (phdr_at m phdr i)) else find_dynamic m phdr is)"

partial_function (option) get_dynamic_entry_loop :: "mem \<Rightarrow> nat \<Rightarrow> u32 \<Rightarrow> u32 option" where
  "get_dynamic_entry_loop m dynamic field =
     (if w32 m dynamic \<noteq> DT_NULL then
        if w32 m dynamic = field then Some (w32 m (dynamic + 4)) else get_dynamic_entry_loop m (dynamic + 8) field
      else Some 0)"

definition get_dynamic_entry :: "mem \<Rightarrow> nat \<Rightarrow> u32 \<Rightarrow> u32 result" where
  "get_dynamic_entry m dynamic field = terminates (get_dynamic_entry_loop m dynamic field)"

definition relocate :: "nat \<Rightarrow> u32 \<Rightarrow> nat \<Rightarrow> mem \<Rightarrow> mem" where
  "relocate relocs prog i m =
     (let reloc = relocs + i * 8 in
      if ELF32_R_TYPE (w32 m (reloc + 4)) = R_386_RELATIVE
      then (let loc = unat (prog + w32 m reloc) in wr32 loc (rd32 m loc + 0x40000000) m)
      else m)"

definition relocations :: "nat \<Rightarrow> u32 \<Rightarrow> mem \<Rightarrow> mem result" where
  "relocations elf prog m =
     (let hdr = getElfHdr m elf; phdr = elf + unat (e_phoff hdr) in
      case find_dynamic m phdr [0 ..< e_phnum hdr] of
        None \<Rightarrow> Inr m
      | Some off \<Rightarrow>
          (let dynamic = elf + unat off in
           bindE (get_dynamic_entry m dynamic DT_REL) (\<lambda>relocs.
           assertE (relocs \<noteq> 0) ''Could not find .rel.dyn section'' (
           bindE (get_dynamic_entry m dynamic DT_RELSZ) (\<lambda>relocs_size.
           assertE (relocs_size \<noteq> 0) ''Found an empty relocation section.'' (
           bindE (get_offset_bias m phdr relocs [0 ..< e_phnum hdr]) (\<lambda>offset_bias.
           let m = fold (relocate (elf + unat offset_bias) prog) [0 ..< unat relocs_size div 8] m in
           bindE (get_dynamic_entry m dynamic 6) (\<lambda>symtab. Inr m))))))))"

definition zero_bss :: "literals \<Rightarrow> nat \<Rightarrow> u32 \<Rightarrow> u32 \<Rightarrow> mem \<Rightarrow> mem result" where
  "zero_bss L elf prog base m =
     bindE (getStrTab L m elf) (\<lambda>_.
     bindE (getSymTab L m elf) (\<lambda>_.
     bindE (getSectionHdr_named m elf (lit_got L)) (\<lambda>_.
     bindE (getSectionHdr_named m elf (lit_bss L)) (\<lambda>bss_hdr.
     case bss_hdr of
       None \<Rightarrow> Inr m
     | Some h \<Rightarrow> Inr (memset (unat (prog + (sh_addr m h - base))) 0 (unat (sh_size m h)) m)))))"

text \<open>The image of the program in the buffer at \<open>prog\<close>.\<close>

definition load_image :: "literals \<Rightarrow> nat \<Rightarrow> u32 \<Rightarrow> u32 \<Rightarrow> u32 \<Rightarrow> mem \<Rightarrow> mem result" where
  "load_image L elf prog base span m =
     (let hdr = getElfHdr m elf; phdr = elf + unat (e_phoff hdr);
          m = memset (unat prog) 0 (unat span) m;
          m = fold (copy_segment elf phdr prog base) [0 ..< e_phnum hdr] m in
      bindE (relocations elf prog m) (zero_bss L elf prog base))"

record ArgInfo =
  raw_vfs_data :: u32
  raw_vfs_data_owner :: u32
  packed_argv :: u32
  packed_argv_size :: u32
  pwd :: u32

definition store_arginfo :: "nat \<Rightarrow> ArgInfo \<Rightarrow> mem \<Rightarrow> mem" where
  "store_arginfo a info m = wr32 (a + 16) (unat (pwd info)) (wr32 (a + 12) (unat (packed_argv_size info)) (wr32 (a + 8) (unat (packed_argv info))
     (wr32 (a + 4) (unat (raw_vfs_data_owner info)) (wr32 a (unat (raw_vfs_data info)) m))))"

definition load_arginfo :: "mem \<Rightarrow> nat \<Rightarrow> ArgInfo" where
  "load_arginfo m a = \<lparr>raw_vfs_data = w32 m a, raw_vfs_data_owner = w32 m (a + 4), packed_argv = w32 m (a + 8),
     packed_argv_size = w32 m (a + 12), pwd = w32 m (a + 16)\<rparr>"

text \<open>What the new task is created from: the arguments of \<open>CreateTask\<close> and the memory of the caller.\<close>

record task_request =
  rq_program :: u32
  rq_codesize :: u32
  rq_arg :: u32
  rq_entry_offset :: u32
  rq_mem :: mem

fun packed_size :: "mem \<Rightarrow> nat list \<Rightarrow> nat result" where
  "packed_size m [] = Inr 0"
| "packed_size m (arg # argv) = bindE (strlen m arg) (\<lambda>len. bindE (packed_size m argv) (\<lambda>n. Inr (len + 1 + n)))"

text \<open>\<open>frame_argv\<close> and \<open>frame_arginfo\<close> are the addresses of \<open>packed_argv\<close> and \<open>arginfo\<close> on the stack.\<close>

definition make_arginfo :: "u32 \<Rightarrow> u32 \<Rightarrow> nat list \<Rightarrow> u32 \<Rightarrow> u32 \<Rightarrow> u32 \<Rightarrow> mem \<Rightarrow> mem result" where
  "make_arginfo vfs_data vfs_owner argv the_pwd frame_argv frame_arginfo m =
     bindE (if argv \<noteq> [] then packed_size m argv else Inr 0) (\<lambda>sz.
     bindE (if argv \<noteq> [] then PackArgv argv (unat frame_argv) m else Inr m) (\<lambda>m.
     Inr (store_arginfo (unat frame_arginfo)
       \<lparr>raw_vfs_data = vfs_data, raw_vfs_data_owner = vfs_owner,
        packed_argv = (if argv \<noteq> [] then frame_argv else 0), packed_argv_size = of_nat sz, pwd = the_pwd\<rparr> m)))"

definition LoadElfProgram ::
  "literals \<Rightarrow> nat \<Rightarrow> u32 \<Rightarrow> u32 \<Rightarrow> nat list \<Rightarrow> u32 \<Rightarrow> u32 \<Rightarrow> u32 \<Rightarrow> user_heap \<Rightarrow> (task_request \<times> user_heap) result" where
  "LoadElfProgram L elf vfs_data vfs_owner argv the_pwd frame_argv frame_arginfo st =
     (let hdr = getElfHdr (mem st) elf in
     assertE (IsValidElf hdr) ''Invalid elf program'' (
     bindE (loadable_span (mem st) elf) (\<lambda>(base, span).
     bindE (umalloc (unat span) st) (\<lambda>(prog, st).
     bindE (load_image L elf (of_nat prog) base span (mem st)) (\<lambda>m.
     bindE (make_arginfo vfs_data vfs_owner argv the_pwd frame_argv frame_arginfo m) (\<lambda>m.
     let st = st\<lparr>mem := m\<rparr>;
         rq = \<lparr>rq_program = of_nat prog, rq_codesize = span, rq_arg = frame_arginfo,
               rq_entry_offset = e_entry hdr - base, rq_mem = m\<rparr> in
     bindE (if prog \<noteq> 0 then ufree prog st else Inr st) (\<lambda>st. Inr (rq, st))))))))"

section \<open>Starting a program\<close>

definition NextPage :: "u32 \<Rightarrow> u32" where
  "NextPage code = push_bit 22 (drop_bit 22 code + 1)"

definition kInitHeapSize :: nat where "kInitHeapSize = 0x400000"

text \<open>
  The memory of this task with a 4 MB page of another task at \<open>src\<close> mapped at \<open>dst\<close>, as
  \<open>sys_share_page\<close> leaves it until \<open>sys_unmap_page\<close>, and with bytes copied from another task, as \<open>sys_copy_from_task\<close>
  leaves it.
\<close>

definition share :: "mem \<Rightarrow> mem \<Rightarrow> nat \<Rightarrow> nat \<Rightarrow> mem" where
  "share own other src dst = (\<lambda>a. if dst \<le> a \<and> a < dst + kInitHeapSize then other (src + (a - dst)) else own a)"

definition copy_in :: "mem \<Rightarrow> nat \<Rightarrow> mem \<Rightarrow> nat \<Rightarrow> nat \<Rightarrow> mem" where
  "copy_in own dst other src n = (\<lambda>a. if dst \<le> a \<and> a < dst + n then other (src + (a - dst)) else own a)"

definition ParseUSTARFromRawData :: "nat \<Rightarrow> ArgInfo \<Rightarrow> mem \<Rightarrow> mem \<Rightarrow> nat \<Rightarrow> node result" where
  "ParseUSTARFromRawData magic info own owner this_vfs_page =
     (let vfs_loc_int = unat (raw_vfs_data info);
          loc_offset = vfs_loc_int mod kInitHeapSize;
          vfs_loc_page = vfs_loc_int - loc_offset in
      ParseUSTAR magic (share own owner vfs_loc_page this_vfs_page) (this_vfs_page + loc_offset))"

text \<open>
  How the start-up code ends: with the failure code, or with the call of \<open>main\<close>, for which the argument pointers,
  the file system, the working directory and the memory are ready. The nodes of the file system are
  values of the model and take no room on the heap.
\<close>

datatype started = ExitFailure | Main "nat list" node cursor user_heap

text \<open>
  \<open>map_page\<close> is the result of the system call for the page after the code, \<open>page1\<close> and \<open>page2\<close> the addresses
  \<open>sys_share_page\<close> chooses, \<open>frame\<close> the address of \<open>packed_argv\<close> on the stack. The string \<open>pwd\<close> points to is read in
  this task, although the pointer is one of the parent.
\<close>

definition pre_main ::
  "nat \<Rightarrow> (u32 \<Rightarrow> int) \<Rightarrow> mem \<Rightarrow> mem \<Rightarrow> nat \<Rightarrow> nat \<Rightarrow> u32 \<Rightarrow> nat \<Rightarrow> nat \<Rightarrow> user_heap \<Rightarrow> started result" where
  "pre_main magic map_page parent owner page1 page2 code frame arg_ptr st =
     (let heap_start = NextPage code; val = map_page heap_start in
      if val = - 1 \<or> val = - 2 \<or> val = - 3 then Inr ExitFailure
      else
        bindE (InitializeUserHeap (unat heap_start) (wrap (unat heap_start + kInitHeapSize)) st) (\<lambda>st.
        let arginfo_int = rd32 (mem st) arg_ptr;
            offset = arginfo_int mod kInitHeapSize;
            arginfo = load_arginfo (share (mem st) parent (arginfo_int - offset) page1) (page1 + offset) in
        bindE (ParseUSTARFromRawData magic arginfo (mem st) owner page2) (\<lambda>root.
        bindE (if pwd arginfo = 0 then Inr []
               else
                 bindE (string_at (mem st) (unat (pwd arginfo))) (\<lambda>path.
                 bindE (getDir root [] path) (\<lambda>c.
                 case c of None \<Rightarrow> Inl (AssertFailed ''Could not find pwd.'') | Some c \<Rightarrow> Inr c))) (\<lambda>cwd.
        let m = copy_in (mem st) frame parent (unat (packed_argv arginfo)) (unat (packed_argv_size arginfo)) in
        bindE (UnpackArgv m (unat (packed_argv_size arginfo)) frame) (\<lambda>argv.
        Inr (Main argv root cwd (st\<lparr>mem := m\<rparr>)))))))"

section \<open>Running a command\<close>

text \<open>
  \<open>ArgvFromArgString\<close> reads the buffer before it has written it: the assertion tests an uninitialised byte. The array
  of pointers has room for \<open>ARG_MAX\<close> of them and the final null pointer is one of these.
\<close>

partial_function (option) ArgvFromArgString_loop :: "mem \<Rightarrow> nat \<Rightarrow> nat \<Rightarrow> bool \<Rightarrow> nat list \<Rightarrow> (nat list \<times> mem) result option" where
  "ArgvFromArgString_loop m argstr argv_buffer parsing_arg argv =
     (if m argstr = 0 then
        Some (if length argv < kArgMax then Inr (argv, m(argv_buffer := 0)) else Inl (Undefined ''argv is full''))
      else if isspace (m argstr) then
        if parsing_arg then ArgvFromArgString_loop (m(argv_buffer := 0)) (argstr + 1) (argv_buffer + 1) False argv
        else ArgvFromArgString_loop m (argstr + 1) argv_buffer False argv
      else if parsing_arg then
        ArgvFromArgString_loop (m(argv_buffer := m argstr)) (argstr + 1) (argv_buffer + 1) True argv
      else if m argv_buffer = 0 then Some (Inl (AssertFailed ''Should not be pointing to a null terminator.''))
      else if kArgMax \<le> length argv then Some (Inl (Undefined ''argv is full''))
      else
        ArgvFromArgString_loop (m(argv_buffer := m argstr)) (argstr + 1) (argv_buffer + 1) True (argv @ [argv_buffer]))"

definition ArgvFromArgString :: "mem \<Rightarrow> nat \<Rightarrow> nat \<Rightarrow> (nat list \<times> mem) result" where
  "ArgvFromArgString m argstr argv_buffer =
     bindE (terminates (ArgvFromArgString_loop m argstr argv_buffer False [])) (\<lambda>r. r)"

text \<open>The command is run, or it is unknown and the result is -1. The contents of a file lie at \<open>data_of\<close> its node.\<close>

definition system ::
  "literals \<Rightarrow> node \<Rightarrow> (cursor \<Rightarrow> nat) \<Rightarrow> u32 \<Rightarrow> u32 \<Rightarrow> nat \<Rightarrow> u32 \<Rightarrow> u32 \<Rightarrow> nat \<Rightarrow> user_heap \<Rightarrow> (int \<times> task_request option \<times> user_heap) result" where
  "system L root data_of vfs_data vfs_owner argv_buffer frame_argv frame_arginfo cmd st =
     bindE (ArgvFromArgString (mem st) cmd argv_buffer) (\<lambda>(argv, m).
     let st = st\<lparr>mem := m\<rparr> in
     case argv of
       [] \<Rightarrow> Inr (0, None, st)
     | arg0 # _ \<Rightarrow>
         bindE (string_at m arg0) (\<lambda>path.
         bindE (getFile root [] path) (\<lambda>file.
         case file of
           Some c \<Rightarrow> bindE (LoadElfProgram L (data_of c) vfs_data vfs_owner argv 0 frame_argv frame_arginfo st) (\<lambda>(rq, st).
             Inr (0, Some rq, st))
         | None \<Rightarrow> Inr (- 1, None, st))))"

end
