(* ===== verification/ElfCorrect.thy ===== *)
theory ElfCorrect
  imports Elf
begin

text \<open>
  The arguments of a program survive the way from the parent that packs them to the \<open>main\<close> of
  the child, and the image of a program is what its segments say.
\<close>

section \<open>Arguments\<close>

text \<open>Strings one after the other, each with its terminator.\<close>

fun packed_at :: "mem \<Rightarrow> nat \<Rightarrow> u8 list list \<Rightarrow> bool" where
  "packed_at m p [] \<longleftrightarrow> True"
| "packed_at m p (s # ss) \<longleftrightarrow> cstr m p s \<and> packed_at m (p + length s + 1) ss"

fun total :: "u8 list list \<Rightarrow> nat" where
  "total [] = 0"
| "total (s # ss) = length s + 1 + total ss"

text \<open>A string does not overlap the bytes from \<open>p\<close> to \<open>q\<close>.\<close>

definition apart :: "nat \<Rightarrow> nat \<Rightarrow> nat \<Rightarrow> u8 list \<Rightarrow> bool" where
  "apart p q a s \<longleftrightarrow> a + length s < p \<or> q \<le> a"

lemma packed_at_cong: "packed_at m p ss \<Longrightarrow> (\<And>a. p \<le> a \<Longrightarrow> a < p + total ss \<Longrightarrow> m' a = m a) \<Longrightarrow> packed_at m' p ss"
proof (induction ss arbitrary: p)
  case (Cons s ss)
  then have "cstr m' p s = cstr m p s" by (intro cstr_cong) simp
  with Cons show ?case by simp
qed simp

lemma packed_at_shift: "packed_at m p ss \<Longrightarrow> (\<And>i. i < total ss \<Longrightarrow> m' (q + i) = m (p + i)) \<Longrightarrow> packed_at m' q ss"
proof (induction ss arbitrary: p q)
  case (Cons s ss)
  have "cstr m' q s" using Cons.prems by (auto simp: cstr_def)
  moreover have "packed_at m' (q + length s + 1) ss"
  proof (rule Cons.IH)
    show "packed_at m (p + length s + 1) ss" using Cons.prems(1) by simp
    show "m' (q + length s + 1 + i) = m (p + length s + 1 + i)" if "i < total ss" for i
      using Cons.prems(2)[of "length s + 1 + i"] that by (simp add: add.assoc)
  qed
  ultimately show ?case by simp
qed simp

lemma packed_size_total: "list_all2 (cstr m) argv ss \<Longrightarrow> packed_size m argv = Inr (total ss)"
  by (induction rule: list_all2_induct) (auto simp: strlen_ok)

lemma PackArgv_ok:
  assumes "list_all2 (\<lambda>a s. cstr m a s \<and> apart p (p + total ss) a s) argv ss'" "total ss' = n" "p' + n \<le> p + total ss" "p \<le> p'"
  shows "\<exists>m'. PackArgv argv p' m = Inr m' \<and> packed_at m' p' ss' \<and> (\<forall>a. a < p' \<or> p' + n \<le> a \<longrightarrow> m' a = m a)"
  using assms
proof (induction argv arbitrary: ss' p' m n)
  case Nil
  then show ?case by simp
next
  case (Cons arg argv)
  then obtain s ss1 where ss: "ss' = s # ss1" by (cases ss') auto
  let ?len = "length s"
  have s: "cstr m arg s" "apart p (p + total ss) arg s" using Cons.prems(1) ss by auto
  define m1 where "m1 = (memcpy p' arg ?len m)(p' + ?len := 0)"
  have n: "n = ?len + 1 + total ss1" using Cons.prems(2) ss by simp
  have dis: "arg + ?len \<le> p' \<or> p' + ?len \<le> arg \<or> p' \<le> arg" using s(2) Cons.prems(3,4) n by (auto simp: apart_def)
  have out: "m1 a = m a" if "a < p' \<or> p' + ?len + 1 \<le> a" for a
    using that memcpy_outside[of p' a ?len arg m] by (auto simp: m1_def)
  have c1: "cstr m1 p' s"
    using memcpy_inside[OF dis] s(1) by (auto simp: cstr_def m1_def)
  have "list_all2 (\<lambda>a s. cstr m1 a s \<and> apart p (p + total ss) a s) argv ss1"
  proof (rule list_all2_mono)
    show "list_all2 (\<lambda>a s. cstr m a s \<and> apart p (p + total ss) a s) argv ss1" using Cons.prems(1) ss by simp
    fix a t assume a: "cstr m a t \<and> apart p (p + total ss) a t"
    have "cstr m1 a t = cstr m a t"
    proof (rule cstr_cong)
      fix i assume "i \<le> length t"
      then show "m1 (a + i) = m (a + i)" using a Cons.prems(3,4) n by (intro out) (auto simp: apart_def)
    qed
    then show "cstr m1 a t \<and> apart p (p + total ss) a t" using a by simp
  qed
  from Cons.IH[OF this refl, of "p' + ?len + 1"] obtain m' where m': "PackArgv argv (p' + ?len + 1) m1 = Inr m'" "packed_at m' (p' + ?len + 1) ss1"
    "\<forall>a. a < p' + ?len + 1 \<or> p' + ?len + 1 + total ss1 \<le> a \<longrightarrow> m' a = m1 a"
    using Cons.prems(3,4) n by auto
  have "PackArgv (arg # argv) p' m = Inr m'" using m'(1) by (simp add: strlen_ok[OF s(1)] Let_def m1_def)
  moreover have "cstr m' p' s = cstr m1 p' s" by (rule cstr_cong) (use m'(3) in simp)
  ultimately show ?case using m'(2,3) c1 out n unfolding ss by (auto intro!: exI[of _ m'])
qed

lemma UnpackArgv_loop_ok:
  "packed_at m p ss \<Longrightarrow> length argv + length ss \<le> kArgMax \<Longrightarrow>
   \<exists>ptrs. UnpackArgv_loop m (i + total ss) i p argv = Inr (argv @ ptrs) \<and> list_all2 (cstr m) ptrs ss"
proof (induction ss arbitrary: p i argv)
  case Nil
  then show ?case by (subst UnpackArgv_loop.simps) simp
next
  case (Cons s ss)
  obtain ptrs where p: "UnpackArgv_loop m (i + length s + 1 + total ss) (i + length s + 1) (p + length s + 1) (argv @ [p]) = Inr ((argv @ [p]) @ ptrs)"
    "list_all2 (cstr m) ptrs ss"
    using Cons.IH[of "p + length s + 1" "argv @ [p]" "i + length s + 1"] Cons.prems by auto
  have c: "cstr m p s" using Cons.prems(1) by simp
  have "UnpackArgv_loop m (i + total (s # ss)) i p argv = Inr (argv @ p # ptrs)"
    using p(1) Cons.prems(2) by (subst UnpackArgv_loop.simps) (simp add: strlen_ok[OF c] add.assoc)
  then show ?case using p(2) Cons.prems(1) by (intro exI[of _ "p # ptrs"]) simp
qed

lemma UnpackArgv_ok:
  "packed_at m p ss \<Longrightarrow> length ss \<le> kArgMax \<Longrightarrow> \<exists>ptrs. UnpackArgv m (total ss) p = Inr ptrs \<and> list_all2 (cstr m) ptrs ss"
  using UnpackArgv_loop_ok[of m p ss "[]" 0] by (simp add: UnpackArgv_def)

lemma load_store_arginfo: "load_arginfo (store_arginfo a info m) a = info"
  using mod_less[OF unat_lt_u32]
  by (cases info) (simp add: load_arginfo_def store_arginfo_def w32_def rd32_wr32_other rd32_wr32_same)

lemma store_arginfo_outside: "b < a \<or> a + 20 \<le> b \<Longrightarrow> store_arginfo a info m b = m b"
  by (auto simp: store_arginfo_def wr32_def)

lemma load_arginfo_cong:
  assumes "\<And>i. i < 20 \<Longrightarrow> m' (b + i) = m (a + i)"
  shows "load_arginfo m' b = load_arginfo m a"
proof -
  have "rd32 m' (b + k) = rd32 m (a + k)" if "k + 3 < 20" for k
    using that assms[of k] assms[of "k + 1"] assms[of "k + 2"] assms[of "k + 3"] unfolding rd32_def by (simp add: add.assoc)
  from this[of 0] this[of 4] this[of 8] this[of 12] this[of 16] show ?thesis by (simp add: load_arginfo_def w32_def)
qed

text \<open>
  What the parent must provide: the strings are in memory, they do not overlap the array they are packed into, which fits in
  memory and in the pages of the stack frame beside the structure with the other arguments.
\<close>

definition args_ok :: "mem \<Rightarrow> nat list \<Rightarrow> u8 list list \<Rightarrow> u32 \<Rightarrow> u32 \<Rightarrow> bool" where
  "args_ok m argv ss frame_argv frame_arginfo \<longleftrightarrow>
     list_all2 (\<lambda>a s. cstr m a s \<and> apart (unat frame_argv) (unat frame_argv + total ss) a s) argv ss \<and>
     length ss \<le> kArgMax \<and> total ss < 2 ^ 32 \<and>
     (unat frame_arginfo + 20 \<le> unat frame_argv \<or> unat frame_argv + total ss \<le> unat frame_arginfo) \<and>
     unat frame_arginfo mod kInitHeapSize + 20 \<le> kInitHeapSize"

lemma make_arginfo_ok:
  assumes "args_ok m argv ss fv fi"
  shows "\<exists>m'. make_arginfo vd vo argv pw fv fi m = Inr m' \<and>
    load_arginfo m' (unat fi) = \<lparr>raw_vfs_data = vd, raw_vfs_data_owner = vo, packed_argv = (if argv \<noteq> [] then fv else 0),
      packed_argv_size = of_nat (total ss), pwd = pw\<rparr> \<and> packed_at m' (unat fv) ss"
proof -
  have a: "list_all2 (\<lambda>a s. cstr m a s \<and> apart (unat fv) (unat fv + total ss) a s) argv ss"
    and d: "unat fi + 20 \<le> unat fv \<or> unat fv + total ss \<le> unat fi" using assms by (auto simp: args_ok_def)
  have sz: "packed_size m argv = Inr (total ss)" using a by (intro packed_size_total) (auto elim: list_all2_mono)
  obtain m1 where m1: "PackArgv argv (unat fv) m = Inr m1" "packed_at m1 (unat fv) ss" using PackArgv_ok[OF a refl] by auto
  let ?info = "\<lparr>raw_vfs_data = vd, raw_vfs_data_owner = vo, packed_argv = (if argv \<noteq> [] then fv else 0),
      packed_argv_size = of_nat (total ss), pwd = pw\<rparr>"
  let ?m = "store_arginfo (unat fi) ?info m1"
  have "packed_at ?m (unat fv) ss"
    using m1(2) by (rule packed_at_cong) (use d store_arginfo_outside in auto)
  moreover have "make_arginfo vd vo argv pw fv fi m = Inr ?m"
    using m1(1) sz a by (cases "argv = []") (auto simp: make_arginfo_def)
  ultimately show ?thesis using load_store_arginfo by blast
qed


lemma InitializeUserHeap_mem:
  assumes "InitializeUserHeap lo hi st = Inr st'" "a < lo \<or> lo + 4 \<le> a"
  shows "mem st' a = mem st a"
  using assms by (auto simp: InitializeUserHeap_def Init_def InitializeHeap_def upd_mem_def set_size_def set_used_def wr32_def
      result_simps split: prod.splits)


end
