(* ===== verification/ElfImage.thy ===== *)
theory ElfImage
  imports ElfCorrect
begin

text \<open>The image \<open>load_image\<close> builds of a program: every loadable segment at its place, zeros in between.\<close>

text \<open>Where a segment goes, how long it is and where it lies in the file.\<close>

abbreviation seg_dst :: "mem \<Rightarrow> nat \<Rightarrow> u32 \<Rightarrow> nat \<Rightarrow> nat" where
  "seg_dst m phdr base i \<equiv> unat (p_vaddr (phdr_at m phdr i) - base)"

abbreviation seg_len :: "mem \<Rightarrow> nat \<Rightarrow> nat \<Rightarrow> nat" where
  "seg_len m phdr i \<equiv> unat (p_memsz (phdr_at m phdr i))"

abbreviation seg_src :: "mem \<Rightarrow> nat \<Rightarrow> nat \<Rightarrow> nat" where
  "seg_src m phdr i \<equiv> unat (p_offset (phdr_at m phdr i))"

abbreviation loads :: "mem \<Rightarrow> nat \<Rightarrow> nat \<Rightarrow> bool" where
  "loads m phdr i \<equiv> p_type (phdr_at m phdr i) = PT_LOAD"

text \<open>
  A statically linked program without section headers in a file of \<open>flen\<close> bytes: headers and segments inside the file,
  segments inside the span and apart from each other.
\<close>

definition static_elf :: "mem \<Rightarrow> nat \<Rightarrow> nat \<Rightarrow> u32 \<Rightarrow> u32 \<Rightarrow> bool" where
  "static_elf m elf flen base span \<longleftrightarrow>
     (let hdr = getElfHdr m elf; phdr = elf + unat (e_phoff hdr); n = e_phnum hdr in
      52 \<le> flen \<and> unat (e_phoff hdr) + n * 32 \<le> flen \<and> e_shnum hdr = 0 \<and>
      (\<forall>i < n. p_type (phdr_at m phdr i) \<noteq> PT_DYNAMIC) \<and>
      (\<forall>i < n. loads m phdr i \<longrightarrow> seg_dst m phdr base i + seg_len m phdr i \<le> unat span \<and> seg_src m phdr i + seg_len m phdr i \<le> flen) \<and>
      (\<forall>i < n. \<forall>j < i. loads m phdr i \<longrightarrow> loads m phdr j \<longrightarrow>
         seg_dst m phdr base i + seg_len m phdr i \<le> seg_dst m phdr base j \<or> seg_dst m phdr base j + seg_len m phdr j \<le> seg_dst m phdr base i))"

text \<open>The buffer at \<open>prog\<close> does not overlap the file and lies in the address space.\<close>

definition buffer_ok :: "nat \<Rightarrow> nat \<Rightarrow> u32 \<Rightarrow> u32 \<Rightarrow> bool" where
  "buffer_ok elf flen prog span \<longleftrightarrow>
     unat prog + unat span < 2 ^ 32 \<and> (elf + flen \<le> unat prog \<or> unat prog + unat span \<le> elf)"

text \<open>The image after the first \<open>n\<close> headers: the segments copied, zeros where there is none, nothing else changed.\<close>

definition image :: "nat \<Rightarrow> nat \<Rightarrow> u32 \<Rightarrow> u32 \<Rightarrow> u32 \<Rightarrow> mem \<Rightarrow> nat \<Rightarrow> mem \<Rightarrow> bool" where
  "image elf phdr prog base span m n m' \<longleftrightarrow>
     (\<forall>i < n. loads m phdr i \<longrightarrow> (\<forall>k < seg_len m phdr i. m' (unat prog + seg_dst m phdr base i + k) = m (elf + seg_src m phdr i + k))) \<and>
     (\<forall>b < unat span. (\<forall>i < n. loads m phdr i \<longrightarrow> \<not> (seg_dst m phdr base i \<le> b \<and> b < seg_dst m phdr base i + seg_len m phdr i)) \<longrightarrow>
        m' (unat prog + b) = 0) \<and>
     (\<forall>a. a < unat prog \<or> unat prog + unat span \<le> a \<longrightarrow> m' a = m a)"

lemma phdr_at_cong:
  assumes "\<And>x. phdr \<le> x \<Longrightarrow> x < phdr + n * 32 \<Longrightarrow> m' x = m x" "i < n"
  shows "phdr_at m' phdr i = phdr_at m phdr i"
proof -
  have "i * 32 + 32 \<le> n * 32" using assms(2) by simp
  then have "rd32 m' (phdr + i * 32 + k) = rd32 m (phdr + i * 32 + k)" if "k \<le> 28" for k
    using that assms(1) by (simp add: rd32_def)
  from this[of 0] this[of 4] this[of 8] this[of 12] this[of 16] this[of 20] this[of 24] this[of 28]
  show ?thesis by (simp add: phdr_at_def w32_def Let_def)
qed

lemma getElfHdr_cong:
  assumes "\<And>x. elf \<le> x \<Longrightarrow> x < elf + 52 \<Longrightarrow> m' x = m x"
  shows "getElfHdr m' elf = getElfHdr m elf"
proof -
  have "rd32 m' (elf + k) = rd32 m (elf + k)" if "k \<le> 48" for k using that assms by (simp add: rd32_def)
  moreover have "rd16 m' (elf + k) = rd16 m (elf + k)" if "k \<le> 50" for k using that assms by (simp add: rd16_def)
  moreover have "map (\<lambda>i. m' (elf + i)) [0 ..< 16] = map (\<lambda>i. m (elf + i)) [0 ..< 16]" using assms by (simp del: upt_conv_Cons)
  ultimately show ?thesis by (simp add: getElfHdr_def w32_def del: upt_conv_Cons)
qed

text \<open>One more segment.\<close>

lemma image_step:
  assumes "static_elf m elf flen base span" "buffer_ok elf flen prog span"
    and "phdr = elf + unat (e_phoff (getElfHdr m elf))" "n < e_phnum (getElfHdr m elf)"
    and img: "image elf phdr prog base span m n m'"
  shows "image elf phdr prog base span m (Suc n) (copy_segment elf phdr prog base n m')"
proof -
  let ?N = "e_phnum (getElfHdr m elf)"
  have out: "m' a = m a" if "a < unat prog \<or> unat prog + unat span \<le> a" for a using img that unfolding image_def by blast
  have unch: "m' a = m a" if "elf \<le> a" "a < elf + flen" for a using assms(2) that by (intro out) (auto simp: buffer_ok_def)
  have el: "unat (e_phoff (getElfHdr m elf)) + ?N * 32 \<le> flen"
    "\<forall>i < ?N. loads m phdr i \<longrightarrow> seg_dst m phdr base i + seg_len m phdr i \<le> unat span \<and> seg_src m phdr i + seg_len m phdr i \<le> flen"
    "\<forall>i < ?N. \<forall>j < i. loads m phdr i \<longrightarrow> loads m phdr j \<longrightarrow>
         seg_dst m phdr base i + seg_len m phdr i \<le> seg_dst m phdr base j \<or> seg_dst m phdr base j + seg_len m phdr j \<le> seg_dst m phdr base i"
    using assms(1) unfolding static_elf_def Let_def assms(3)[symmetric] by blast+
  have ph: "phdr_at m' phdr n = phdr_at m phdr n"
    by (rule phdr_at_cong[OF _ assms(4)]) (use unch el(1) assms(3) in auto)
  show ?thesis
  proof (cases "loads m phdr n")
    case False
    then show ?thesis using img ph by (auto simp: image_def copy_segment_def Let_def less_Suc_eq)
  next
    case True
    let ?d = "seg_dst m phdr base n" and ?l = "seg_len m phdr n" and ?s = "seg_src m phdr n"
    have b: "?d + ?l \<le> unat span" "?s + ?l \<le> flen" "unat prog + unat span < 2 ^ 32" using el(2) assms(2,4) True by (auto simp: buffer_ok_def)
    have "unat (prog + (p_vaddr (phdr_at m phdr n) - base)) = unat prog + ?d"
      using b by (subst unat_add_lem[symmetric]) (simp_all)
    then have dst: "unat (prog + p_vaddr (phdr_at m phdr n) - base) = unat prog + ?d" by (simp add: add_diff_eq)
    have c: "copy_segment elf phdr prog base n m' = memcpy (unat prog + ?d) (elf + ?s) ?l m'"
      using True by (simp add: copy_segment_def ph dst Let_def)
    have ov: "elf + ?s + ?l \<le> unat prog + ?d \<or> unat prog + ?d + ?l \<le> elf + ?s \<or> unat prog + ?d \<le> elf + ?s"
      using b assms(2) by (auto simp: buffer_ok_def)
    have new: "memcpy (unat prog + ?d) (elf + ?s) ?l m' (unat prog + ?d + k) = m (elf + ?s + k)" if "k < ?l" for k
      using memcpy_inside[OF ov that] unch[of "elf + ?s + k"] b(2) that by simp
    have old: "memcpy (unat prog + ?d) (elf + ?s) ?l m' a = m' a" if "a < unat prog + ?d \<or> unat prog + ?d + ?l \<le> a" for a
      using that by (intro memcpy_outside) auto
    show ?thesis unfolding image_def c
    proof (intro conjI allI impI)
      fix i k assume i: "i < Suc n" "loads m phdr i" "k < seg_len m phdr i"
      show "memcpy (unat prog + ?d) (elf + ?s) ?l m' (unat prog + seg_dst m phdr base i + k) = m (elf + seg_src m phdr i + k)"
      proof (cases "i = n")
        case False
        then have "i < n" using i(1) by simp
        then have "?d + ?l \<le> seg_dst m phdr base i \<or> seg_dst m phdr base i + seg_len m phdr i \<le> ?d"
          using el(3) assms(4) True i(2) by blast
        then have "memcpy (unat prog + ?d) (elf + ?s) ?l m' (unat prog + seg_dst m phdr base i + k) = m' (unat prog + seg_dst m phdr base i + k)"
          using i(3) by (intro old) auto
        then show ?thesis using img \<open>i < n\<close> i by (simp add: image_def)
      qed (use new i(3) in simp)
    next
      fix b' assume z: "b' < unat span" "\<forall>i < Suc n. loads m phdr i \<longrightarrow> \<not> (seg_dst m phdr base i \<le> b' \<and> b' < seg_dst m phdr base i + seg_len m phdr i)"
      then have "memcpy (unat prog + ?d) (elf + ?s) ?l m' (unat prog + b') = m' (unat prog + b')" using True by (intro old) auto
      then show "memcpy (unat prog + ?d) (elf + ?s) ?l m' (unat prog + b') = 0" using img z by (simp add: image_def)
    next
      fix a assume "a < unat prog \<or> unat prog + unat span \<le> a"
      then show "memcpy (unat prog + ?d) (elf + ?s) ?l m' a = m a" using out b(1) by (subst old) auto
    qed
  qed
qed

lemma image_fold:
  assumes "static_elf m elf flen base span" "buffer_ok elf flen prog span" "phdr = elf + unat (e_phoff (getElfHdr m elf))"
  shows "n \<le> e_phnum (getElfHdr m elf) \<Longrightarrow>
    image elf phdr prog base span m n (fold (copy_segment elf phdr prog base) [0 ..< n] (memset (unat prog) 0 (unat span) m))"
proof (induction n)
  case 0
  then show ?case by (auto simp: image_def memset_spec)
next
  case (Suc n)
  then show ?case using image_step[OF assms, of n] by simp
qed

lemma find_dynamic_None: "\<forall>i \<in> set is. p_type (phdr_at m phdr i) \<noteq> PT_DYNAMIC \<Longrightarrow> find_dynamic m phdr is = None"
  by (induction "is") auto


text \<open>A program of one segment with two bytes.\<close>

definition elf0 :: mem where
  "elf0 a = (if a = 0x101C then 52 else if a = 0x102C then 1 else if a = 0x1034 then 1 else if a = 0x1038 then 84
     else if a = 0x1048 then 2 else if a = 0x1054 then 0xAA else if a = 0x1055 then 0xBB else 0)"


end
