(* ===== verification/Devices.thy ===== *)
theory Devices
  imports Print CString
begin

text \<open>
  The serial port, \<^verbatim>\<open>kernel/serial.cpp\<close>, and the keyboard, \<^verbatim>\<open>kernel/keyboard.cpp\<close>. The port is the bytes that have arrived
  and are not read yet, the bytes sent, whether the transmitter is empty, and the writes to its
  configuration registers. A wait for the transmitter ends, since the hardware empties it; a wait for input
  that never comes does not.
\<close>

section \<open>Serial port\<close>

record serial_port =
  sp_in :: "u8 list"
  sp_out :: "u8 list"
  sp_ready :: bool
  sp_config :: "(u16 \<times> u8) list"

definition kCOM1 :: u16 where "kCOM1 = 0x3F8"

definition Received :: "serial_port \<Rightarrow> bool" where "Received p \<longleftrightarrow> sp_in p \<noteq> []"

definition IsTransmitEmpty :: "serial_port \<Rightarrow> bool" where "IsTransmitEmpty p \<longleftrightarrow> sp_ready p"

definition serial_Initialize :: "serial_port \<Rightarrow> serial_port" where
  "serial_Initialize p = p\<lparr>sp_config := sp_config p @
     [(kCOM1 + 1, 0x00), (kCOM1 + 3, 0x80), (kCOM1 + 0, 0x03), (kCOM1 + 1, 0x00), (kCOM1 + 3, 0x03), (kCOM1 + 2, 0xC7), (kCOM1 + 4, 0x0B)]\<rparr>"

definition TryRead :: "serial_port \<Rightarrow> u8 option \<times> serial_port" where
  "TryRead p = (if Received p then (Some (hd (sp_in p)), p\<lparr>sp_in := tl (sp_in p)\<rparr>) else (None, p))"

definition TryWrite :: "u8 \<Rightarrow> serial_port \<Rightarrow> bool \<times> serial_port" where
  "TryWrite c p = (if IsTransmitEmpty p then (True, p\<lparr>sp_out := sp_out p @ [c]\<rparr>) else (False, p))"

definition AtomicRead :: "serial_port \<Rightarrow> (u8 \<times> serial_port) result" where
  "AtomicRead p = (if Received p then Inr (hd (sp_in p), p\<lparr>sp_in := tl (sp_in p)\<rparr>) else Inl Diverges)"

definition AtomicPut :: "u8 \<Rightarrow> serial_port \<Rightarrow> serial_port" where
  "AtomicPut c p = p\<lparr>sp_out := sp_out p @ [c]\<rparr>"

definition AtomicWrite :: "mem \<Rightarrow> nat \<Rightarrow> serial_port \<Rightarrow> serial_port result" where
  "AtomicWrite m str p = bindE (strlen m str) (\<lambda>size0. Inr (fold (\<lambda>i. AtomicPut (m (str + i))) [0 ..< size0] p))"

definition bytes_of :: "string \<Rightarrow> u8 list" where
  "bytes_of s = map (\<lambda>c. of_nat (of_char c)) s"

definition DebugPrint :: "string \<Rightarrow> print_arg list \<Rightarrow> serial_port \<Rightarrow> serial_port result" where
  "DebugPrint str args p =
     (case Print str args of
        (out, None) \<Rightarrow> Inr (fold AtomicPut (bytes_of out) p)
      | (out, Some e) \<Rightarrow> Inl e)"

section \<open>Keyboard\<close>

definition ENTER :: u8 where "ENTER = 0x1C"
definition LCTRL :: u8 where "LCTRL = 0x1D"
definition LSHIFT :: u8 where "LSHIFT = 0x2A"
definition RSHIFT :: u8 where "RSHIFT = 0x36"

definition NOACTION :: u8 where "NOACTION = 0"

text \<open>The array has the terminator of the literal as its last element.\<close>

definition kKeyPresses :: "u8 list" where
  "kKeyPresses =
     [0, 0x1B] @ bytes_of ''1234567890'' @
     bytes_of ''-='' @ [0x08, 0x09] @
     bytes_of ''qwertyuiop[]'' @ [0, 0] @
     bytes_of ''asdfghjkl;'' @ [0x27, 0x60, 0, 0x5C] @
     bytes_of ''zxcvbnm,./'' @ [0] @ bytes_of ''*'' @ [0]"

definition kNumKeyPresses :: nat where "kNumKeyPresses = length kKeyPresses"

text \<open>The cases of the \<open>switch\<close>: each character with its shifted one.\<close>

definition shifted_pairs :: "(u8 \<times> u8) list" where
  "shifted_pairs =
     (0x60, 0x7E) # (0x5C, 0x7C) # (0x27, 0x22) #
     zip (bytes_of ''1234567890-=[];,./'') (bytes_of ''!@#$%^&*()_+{}:<>?'')"

definition ShiftedKey :: "u8 \<Rightarrow> u8" where
  "ShiftedKey pressed_key =
     (if islower (sint pressed_key) then of_int (toupper (sint pressed_key))
      else case map_of shifted_pairs pressed_key of Some c \<Rightarrow> c | None \<Rightarrow> pressed_key)"

text \<open>The state is \<open>PreviousAction\<close> and the serial port.\<close>

definition KeyboardCallback :: "u8 \<Rightarrow> u8 \<times> serial_port \<Rightarrow> (u8 \<times> serial_port) result" where
  "KeyboardCallback scancode = (\<lambda>(PreviousAction, p).
     if unat scancode < kNumKeyPresses then
       if scancode = ENTER then Inr (NOACTION, AtomicPut 0x0A p)
       else if scancode = LCTRL \<or> scancode = LSHIFT \<or> scancode = RSHIFT then Inr (scancode, p)
       else
         let pressed_key = kKeyPresses ! unat scancode in
         if pressed_key = 0 then
           bindE (DebugPrint (''WARNING: Found an unmapped scancode that doesn'' @ [CHR 0x27] @ ''t have an ascii character: {}'' @ [CHR 0x0A])
             [ArgHex8 scancode] p) (\<lambda>p. Inr (PreviousAction, p))
         else if PreviousAction = ENTER then Inl (PanicError ''Should've already handled ENTER key.'')
         else
           let pressed_key = (if PreviousAction = LSHIFT \<or> PreviousAction = RSHIFT then ShiftedKey pressed_key else pressed_key) in
           Inr (NOACTION, AtomicPut pressed_key p)
     else if scancode < 0xE0 then Inr (PreviousAction, p)
     else bindE (DebugPrint (''WARNING: Unhandled scancode {}'' @ [CHR 0x0A]) [ArgHex8 scancode] p) (\<lambda>p. Inr (PreviousAction, p)))"

section \<open>What is typed\<close>

lemma AtomicPut_fold: "sp_out (fold AtomicPut cs p) = sp_out p @ cs"
  by (induction cs arbitrary: p) (simp_all add: AtomicPut_def)

text \<open>Bytes sent come out in order, bytes that arrive are read in order.\<close>

lemma AtomicWrite_out: "cstr m str s \<Longrightarrow> \<exists>p'. AtomicWrite m str p = Inr p' \<and> sp_out p' = sp_out p @ s"
proof -
  assume s: "cstr m str s"
  have "fold (\<lambda>i. AtomicPut (m (str + i))) xs p = fold AtomicPut (map (\<lambda>i. m (str + i)) xs) p" for xs
    by (simp add: fold_map comp_def)
  moreover have "map (\<lambda>i. m (str + i)) [0 ..< length s] = s" using s by (auto simp: cstr_def intro: nth_equalityI)
  ultimately show ?thesis using s by (simp add: AtomicWrite_def strlen_ok AtomicPut_fold)
qed

lemma AtomicRead_in: "sp_in p = c # cs \<Longrightarrow> AtomicRead p = Inr (c, p\<lparr>sp_in := cs\<rparr>)"
  by (simp add: AtomicRead_def Received_def)

lemma kNumKeyPresses_value: "kNumKeyPresses = 57"
  by (simp add: kNumKeyPresses_def kKeyPresses_def bytes_of_def)

text \<open>Every scancode between the table and 0xE0 is taken for a release, the space bar (0x39) among them.\<close>

lemma KeyboardCallback_ignored: "0x39 \<le> scancode \<Longrightarrow> scancode < 0xE0 \<Longrightarrow> KeyboardCallback scancode s = Inr s"
  by (cases s) (simp add: KeyboardCallback_def kNumKeyPresses_value word_le_nat_alt)

text \<open>Shift changes the next key only.\<close>

lemma shift_next_key:
  assumes "unat a < 57" "kKeyPresses ! unat a \<noteq> 0" "a \<notin> {ENTER, LCTRL, LSHIFT, RSHIFT}"
  shows "bindE (KeyboardCallback LSHIFT (prev, p)) (KeyboardCallback a) = Inr (NOACTION, AtomicPut (ShiftedKey (kKeyPresses ! unat a)) p)"
    and "KeyboardCallback a (NOACTION, p) = Inr (NOACTION, AtomicPut (kKeyPresses ! unat a) p)"
  using assms by (simp_all add: KeyboardCallback_def kNumKeyPresses_value LSHIFT_def ENTER_def LCTRL_def RSHIFT_def NOACTION_def)

end
