(* ===== verification/UserTask.thy ===== *)
theory UserTask
  imports TaskMemory Scheduler Devices
begin

text \<open>
  User tasks: the rest of \<^verbatim>\<open>kernel/task.cpp\<close> and \<^verbatim>\<open>kernel/include/ktask.h\<close>, over the scheduler, the
  page directories and physical memory together. The page directories are the \<open>world\<close> of the
  kernel heap, which grows through them.
\<close>

section \<open>The machine\<close>

record machine =
  m_kernel :: kernel
  m_pmem :: "nat \<Rightarrow> u8"
  m_serial :: serial_port

definition m_pg :: "machine \<Rightarrow> paging" where
  "m_pg M = world (k_heap (m_kernel M))"

definition on_kernel :: "(kernel \<Rightarrow> kernel result) \<Rightarrow> machine \<Rightarrow> machine result" where
  "on_kernel f M = bindE (f (m_kernel M)) (\<lambda>k. Inr (M\<lparr>m_kernel := k\<rparr>))"

definition set_pg :: "paging \<Rightarrow> kernel \<Rightarrow> kernel" where
  "set_pg s k = k\<lparr>k_heap := (k_heap k)\<lparr>world := s\<rparr>\<rparr>"

definition on_pg :: "(paging \<Rightarrow> paging result) \<Rightarrow> machine \<Rightarrow> machine result" where
  "on_pg f M = bindE (f (m_pg M)) (\<lambda>s. Inr (M\<lparr>m_kernel := set_pg s (m_kernel M)\<rparr>))"

definition on_vm :: "(vm \<Rightarrow> vm result) \<Rightarrow> machine \<Rightarrow> machine result" where
  "on_vm f M = bindE (f \<lparr>pg = m_pg M, pmem = m_pmem M\<rparr>) (\<lambda>v.
     Inr (M\<lparr>m_kernel := set_pg (pg v) (m_kernel M), m_pmem := pmem v\<rparr>))"

text \<open>Storing bytes and little-endian words in the current address space.\<close>

fun vstore_bytes :: "u32 \<Rightarrow> u8 list \<Rightarrow> vm \<Rightarrow> vm result" where
  "vstore_bytes va [] st = Inr st"
| "vstore_bytes va (b # bs) st = bindE (vstore va b st) (vstore_bytes (va + 1) bs)"

definition word_bytes :: "u32 \<Rightarrow> u8 list" where
  "word_bytes w = [ucast w, ucast (drop_bit 8 w), ucast (drop_bit 16 w), ucast (drop_bit 24 w)]"

definition store32 :: "u32 \<Rightarrow> u32 \<Rightarrow> vm \<Rightarrow> vm result" where
  "store32 va w = vstore_bytes va (word_bytes w)"

section \<open>Construction\<close>

text \<open>
  \<open>Task::Write\<close> of a local variable of the kernel, whose bytes are given: \<open>TaskMemcpy\<close> with the bytes stored through the
  window, which does not cover the kernel's stack.
\<close>

definition Task_Write_local :: "pd_ref \<Rightarrow> pd_ref \<Rightarrow> u32 \<Rightarrow> u8 list \<Rightarrow> vm \<Rightarrow> vm result" where
  "Task_Write_local this_pd current_pd dst bs st =
     (let aligned = (unat dst mod kPageSize4M = 0);
          vaddr_page = (if aligned then dst else PageAddr4M (PageIndex4M dst));
          vaddr_offset = (if aligned then 0 else dst - vaddr_page) in
      bindE (GetPhysicalAddr (pg st) this_pd vaddr_page) (\<lambda>paddr.
      bindE (AddPage current_pd TMP_SHARED_TASK_MEM_START paddr 0 True (pg st)) (\<lambda>s.
      bindE (vstore_bytes (TMP_SHARED_TASK_MEM_START + vaddr_offset) bs (st\<lparr>pg := s\<rparr>)) (\<lambda>st.
      bindE (RemovePage current_pd TMP_SHARED_TASK_MEM_START (pg st)) (\<lambda>s. Inr (st\<lparr>pg := s\<rparr>))))))"

text \<open>Pushing words on the stack of the new task, each written below the one before.\<close>

fun push_user :: "pd_ref \<Rightarrow> pd_ref \<Rightarrow> u32 \<Rightarrow> u32 list \<Rightarrow> vm \<Rightarrow> vm result" where
  "push_user this_pd current_pd sp [] st = Inr st"
| "push_user this_pd current_pd sp (w # ws) st =
     bindE (Task_Write_local this_pd current_pd (sp - 4) (word_bytes w) st) (push_user this_pd current_pd (sp - 4) ws)"

text \<open>
  A copy function gets the ends of the shared region and returns the word for the stack. The
  default one stores its argument at the end of the region, in the current address space.
\<close>

type_synonym copy_func = "u32 \<Rightarrow> u32 \<Rightarrow> vm \<Rightarrow> (u32 \<times> vm) result"

definition CopyArgDefault :: "u32 \<Rightarrow> copy_func" where
  "CopyArgDefault arg dst_start dst_end st = bindE (store32 (dst_end - 4) arg st) (\<lambda>st. Inr (arg, st))"

text \<open>The words from the bottom of the stack on: the argument, and what \<open>iret\<close> pops into user mode.\<close>

definition user_stack :: "u32 \<Rightarrow> u32 \<Rightarrow> u32 list" where
  "user_stack stack_arg entry_offset =
     [stack_arg, kUserDataSegment, USER_SHARED_SPACE_END - 4, 0x202, kUserCodeSegment, USER_START + entry_offset]"

definition UserTask_construct :: "nat \<Rightarrow> bool \<Rightarrow> u32 \<Rightarrow> u32 \<Rightarrow> copy_func \<Rightarrow> u32 \<Rightarrow> machine \<Rightarrow> machine result" where
  "UserTask_construct this garbage func codesize copyfunc entry_offset M =
     bindE (Clone KernelPD (m_pg M)) (\<lambda>(pd, s).
     bindE (on_kernel (Task_construct this garbage pd True) (M\<lparr>m_kernel := set_pg s (m_kernel M)\<rparr>)) (\<lambda>M.
     bindE (kmalloc DEFAULT_THREAD_STACK_SIZE (k_heap (m_kernel M))) (\<lambda>(esp0, h).
     let M = M\<lparr>m_kernel := upd_task this (\<lambda>t. t\<lparr>t_stack := esp0, t_entry_offset := entry_offset\<rparr>) ((m_kernel M)\<lparr>k_heap := h\<rparr>)\<rparr> in
     case k_current (m_kernel M) of None \<Rightarrow> Inl (Undefined ''null current task'') | Some cur \<Rightarrow>
     bindE (the_task (m_kernel M) cur) (\<lambda>current.
     bindE (NextFreePhysicalPage (phys (m_pg M)) 1) (\<lambda>paddr.
     assertE (\<not> isVirtualMapped (m_pg M) pd USER_SHARED_SPACE_START) ''The page directory for this user task should not have previously reserves the shared user space page.'' (
     bindE (on_pg (AddPage pd USER_SHARED_SPACE_START paddr PG_USER False) M) (\<lambda>M.
     bindE (on_pg (AddPage KernelPD USER_SHARED_SPACE_START paddr 0 True) M) (\<lambda>M.
     bindE (copyfunc USER_SHARED_SPACE_START USER_SHARED_SPACE_END \<lparr>pg = m_pg M, pmem = m_pmem M\<rparr>) (\<lambda>(stack_arg, v).
     let M = M\<lparr>m_kernel := set_pg (pg v) (m_kernel M), m_pmem := pmem v\<rparr> in
     bindE (on_vm (push_user pd (t_pd current) USER_SHARED_SPACE_END (user_stack stack_arg entry_offset)) M) (\<lambda>M.
     let M = M\<lparr>m_kernel := upd_task this (\<lambda>t. t\<lparr>t_regs := (t_regs t)\<lparr>r_ds := ucast kUserDataSegment, r_cs := ucast kUserCodeSegment,
               r_esp := USER_SHARED_SPACE_END - 24\<rparr>\<rparr>) (m_kernel M)\<rparr> in
     bindE (on_pg (RemovePage KernelPD USER_SHARED_SPACE_START) M) (\<lambda>M.
     bindE (on_kernel (AddToQueue this) M) (\<lambda>M.
     bindE (NextFreePhysicalPage (phys (m_pg M)) 0) (\<lambda>userstart_paddr.
     bindE (on_pg (AddPage pd USER_START userstart_paddr PG_USER False) M) (\<lambda>M.
     bindE (GetPhysicalAddr (m_pg M) pd USER_START) (\<lambda>a.
     assertE (a = userstart_paddr) ''getPageDirectory().GetPhysicalAddr((void *)USER_START) == userstart_paddr'' (
     on_vm (Task_Write False pd (t_pd current) USER_START func (unat codesize)) M))))))))))))))))"

section \<open>Destruction\<close>

text \<open>
  \<open>Join\<close> waits for the task to complete while other tasks run. The destructors are the steps taken once it returns; in a
  state where the task still runs they do not get past it.
\<close>

definition Join :: "nat \<Rightarrow> kernel \<Rightarrow> kernel result" where
  "Join this k =
     assertE (k_interrupts k) ''InterruptsAreEnabled()'' (
     bindE (the_task k this) (\<lambda>t. if t_state t = COMPLETED then Inr k else Inl Diverges))"

definition KernelTask_destruct :: "nat \<Rightarrow> kernel \<Rightarrow> kernel result" where
  "KernelTask_destruct this k =
     bindE (if Some this \<noteq> k_main k then Join this k else Inr k) (\<lambda>k.
     bindE (the_task k this) (\<lambda>t.
     bindE (kfree (t_stack t) (k_heap k)) (\<lambda>h.
     Task_destruct this (k\<lparr>k_heap := h\<rparr>))))"

definition UserTask_destruct :: "nat \<Rightarrow> kernel \<Rightarrow> kernel result" where
  "UserTask_destruct this k =
     bindE (Join this k) (\<lambda>k.
     bindE (the_task k this) (\<lambda>t.
     bindE (ReclaimPageDirRegion (t_pd t) (world (k_heap k))) (\<lambda>s.
     bindE (kfree (t_stack t) (k_heap (set_pg s k))) (\<lambda>h.
     Task_destruct this (k\<lparr>k_heap := h\<rparr>)))))"

definition DestroyScheduler :: "kernel \<Rightarrow> kernel result" where
  "DestroyScheduler k =
     (case k_queue k of
        [(node, main)] \<Rightarrow>
          bindE (KernelTask_destruct main k) (\<lambda>k.
          bindE (kfree main (k_heap k)) (\<lambda>h.
          bindE (kfree node h) (\<lambda>h. Inr (k\<lparr>k_heap := h\<rparr>))))
      | _ \<Rightarrow> Inl (AssertFailed ''Expected only the main task to be left.''))"

end
