(* ===== verification/Syscalls.thy ===== *)
theory Syscalls
  imports UserTask
begin

text \<open>
  System calls: the handler and its table, \<^verbatim>\<open>kernel/syscall.cpp\<close>, and the user side of the register protocol,
  \<^verbatim>\<open>libc/_syscalls.cpp\<close>. The kernel runs in the address space of the calling task, so that its accesses through
  user pointers go through the page directory of that task.
\<close>

section \<open>Reading strings of the caller\<close>

partial_function (option) vstring_loop :: "vm \<Rightarrow> u32 \<Rightarrow> u8 list \<Rightarrow> u8 list result option" where
  "vstring_loop st va acc =
     (case vload va st of
        Inl e \<Rightarrow> Some (Inl e)
      | Inr c \<Rightarrow> if c = 0 then Some (Inr acc) else vstring_loop st (va + 1) (acc @ [c]))"

definition vstring :: "u32 \<Rightarrow> vm \<Rightarrow> u8 list result" where
  "vstring va st = bindE (terminates (vstring_loop st va [])) (\<lambda>r. r)"

section \<open>The system calls\<close>

definition kSyscallInterrupt :: u8 where "kSyscallInterrupt = 0x80"

definition current_task :: "machine \<Rightarrow> (nat \<times> task) result" where
  "current_task M =
     (case k_current (m_kernel M) of None \<Rightarrow> Inl (Undefined ''null current task'')
      | Some cur \<Rightarrow> bindE (the_task (m_kernel M) cur) (\<lambda>t. Inr (cur, t)))"

text \<open>A call returns its result and the machine, or it has left for another task.\<close>

datatype outcome = Returned u32 machine | Switched cpu machine

text \<open>\<open>DebugPrint\<close> without arguments copies the string.\<close>

definition debug_write :: "u32 \<Rightarrow> machine \<Rightarrow> outcome result" where
  "debug_write str M =
     bindE (vstring str \<lparr>pg = m_pg M, pmem = m_pmem M\<rparr>) (\<lambda>s.
     Inr (Returned 0 (M\<lparr>m_serial := fold AtomicPut s (m_serial M)\<rparr>)))"

definition exit_user_task :: "(nat \<Rightarrow> u32 \<Rightarrow> u32) \<Rightarrow> machine \<Rightarrow> outcome result" where
  "exit_user_task stk M =
     bindE (exit_this_task stk (m_kernel M)) (\<lambda>(c, k). Inr (Switched c (M\<lparr>m_kernel := k\<rparr>)))"

definition debug_read :: "u32 \<Rightarrow> machine \<Rightarrow> outcome result" where
  "debug_read c M =
     (case TryRead (m_serial M) of
        (Some b, p) \<Rightarrow> bindE (on_vm (vstore c b) (M\<lparr>m_serial := p\<rparr>)) (\<lambda>M. Inr (Returned 0 M))
      | (None, p) \<Rightarrow> Inr (Returned 1 M))"

text \<open>\<open>task_size\<close> is the size of a \<open>UserTask\<close> object.\<close>

definition create_user_task :: "nat \<Rightarrow> bool \<Rightarrow> u32 \<Rightarrow> u32 \<Rightarrow> u32 \<Rightarrow> u32 \<Rightarrow> u32 \<Rightarrow> machine \<Rightarrow> outcome result" where
  "create_user_task task_size garbage entry codesize arg handle entry_offset M =
     bindE (kmalloc task_size (k_heap (m_kernel M))) (\<lambda>(child, h).
     bindE (UserTask_construct child garbage entry codesize (CopyArgDefault arg) entry_offset (M\<lparr>m_kernel := (m_kernel M)\<lparr>k_heap := h\<rparr>\<rparr>)) (\<lambda>M.
     bindE (on_vm (store32 handle (of_nat child)) M) (\<lambda>M. Inr (Returned 0 M))))"

definition destroy_user_task :: "u32 \<Rightarrow> machine \<Rightarrow> outcome result" where
  "destroy_user_task handle M =
     bindE (the_task (m_kernel M) (unat handle)) (\<lambda>task.
     assertE (t_user task) ''task->isUserTask()'' (
     bindE (UserTask_destruct (unat handle) ((m_kernel M)\<lparr>k_interrupts := True\<rparr>)) (\<lambda>k.
     bindE (kfree (unat handle) (k_heap k)) (\<lambda>h.
     Inr (Returned 0 (M\<lparr>m_kernel := k\<lparr>k_heap := h, k_interrupts := False\<rparr>\<rparr>))))))"

definition copy_from_task :: "u32 \<Rightarrow> u32 \<Rightarrow> u32 \<Rightarrow> u32 \<Rightarrow> machine \<Rightarrow> outcome result" where
  "copy_from_task handle dst src sz M =
     bindE (the_task (m_kernel M) (unat handle)) (\<lambda>task.
     assertE (t_user task) ''task->isUserTask()'' (
     bindE (current_task M) (\<lambda>(cur, current).
     bindE (on_vm (Task_Read (unat handle = cur) (t_pd task) (t_pd current) dst src (unat sz)) M) (\<lambda>M.
     Inr (Returned 0 M)))))"

definition share_page :: "u32 \<Rightarrow> u32 \<Rightarrow> u32 \<Rightarrow> machine \<Rightarrow> outcome result" where
  "share_page handle dst src M =
     bindE (the_task (m_kernel M) (unat handle)) (\<lambda>task.
     assertE (t_user task) ''task->isUserTask()'' (
     bindE (current_task M) (\<lambda>(cur, current).
     assertE (unat handle \<noteq> cur) ''task != GetCurrentTask()'' (
     case GetNextFreeVirtualUser (m_pg M) (t_pd current) of
       None \<Rightarrow> Inl (AssertFailed ''next_free_vpage'')
     | Some next_free_vpage \<Rightarrow>
         bindE (on_pg (MapPageFromTask False (t_pd current) (t_pd task) next_free_vpage src) M) (\<lambda>M.
         bindE (on_vm (store32 dst next_free_vpage) M) (\<lambda>M. Inr (Returned 0 M)))))))"

definition unmap_page :: "u32 \<Rightarrow> machine \<Rightarrow> outcome result" where
  "unmap_page dst M =
     bindE (current_task M) (\<lambda>(cur, current).
     bindE (on_pg (UnmapPage (t_pd current) dst) M) (\<lambda>M. Inr (Returned 0 M)))"

definition getParent :: "nat \<Rightarrow> task \<Rightarrow> kernel \<Rightarrow> nat result" where
  "getParent this t k =
     assertE (Some this \<noteq> k_main k) ''Attempting to get non-existant parent of the main kernel task.'' (
     case t_parent t of None \<Rightarrow> Inl (Undefined ''null parent'') | Some p \<Rightarrow> Inr p)"

definition get_parent_task :: "u32 \<Rightarrow> machine \<Rightarrow> outcome result" where
  "get_parent_task handle M =
     bindE (current_task M) (\<lambda>(cur, current).
     bindE (getParent cur current (m_kernel M)) (\<lambda>p.
     bindE (on_vm (store32 handle (of_nat p)) M) (\<lambda>M. Inr (Returned 0 M))))"

definition get_parent_task_id :: "u32 \<Rightarrow> machine \<Rightarrow> outcome result" where
  "get_parent_task_id id_ptr M =
     bindE (current_task M) (\<lambda>(cur, current).
     bindE (getParent cur current (m_kernel M)) (\<lambda>p.
     bindE (the_task (m_kernel M) p) (\<lambda>parent.
     bindE (on_vm (store32 id_ptr (t_id parent)) M) (\<lambda>M. Inr (Returned 0 M)))))"

definition get_current_task :: "u32 \<Rightarrow> machine \<Rightarrow> outcome result" where
  "get_current_task handle M =
     bindE (current_task M) (\<lambda>(cur, current).
     bindE (on_vm (store32 handle (of_nat cur)) M) (\<lambda>M. Inr (Returned 0 M)))"

definition MAP_SUCCESS :: u32 where "MAP_SUCCESS = 0"
definition MAP_UNALIGNED_ADDR :: u32 where "MAP_UNALIGNED_ADDR = - 1"
definition MAP_ALREADY_MAPPED :: u32 where "MAP_ALREADY_MAPPED = - 2"
definition MAP_OOM :: u32 where "MAP_OOM = - 3"

definition map_page :: "u32 \<Rightarrow> machine \<Rightarrow> outcome result" where
  "map_page vaddr M =
     (if \<not> Is4MPageAligned vaddr then Inr (Returned MAP_UNALIGNED_ADDR M)
      else
        bindE (current_task M) (\<lambda>(cur, current).
        if isVirtualMapped (m_pg M) (t_pd current) vaddr then Inr (Returned MAP_ALREADY_MAPPED M)
        else
          bindE (NextFreePhysicalPage (phys (m_pg M)) 1) (\<lambda>paddr.
          if paddr = 0 then Inr (Returned MAP_OOM M)
          else bindE (on_pg (AddPage (t_pd current) vaddr paddr PG_USER False) M) (\<lambda>M. Inr (Returned MAP_SUCCESS M)))))"

section \<open>The handler\<close>

definition kNumSyscalls :: u32 where "kNumSyscalls = 12"

text \<open>
  The table; each function takes as many of the five arguments as it has parameters. \<open>stk\<close> reads the stacks of the tasks.
\<close>

definition kSyscalls :: "nat \<Rightarrow> bool \<Rightarrow> (nat \<Rightarrow> u32 \<Rightarrow> u32) \<Rightarrow> u32 \<Rightarrow> u32 \<Rightarrow> u32 \<Rightarrow> u32 \<Rightarrow> u32 \<Rightarrow> u32 \<Rightarrow> machine \<Rightarrow> outcome result" where
  "kSyscalls task_size garbage stk n a b c d e M =
     (if n = 0 then debug_write a M
      else if n = 1 then exit_user_task stk M
      else if n = 2 then debug_read a M
      else if n = 3 then create_user_task task_size garbage a b c d e M
      else if n = 4 then destroy_user_task a M
      else if n = 5 then copy_from_task a b c d M
      else if n = 6 then get_parent_task a M
      else if n = 7 then get_parent_task_id a M
      else if n = 8 then map_page a M
      else if n = 9 then share_page a b c M
      else if n = 10 then unmap_page a M
      else get_current_task a M)"

text \<open>The arguments are in \<open>ebx\<close>, \<open>ecx\<close>, \<open>edx\<close>, \<open>esi\<close> and \<open>edi\<close>; the result goes to \<open>eax\<close> of the interrupted code.\<close>

definition syscall_handler :: "nat \<Rightarrow> bool \<Rightarrow> (nat \<Rightarrow> u32 \<Rightarrow> u32) \<Rightarrow> x86_regs \<Rightarrow> machine \<Rightarrow> (x86_regs option \<times> outcome) result" where
  "syscall_handler task_size garbage stk R M =
     bindE (current_task M) (\<lambda>(cur, current).
     assertE (t_user current) ''Should not call syscalls from a kernel task.'' (
     assertE (x_eax R < kNumSyscalls) ''Invalid syscall!'' (
     bindE (kSyscalls task_size garbage stk (x_eax R) (x_ebx R) (x_ecx R) (x_edx R) (x_esi R) (x_edi R) M) (\<lambda>r.
     case r of
       Returned ret M \<Rightarrow> Inr (Some (R\<lparr>x_eax := ret\<rparr>), r)
     | Switched c M \<Rightarrow> Inr (None, r)))))"

section \<open>The user side\<close>

text \<open>The registers at the interrupt, and how the result is read.\<close>

definition sys_debug_print :: "u32 \<Rightarrow> x86_regs \<Rightarrow> x86_regs" where "sys_debug_print str R = R\<lparr>x_eax := 0, x_ebx := str\<rparr>"
definition sys_exit_task :: "x86_regs \<Rightarrow> x86_regs" where "sys_exit_task R = R\<lparr>x_eax := 1\<rparr>"
definition sys_debug_read :: "u32 \<Rightarrow> x86_regs \<Rightarrow> x86_regs" where "sys_debug_read c R = R\<lparr>x_eax := 2, x_ebx := c\<rparr>"
definition sys_debug_read_result :: "x86_regs \<Rightarrow> bool" where "sys_debug_read_result R \<longleftrightarrow> x_eax R = 0"
definition sys_create_task :: "u32 \<Rightarrow> u32 \<Rightarrow> u32 \<Rightarrow> u32 \<Rightarrow> u32 \<Rightarrow> x86_regs \<Rightarrow> x86_regs" where
  "sys_create_task entry codesize arg handle_ptr entry_offset R =
     R\<lparr>x_eax := 3, x_ebx := entry, x_ecx := codesize, x_edx := arg, x_esi := handle_ptr, x_edi := entry_offset\<rparr>"
definition sys_destroy_task :: "u32 \<Rightarrow> x86_regs \<Rightarrow> x86_regs" where "sys_destroy_task handle R = R\<lparr>x_eax := 4, x_ebx := handle\<rparr>"
definition sys_copy_from_task :: "u32 \<Rightarrow> u32 \<Rightarrow> u32 \<Rightarrow> u32 \<Rightarrow> x86_regs \<Rightarrow> x86_regs" where
  "sys_copy_from_task handle dst src sz R = R\<lparr>x_eax := 5, x_ebx := handle, x_ecx := dst, x_edx := src, x_esi := sz\<rparr>"
definition sys_get_parent_task :: "u32 \<Rightarrow> x86_regs \<Rightarrow> x86_regs" where "sys_get_parent_task handle_ptr R = R\<lparr>x_eax := 6, x_ebx := handle_ptr\<rparr>"
definition sys_get_parent_task_id :: "u32 \<Rightarrow> x86_regs \<Rightarrow> x86_regs" where "sys_get_parent_task_id id_ptr R = R\<lparr>x_eax := 7, x_ebx := id_ptr\<rparr>"
definition sys_map_page :: "u32 \<Rightarrow> x86_regs \<Rightarrow> x86_regs" where "sys_map_page addr R = R\<lparr>x_eax := 8, x_ebx := addr\<rparr>"
definition sys_share_page :: "u32 \<Rightarrow> u32 \<Rightarrow> u32 \<Rightarrow> x86_regs \<Rightarrow> x86_regs" where
  "sys_share_page handle dst src R = R\<lparr>x_eax := 9, x_ebx := handle, x_ecx := dst, x_edx := src\<rparr>"
definition sys_unmap_page :: "u32 \<Rightarrow> x86_regs \<Rightarrow> x86_regs" where "sys_unmap_page dst R = R\<lparr>x_eax := 10, x_ebx := dst\<rparr>"
definition sys_get_current_task :: "u32 \<Rightarrow> x86_regs \<Rightarrow> x86_regs" where "sys_get_current_task handle_ptr R = R\<lparr>x_eax := 11, x_ebx := handle_ptr\<rparr>"

end
