(* ===== verification/SyscallProperties.thy ===== *)
theory SyscallProperties
  imports Syscalls
begin

text \<open>
  What a user task gets from \<open>map_page\<close>: a private page at the address it asked for, or a code that says why not. And what goes
  wrong: addresses of the kernel are not refused.
\<close>

section \<open>Calling from a user task\<close>

definition user_calls :: "machine \<Rightarrow> nat \<Rightarrow> task \<Rightarrow> nat \<Rightarrow> bool" where
  "user_calls M cur t b \<longleftrightarrow> k_current (m_kernel M) = Some cur \<and> k_tasks (m_kernel M) cur = Some t \<and> t_user t \<and>
     t_pd t = RegionPD b \<and> b \<in> live (m_pg M)"

lemma handler_map_page:
  assumes "user_calls M cur t b"
  shows "syscall_handler task_size garbage stk (sys_map_page v R) M =
    bindE (map_page v M) (\<lambda>r. case r of
       Returned ret M' \<Rightarrow> Inr (Some ((sys_map_page v R)\<lparr>x_eax := ret\<rparr>), r) | Switched c M' \<Rightarrow> Inr (None, r))"
proof -
  have c: "current_task M = Inr (cur, t)" "t_user t" using assms by (simp_all add: user_calls_def current_task_def the_task_def)
  have r: "x_eax (sys_map_page v R) = 8" "x_ebx (sys_map_page v R) = v" by (simp_all add: sys_map_page_def)
  have "kSyscalls task_size garbage stk 8 v (x_ecx (sys_map_page v R)) (x_edx (sys_map_page v R)) (x_esi (sys_map_page v R)) (x_edi (sys_map_page v R)) M = map_page v M"
    by (simp add: kSyscalls_def)
  then show ?thesis unfolding syscall_handler_def c(1) bindE_simps prod.case r using c(2) by (simp add: kNumSyscalls_def)
qed

lemma map_page_code:
  assumes "user_calls M cur t b"
  shows "map_page v M =
    (if \<not> Is4MPageAligned v then Inr (Returned MAP_UNALIGNED_ADDR M)
     else if isVirtualMapped (m_pg M) (RegionPD b) v then Inr (Returned MAP_ALREADY_MAPPED M)
     else bindE (NextFreePhysicalPage (phys (m_pg M)) 1) (\<lambda>p.
       if p = 0 then Inr (Returned MAP_OOM M)
       else bindE (on_pg (AddPage (RegionPD b) v p PG_USER False) M) (\<lambda>M. Inr (Returned MAP_SUCCESS M))))"
proof -
  have c: "current_task M = Inr (cur, t)" "t_pd t = RegionPD b" using assms by (simp_all add: user_calls_def current_task_def the_task_def)
  show ?thesis unfolding map_page_def c(1) bindE_simps prod.case c(2) by (rule refl)
qed

lemma m_pg_set [simp]: "m_pg (M\<lparr>m_kernel := set_pg s (m_kernel M)\<rparr>) = s"
  by (simp add: m_pg_def set_pg_def)

lemma frame_not_0:
  assumes "pb_consistent pb" "NextFreePhysicalPage pb 1 = Inr p"
  shows "p \<noteq> 0"
proof
  assume "p = 0"
  then show False using NextFreePhysicalPage_ok[OF assms] by (simp add: PageIndex4M_div)
qed

text \<open>A machine with one user task, whose directory is a fresh copy of the kernel's.\<close>

definition task0 :: "nat \<Rightarrow> task" where
  "task0 b = \<lparr>t_id = 1, t_state = RUNNING, t_regs = zero_regs, t_pd = RegionPD b, t_user_in_kernel = False,
     t_parent = None, t_children = [], t_user = True, t_stack = 0, t_entry_offset = 0\<rparr>"

definition machine0 :: "nat \<Rightarrow> paging \<Rightarrow> machine" where
  "machine0 b s = \<lparr>m_kernel = \<lparr>k_tasks = [1 \<mapsto> task0 b], k_queue = [], k_current = Some 1, k_main = None, k_next_tid = 2,
       k_heap = \<lparr>mem = \<lambda>_. 0, heap = 0, heap_used = 0, heap_start = 0, heap_end = 0, world = s\<rparr>, k_esp0 = 0, k_interrupts = False\<rparr>,
     m_pmem = \<lambda>_. 0, m_serial = \<lparr>sp_in = [], sp_out = [], sp_ready = True, sp_config = []\<rparr>\<rparr>"

definition regs0 :: x86_regs where
  "regs0 = \<lparr>x_ds = 0, x_edi = 0, x_esi = 0, x_ebp = 0, x_esp = 0, x_ebx = 0, x_edx = 0, x_ecx = 0, x_eax = 0,
     x_int_no = 0x80, x_err_code = 0, x_eip = 0, x_cs = 0, x_eflags = 0, x_useresp = 0, x_ss = 0\<rparr>"

lemma machine_example:
  obtains M b where "paging_inv (m_pg M)" "user_calls M 1 (task0 b) b" "\<not> isVirtualMapped (m_pg M) (RegionPD b) 0x40000000"
    "\<not> isVirtualMapped (m_pg M) (RegionPD b) 0x2000000" "refcount (phys (m_pg M)) 3 = 0"
proof (rule boot0_ready)
  fix s assume s: "paging_inv s" "live s = {}" "call_ok s (CallClone KernelPD)" "refcount (phys s) 3 = 0"
    "pd_of s KernelPD ! 8 = 0" "pd_of s KernelPD ! 256 = 0"
  obtain b t where t: "paging_inv t" "live t = {b}" "pd_of t (RegionPD b) = pd_of s KernelPD" "pd_of t KernelPD = pd_of s KernelPD"
    using Clone_ok[OF s(1) valid_KernelPD, of 0] s(2,3) valid_KernelPD[of s] by (metis call_ok.simps(3) empty_iff zero_less_numeral)
  have c: "counts_ok s" "counts_ok t" using s(1) t(1) by (simp_all add: paging_inv_def)
  have "mapcount s 3 = 0" using counts_okD(1)[OF c(1), of 3] s(4) by simp
  then have "mapcount t 3 = 0" using t(2-4) by (simp add: mapcount_def s(2) pd_of_def)
  then have "refcount (phys t) 3 = 0" using counts_okD(1)[OF c(2), of 3] by (simp add: reserved_def)
  moreover have "m_pg (machine0 b t) = t" by (simp add: m_pg_def machine0_def)
  moreover have "user_calls (machine0 b t) 1 (task0 b) b" using t(2) by (simp add: user_calls_def machine0_def task0_def m_pg_def)
  moreover have "PageIndex4M 0x40000000 = 256" "PageIndex4M 0x2000000 = 8" by (simp_all add: PageIndex4M_div kPageSize4M_def)
  ultimately show thesis using that[of "machine0 b t" b] t(1,3) s(5,6) by (simp add: isVirtualMapped_def)
qed

text \<open>
  C16. The system call \<open>map_page\<close> from a user task, at an address outside the ranges the kernel shares with every task: an
  unaligned address gives -1 and one already mapped -2, with nothing changed. Otherwise the page is mapped to a frame nobody
  used and the result is 0; every other translation in every address space is what it was, and so is physical memory and every
  task. Only when no frame is free the kernel stops on an assertion; the documented result -3 does not occur.
\<close>

theorem map_page_correct:
  fixes R :: x86_regs and stk :: "nat \<Rightarrow> u32 \<Rightarrow> u32" and garbage :: bool and task_size :: nat
  assumes "paging_inv (m_pg M)" "user_calls M cur t b" "\<not> shared_kernel_addr v"
  defines "h \<equiv> syscall_handler task_size garbage stk (sys_map_page v R) M"
  shows "(\<not> Is4MPageAligned v \<longrightarrow> h = Inr (Some ((sys_map_page v R)\<lparr>x_eax := - 1\<rparr>), Returned (- 1) M)) \<and>
    (Is4MPageAligned v \<longrightarrow> isVirtualMapped (m_pg M) (RegionPD b) v \<longrightarrow>
       h = Inr (Some ((sys_map_page v R)\<lparr>x_eax := - 2\<rparr>), Returned (- 2) M)) \<and>
    (Is4MPageAligned v \<longrightarrow> \<not> isVirtualMapped (m_pg M) (RegionPD b) v \<longrightarrow>
       (h = Inl (AssertFailed ''Memory is full!'') \<and> (\<forall>i. 1 \<le> i \<longrightarrow> i < 1024 \<longrightarrow> 0 < refcount (phys (m_pg M)) i)) \<or>
       (\<exists>p s. h = Inr (Some ((sys_map_page v R)\<lparr>x_eax := 0\<rparr>), Returned 0 (M\<lparr>m_kernel := set_pg s (m_kernel M)\<rparr>)) \<and>
          paging_inv s \<and> refcount (phys (m_pg M)) (PageIndex4M p) = 0 \<and>
          (\<forall>d' v'. valid_pd (m_pg M) d' \<longrightarrow> Is4MPageAligned v' \<longrightarrow>
             GetPhysicalAddr s d' v' = (if v' = v \<and> d' = RegionPD b then Inr p else GetPhysicalAddr (m_pg M) d' v'))))"
proof (intro conjI impI)
  have h: "h = bindE (map_page v M) (\<lambda>r. case r of
       Returned ret M' \<Rightarrow> Inr (Some ((sys_map_page v R)\<lparr>x_eax := ret\<rparr>), r) | Switched c M' \<Rightarrow> Inr (None, r))"
    unfolding h_def by (rule handler_map_page[OF assms(2)])
  show "h = Inr (Some ((sys_map_page v R)\<lparr>x_eax := - 1\<rparr>), Returned (- 1) M)" if "\<not> Is4MPageAligned v"
    using that unfolding h map_page_code[OF assms(2)] by (simp add: MAP_UNALIGNED_ADDR_def)
  show "h = Inr (Some ((sys_map_page v R)\<lparr>x_eax := - 2\<rparr>), Returned (- 2) M)" if "Is4MPageAligned v" "isVirtualMapped (m_pg M) (RegionPD b) v"
    using that unfolding h map_page_code[OF assms(2)] by (simp add: MAP_ALREADY_MAPPED_def)
  assume v: "Is4MPageAligned v" "\<not> isVirtualMapped (m_pg M) (RegionPD b) v"
  have co: "counts_ok (m_pg M)" using assms(1) by (simp add: paging_inv_def)
  note cons = counts_okD(3)[OF co]
  let ?full = "h = Inl (AssertFailed ''Memory is full!'') \<and> (\<forall>i. 1 \<le> i \<longrightarrow> i < 1024 \<longrightarrow> 0 < refcount (phys (m_pg M)) i)"
  from NextFreePhysicalPage_full[OF cons, of 1]
  show "?full \<or> (\<exists>p s. h = Inr (Some ((sys_map_page v R)\<lparr>x_eax := 0\<rparr>), Returned 0 (M\<lparr>m_kernel := set_pg s (m_kernel M)\<rparr>)) \<and>
          paging_inv s \<and> refcount (phys (m_pg M)) (PageIndex4M p) = 0 \<and>
          (\<forall>d' v'. valid_pd (m_pg M) d' \<longrightarrow> Is4MPageAligned v' \<longrightarrow>
             GetPhysicalAddr s d' v' = (if v' = v \<and> d' = RegionPD b then Inr p else GetPhysicalAddr (m_pg M) d' v')))"
  proof
    assume "NextFreePhysicalPage (phys (m_pg M)) 1 = Inl (AssertFailed ''Memory is full!'') \<and> (\<forall>i. 1 \<le> i \<longrightarrow> i < 1024 \<longrightarrow> 0 < refcount (phys (m_pg M)) i)"
    then show ?thesis using v unfolding h map_page_code[OF assms(2)] by simp
  next
    assume "\<exists>p. NextFreePhysicalPage (phys (m_pg M)) 1 = Inr p"
    then obtain p where p: "NextFreePhysicalPage (phys (m_pg M)) 1 = Inr p" by blast
    note fresh = NextFreePhysicalPage_ok[OF cons p]
    have "\<not> kernel_index (PageIndex4M v)" using assms(3) by (simp add: shared_kernel_addr_index[OF v(1)])
    then have call: "call_ok (m_pg M) (CallAdd (RegionPD b) v p PG_USER False)"
      using fresh v assms(2) by (simp add: may_map_def valid_pd_def user_calls_def)
    from AddPage_translates[OF assms(1) this] obtain s where
      s: "AddPage (RegionPD b) v p PG_USER False (m_pg M) = Inr s" "paging_inv s"
      "\<forall>d' v'. valid_pd (m_pg M) d' \<longrightarrow> Is4MPageAligned v' \<longrightarrow>
         GetPhysicalAddr s d' v' = (if v' = v \<and> (d' = RegionPD b \<or> (RegionPD b = KernelPD \<and> shared_kernel_addr v)) then Inr p
           else GetPhysicalAddr (m_pg M) d' v')" by blast
    have "h = Inr (Some ((sys_map_page v R)\<lparr>x_eax := 0\<rparr>), Returned 0 (M\<lparr>m_kernel := set_pg s (m_kernel M)\<rparr>))"
      using v p s(1) frame_not_0[OF cons p] unfolding h map_page_code[OF assms(2)] by (simp add: on_pg_def MAP_SUCCESS_def)
    then show ?thesis using s(2,3) fresh by (intro disjI2 exI[of _ p] exI[of _ s]) simp
  qed
qed

theorem map_page_correct_witness:
  "\<exists>M s. syscall_handler 200 False (\<lambda>_ _. 0) (sys_map_page 0x40000000 regs0) M =
      Inr (Some ((sys_map_page 0x40000000 regs0)\<lparr>x_eax := 0\<rparr>), Returned 0 (M\<lparr>m_kernel := set_pg s (m_kernel M)\<rparr>)) \<and> paging_inv s"
proof (rule machine_example)
  fix M b assume M: "paging_inv (m_pg M)" "user_calls M 1 (task0 b) b" "\<not> isVirtualMapped (m_pg M) (RegionPD b) 0x40000000"
    "refcount (phys (m_pg M)) 3 = 0"
  have k: "\<not> shared_kernel_addr 0x40000000" "Is4MPageAligned 0x40000000"
    by (simp_all add: shared_kernel_addr_def IsKernelCode_def IsKernelHeap_def IsPageDirRegion_def kernel_defs Is4MPageAligned_def kPageSize4M_def)
  have "\<not> (\<forall>i. 1 \<le> i \<longrightarrow> i < 1024 \<longrightarrow> 0 < refcount (phys (m_pg M)) i)" using M(4) by (auto intro!: exI[of _ 3])
  with map_page_correct[OF M(1,2) k(1), where R = regs0 and stk = "\<lambda>_ _. 0" and garbage = False and task_size = 200] k(2) M(3)
  show ?thesis by blast
qed

section \<open>Addresses of the kernel\<close>

text \<open>A user directory that maps a page of the kernel's ranges makes the propagation of a new kernel page fail.\<close>

lemma propagate_blocked:
  assumes "b < 1024" "b \<in> bitset (region_bits s)" "bitarray_wf 1024 (region_bits s)" "present (region s ! b ! i)"
  shows "\<nexists>t. foldE (AddPage_propagate i pde frame) [0 ..< 1024] s = Inr t"
proof
  let ?P = "\<lambda>x. region_bits x = region_bits s \<and> length (region x) = length (region s) \<and> present (region x ! b ! i)"
  assume "\<exists>t. foldE (AddPage_propagate i pde frame) [0 ..< 1024] s = Inr t"
  then obtain t where "foldE (AddPage_propagate i pde frame) ([0 ..< b] @ b # [Suc b ..< 1024]) s = Inr t"
    using assms(1) by (metis less_imp_le_nat upt_add_eq_append upt_conv_Cons le_add_diff_inverse zero_le)
  then obtain x y where x: "foldE (AddPage_propagate i pde frame) [0 ..< b] s = Inr x" "AddPage_propagate i pde frame b x = Inr y"
    by (auto simp: foldE_append bindE_Inr_iff)
  have "?P x" using x(1)
  proof (rule foldE_invariant)
    show "?P s" using assms(4) by simp
    fix c u w assume c: "c \<in> set [0 ..< b]" "?P u" "AddPage_propagate i pde frame c u = Inr w"
    then show "?P w"
      by (auto simp: AddPage_propagate_def result_simps upd_phys_def set_pd_def pd_of_def split: if_splits)
  qed
  moreover have "isSet (region_bits s) b = Inr True" using ba.test[OF assms(3,1)] assms(2) by simp
  ultimately show False using x(2) by (simp add: AddPage_propagate_def pd_of_def assertE_Inr_iff)
qed

lemma AddPage_region_entry:
  assumes "AddPage (RegionPD b) v p fl False s = Inr t" "b < length (region s)" "PageIndex4M v < length (region s ! b)"
  shows "present (region t ! b ! PageIndex4M v) \<and> region_bits t = region_bits s \<and> kernel_pd t = kernel_pd s"
  using assms by (auto simp: AddPage_def result_simps Let_def upd_phys_def set_pd_def pd_of_def isKernelPageDir_def mk_pde_def[symmetric] split: if_splits)

text \<open>
  C17. The system call accepts an address in the kernel's own ranges that the kernel has not mapped yet, for instance of the kernel
  heap: it maps a page there for the task alone and returns 0. From then on the kernel can not map that address itself: every
  \<open>AddPage\<close> of it to the kernel's directory fails, and with it the growth of the kernel heap across that page.
\<close>

theorem map_page_kernel_range:
  assumes "paging_inv (m_pg M)" "user_calls M cur t b" "Is4MPageAligned v" "shared_kernel_addr v"
    "\<not> isVirtualMapped (m_pg M) (RegionPD b) v" "NextFreePhysicalPage (phys (m_pg M)) 1 = Inr p"
  shows "\<exists>M'. syscall_handler task_size garbage stk (sys_map_page v R) M = Inr (Some ((sys_map_page v R)\<lparr>x_eax := 0\<rparr>), Returned 0 M') \<and>
    isVirtualMapped (m_pg M') (RegionPD b) v \<and> \<not> isVirtualMapped (m_pg M') KernelPD v \<and>
    (\<forall>q flags reuse. \<nexists>s. AddPage KernelPD v q flags reuse (m_pg M') = Inr s)"
proof -
  let ?s = "m_pg M" and ?i = "PageIndex4M v"
  have co: "counts_ok ?s" "synced ?s" using assms(1) by (simp_all add: paging_inv_def)
  note wf = counts_okD(2)[OF co(1)] and cons = counts_okD(3)[OF co(1)]
  have b: "b \<in> live ?s" "b < 1024" using assms(2) live_bound[OF wf] by (auto simp: user_calls_def)
  have ki: "kernel_index ?i" using assms(4) by (simp add: shared_kernel_addr_index[OF assms(3)])
  note fresh = NextFreePhysicalPage_ok[OF cons assms(6)]
  have np: "\<not> present (pd_of ?s (RegionPD b) ! ?i)" using assms(5) by (simp add: isVirtualMapped_def)
  obtain pb where pb: "upd_phys (setPageFrameUsed (PageIndex4M p)) (set_entry (RegionPD b) ?i (mk_pde p PG_USER) ?s)
        = Inr ((set_entry (RegionPD b) ?i (mk_pde p PG_USER) ?s)\<lparr>phys := pb\<rparr>)"
      "counts_ok ((set_entry (RegionPD b) ?i (mk_pde p PG_USER) ?s)\<lparr>phys := pb\<rparr>)"
    using map_entry_ok[OF co(1), of "RegionPD b" ?i "mk_pde p PG_USER"] np fresh b by (auto simp: valid_pd_def)
  let ?t = "(set_entry (RegionPD b) ?i (mk_pde p PG_USER) ?s)\<lparr>phys := pb\<rparr>"
  have len: "length (region ?s) = 1024" "length (region ?s ! b) = 1024" using wf b by (simp_all add: paging_wf_def)
  have used: "isPageFrameUsed (phys ?s) (PageIndex4M p) = Inr False" using fresh by (simp add: isPageFrameUsed_ok[OF cons])
  have add: "AddPage (RegionPD b) v p PG_USER False ?s = Inr ?t"
    using fresh used np pb(1) assms(3)
    by (simp add: AddPage_def Let_def mk_pde_def[symmetric] isKernelPageDir_def Is4MPageAligned_def[symmetric])
  have e: "present (region ?t ! b ! ?i)" "region_bits ?t = region_bits ?s" "kernel_pd ?t = kernel_pd ?s"
    using AddPage_region_entry[OF add] b len by simp_all
  have nk: "\<not> present (kernel_pd ?s ! ?i)" using np syncedD[OF co(2), of "RegionPD b" ?i] b ki by (simp add: pd_of_def valid_pd_def)
  have blocked: "\<nexists>s. AddPage KernelPD v q flags reuse ?t = Inr s" for q flags reuse
  proof
    assume "\<exists>s. AddPage KernelPD v q flags reuse ?t = Inr s"
    then obtain u s pb' where u: "u = (set_entry KernelPD ?i (mk_pde q flags) ?t)\<lparr>phys := pb'\<rparr>"
      "foldE (AddPage_propagate ?i (mk_pde q flags) (PageIndex4M q)) [0 ..< NumBits (region_bits u)] u = Inr s"
      "setPageFrameUsed (PageIndex4M q) (phys ?t) = Inr pb'"
      using assms(4) by (auto simp: AddPage_def result_simps Let_def mk_pde_def[symmetric] isKernelPageDir_def upd_phys_def split: if_splits)
    have k: "region u = region ?t" "region_bits u = region_bits ?t" by (simp_all add: u(1) set_pd_def)
    have ba: "bitarray_wf 1024 (region_bits u)" using counts_okD(2)[OF pb(2)] by (simp add: k paging_wf_def)
    then have nb: "NumBits (region_bits u) = 1024" by (simp add: bitarray_wf_def)
    have "foldE (AddPage_propagate ?i (mk_pde q flags) (PageIndex4M q)) [0 ..< 1024] u = Inr s" using u(2) unfolding nb .
    moreover have "b \<in> bitset (region_bits u)" "present (region u ! b ! ?i)" using b(1) e(1,2) by (simp_all add: k)
    ultimately show False using propagate_blocked[OF b(2) _ ba] by blast
  qed
  have "syscall_handler task_size garbage stk (sys_map_page v R) M =
      Inr (Some ((sys_map_page v R)\<lparr>x_eax := 0\<rparr>), Returned 0 (M\<lparr>m_kernel := set_pg ?t (m_kernel M)\<rparr>))"
    using assms(3,5,6) add frame_not_0[OF cons assms(6)]
    unfolding handler_map_page[OF assms(2)] map_page_code[OF assms(2)] by (simp add: on_pg_def MAP_SUCCESS_def)
  moreover have "isVirtualMapped ?t (RegionPD b) v" "\<not> isVirtualMapped ?t KernelPD v"
    using e nk by (simp_all add: isVirtualMapped_def pd_of_def)
  ultimately show ?thesis using blocked by (intro exI[of _ "M\<lparr>m_kernel := set_pg ?t (m_kernel M)\<rparr>"]) simp
qed

theorem map_page_kernel_range_witness:
  "\<exists>M M'. syscall_handler 200 False (\<lambda>_ _. 0) (sys_map_page 0x2000000 regs0) M = Inr (Some ((sys_map_page 0x2000000 regs0)\<lparr>x_eax := 0\<rparr>), Returned 0 M') \<and>
     (\<nexists>s. AddPage KernelPD 0x2000000 0xC00000 0 True (m_pg M') = Inr s)"
proof (rule machine_example)
  fix M b assume M: "paging_inv (m_pg M)" "user_calls M 1 (task0 b) b" "\<not> isVirtualMapped (m_pg M) (RegionPD b) 0x2000000"
    "refcount (phys (m_pg M)) 3 = 0"
  have k: "Is4MPageAligned 0x2000000" "shared_kernel_addr 0x2000000"
    by (simp_all add: shared_kernel_addr_def IsKernelCode_def IsKernelHeap_def IsPageDirRegion_def kernel_defs Is4MPageAligned_def kPageSize4M_def)
  have "pb_consistent (phys (m_pg M))" using M(1) by (simp add: paging_inv_def counts_okD(3))
  then obtain p where "NextFreePhysicalPage (phys (m_pg M)) 1 = Inr p"
    using NextFreePhysicalPage_full[of "phys (m_pg M)" 1] M(4) by (metis less_numeral_extra(3) numeral_less_iff one_le_numeral semiring_norm(76) semiring_norm(77) semiring_norm(78) semiring_norm(80) semiring_norm(81))
  from map_page_kernel_range[OF M(1,2) k M(3) this, of 200 False "\<lambda>_ _. 0" regs0] show ?thesis by blast
qed

end
