(* ===== verification/CxxString.thy ===== *)
theory CxxString
  imports UserHeap
begin

text \<open>
  \<open>std::string\<close> of \<^verbatim>\<open>libcxx/include/string\<close>, with the iterators of \<^verbatim>\<open>libcxx/include/iterator.h\<close>. A
  string is its size, its capacity and the address of a block of \<open>capacity\<close> bytes. An iterator is
  the address it points to. The functions return the object and the heap; \<open>other\<close> of \<open>operator+=\<close> is
  another object than \<open>this\<close>.
\<close>

section \<open>Definitions\<close>

record cxx_string =
  str_size :: nat
  str_capacity :: nat
  str_data :: nat

definition kDefaultCapacity :: nat where "kDefaultCapacity = 8"

definition string_default :: "'w libc \<Rightarrow> 'w alloc \<Rightarrow> (cxx_string \<times> 'w alloc) result" where
  "string_default L st =
     bindE (libc_calloc L kDefaultCapacity 1 st) (\<lambda>(p, st).
     Inr (\<lparr>str_size = 0, str_capacity = kDefaultCapacity, str_data = p\<rparr>, upd_mem (memset p 0 kDefaultCapacity) st))"

definition string_of :: "'w libc \<Rightarrow> nat \<Rightarrow> nat \<Rightarrow> 'w alloc \<Rightarrow> (cxx_string \<times> 'w alloc) result" where
  "string_of L s n st =
     bindE (strlen (mem st) s) (\<lambda>len.
     let sz = min n len;
         cap = max kDefaultCapacity (wrap (sz + 1)) in
     bindE (libc_calloc L cap 1 st) (\<lambda>(p, st).
     Inr (\<lparr>str_size = sz, str_capacity = cap, str_data = p\<rparr>, upd_mem (memcpy p s sz) st)))"

definition string_cstr :: "'w libc \<Rightarrow> nat \<Rightarrow> 'w alloc \<Rightarrow> (cxx_string \<times> 'w alloc) result" where
  "string_cstr L s st = bindE (strlen (mem st) s) (\<lambda>n. string_of L s n st)"

definition string_copy :: "'w libc \<Rightarrow> cxx_string \<Rightarrow> 'w alloc \<Rightarrow> (cxx_string \<times> 'w alloc) result" where
  "string_copy L other st = string_cstr L (str_data other) st"

definition string_fill :: "'w libc \<Rightarrow> nat \<Rightarrow> u8 \<Rightarrow> 'w alloc \<Rightarrow> (cxx_string \<times> 'w alloc) result" where
  "string_fill L n c st =
     (let cap = max kDefaultCapacity (wrap (n + 1)) in
      bindE (libc_calloc L cap 1 st) (\<lambda>(p, st).
      Inr (\<lparr>str_size = n, str_capacity = cap, str_data = p\<rparr>, upd_mem (memset p c n) st)))"

definition string_range :: "'w libc \<Rightarrow> nat \<Rightarrow> nat \<Rightarrow> 'w alloc \<Rightarrow> (cxx_string \<times> 'w alloc) result" where
  "string_range L start last_it st =
     bindE (string_of L start (wrap (last_it + 0x100000000 - start)) st) (\<lambda>r.
     assertE (start \<le> last_it) ''last >= start'' (Inr r))"

definition string_destroy :: "'w libc \<Rightarrow> cxx_string \<Rightarrow> 'w alloc \<Rightarrow> 'w alloc result" where
  "string_destroy L s st = libc_free L (str_data s) st"

definition string_empty :: "cxx_string \<Rightarrow> bool" where
  "string_empty s \<longleftrightarrow> str_size s = 0"

text \<open>After \<open>++size_\<close> the index \<open>size_ - 1\<close> is the old size.\<close>

definition string_push_back :: "'w libc \<Rightarrow> u8 \<Rightarrow> cxx_string \<Rightarrow> 'w alloc \<Rightarrow> (cxx_string \<times> 'w alloc) result" where
  "string_push_back L c s st =
     (let sz = wrap (str_size s + 1) in
      bindE (if str_capacity s \<le> sz
             then let cap = wrap (2 * str_capacity s) in
                  assertE (sz \<le> cap) ''Not enough capacity after push_back'' (
                  bindE (libc_realloc L (str_data s) cap st) (\<lambda>(p, st).
                  assertE (p \<noteq> 0) ''Could not request more storage'' (
                  Inr (\<lparr>str_size = sz, str_capacity = cap, str_data = p\<rparr>, upd_mem (memset (p + sz) 0 (cap - sz)) st))))
             else Inr (s\<lparr>str_size := sz\<rparr>, st)) (\<lambda>(s', st).
      Inr (s', upd_mem (\<lambda>m. m(str_data s' + str_size s := c)) st)))"

definition string_nth :: "mem \<Rightarrow> cxx_string \<Rightarrow> nat \<Rightarrow> u8" where
  "string_nth m s index = m (str_data s + index)"

definition string_front :: "mem \<Rightarrow> cxx_string \<Rightarrow> u8" where
  "string_front m s = m (str_data s)"

definition string_back :: "mem \<Rightarrow> cxx_string \<Rightarrow> u8" where
  "string_back m s = m (wrap (str_data s + wrap (str_size s + 0xFFFFFFFF)))"

definition c_str :: "cxx_string \<Rightarrow> nat" where
  "c_str s = str_data s"

definition string_eq :: "mem \<Rightarrow> cxx_string \<Rightarrow> cxx_string \<Rightarrow> bool result" where
  "string_eq m s other = bindE (strcmp m (str_data s) (str_data other)) (\<lambda>r. Inr (r = 0))"

definition string_append :: "'w libc \<Rightarrow> cxx_string \<Rightarrow> cxx_string \<Rightarrow> 'w alloc \<Rightarrow> (cxx_string \<times> 'w alloc) result" where
  "string_append L other s st =
     foldE (\<lambda>i (s, st). string_push_back L (string_nth (mem st) other i) s st) [0 ..< str_size other] (s, st)"

definition string_plus :: "'w libc \<Rightarrow> cxx_string \<Rightarrow> cxx_string \<Rightarrow> 'w alloc \<Rightarrow> (cxx_string \<times> 'w alloc) result" where
  "string_plus L s other st =
     bindE (string_copy L s st) (\<lambda>(newstring, st). string_append L other newstring st)"

definition string_begin :: "cxx_string \<Rightarrow> nat" where
  "string_begin s = str_data s"

definition string_end :: "cxx_string \<Rightarrow> nat" where
  "string_end s = str_data s + str_size s"

definition string_find :: "mem \<Rightarrow> cxx_string \<Rightarrow> u8 \<Rightarrow> nat" where
  "string_find m s c =
     (case List.find (\<lambda>it. m it = c) [string_begin s ..< string_end s] of None \<Rightarrow> string_end s | Some it \<Rightarrow> it)"

definition string_erase :: "'w libc \<Rightarrow> nat \<Rightarrow> nat \<Rightarrow> cxx_string \<Rightarrow> 'w alloc \<Rightarrow> (cxx_string \<times> 'w alloc) result" where
  "string_erase L first last_it s st =
     assertE (string_begin s \<le> first \<and> first < string_end s) ''begin() <= first && first < end()'' (
     assertE (string_begin s < last_it) ''begin() < last'' (
     assertE (first < last_it) ''first < last'' (
     let last_it = (if string_end s < last_it then string_end s else last_it);
         remaining = string_end s - last_it in
     bindE (memmove L first last_it remaining st) (\<lambda>st.
     Inr (s\<lparr>str_size := str_size s - (last_it - first)\<rparr>, upd_mem (\<lambda>m. m(first + remaining := 0)) st)))))"

definition string_erase_at :: "'w libc \<Rightarrow> nat \<Rightarrow> cxx_string \<Rightarrow> 'w alloc \<Rightarrow> (cxx_string \<times> 'w alloc) result" where
  "string_erase_at L it s st = string_erase L it (it + 1) s st"

definition string_clear :: "'w libc \<Rightarrow> cxx_string \<Rightarrow> 'w alloc \<Rightarrow> (cxx_string \<times> 'w alloc) result" where
  "string_clear L s st = string_erase L (string_begin s) (string_end s) s st"

section \<open>What a string represents\<close>

text \<open>
  \<open>string_holds own m s xs\<close>: the string owns its block and holds the characters \<open>xs\<close> with a terminator.
  \<open>clean m s\<close>: all the bytes after the characters are zero, which the constructors establish.
\<close>

definition string_holds :: "(nat \<rightharpoonup> nat) \<Rightarrow> mem \<Rightarrow> cxx_string \<Rightarrow> u8 list \<Rightarrow> bool" where
  "string_holds own m s xs \<longleftrightarrow> own (str_data s) = Some (str_capacity s) \<and> str_size s = length xs \<and>
     str_size s < str_capacity s \<and> (\<forall>i < length xs. m (str_data s + i) = xs ! i) \<and> m (str_data s + length xs) = 0"

definition clean :: "mem \<Rightarrow> cxx_string \<Rightarrow> bool" where
  "clean m s \<longleftrightarrow> (\<forall>i. str_size s \<le> i \<longrightarrow> i < str_capacity s \<longrightarrow> m (str_data s + i) = 0)"

lemma string_holds_cstr: "string_holds own m s xs \<Longrightarrow> 0 \<notin> set xs \<Longrightarrow> cstr m (c_str s) xs"
  by (auto simp: string_holds_def cstr_def c_str_def in_set_conv_nth)

lemma string_holds_keeps:
  assumes "string_holds own (mem st) s xs" "keeps own' st st'" "own' (str_data s) = own (str_data s)" "own'' (str_data s) = own (str_data s)"
  shows "string_holds own'' (mem st') s xs"
  using assms unfolding string_holds_def keeps_def by (metis order.strict_trans)

lemma string_find_char:
  assumes "string_holds own m s xs"
  shows "string_find m s c = str_data s + length (takeWhile (\<lambda>x. x \<noteq> c) xs)"
proof -
  have "xs = map m [str_data s ..< str_data s + str_size s]"
    using assms by (intro nth_equalityI) (auto simp: string_holds_def)
  then show ?thesis unfolding string_find_def string_begin_def string_end_def
    by (simp add: find_upt_takeWhile takeWhile_map o_def)
qed

lemma string_eq_chars:
  assumes "string_holds own m s xs" "string_holds own' m t ys" "0 \<notin> set xs" "0 \<notin> set ys"
  shows "string_eq m s t = Inr (xs = ys)"
proof -
  have c: "cstr m (str_data s) xs" "cstr m (str_data t) ys"
    using string_holds_cstr[OF assms(1,3)] string_holds_cstr[OF assms(2,4)] by (simp_all add: c_str_def)
  show ?thesis using strcmp_loop_run[OF c] str_order_zero[OF assms(3,4)] by (simp add: string_eq_def strcmp_def)
qed

section \<open>The operations on the heap\<close>

context block_heap
begin

text \<open>The constructors: a block of the capacity, filled with the characters, the rest zero.\<close>

lemma string_of_ok:
  assumes ok: "ok st own" and s: "cstr (mem st) a xs" and n: "length (take n xs) < 0x3FFFFFEF"
    and src: "own q = Some m" "q \<le> a" "a + length xs < q + m"
  shows "(\<exists>e. string_of L a n st = Inl e \<and> oom e) \<or>
    (\<exists>s st'. string_of L a n st = Inr (s, st') \<and> own (str_data s) = None \<and> ok st' (own(str_data s \<mapsto> str_capacity s)) \<and>
       keeps own st st' \<and> string_holds (own(str_data s \<mapsto> str_capacity s)) (mem st') s (take n xs) \<and> clean (mem st') s)"
proof -
  define sz where "sz = min n (length xs)"
  have sz: "length (take n xs) = sz" by (simp add: sz_def)
  define cap where "cap = max 8 (sz + 1)"
  have cap: "0 < cap" "cap < 0x3FFFFFF0" "sz < cap" using n unfolding sz cap_def by auto
  have w: "max kDefaultCapacity (wrap (sz + 1)) = cap" using n unfolding sz cap_def by (simp add: wrap_def kDefaultCapacity_def)
  note code = string_of_def[of L a n st, unfolded strlen_ok[OF s] bindE_simps Let_def, folded sz_def, unfolded w]
  from calloc[OF ok cap(1,2)] show ?thesis
  proof (elim disjE exE conjE)
    fix e assume "libc_calloc L cap 1 st = Inl e" "oom e"
    then show ?thesis by (simp add: code)
  next
    fix p st1
    assume c: "libc_calloc L cap 1 st = Inr (p, st1)" "own p = None" "ok st1 (own(p \<mapsto> cap))" "keeps own st st1"
      "\<forall>i < cap. mem st1 (p + i) = 0"
    have pq: "p + cap \<le> q \<or> q + m \<le> p" using apart[OF c(3), of p cap q m] src(1) c(2) by (cases "p = q") auto
    let ?f = "memcpy p a sz"
    have out: "?f (mem st1) x = mem st1 x" if "x < p \<or> p + cap \<le> x" for x
      using memcpy_outside[of p x sz a "mem st1"] that cap(3) by auto
    have chars: "?f (mem st1) (p + i) = xs ! i" if "i < sz" for i
    proof -
      have i: "i < length xs" using that by (simp add: sz_def)
      have "a + sz \<le> p \<or> p + sz \<le> a" using pq src(2,3) cap(3) by (auto simp: sz_def)
      then have "?f (mem st1) (p + i) = mem st1 (a + i)" using memcpy_inside[of a sz p i "mem st1"] that by auto
      also have "\<dots> = mem st (a + i)" using keepsD[OF c(4) src(1), of "a + i - q"] src i by auto
      finally show ?thesis using s i by (simp add: cstr_def)
    qed
    have zero: "?f (mem st1) (p + i) = 0" if "sz \<le> i" "i < cap" for i
      using memcpy_outside[of p "p + i" sz a "mem st1"] c(5) that by simp
    let ?s = "\<lparr>str_size = sz, str_capacity = cap, str_data = p\<rparr>" and ?st = "upd_mem ?f st1"
    have "ok ?st (own(p \<mapsto> cap))" by (rule store[OF c(3), of p cap]) (use out in simp_all)
    moreover have "keeps own st ?st"
      using keeps_trans[OF c(4)] store_keeps[OF c(3), of p cap ?f] out c(2) by (simp add: fun_upd_idem)
    moreover have "string_holds (own(p \<mapsto> cap)) (mem ?st) ?s (take n xs)"
      using chars zero[of sz] cap(3) sz by (simp add: string_holds_def)
    moreover have "clean (mem ?st) ?s" using zero by (simp add: clean_def)
    ultimately show ?thesis using c(1,2) by (intro disjI2 exI[of _ ?s] exI[of _ ?st]) (simp add: code)
  qed
qed

text \<open>Writing the next character into a block that has room for it.\<close>

lemma put_char:
  assumes ok: "ok st own" and s: "own (str_data s) = Some (str_capacity s)" "str_size s = Suc (length xs)" "str_size s < str_capacity s"
    and chars: "\<forall>i < length xs. mem st (str_data s + i) = xs ! i"
    and zero: "\<forall>i. str_size s \<le> i \<longrightarrow> i < str_capacity s \<longrightarrow> mem st (str_data s + i) = 0"
    and st': "st' = upd_mem (\<lambda>m. m(str_data s + length xs := c)) st"
  shows "ok st' own" "keeps (own(str_data s := None)) st st'" "string_holds own (mem st') s (xs @ [c])" "clean (mem st') s"
proof -
  show "ok st' own" unfolding st' by (rule store[OF ok s(1)]) (use s in auto)
  show "keeps (own(str_data s := None)) st st'" unfolding st' by (rule store_keeps[OF ok s(1)]) (use s in auto)
  show "string_holds own (mem st') s (xs @ [c])" unfolding st' string_holds_def
    using s chars zero by (auto simp: nth_append less_Suc_eq)
  show "clean (mem st') s" unfolding st' clean_def using s(2) zero by auto
qed

lemma string_push_back_ok:
  assumes ok: "ok st own" and s: "string_holds own (mem st) s xs" "clean (mem st) s" and cap: "2 * str_capacity s < 0x3FFFFFF0"
  shows "(\<exists>e. string_push_back L c s st = Inl e \<and> oom e) \<or>
    (\<exists>s' st'. string_push_back L c s st = Inr (s', st') \<and>
       ok st' (own(str_data s := None, str_data s' \<mapsto> str_capacity s')) \<and> (own(str_data s := None)) (str_data s') = None \<and>
       keeps (own(str_data s := None)) st st' \<and>
       string_holds (own(str_data s := None, str_data s' \<mapsto> str_capacity s')) (mem st') s' (xs @ [c]) \<and> clean (mem st') s' \<and>
       str_capacity s' = (if length xs + 1 < str_capacity s then str_capacity s else 2 * str_capacity s))"
proof -
  let ?n = "length xs" and ?p = "str_data s" and ?k = "str_capacity s"
  note d = s(1)[unfolded string_holds_def]
  have w: "wrap (str_size s + 1) = Suc ?n" "wrap (2 * ?k) = 2 * ?k" using d cap by (simp_all add: wrap_def)
  note code = string_push_back_def[of L c s st, unfolded w Let_def]
  show ?thesis
  proof (cases "Suc ?n < ?k")
    case True
    let ?s = "s\<lparr>str_size := Suc ?n\<rparr>"
    define st' where "st' = upd_mem (\<lambda>m. m(str_data ?s + ?n := c)) st"
    have run: "string_push_back L c s st = Inr (?s, st')" using True d by (simp add: code st'_def)
    have own: "own(?p := None, str_data ?s \<mapsto> str_capacity ?s) = own" using d by (simp add: fun_upd_idem)
    have "string_push_back L c s st = Inr (?s, st') \<and> ok st' own \<and> keeps (own(?p := None)) st st' \<and>
        string_holds own (mem st') ?s (xs @ [c]) \<and> clean (mem st') ?s"
      using put_char[OF ok, of ?s xs st' c] run d s(2) True by (simp add: st'_def clean_def)
    then show ?thesis using own True by (intro disjI2 exI[of _ ?s] exI[of _ st']) simp
  next
    case False
    have pos: "0 < 2 * ?k" using d by auto
    note code = code[unfolded if_P[OF leI[OF False]]]
    have le: "Suc ?n \<le> 2 * ?k" using d by simp
    from realloc[OF ok conjunct1[OF d] pos cap] show ?thesis
    proof (elim disjE exE conjE)
      fix e assume "libc_realloc L ?p (2 * ?k) st = Inl e" "oom e"
      then show ?thesis using le by (simp add: code)
    next
      fix q st1
      let ?own = "own(?p := None, q \<mapsto> 2 * ?k)"
      assume r: "libc_realloc L ?p (2 * ?k) st = Inr (q, st1)" "0 < q" "(own(?p := None)) q = None" "ok st1 ?own"
        "keeps (own(?p := None)) st st1" "\<forall>i < min ?k (2 * ?k). mem st1 (q + i) = mem st (?p + i)"
      let ?s = "\<lparr>str_size = Suc ?n, str_capacity = 2 * ?k, str_data = q\<rparr>"
      define st2 where "st2 = upd_mem (memset (q + Suc ?n) 0 (2 * ?k - Suc ?n)) st1"
      define st' where "st' = upd_mem (\<lambda>m. m(str_data ?s + ?n := c)) st2"
      have out: "memset (q + Suc ?n) 0 (2 * ?k - Suc ?n) (mem st1) x = mem st1 x" if "x < q \<or> q + 2 * ?k \<le> x" for x
        using that le by (auto simp: memset_spec)
      have ok2: "ok st2 ?own" unfolding st2_def by (rule store[OF r(4), of q "2 * ?k"]) (use out in simp_all)
      have q: "?own(q := None) = own(?p := None)" using r(3) by (simp add: fun_upd_idem)
      have k2: "keeps (own(?p := None)) st1 st2"
        using store_keeps[OF r(4), of q "2 * ?k" "memset (q + Suc ?n) 0 (2 * ?k - Suc ?n)"] out
        unfolding st2_def q by simp
      have chars: "\<forall>i < ?n. mem st2 (q + i) = xs ! i" using r(6) d by (simp add: st2_def memset_spec)
      have zero: "\<forall>i. Suc ?n \<le> i \<longrightarrow> i < 2 * ?k \<longrightarrow> mem st2 (q + i) = 0" by (simp add: st2_def memset_spec)
      have run: "string_push_back L c s st = Inr (?s, st')"
        using r(1,2) le d by (simp add: code st2_def st'_def)
      have gap: "Suc ?n < 2 * ?k" using d False by linarith
      note p = put_char[OF ok2, of ?s xs st' c, unfolded cxx_string.simps, OF _ refl gap chars zero st'_def[unfolded cxx_string.simps]]
      have "keeps (own(?p := None)) st st'" using keeps_trans[OF keeps_trans[OF r(5) k2] p(2)[unfolded q]] by simp
      then show ?thesis using run p r(3) False by (intro disjI2 exI[of _ ?s] exI[of _ st']) simp
    qed
  qed
qed

text \<open>The loop of \<open>operator+=\<close>: the other string keeps its block while this one may move.\<close>

lemma string_append_ok:
  assumes "ok st own" "string_holds own (mem st) s xs" "clean (mem st) s" "string_holds own (mem st) other ys"
    "str_data s \<noteq> str_data other" "4 * (length xs + length ys) + 2 * str_capacity s < 0x3FFFFFF0"
  shows "(\<exists>e. string_append L other s st = Inl e \<and> oom e) \<or>
    (\<exists>s' st'. string_append L other s st = Inr (s', st') \<and>
       ok st' (own(str_data s := None, str_data s' \<mapsto> str_capacity s')) \<and> (own(str_data s := None)) (str_data s') = None \<and>
       keeps (own(str_data s := None)) st st' \<and>
       string_holds (own(str_data s := None, str_data s' \<mapsto> str_capacity s')) (mem st') s' (xs @ ys) \<and> clean (mem st') s')"
proof -
  let ?own = "own(str_data s := None)"
  let ?f = "\<lambda>i (s, st). string_push_back L (string_nth (mem st) other i) s st"
  have "(\<exists>e. foldE ?f [0 ..< k] (s, st) = Inl e \<and> oom e) \<or>
    (\<exists>s' st'. foldE ?f [0 ..< k] (s, st) = Inr (s', st') \<and> ok st' (?own(str_data s' \<mapsto> str_capacity s')) \<and> ?own (str_data s') = None \<and>
       keeps ?own st st' \<and> string_holds (?own(str_data s' \<mapsto> str_capacity s')) (mem st') s' (xs @ take k ys) \<and> clean (mem st') s' \<and>
       str_capacity s' \<le> max (str_capacity s) (2 * (length xs + k)))" if "k \<le> length ys" for k
    using that
  proof (induction k)
    case 0
    have "?own(str_data s \<mapsto> str_capacity s) = own" using assms(2) by (simp add: string_holds_def fun_upd_idem)
    with assms(1-3) show ?case
      by (intro disjI2 exI[of _ s] exI[of _ st] conjI) (simp_all del: fun_upd_apply, simp)
  next
    case (Suc k)
    then have k: "k < length ys" by simp
    from Suc.IH[OF less_imp_le[OF k]] show ?case
    proof (elim disjE exE conjE)
      fix e assume "foldE ?f [0 ..< k] (s, st) = Inl e" "oom e"
      then show ?thesis by (simp add: foldE_append)
    next
      fix s1 :: cxx_string and st1 :: "'w alloc"
      let ?own1 = "?own(str_data s1 \<mapsto> str_capacity s1)"
      assume h: "foldE ?f [0 ..< k] (s, st) = Inr (s1, st1)" "ok st1 ?own1" "?own (str_data s1) = None" "keeps ?own st st1"
        "string_holds ?own1 (mem st1) s1 (xs @ take k ys)" "clean (mem st1) s1" "str_capacity s1 \<le> max (str_capacity s) (2 * (length xs + k))"
      have o: "?own (str_data other) = Some (str_capacity other)" "k < str_capacity other" "mem st (str_data other + k) = ys ! k"
        using assms(4,5) k by (auto simp: string_holds_def)
      then have c: "string_nth (mem st1) other k = ys ! k" using keepsD[OF h(4) o(1,2)] by (simp add: string_nth_def)
      have step: "foldE ?f [0 ..< Suc k] (s, st) = string_push_back L (ys ! k) s1 st1" using foldE_upt_SucI[OF h(1)] c by simp
      have cap: "2 * str_capacity s1 < 0x3FFFFFF0" using h(7) assms(6) k unfolding le_max_iff_disj by auto
      have xs: "xs @ take (Suc k) ys = (xs @ take k ys) @ [ys ! k]" using k by (simp add: take_Suc_conv_app_nth)
      have own: "?own1(str_data s1 := None) = ?own" using h(3) by (simp add: fun_upd_idem)
      from string_push_back_ok[OF h(2,5,6) cap, of "ys ! k", unfolded own, folded xs] show ?thesis
      proof (elim disjE exE conjE)
        fix s2 st2
        assume p: "string_push_back L (ys ! k) s1 st1 = Inr (s2, st2)" "ok st2 (?own(str_data s2 \<mapsto> str_capacity s2))"
          "?own (str_data s2) = None" "keeps ?own st1 st2"
          "string_holds (?own(str_data s2 \<mapsto> str_capacity s2)) (mem st2) s2 (xs @ take (Suc k) ys)" "clean (mem st2) s2"
          "str_capacity s2 = (if length (xs @ take k ys) + 1 < str_capacity s1 then str_capacity s1 else 2 * str_capacity s1)"
        have "length xs + k < str_capacity s1" using h(5) k by (simp add: string_holds_def)
        then have "str_capacity s2 \<le> max (str_capacity s) (2 * (length xs + Suc k))" using p(7) h(7) k by (auto split: if_splits)
        then show ?thesis unfolding step using p keeps_trans[OF h(4) p(4)] by blast
      qed (unfold step, blast)
    qed
  qed
  from this[of "length ys"] have "(\<exists>e. foldE ?f [0 ..< length ys] (s, st) = Inl e \<and> oom e) \<or>
    (\<exists>s' st'. foldE ?f [0 ..< length ys] (s, st) = Inr (s', st') \<and> ok st' (?own(str_data s' \<mapsto> str_capacity s')) \<and> ?own (str_data s') = None \<and>
       keeps ?own st st' \<and> string_holds (?own(str_data s' \<mapsto> str_capacity s')) (mem st') s' (xs @ ys) \<and> clean (mem st') s')"
    unfolding take_all[OF order_refl] by blast
  then show ?thesis using assms(4) by (simp add: string_append_def string_holds_def)
qed

text \<open>Erasing the characters from \<open>i\<close> on, before \<open>j\<close>.\<close>

lemma string_erase_ok:
  assumes ok: "ok st own" and s: "string_holds own (mem st) s xs" and i: "i < length xs" "i < j" and cap: "str_capacity s < 0x3FFFFFF0"
  shows "(\<exists>e. string_erase L (str_data s + i) (str_data s + j) s st = Inl e \<and> oom e) \<or>
    (\<exists>s' st'. string_erase L (str_data s + i) (str_data s + j) s st = Inr (s', st') \<and> ok st' own \<and>
       keeps (own(str_data s := None)) st st' \<and> str_data s' = str_data s \<and> str_capacity s' = str_capacity s \<and>
       string_holds own (mem st') s' (take i xs @ drop j xs) \<and>
       (\<forall>k. length (take i xs @ drop j xs) < k \<longrightarrow> k < str_capacity s \<longrightarrow> mem st' (str_data s + k) = mem st (str_data s + k)))"
proof -
  let ?p = "str_data s" and ?k = "str_capacity s"
  note d = s[unfolded string_holds_def]
  define j' where "j' = min j (length xs)"
  have j': "i < j'" "j' \<le> length xs" "drop j xs = drop j' xs" using i by (auto simp: j'_def min_def)
  define r where "r = length xs - j'"
  have ifs: "(if string_end s < ?p + j then string_end s else ?p + j) = ?p + j'" using d by (auto simp: string_end_def j'_def)
  have rem: "string_end s - (?p + j') = r" using d j' by (simp add: string_end_def r_def)
  have pre: "string_begin s \<le> ?p + i \<and> ?p + i < string_end s" "string_begin s < ?p + j" "?p + i < ?p + j"
    using d i by (auto simp: string_begin_def string_end_def)
  have code: "string_erase L (?p + i) (?p + j) s st =
      bindE (memmove L (?p + i) (?p + j') r st) (\<lambda>st. Inr (s\<lparr>str_size := length xs - (j' - i)\<rparr>, upd_mem (\<lambda>m. m(?p + i + r := 0)) st))"
    unfolding string_erase_def ifs Let_def rem using pre d by simp
  have fits: "i + r \<le> ?k" "j' + r \<le> ?k" using d j' by (auto simp: r_def)
  from memmove_inside[OF ok conjunct1[OF d] fits cap] show ?thesis
  proof (elim disjE exE conjE)
    fix e assume "memmove L (?p + i) (?p + j') r st = Inl e" "oom e"
    then show ?thesis by (simp add: code)
  next
    fix st1
    assume m: "memmove L (?p + i) (?p + j') r st = Inr st1" "ok st1 own" "keeps (own(?p := None)) st st1"
      "\<forall>x < ?k. mem st1 (?p + x) = (if i \<le> x \<and> x < i + r then mem st (?p + j' + (x - i)) else mem st (?p + x))"
    let ?s = "s\<lparr>str_size := length xs - (j' - i)\<rparr>"
    define st2 where "st2 = upd_mem (\<lambda>m. m(?p + i + r := 0)) st1"
    have run: "string_erase L (?p + i) (?p + j) s st = Inr (?s, st2)" by (simp add: code m(1) st2_def)
    have out: "x < ?p \<or> ?p + ?k \<le> x \<Longrightarrow> x \<noteq> ?p + i + r" for x using fits d j' by (auto simp: r_def)
    have ok2: "ok st2 own" unfolding st2_def by (rule store[OF m(2) conjunct1[OF d]]) (use out in auto)
    have k2: "keeps (own(?p := None)) st1 st2" unfolding st2_def
      by (rule store_keeps[OF m(2) conjunct1[OF d]]) (use out in auto)
    have len: "length (take i xs @ drop j xs) = i + r" "length xs - (j' - i) = i + r" using j' by (auto simp: r_def)
    have "mem st2 (?p + x) = (take i xs @ drop j' xs) ! x" if x: "x < i + r" for x
    proof -
      have lt: "i \<le> x \<Longrightarrow> j' + (x - i) < length xs" using x j' by (auto simp: r_def)
      have "x < ?k" "x \<noteq> i + r" using x fits by auto
      then have "mem st2 (?p + x) = (if i \<le> x then mem st (?p + j' + (x - i)) else mem st (?p + x))"
        using m(4) x by (simp add: st2_def)
      also have "\<dots> = (if i \<le> x then xs ! (j' + (x - i)) else xs ! x)"
        using d[THEN conjunct2, THEN conjunct2, THEN conjunct2, THEN conjunct1, rule_format, of "j' + (x - i)"] d lt i(1)
        by (auto simp del: add_diff_assoc simp: add.assoc)
      also have "\<dots> = (take i xs @ drop j' xs) ! x" using x j' by (auto simp: nth_append r_def)
      finally show ?thesis .
    qed
    then have "string_holds own (mem st2) ?s (take i xs @ drop j xs)"
      using d fits j' len unfolding string_holds_def by (auto simp: st2_def r_def add.assoc)
    moreover have "mem st2 (?p + k) = mem st (?p + k)" if "i + r < k" "k < ?k" for k
      using m(4) that by (simp add: st2_def)
    ultimately show ?thesis using run ok2 keeps_trans[OF m(3) k2] len(1)
      by (intro disjI2 exI[of _ ?s] exI[of _ st2]) simp
  qed
qed

text \<open>
  \<open>push_back\<close> after \<open>erase\<close>: \<open>erase\<close> writes one terminator and leaves what followed it; the next
  \<open>push_back\<close> overwrites the terminator.
\<close>

lemma string_erase_push_back_ok:
  assumes ok: "ok st own" and s: "string_holds own (mem st) s xs" and nz: "0 \<notin> set xs" "c \<noteq> 0" and i: "i < j" "j \<le> length xs"
    and cap: "str_capacity s < 0x3FFFFFF0"
  shows "(\<exists>e. string_erase L (str_data s + i) (str_data s + j) s st = Inl e \<and> oom e) \<or>
    (\<exists>s1 st1 s2 st2. string_erase L (str_data s + i) (str_data s + j) s st = Inr (s1, st1) \<and>
       string_push_back L c s1 st1 = Inr (s2, st2) \<and> str_size s2 = i + (length xs - j) + 1 \<and>
       cstr (mem st2) (c_str s2) (take i xs @ drop j xs @ c # drop (i + (length xs - j) + 1) xs))"
proof -
  let ?ys = "take i xs @ drop j xs" and ?n = "i + (length xs - j)" and ?p = "str_data s"
  let ?zs = "?ys @ c # drop (?n + 1) xs"
  have len: "length ?ys = ?n" "?n < length xs" "length ?zs = length xs" using i by auto
  note d = s[unfolded string_holds_def]
  have "i < length xs" using i by simp
  from string_erase_ok[OF ok s this i(1) cap] show ?thesis
  proof (elim disjE exE conjE)
    fix s1 st1
    assume e: "string_erase L (?p + i) (?p + j) s st = Inr (s1, st1)" "str_data s1 = ?p" "str_capacity s1 = str_capacity s"
      "string_holds own (mem st1) s1 ?ys"
      "\<forall>k. length ?ys < k \<longrightarrow> k < str_capacity s \<longrightarrow> mem st1 (?p + k) = mem st (?p + k)"
    note d1 = e(4)[unfolded string_holds_def]
    have sz: "str_size s1 = ?n" "Suc ?n < str_capacity s" using d1 len(1,2) d by auto
    have run: "string_push_back L c s1 st1 = Inr (s1\<lparr>str_size := Suc ?n\<rparr>, upd_mem (\<lambda>m. m(?p + ?n := c)) st1)"
      using sz e(2,3) cap by (simp add: string_push_back_def wrap_def Let_def)
    have "mem st1 (?p + k) = xs ! k" if "?n < k" "k < length xs" for k using e(5) d that len(1) by auto
    moreover have "mem st1 (?p + length xs) = 0" using e(5) d len(1,2) by auto
    moreover have "mem st1 (?p + k) = ?ys ! k" if "k < ?n" for k using d1 len(1) e(2) that by auto
    ultimately have byte: "(mem st1)(?p + ?n := c) = (mem st1)(?p + ?n := c) \<and>
        (\<forall>k < length xs. ((mem st1)(?p + ?n := c)) (?p + k) = ?zs ! k) \<and> ((mem st1)(?p + ?n := c)) (?p + length xs) = 0"
      using len by (auto simp: nth_append nth_Cons' not_less)
    have "0 \<notin> set ?zs" using nz by (auto dest: in_set_takeD in_set_dropD)
    then have "cstr ((mem st1)(?p + ?n := c)) ?p ?zs"
      unfolding cstr_def len(3) using byte len(3) by (metis nth_mem)
    then have "str_size (s1\<lparr>str_size := Suc ?n\<rparr>) = ?n + 1 \<and>
        cstr (mem (upd_mem (\<lambda>m. m(?p + ?n := c)) st1)) (c_str (s1\<lparr>str_size := Suc ?n\<rparr>)) ?zs" using e(2) by (simp add: c_str_def fun_upd_def)
    with e(1) run show ?thesis unfolding append_assoc by blast
  qed auto
qed

end

section \<open>Strings in a user program\<close>

text \<open>Two strings on a fresh heap: one empty, one holding the letter a.\<close>

lemma string_example:
  obtains st own s t where "blocks_ok (unat (0x40800000 :: u32)) (uheap_ok 0x40800000) st own"
    "string_holds own (mem st) s []" "clean (mem st) s" "str_capacity s = 100"
    "string_holds own (mem st) t [0x61, 0x62, 0x63]" "str_capacity t = 100" "str_data s \<noteq> str_data t"
proof (rule user_example)
  let ?top = "0x40800000 :: u32"
  fix st0 st1
  assume r: "client_run usbrk st0 st1 (Map.empty(0x40400004 \<mapsto> 100))"
    and h: "alloc_inv (unat ?top) (uheap_ok ?top) st1 [(104, True), (920, False)]" "heap_end st1 = unat ?top" "heap_start st1 = 0x40400000"
  let ?bs = "[(104, True), (920, False)]"
  have hv: "heap_inv st1 ?bs" using h(1) by (simp add: alloc_inv_def)
  have b: "blocks_ok (unat ?top) (uheap_ok ?top) st1 (Map.empty(0x40400004 \<mapsto> 100))"
    unfolding blocks_ok_def using h by (intro exI[of _ ?bs]) (simp add: owners_def)
  have req: "request_ok 100 4" by (simp add: request_ok_4)
  have "first_fit (real_size 100 (max 4 4)) (max 4 4) (heap_start st1) ?bs = Some (0x40400068, [(104, True), (104, True), (816, False)])"
    by (simp add: real_size_def fit_def place_def h(3))
  from Malloc_fits[OF hv req this, of usbrk] obtain st2 where "Malloc usbrk 100 st1 = Inr (0x4040006C, st2)"
    by (auto simp: allocated_def Malloc_def kMaxAlignment_def)
  with uh.blocks_malloc[OF b, of 100]
  have b2: "blocks_ok (unat ?top) (uheap_ok ?top) st2 (Map.empty(0x40400004 \<mapsto> 100, 0x4040006C \<mapsto> 100))"
    by (auto simp: fun_upd_def)
  let ?own = "Map.empty(0x40400004 \<mapsto> 100, 0x4040006C \<mapsto> 100)"
  let ?f = "memset 0x40400004 0 100" and ?g = "\<lambda>m. (memset 0x4040006C 0 100 m)(0x4040006C := 0x61, 0x4040006D := 0x62, 0x4040006E := 0x63)"
  let ?st3 = "upd_mem ?f st2"
  have b3: "blocks_ok (unat ?top) (uheap_ok ?top) ?st3 ?own"
    by (rule uh.blocks_store[OF b2, where p = "0x40400004" and n = "100"]) (auto simp: memset_spec)
  have b4: "blocks_ok (unat ?top) (uheap_ok ?top) (upd_mem ?g ?st3) ?own"
    by (rule uh.blocks_store[OF b3, where p = "0x4040006C" and n = "100"]) (auto simp: memset_spec)
  show thesis
    by (rule that[OF b4, of "\<lparr>str_size = 0, str_capacity = 100, str_data = 0x40400004\<rparr>"
          "\<lparr>str_size = 3, str_capacity = 100, str_data = 0x4040006C\<rparr>"])
      (auto simp: string_holds_def clean_def memset_spec less_Suc_eq numeral_3_eq_3)
qed



text \<open>
  A \<open>push_back\<close> after an \<open>erase\<close> of more than one character. \<open>erase\<close> terminates the shorter
  string but leaves the bytes behind the terminator, and \<open>push_back\<close> writes none unless it
  grows the block: \<open>size()\<close> counts the remaining characters and the new one, but \<open>c_str()\<close>
  goes on with the old characters, up to the old length.
\<close>

theorem string_push_back_after_erase:
  assumes "blocks_ok (unat utop) (uheap_ok utop) st own" "string_holds own (mem st) s xs" "0 \<notin> set xs" "c \<noteq> 0"
    "i < j" "j \<le> length xs" "str_capacity s < 0x3FFFFFF0"
  shows "(\<exists>msg. string_erase user_libc (str_data s + i) (str_data s + j) s st = Inl (AssertFailed msg) \<and>
      msg \<in> {''No memory left for kernel!'', ''Attempting to allocate beyond the end of the heap.''}) \<or>
    (\<exists>s1 st1 s2 st2. string_erase user_libc (str_data s + i) (str_data s + j) s st = Inr (s1, st1) \<and>
       string_push_back user_libc c s1 st1 = Inr (s2, st2) \<and> str_size s2 = i + (length xs - j) + 1 \<and>
       cstr (mem st2) (c_str s2) (take i xs @ drop j xs @ c # drop (i + (length xs - j) + 1) xs))"
  using uh.bh.string_erase_push_back_ok[OF assms] user_out_of_memory[of utop] unfolding user_libc_alloc by blast

theorem string_push_back_after_erase_witness:
  "\<exists>st s. (\<exists>msg. string_erase user_libc (str_data s) (str_data s + 2) s st = Inl (AssertFailed msg)) \<or>
     (\<exists>s1 st1 s2 st2. string_erase user_libc (str_data s) (str_data s + 2) s st = Inr (s1, st1) \<and>
       string_push_back user_libc 0x78 s1 st1 = Inr (s2, st2) \<and> str_size s2 = 2 \<and> cstr (mem st2) (c_str s2) [0x63, 0x78, 0x63])"
proof (rule string_example)
  fix st own s t
  assume e: "blocks_ok (unat (0x40800000 :: u32)) (uheap_ok 0x40800000) st own"
    "string_holds own (mem st) t [0x61, 0x62, 0x63]" "str_capacity t = 100"
  have l: "0 + (length [0x61, 0x62, 0x63 :: u8] - 2) + 1 = 2"
    "take 0 [0x61, 0x62, 0x63 :: u8] @ drop 2 [0x61, 0x62, 0x63] @ 0x78 # drop 2 [0x61, 0x62, 0x63] = [0x63, 0x78, 0x63]" by simp_all
  have "0 \<notin> set [0x61, 0x62, 0x63 :: u8]" "(0x78 :: u8) \<noteq> 0" "(0 :: nat) < 2" "2 \<le> length [0x61, 0x62, 0x63 :: u8]" "str_capacity t < 0x3FFFFFF0"
    using e(3) by simp_all
  from string_push_back_after_erase[OF e(1,2) this] show ?thesis unfolding l add_0_right by blast
qed

end
