(* ===== verification/CxxVector.thy ===== *)
theory CxxVector
  imports UserHeap
begin

text \<open>
  \<open>std::vector\<close> of \<^verbatim>\<open>libcxx/include/vector\<close>, for elements that are copied byte by byte and need no
  destructor (the bytes of a file, the children of a task). \<open>esz\<close> is \<open>sizeof(T)\<close>; an element is its
  bytes, an iterator the address it points to. \<open>vec_items\<close> reads the elements of a vector from
  memory: the operations are the list operations on it.
\<close>

section \<open>Definitions\<close>

record cxx_vector =
  vec_size :: nat
  vec_capacity :: nat
  vec_data :: nat

definition InitCapacity :: nat where "InitCapacity = 8"

text \<open>The object at an address, and the placement of a copy.\<close>

definition obj :: "mem \<Rightarrow> nat \<Rightarrow> nat \<Rightarrow> u8 list" where
  "obj m p esz = map (\<lambda>k. m (p + k)) [0 ..< esz]"

definition put_obj :: "nat \<Rightarrow> u8 list \<Rightarrow> mem \<Rightarrow> mem" where
  "put_obj p item m = (\<lambda>a. if p \<le> a \<and> a < p + length item then item ! (a - p) else m a)"

definition vec_default :: "'w libc \<Rightarrow> nat \<Rightarrow> 'w alloc \<Rightarrow> (cxx_vector \<times> 'w alloc) result" where
  "vec_default L esz st =
     bindE (libc_malloc L (wrap (InitCapacity * esz)) st) (\<lambda>(p, st).
     Inr (\<lparr>vec_size = 0, vec_capacity = InitCapacity, vec_data = p\<rparr>, st))"

definition vec_copy_items :: "nat \<Rightarrow> nat \<Rightarrow> nat \<Rightarrow> nat \<Rightarrow> mem \<Rightarrow> mem" where
  "vec_copy_items esz dst src n m = fold (\<lambda>i m. put_obj (dst + i * esz) (obj m (src + i * esz) esz) m) [0 ..< n] m"

definition vec_range :: "'w libc \<Rightarrow> nat \<Rightarrow> nat \<Rightarrow> nat \<Rightarrow> 'w alloc \<Rightarrow> (cxx_vector \<times> 'w alloc) result" where
  "vec_range L esz start end0 st =
     (let sz = wrap (end0 + 0x100000000 - start) div esz;
          cap = max InitCapacity sz in
      bindE (libc_malloc L (wrap (cap * esz)) st) (\<lambda>(p, st).
      assertE (start \<le> end0) ''Invalid pointer range'' (
      Inr (\<lparr>vec_size = sz, vec_capacity = cap, vec_data = p\<rparr>, upd_mem (vec_copy_items esz p start sz) st))))"

definition vec_copy :: "'w libc \<Rightarrow> nat \<Rightarrow> cxx_vector \<Rightarrow> 'w alloc \<Rightarrow> (cxx_vector \<times> 'w alloc) result" where
  "vec_copy L esz other st =
     (let sz = vec_size other;
          cap = max InitCapacity (vec_size other) in
      bindE (libc_malloc L (wrap (cap * esz)) st) (\<lambda>(p, st).
      Inr (\<lparr>vec_size = sz, vec_capacity = cap, vec_data = p\<rparr>, upd_mem (vec_copy_items esz p (vec_data other) sz) st)))"

text \<open>The move constructor returns the emptied source too.\<close>

definition vec_move :: "'w libc \<Rightarrow> nat \<Rightarrow> cxx_vector \<Rightarrow> 'w alloc \<Rightarrow> (cxx_vector \<times> cxx_vector \<times> 'w alloc) result" where
  "vec_move L esz other st =
     bindE (libc_malloc L (wrap (vec_capacity other * esz)) st) (\<lambda>(p, st).
     Inr (other\<lparr>vec_data := p\<rparr>, other\<lparr>vec_size := 0\<rparr>, upd_mem (vec_copy_items esz p (vec_data other) (vec_size other)) st))"

definition vec_destroy :: "'w libc \<Rightarrow> cxx_vector \<Rightarrow> 'w alloc \<Rightarrow> 'w alloc result" where
  "vec_destroy L v st = libc_free L (vec_data v) st"

definition vec_empty :: "cxx_vector \<Rightarrow> bool" where
  "vec_empty v \<longleftrightarrow> vec_size v = 0"

definition IncrementSize :: "'w libc \<Rightarrow> nat \<Rightarrow> cxx_vector \<Rightarrow> 'w alloc \<Rightarrow> (cxx_vector \<times> 'w alloc) result" where
  "IncrementSize L esz v st =
     (let sz = wrap (vec_size v + 1) in
      if vec_capacity v < sz
      then let cap = wrap (2 * vec_capacity v) in
           assertE (sz \<le> cap) ''Not enough capacity after push_back'' (
           bindE (libc_realloc L (vec_data v) (wrap (cap * esz)) st) (\<lambda>(p, st).
           assertE (p \<noteq> 0) ''Could not request more storage'' (
           Inr (\<lparr>vec_size = sz, vec_capacity = cap, vec_data = p\<rparr>, st))))
      else Inr (v\<lparr>vec_size := sz\<rparr>, st))"

definition DecrementSize :: "cxx_vector \<Rightarrow> cxx_vector" where
  "DecrementSize v = v\<lparr>vec_size := wrap (vec_size v + 0xFFFFFFFF)\<rparr>"

text \<open>The loop ends because \<open>size_\<close> grows towards \<open>size\<close>: see \<open>vec_resize_ok\<close>.\<close>

partial_function (option) vec_resize_loop ::
  "'w libc \<Rightarrow> nat \<Rightarrow> nat \<Rightarrow> cxx_vector \<Rightarrow> 'w alloc \<Rightarrow> (cxx_vector \<times> 'w alloc) result option" where
  "vec_resize_loop L esz n v st =
     (if vec_size v < n
      then (case IncrementSize L esz v st of Inl e \<Rightarrow> Some (Inl e) | Inr (v, st) \<Rightarrow> vec_resize_loop L esz n v st)
      else Some (Inr (v, st)))"

definition vec_resize :: "'w libc \<Rightarrow> nat \<Rightarrow> nat \<Rightarrow> cxx_vector \<Rightarrow> 'w alloc \<Rightarrow> (cxx_vector \<times> 'w alloc) result" where
  "vec_resize L esz n v st = (case vec_resize_loop L esz n v st of None \<Rightarrow> Inl Diverges | Some r \<Rightarrow> r)"

text \<open>After \<open>IncrementSize\<close> the index \<open>size_ - 1\<close> is the old size.\<close>

definition vec_push_back :: "'w libc \<Rightarrow> nat \<Rightarrow> u8 list \<Rightarrow> cxx_vector \<Rightarrow> 'w alloc \<Rightarrow> (cxx_vector \<times> 'w alloc) result" where
  "vec_push_back L esz item v st =
     bindE (IncrementSize L esz v st) (\<lambda>(v', st).
     Inr (v', upd_mem (put_obj (vec_data v' + vec_size v * esz) item) st))"

definition vec_nth :: "mem \<Rightarrow> nat \<Rightarrow> cxx_vector \<Rightarrow> nat \<Rightarrow> u8 list" where
  "vec_nth m esz v index = obj m (vec_data v + index * esz) esz"

definition vec_back :: "mem \<Rightarrow> nat \<Rightarrow> cxx_vector \<Rightarrow> u8 list" where
  "vec_back m esz v = vec_nth m esz v (wrap (vec_size v + 0xFFFFFFFF))"

definition vec_begin :: "cxx_vector \<Rightarrow> nat" where
  "vec_begin v = vec_data v"

definition vec_end :: "nat \<Rightarrow> cxx_vector \<Rightarrow> nat" where
  "vec_end esz v = vec_data v + vec_size v * esz"

definition vec_find :: "mem \<Rightarrow> nat \<Rightarrow> cxx_vector \<Rightarrow> u8 list \<Rightarrow> nat" where
  "vec_find m esz v ref =
     (case List.find (\<lambda>i. vec_nth m esz v i = ref) [0 ..< vec_size v] of
        None \<Rightarrow> vec_end esz v | Some i \<Rightarrow> vec_begin v + i * esz)"

definition vec_contains :: "mem \<Rightarrow> nat \<Rightarrow> cxx_vector \<Rightarrow> u8 list \<Rightarrow> bool" where
  "vec_contains m esz v ref \<longleftrightarrow> vec_find m esz v ref \<noteq> vec_end esz v"

definition vec_erase :: "'w libc \<Rightarrow> nat \<Rightarrow> nat \<Rightarrow> cxx_vector \<Rightarrow> 'w alloc \<Rightarrow> (cxx_vector \<times> 'w alloc) result" where
  "vec_erase L esz iter v st =
     (case List.find (\<lambda>pos. vec_begin v + pos * esz = iter) [0 ..< vec_size v] of
        None \<Rightarrow> Inr (v, st)
      | Some pos \<Rightarrow>
        let remaining = vec_size v - (pos + 1) in
        bindE (memmove L (vec_data v + pos * esz) (vec_data v + (pos + 1) * esz) (wrap (remaining * esz)) st) (\<lambda>st.
        Inr (DecrementSize v, st)))"

section \<open>The elements of a vector\<close>

definition vec_items :: "mem \<Rightarrow> nat \<Rightarrow> cxx_vector \<Rightarrow> u8 list list" where
  "vec_items m esz v = map (vec_nth m esz v) [0 ..< vec_size v]"

text \<open>The vector owns a block of \<open>capacity_\<close> elements and no more than these are in use.\<close>

definition vec_ok :: "(nat \<rightharpoonup> nat) \<Rightarrow> nat \<Rightarrow> cxx_vector \<Rightarrow> bool" where
  "vec_ok own esz v \<longleftrightarrow> own (vec_data v) = Some (vec_capacity v * esz) \<and> vec_size v \<le> vec_capacity v \<and> 0 < vec_capacity v \<and> 0 < esz"

lemma length_obj [simp]: "length (obj m p esz) = esz"
  by (simp add: obj_def)

lemma length_vec_items [simp]: "length (vec_items m esz v) = vec_size v"
  by (simp add: vec_items_def)

lemma vec_items_nth [simp]: "i < vec_size v \<Longrightarrow> vec_items m esz v ! i = vec_nth m esz v i"
  by (simp add: vec_items_def)

lemma vec_nth_cong:
  assumes "\<And>k. k < esz \<Longrightarrow> m' (vec_data v' + j * esz + k) = m (vec_data v + i * esz + k)"
  shows "vec_nth m' esz v' j = vec_nth m esz v i"
  using assms by (simp add: vec_nth_def obj_def)

lemma elem_bound: "i < n \<Longrightarrow> k < esz \<Longrightarrow> i * esz + k < n * esz" for i n k esz :: nat
proof -
  assume a: "i < n" "k < esz"
  have "i * esz + k < Suc i * esz" using a(2) by simp
  also have "\<dots> \<le> n * esz" using a(1) by (intro mult_le_mono1) simp
  finally show ?thesis .
qed

text \<open>Every byte of the block is kept: so are the elements.\<close>

lemma vec_items_cong:
  assumes "\<And>x. x < vec_size v * esz \<Longrightarrow> m' (vec_data v' + x) = m (vec_data v + x)" "vec_size v' = vec_size v"
  shows "vec_items m' esz v' = vec_items m esz v"
proof (rule nth_equalityI)
  fix i assume "i < length (vec_items m' esz v')"
  then have i: "i < vec_size v" "i < vec_size v'" using assms(2) by simp_all
  have "vec_nth m' esz v' i = vec_nth m esz v i"
    by (rule vec_nth_cong) (use assms(1) elem_bound[OF i(1)] in \<open>simp add: add.assoc\<close>)
  then show "vec_items m' esz v' ! i = vec_items m esz v ! i" using i by simp
qed (simp add: assms(2))

lemma put_obj_outside: "a < p \<or> p + length item \<le> a \<Longrightarrow> put_obj p item m a = m a"
  by (auto simp: put_obj_def)

lemma obj_put_obj: "obj (put_obj p item m) p (length item) = item"
  by (rule nth_equalityI) (simp_all add: obj_def put_obj_def)

lemma vec_find_pos:
  "vec_find m esz v ref = vec_begin v + length (takeWhile (\<lambda>x. x \<noteq> ref) (vec_items m esz v)) * esz"
proof -
  let ?P = "\<lambda>i. vec_nth m esz v i = ref"
  have "length (takeWhile (\<lambda>x. x \<noteq> ref) (vec_items m esz v)) = length (takeWhile (\<lambda>i. \<not> ?P i) [0 ..< vec_size v])"
    by (simp add: vec_items_def takeWhile_map o_def)
  also have "\<dots> = (case List.find ?P [0 ..< vec_size v] of None \<Rightarrow> vec_size v | Some i \<Rightarrow> i)"
    using find_upt_takeWhile[of 0 "vec_size v" ?P] unfolding add_0 by simp
  finally show ?thesis by (simp add: vec_find_def vec_begin_def vec_end_def split: option.splits)
qed

text \<open>The search for a valid iterator finds its index.\<close>

lemma find_iterator:
  assumes "pos < n" "0 < (esz :: nat)"
  shows "List.find (\<lambda>i. p + i * esz = p + pos * esz) [0 ..< n] = Some pos"
proof -
  have "(\<lambda>i. p + i * esz = p + pos * esz) = (\<lambda>i. i = pos)" using assms(2) by (auto simp: fun_eq_iff)
  moreover have "List.find (\<lambda>i. i = pos) [0 ..< n] = Some pos" unfolding find_Some_iff using assms(1) by (intro exI[of _ pos]) simp
  ultimately show ?thesis by simp
qed

section \<open>The loop of resize\<close>

lemma IncrementSize_size:
  "IncrementSize L esz v st = Inr (v', st') \<Longrightarrow> vec_size v' = wrap (vec_size v + 1)"
  by (auto simp: IncrementSize_def Let_def result_simps split: if_splits)

lemma vec_resize_loop_returns:
  assumes "n < 0x100000000"
  shows "(\<exists>e. vec_resize_loop L esz n v st = Some (Inl e)) \<or>
    (\<exists>v' st'. vec_resize_loop L esz n v st = Some (Inr (v', st')) \<and> vec_size v' = max n (vec_size v))"
proof (induction "n - vec_size v" arbitrary: v st)
  case 0
  then show ?case by (subst (1 2) vec_resize_loop.simps) (simp add: max_def)
next
  case (Suc d)
  then have lt: "vec_size v < n" by simp
  note code = vec_resize_loop.simps[of L esz n v st, unfolded if_P[OF lt]]
  show ?case
  proof (cases "IncrementSize L esz v st")
    case (Inl e)
    then show ?thesis by (simp add: code)
  next
    case (Inr r)
    obtain v' st' where r: "r = (v', st')" by (cases r)
    have sz: "vec_size v' = Suc (vec_size v)" using IncrementSize_size[OF Inr[unfolded r]] lt assms by (simp add: wrap_def)
    then have m: "max n (vec_size v') = max n (vec_size v)" "d = n - vec_size v'" using lt Suc.hyps(2) by simp_all
    have "vec_resize_loop L esz n v st = vec_resize_loop L esz n v' st'" by (simp add: code Inr r)
    with Suc.hyps(1)[OF m(2), of st'] m(1) show ?thesis by simp
  qed
qed

section \<open>The operations on the heap\<close>

context block_heap
begin

lemma IncrementSize_ok:
  assumes ok: "ok st own" and v: "vec_ok own esz v" and cap: "2 * vec_capacity v * esz < 0x3FFFFFF0"
  shows "(\<exists>e. IncrementSize L esz v st = Inl e \<and> oom e) \<or>
    (\<exists>v' st'. IncrementSize L esz v st = Inr (v', st') \<and> vec_size v' = Suc (vec_size v) \<and>
       vec_ok (own(vec_data v := None, vec_data v' \<mapsto> vec_capacity v' * esz)) esz v' \<and>
       ok st' (own(vec_data v := None, vec_data v' \<mapsto> vec_capacity v' * esz)) \<and> (own(vec_data v := None)) (vec_data v') = None \<and>
       keeps (own(vec_data v := None)) st st' \<and>
       vec_capacity v' = (if vec_size v < vec_capacity v then vec_capacity v else 2 * vec_capacity v) \<and>
       (\<forall>x < vec_size v * esz. mem st' (vec_data v' + x) = mem st (vec_data v + x)))"
proof -
  let ?n = "vec_size v" and ?k = "vec_capacity v" and ?p = "vec_data v"
  note d = v[unfolded vec_ok_def]
  have "2 * ?k * 1 \<le> 2 * ?k * esz" using d by (intro mult_le_mono) auto
  with cap have e: "2 * ?k < 0x3FFFFFF0" by linarith
  have w: "wrap (?n + 1) = Suc ?n" "wrap (2 * ?k) = 2 * ?k" "wrap (2 * ?k * esz) = 2 * ?k * esz"
    using d cap e by (simp_all only: wrap_def) (simp_all)
  note code = IncrementSize_def[of L esz v st, unfolded Let_def w]
  show ?thesis
  proof (cases "?n < ?k")
    case True
    let ?v = "v\<lparr>vec_size := Suc ?n\<rparr>"
    have own: "own(?p := None, ?p \<mapsto> ?k * esz) = own" using d by (simp add: fun_upd_idem)
    have "IncrementSize L esz v st = Inr (?v, st)" using True by (simp add: code)
    moreover have "vec_ok own esz ?v" using d True by (simp add: vec_ok_def)
    ultimately show ?thesis using ok own True
      by (intro disjI2 exI[of _ ?v] exI[of _ st]) (simp del: fun_upd_apply, simp)
  next
    case False
    have pos: "0 < 2 * ?k * esz" using d by simp
    have le: "Suc ?n \<le> 2 * ?k" "?n = ?k" using d False by simp_all
    from realloc[OF ok conjunct1[OF d] pos cap] show ?thesis
    proof (elim disjE exE conjE)
      fix x assume "libc_realloc L ?p (2 * ?k * esz) st = Inl x" "oom x"
      then show ?thesis using le by (simp add: code)
    next
      fix q st1
      assume r: "libc_realloc L ?p (2 * ?k * esz) st = Inr (q, st1)" "0 < q" "(own(?p := None)) q = None"
        "ok st1 (own(?p := None, q \<mapsto> 2 * ?k * esz))" "keeps (own(?p := None)) st st1"
        "\<forall>i < min (?k * esz) (2 * ?k * esz). mem st1 (q + i) = mem st (?p + i)"
      let ?v = "\<lparr>vec_size = Suc ?n, vec_capacity = 2 * ?k, vec_data = q\<rparr>"
      have "IncrementSize L esz v st = Inr (?v, st1)" using r(1,2) le by (simp add: code)
      moreover have "vec_ok (own(?p := None, q \<mapsto> 2 * ?k * esz)) esz ?v" using d le by (simp add: vec_ok_def)
      moreover have "\<forall>x < ?n * esz. mem st1 (q + x) = mem st (?p + x)" using r(6) le(2) by simp
      ultimately show ?thesis using r(3-5) le(2) by (intro disjI2 exI[of _ ?v] exI[of _ st1]) simp
    qed
  qed
qed

lemma vec_push_back_ok:
  assumes ok: "ok st own" and v: "vec_ok own esz v" and cap: "2 * vec_capacity v * esz < 0x3FFFFFF0" and item: "length item = esz"
  shows "(\<exists>e. vec_push_back L esz item v st = Inl e \<and> oom e) \<or>
    (\<exists>v' st'. vec_push_back L esz item v st = Inr (v', st') \<and>
       vec_ok (own(vec_data v := None, vec_data v' \<mapsto> vec_capacity v' * esz)) esz v' \<and>
       ok st' (own(vec_data v := None, vec_data v' \<mapsto> vec_capacity v' * esz)) \<and> (own(vec_data v := None)) (vec_data v') = None \<and>
       keeps (own(vec_data v := None)) st st' \<and> vec_items (mem st') esz v' = vec_items (mem st) esz v @ [item])"
proof -
  let ?n = "vec_size v" and ?p = "vec_data v"
  from IncrementSize_ok[OF ok v cap] show ?thesis
  proof (elim disjE exE conjE)
    fix e assume "IncrementSize L esz v st = Inl e" "oom e"
    then show ?thesis by (simp add: vec_push_back_def)
  next
    fix v' :: cxx_vector and st1 :: "'w alloc"
    let ?own = "own(?p := None, vec_data v' \<mapsto> vec_capacity v' * esz)" and ?q = "vec_data v'"
    assume i: "IncrementSize L esz v st = Inr (v', st1)" "vec_size v' = Suc ?n" "vec_ok ?own esz v'" "ok st1 ?own"
      "(own(?p := None)) ?q = None" "keeps (own(?p := None)) st st1" "\<forall>x < ?n * esz. mem st1 (?q + x) = mem st (?p + x)"
    let ?f = "put_obj (?q + ?n * esz) item"
    have room: "?n * esz + esz \<le> vec_capacity v' * esz"
      using i(2,3) mult_le_mono1[of "Suc ?n" "vec_capacity v'" esz] by (simp add: vec_ok_def add.commute)
    have out: "?f (mem st1) x = mem st1 x" if "x < ?q \<or> ?q + vec_capacity v' * esz \<le> x" for x
      by (rule put_obj_outside) (use that room item in auto)
    let ?st = "upd_mem ?f st1"
    have run: "vec_push_back L esz item v st = Inr (v', ?st)" by (simp add: vec_push_back_def i(1))
    have ok2: "ok ?st ?own" by (rule store[OF i(4), of ?q "vec_capacity v' * esz"]) (use out in simp_all)
    have "?own(?q := None) = own(?p := None)" using i(5) by (simp add: fun_upd_idem)
    then have k: "keeps (own(?p := None)) st1 ?st"
      using store_keeps[OF i(4), of ?q "vec_capacity v' * esz" ?f] out by simp
    have "vec_items (mem ?st) esz v' = vec_items (mem ?st) esz (v'\<lparr>vec_size := ?n\<rparr>) @ [vec_nth (mem ?st) esz v' ?n]"
      by (simp add: vec_items_def i(2) vec_nth_def)
    also have "vec_items (mem ?st) esz (v'\<lparr>vec_size := ?n\<rparr>) = vec_items (mem st) esz v"
      by (rule vec_items_cong) (use i(7) in \<open>simp_all add: put_obj_def\<close>)
    also have "vec_nth (mem ?st) esz v' ?n = item" using obj_put_obj[of "?q + ?n * esz" item "mem st1"] item by (simp add: vec_nth_def)
    finally show ?thesis using run i(3,5) ok2 keeps_trans[OF i(6) k]
      by (intro disjI2 exI[of _ v'] exI[of _ ?st]) simp
  qed
qed

text \<open>Erasing the element an iterator points to.\<close>

lemma vec_erase_ok:
  assumes ok: "ok st own" and v: "vec_ok own esz v" and pos: "pos < vec_size v" and cap: "vec_capacity v * esz < 0x3FFFFFF0"
  shows "(\<exists>e. vec_erase L esz (vec_begin v + pos * esz) v st = Inl e \<and> oom e) \<or>
    (\<exists>v' st'. vec_erase L esz (vec_begin v + pos * esz) v st = Inr (v', st') \<and> vec_data v' = vec_data v \<and>
       vec_capacity v' = vec_capacity v \<and> vec_ok own esz v' \<and> ok st' own \<and> keeps (own(vec_data v := None)) st st' \<and>
       vec_items (mem st') esz v' = take pos (vec_items (mem st) esz v) @ drop (Suc pos) (vec_items (mem st) esz v))"
proof -
  let ?n = "vec_size v" and ?p = "vec_data v" and ?k = "vec_capacity v * esz"
  note d = v[unfolded vec_ok_def]
  define r where "r = ?n - Suc pos"
  have le: "(pos + 1 + r) * esz \<le> ?k" using d pos by (intro mult_le_mono1) (simp add: r_def)
  then have fits: "pos * esz + r * esz \<le> ?k" "(pos + 1) * esz + r * esz \<le> ?k" by (simp_all add: algebra_simps)
  have w: "wrap (r * esz) = r * esz" using fits cap by (simp add: wrap_def)
  have dec: "DecrementSize v = v\<lparr>vec_size := ?n - 1\<rparr>"
  proof -
    have "?n \<le> ?k" using d by (metis mult.right_neutral mult_le_mono less_eq_Suc_le One_nat_def)
    then have "?n < 0x100000000" "0 < ?n" using cap pos by simp_all
    then show ?thesis by (simp add: DecrementSize_def wrap_def le_mod_geq)
  qed
  have code: "vec_erase L esz (vec_begin v + pos * esz) v st =
      bindE (memmove L (?p + pos * esz) (?p + (pos + 1) * esz) (r * esz) st) (\<lambda>st. Inr (v\<lparr>vec_size := ?n - 1\<rparr>, st))"
    using find_iterator[OF pos, of esz "vec_begin v"] d w dec by (simp add: vec_erase_def Let_def r_def)
  from memmove_inside[OF ok conjunct1[OF d] fits cap] show ?thesis
  proof (elim disjE exE conjE)
    fix e assume "memmove L (?p + pos * esz) (?p + (pos + 1) * esz) (r * esz) st = Inl e" "oom e"
    then show ?thesis by (simp add: code)
  next
    fix st' let ?v = "v\<lparr>vec_size := ?n - 1\<rparr>"
    assume m: "memmove L (?p + pos * esz) (?p + (pos + 1) * esz) (r * esz) st = Inr st'" "ok st' own" "keeps (own(?p := None)) st st'"
      "\<forall>i < ?k. mem st' (?p + i) = (if pos * esz \<le> i \<and> i < pos * esz + r * esz then mem st (?p + (pos + 1) * esz + (i - pos * esz)) else mem st (?p + i))"
    have item: "vec_nth (mem st') esz ?v i = vec_nth (mem st) esz v (if i < pos then i else Suc i)" if i: "i < ?n - 1" for i
    proof (rule vec_nth_cong)
      fix k assume k: "k < esz"
      have "i < vec_capacity v" using i d by linarith
      then have b: "i * esz + k < ?k" by (rule elem_bound[OF _ k])
      show "mem st' (vec_data ?v + i * esz + k) = mem st (?p + (if i < pos then i else Suc i) * esz + k)"
      proof (cases "i < pos")
        case True
        have "i * esz + k < pos * esz" by (rule elem_bound[OF True k])
        then show ?thesis using m(4) b True by (simp add: add.assoc)
      next
        case False
        then have ge: "pos * esz \<le> i * esz + k" by (simp add: trans_le_add1)
        have "i * esz + k < (pos + r) * esz" by (rule elem_bound[OF _ k]) (use i in \<open>simp add: r_def\<close>)
        then have lt: "i * esz + k < pos * esz + r * esz" by (simp add: algebra_simps)
        have "mem st' (?p + (i * esz + k)) = mem st (?p + (pos + 1) * esz + (i * esz + k - pos * esz))"
          using m(4) b ge lt by simp
        also have "?p + (pos + 1) * esz + (i * esz + k - pos * esz) = ?p + Suc i * esz + k"
          using ge by (simp add: algebra_simps)
        finally show ?thesis using False by (simp add: add.assoc)
      qed
    qed
    have "vec_items (mem st') esz ?v = take pos (vec_items (mem st) esz v) @ drop (Suc pos) (vec_items (mem st) esz v)"
      by (rule nth_equalityI) (use pos in \<open>auto simp: item[unfolded One_nat_def] nth_append\<close>)
    then show ?thesis using m(1-3) d by (intro disjI2 exI[of _ ?v] exI[of _ st']) (auto simp: code vec_ok_def)
  qed
qed

lemma vec_resize_ok:
  assumes "ok st own" "vec_ok own esz v" "2 * max (vec_capacity v) (2 * n) * esz < 0x3FFFFFF0"
  shows "(\<exists>e. vec_resize L esz n v st = Inl e \<and> oom e) \<or>
    (\<exists>v' st'. vec_resize L esz n v st = Inr (v', st') \<and> vec_size v' = max n (vec_size v) \<and>
       vec_ok (own(vec_data v := None, vec_data v' \<mapsto> vec_capacity v' * esz)) esz v' \<and>
       ok st' (own(vec_data v := None, vec_data v' \<mapsto> vec_capacity v' * esz)) \<and> (own(vec_data v := None)) (vec_data v') = None \<and>
       keeps (own(vec_data v := None)) st st' \<and> take (vec_size v) (vec_items (mem st') esz v') = vec_items (mem st) esz v)"
  using assms
proof (induction "n - vec_size v" arbitrary: v st own)
  case 0
  have "own(vec_data v := None, vec_data v \<mapsto> vec_capacity v * esz) = own" using 0(3) by (simp add: vec_ok_def fun_upd_idem)
  moreover have "vec_resize L esz n v st = Inr (v, st)" using 0(1) by (simp add: vec_resize_def vec_resize_loop.simps[of L esz n v st])
  ultimately show ?case using 0 by (intro disjI2 exI[of _ v] exI[of _ st]) (simp del: fun_upd_apply, simp add: max_def)
next
  case (Suc d)
  then have lt: "vec_size v < n" by simp
  have code: "vec_resize L esz n v st = bindE (IncrementSize L esz v st) (\<lambda>(v, st). vec_resize L esz n v st)"
    using lt by (simp add: vec_resize_def vec_resize_loop.simps[of L esz n v st] bindE_def split: sum.splits)
  let ?own = "own(vec_data v := None)"
  have "2 * vec_capacity v * esz \<le> 2 * max (vec_capacity v) (2 * n) * esz" by simp
  with Suc.prems(3) have "2 * vec_capacity v * esz < 0x3FFFFFF0" by linarith
  from IncrementSize_ok[OF Suc.prems(1,2) this] show ?case
  proof (elim disjE exE conjE)
    fix e assume "IncrementSize L esz v st = Inl e" "oom e"
    then show ?thesis by (simp add: code)
  next
    fix v1 :: cxx_vector and st1 :: "'w alloc"
    let ?own1 = "?own(vec_data v1 \<mapsto> vec_capacity v1 * esz)"
    assume i: "IncrementSize L esz v st = Inr (v1, st1)" "vec_size v1 = Suc (vec_size v)" "vec_ok ?own1 esz v1" "ok st1 ?own1"
      "?own (vec_data v1) = None" "keeps ?own st st1" "vec_capacity v1 = (if vec_size v < vec_capacity v then vec_capacity v else 2 * vec_capacity v)"
      "\<forall>x < vec_size v * esz. mem st1 (vec_data v1 + x) = mem st (vec_data v + x)"
    have "max (vec_capacity v1) (2 * n) \<le> max (vec_capacity v) (2 * n)" using i(7) lt by auto
    then have "2 * max (vec_capacity v1) (2 * n) * esz \<le> 2 * max (vec_capacity v) (2 * n) * esz" by (intro mult_le_mono) auto
    with Suc.prems(3) have b: "2 * max (vec_capacity v1) (2 * n) * esz < 0x3FFFFFF0" by linarith
    have m: "d = n - vec_size v1" "max n (vec_size v1) = max n (vec_size v)" using Suc.hyps(2) i(2) lt by simp_all
    have own: "?own1(vec_data v1 := None) = ?own" using i(5) by (simp add: fun_upd_idem)
    have run: "vec_resize L esz n v st = vec_resize L esz n v1 st1" by (simp add: code i(1))
    have old: "take (vec_size v) (vec_items (mem st1) esz v1) = vec_items (mem st) esz v"
    proof -
      have "take (vec_size v) (vec_items (mem st1) esz v1) = vec_items (mem st1) esz (v1\<lparr>vec_size := vec_size v\<rparr>)"
        by (simp add: vec_items_def i(2) vec_nth_def)
      also have "\<dots> = vec_items (mem st) esz v" by (rule vec_items_cong) (use i(8) in simp_all)
      finally show ?thesis .
    qed
    have chain: "take (vec_size v) xs = vec_items (mem st) esz v" if "take (vec_size v1) xs = vec_items (mem st1) esz v1" for xs
    proof -
      have "take (vec_size v) xs = take (vec_size v) (take (vec_size v1) xs)" using i(2) by (simp add: min_def)
      then show ?thesis unfolding that old .
    qed
    from Suc.hyps(1)[OF m(1) i(4,3) b, unfolded own m(2)] show ?thesis
      unfolding run using chain keeps_trans[OF i(6)] by blast
  qed
qed

end

text \<open>
  \<open>resize\<close> returns: whatever the library's \<open>realloc\<close> does, the loop of \<open>resize\<close> to a size that
  fits \<open>size_t\<close> ends, either because a call inside it stops or with a vector of exactly the
  larger of the two sizes. It never shrinks a vector.
\<close>

theorem vec_resize_terminates:
  assumes "n < 0x100000000"
  shows "(\<exists>e. vec_resize_loop L esz n v st = Some (Inl e)) \<or>
    (\<exists>v' st'. vec_resize_loop L esz n v st = Some (Inr (v', st')) \<and> vec_size v' = max n (vec_size v))"
  by (rule vec_resize_loop_returns[OF assms])

theorem vec_resize_terminates_witness:
  "\<exists>v' st'. vec_resize_loop user_libc 1 5 \<lparr>vec_size = 2, vec_capacity = 8, vec_data = 0x40400004\<rparr> empty_user_heap = Some (Inr (v', st')) \<and>
     vec_size v' = 5"
proof -
  let ?v = "\<lambda>n. \<lparr>vec_size = n, vec_capacity = 8, vec_data = 0x40400004\<rparr>"
  have "IncrementSize user_libc 1 (?v n) st = Inr (?v (n + 1), st)" if "n < 8" for n and st :: user_heap
    using that by (simp add: IncrementSize_def wrap_def)
  then have "vec_resize_loop user_libc 1 5 (?v 2) empty_user_heap = Some (Inr (?v 5, empty_user_heap))"
    by (subst vec_resize_loop.simps; simp)+
  with vec_resize_terminates[of 5 user_libc 1 "?v 2" empty_user_heap] show ?thesis by auto
qed

end
