(* ===== verification/TaskChildren.thy ===== *)
theory TaskChildren
  imports CxxVector Scheduler
begin

text \<open>
  The children of a task, \<open>child_tasks_\<close> of \<^verbatim>\<open>kernel/include/ktask.h\<close>: a \<open>std::vector<Task *>\<close> on the
  kernel heap. \<open>AddChildTask\<close> and \<open>RemoveChildTask\<close> of \<^verbatim>\<open>kernel/task.cpp\<close> on the vector do what
  the scheduler's model of a task does with its list of children.
\<close>

interpretation kl: block_heap kernel_libc "blocks_ok 0x40000000 kheap_mapped" kh.out_of_memory
  unfolding kernel_libc_alloc by (rule kh.bh.block_heap_axioms)

text \<open>A pointer as an element of a vector: its four bytes.\<close>

definition ptr_bytes :: "nat \<Rightarrow> u8 list" where
  "ptr_bytes p = [of_nat p, of_nat (p div 0x100), of_nat (p div 0x10000), of_nat (p div 0x1000000)]"

definition AddChildTask :: "nat \<Rightarrow> cxx_vector \<Rightarrow> kernel_heap \<Rightarrow> (cxx_vector \<times> kernel_heap) result" where
  "AddChildTask task v st = vec_push_back kernel_libc 4 (ptr_bytes task) v st"

definition RemoveChildTask :: "nat \<Rightarrow> cxx_vector \<Rightarrow> kernel_heap \<Rightarrow> (cxx_vector \<times> kernel_heap) result" where
  "RemoveChildTask task v st =
     (let task_iter = vec_find (mem st) 4 v (ptr_bytes task) in
      assertE (task_iter \<noteq> vec_end 4 v) ''Child task does not exist.'' (vec_erase kernel_libc 4 task_iter v st))"

text \<open>The vector owns its block and holds the pointers \<open>cs\<close>.\<close>

definition children_at :: "(nat \<rightharpoonup> nat) \<Rightarrow> mem \<Rightarrow> cxx_vector \<Rightarrow> nat list \<Rightarrow> bool" where
  "children_at own m v cs \<longleftrightarrow> vec_ok own 4 v \<and> vec_items m 4 v = map ptr_bytes cs \<and> (\<forall>c \<in> set cs. c < 0x100000000)"

lemma length_ptr_bytes [simp]: "length (ptr_bytes p) = 4"
  by (simp add: ptr_bytes_def)

lemma ptr_bytes_inj:
  assumes "ptr_bytes p = ptr_bytes q" "p < 0x100000000" "q < 0x100000000"
  shows "p = q"
proof -
  have "unat (of_nat n :: u8) = n mod 256" for n by (simp add: unat_of_nat)
  then have "p mod 256 = q mod 256" "p div 0x100 mod 256 = q div 0x100 mod 256" "p div 0x10000 mod 256 = q div 0x10000 mod 256"
      "p div 0x1000000 mod 256 = q div 0x1000000 mod 256"
    using assms(1) unfolding ptr_bytes_def by (metis list.inject)+
  then have "p mod 4294967296 = q mod 4294967296" using bytes_of_nat[of p] bytes_of_nat[of q] by presburger
  then show ?thesis using assms(2,3) by simp
qed

lemma takeWhile_ptr_bytes:
  assumes "\<forall>c \<in> set cs. c < 0x100000000" "p < 0x100000000"
  shows "length (takeWhile (\<lambda>x. x \<noteq> ptr_bytes p) (map ptr_bytes cs)) = length (takeWhile (\<lambda>c. c \<noteq> p) cs)"
  using assms(1) by (induction cs) (auto dest: ptr_bytes_inj[OF _ _ assms(2)])

lemma remove1_split:
  "p \<in> set cs \<Longrightarrow> take (length (takeWhile (\<lambda>c. c \<noteq> p) cs)) cs @ drop (Suc (length (takeWhile (\<lambda>c. c \<noteq> p) cs))) cs = remove1 p cs"
  by (induction cs) auto

lemma takeWhile_all: "p \<notin> set cs \<Longrightarrow> takeWhile (\<lambda>c. c \<noteq> p) cs = cs"
  by (induction cs) auto

lemma takeWhile_less: "p \<in> set cs \<Longrightarrow> length (takeWhile (\<lambda>c. c \<noteq> p) cs) < length cs"
  by (induction cs) auto

lemma RemoveChildTask_missing:
  assumes "children_at own (mem st) v cs" "p \<notin> set cs" "p < 0x100000000"
  shows "RemoveChildTask p v st = Inl (AssertFailed ''Child task does not exist.'')"
proof -
  note d = assms(1)[unfolded children_at_def]
  have "vec_size v = length cs" using d by (metis length_map length_vec_items)
  moreover have "length (takeWhile (\<lambda>c. c \<noteq> p) cs) = length cs" by (rule arg_cong[OF takeWhile_all[OF assms(2)]])
  ultimately have "vec_find (mem st) 4 v (ptr_bytes p) = vec_end 4 v"
    using d takeWhile_ptr_bytes[OF _ assms(3)] by (simp add: vec_find_pos vec_begin_def vec_end_def)
  then show ?thesis by (simp add: RemoveChildTask_def)
qed

lemma RemoveChildTask_present:
  assumes "children_at own (mem st) v cs" "p \<in> set cs" "p < 0x100000000"
  shows "RemoveChildTask p v st = vec_erase kernel_libc 4 (vec_begin v + length (takeWhile (\<lambda>c. c \<noteq> p) cs) * 4) v st"
    "length (takeWhile (\<lambda>c. c \<noteq> p) cs) < vec_size v"
proof -
  note d = assms(1)[unfolded children_at_def]
  have sz: "vec_size v = length cs" using d by (metis length_map length_vec_items)
  then show lt: "length (takeWhile (\<lambda>c. c \<noteq> p) cs) < vec_size v" using takeWhile_less[OF assms(2)] by simp
  have "vec_find (mem st) 4 v (ptr_bytes p) = vec_begin v + length (takeWhile (\<lambda>c. c \<noteq> p) cs) * 4"
    using d takeWhile_ptr_bytes[OF _ assms(3)] by (simp add: vec_find_pos)
  then show "RemoveChildTask p v st = vec_erase kernel_libc 4 (vec_begin v + length (takeWhile (\<lambda>c. c \<noteq> p) cs) * 4) v st"
    using lt by (simp add: RemoveChildTask_def vec_end_def vec_begin_def)
qed

text \<open>
  C33. The vector of a task's children implements the list of the scheduler's model:
  \<open>AddChildTask\<close> appends and \<open>RemoveChildTask\<close> removes the first occurrence, unless the kernel heap is
  exhausted (removing needs memory too: \<open>memmove\<close> allocates); removing a task that is not a
  child fails the assertion. No other block of the kernel heap changes.
\<close>

theorem children_refine:
  assumes "blocks_ok 0x40000000 kheap_mapped st own" "children_at own (mem st) v cs" "p < 0x100000000" "vec_capacity v < 0x7FFFFFE"
  shows "((\<exists>msg. AddChildTask p v st = Inl (AssertFailed msg) \<and> msg \<in> {''No memory left for kernel!'', ''Memory is full!''}) \<or>
    (\<exists>v' st' own'. AddChildTask p v st = Inr (v', st') \<and> own' = own(vec_data v := None, vec_data v' \<mapsto> vec_capacity v' * 4) \<and>
       blocks_ok 0x40000000 kheap_mapped st' own' \<and> keeps (own(vec_data v := None)) st st' \<and> children_at own' (mem st') v' (cs @ [p]))) \<and>
    (if p \<in> set cs
     then (\<exists>msg. RemoveChildTask p v st = Inl (AssertFailed msg) \<and> msg \<in> {''No memory left for kernel!'', ''Memory is full!''}) \<or>
       (\<exists>v' st'. RemoveChildTask p v st = Inr (v', st') \<and> blocks_ok 0x40000000 kheap_mapped st' own \<and>
          keeps (own(vec_data v := None)) st st' \<and> children_at own (mem st') v' (remove1 p cs))
     else RemoveChildTask p v st = Inl (AssertFailed ''Child task does not exist.''))"
proof -
  note d = assms(2)[unfolded children_at_def]
  have cap: "2 * vec_capacity v * 4 < 0x3FFFFFF0" "vec_capacity v * 4 < 0x3FFFFFF0" using assms(4) by simp_all
  have add: "children_at own' m' v' (cs @ [p])" if "vec_ok own' 4 v'" "vec_items m' 4 v' = vec_items (mem st) 4 v @ [ptr_bytes p]" for own' m' v'
    using that d assms(3) by (simp add: children_at_def)
  have 1: "(\<exists>msg. AddChildTask p v st = Inl (AssertFailed msg) \<and> msg \<in> {''No memory left for kernel!'', ''Memory is full!''}) \<or>
    (\<exists>v' st' own'. AddChildTask p v st = Inr (v', st') \<and> own' = own(vec_data v := None, vec_data v' \<mapsto> vec_capacity v' * 4) \<and>
       blocks_ok 0x40000000 kheap_mapped st' own' \<and> keeps (own(vec_data v := None)) st st' \<and> children_at own' (mem st') v' (cs @ [p]))"
    using kl.vec_push_back_ok[OF assms(1) conjunct1[OF d] cap(1) length_ptr_bytes, of p] kernel_out_of_memory add
    unfolding AddChildTask_def by blast
  have 2: "(\<exists>msg. RemoveChildTask p v st = Inl (AssertFailed msg) \<and> msg \<in> {''No memory left for kernel!'', ''Memory is full!''}) \<or>
       (\<exists>v' st'. RemoveChildTask p v st = Inr (v', st') \<and> blocks_ok 0x40000000 kheap_mapped st' own \<and>
          keeps (own(vec_data v := None)) st st' \<and> children_at own (mem st') v' (remove1 p cs))" if p: "p \<in> set cs"
  proof -
    note r = RemoveChildTask_present[OF assms(2) p assms(3)]
    have rem: "children_at own m' v' (remove1 p cs)"
      if "vec_ok own 4 v'" "vec_items m' 4 v' = take (length (takeWhile (\<lambda>c. c \<noteq> p) cs)) (vec_items (mem st) 4 v) @
        drop (Suc (length (takeWhile (\<lambda>c. c \<noteq> p) cs))) (vec_items (mem st) 4 v)" for m' v'
      using that d remove1_split[OF p] by (auto simp: children_at_def take_map drop_map dest: notin_set_remove1 simp flip: map_append)
    from kl.vec_erase_ok[OF assms(1) conjunct1[OF d] r(2) cap(2)] kernel_out_of_memory rem
    show ?thesis unfolding r(1) by blast
  qed
  from 1 2 RemoveChildTask_missing[OF assms(2) _ assms(3)] show ?thesis by simp
qed

theorem children_refine_witness:
  "\<exists>st v own. ((\<exists>msg. AddChildTask 0x1234 v st = Inl (AssertFailed msg)) \<or>
      (\<exists>v' st'. AddChildTask 0x1234 v st = Inr (v', st') \<and> children_at own (mem st') v' [0x1234])) \<and>
     RemoveChildTask 0x1234 v st = Inl (AssertFailed ''Child task does not exist.'')"
proof (rule kernel_example)
  fix t and st st0 st1 :: kernel_heap
  let ?own = "Map.empty(0x2000004 \<mapsto> 100)"
  assume s: "InitializePaging 0x1FC00 boot0 = Inr t" "world st = t" "InitializeKernelHeap st = Inr st0"
    "client_run ksbrk st0 st1 ?own" "alloc_inv 0x40000000 kheap_mapped st0 [(0x400000, False)]"
  have "heap_end st0 = 0x40000000" using boot_InitializeKernelHeap[OF boot0_boot s(1,2)] s(3) by auto
  from kh.client_run_inv[OF s(4,5) _ this] have b: "blocks_ok 0x40000000 kheap_mapped st1 ?own"
    by (auto simp: blocks_ok_def)
  let ?v = "\<lparr>vec_size = 0, vec_capacity = 25, vec_data = 0x2000004\<rparr>"
  have "children_at ?own (mem st1) ?v []" by (simp add: children_at_def vec_ok_def vec_items_def)
  from children_refine[OF b this, of "0x1234"]
  have "(\<exists>msg. AddChildTask 0x1234 ?v st1 = Inl (AssertFailed msg)) \<or>
      (\<exists>v' st' own'. AddChildTask 0x1234 ?v st1 = Inr (v', st') \<and> children_at own' (mem st') v' [0x1234])"
    "RemoveChildTask 0x1234 ?v st1 = Inl (AssertFailed ''Child task does not exist.'')" by auto
  then show ?thesis by blast
qed

end
