(* ===== verification/BitVector.thy ===== *)
theory BitVector
  imports CxxVector
begin

text \<open>
  \<open>utils::BitVector\<close> of \<^verbatim>\<open>utils/include/BitVector.h\<close>: a growing vector of bits, kept in the word
  \<open>buffer_\<close> as long as it fits and in a heap block after that, when \<open>buffer_\<close> is the address of the
  block. The lemmas give the bits after each operation; the inline case of \<open>set\<close> can only set.
\<close>

unbundle bit_operations_syntax

section \<open>Definitions\<close>

record bitvector =
  bv_bits :: nat
  bv_capacity :: nat
  bv_buffer :: u32

definition onHeap :: "bitvector \<Rightarrow> bool" where
  "onHeap bv \<longleftrightarrow> 4 < bv_capacity bv"

definition BufferPtr :: "bitvector \<Rightarrow> nat" where
  "BufferPtr bv = unat (bv_buffer bv)"

definition BytesNeeded :: "nat \<Rightarrow> nat" where
  "BytesNeeded bits = (if bits mod 8 \<noteq> 0 then bits div 8 + 1 else bits div 8)"

definition getCapacity :: "nat \<Rightarrow> nat result" where
  "getCapacity bits =
     (let bytes = BytesNeeded bits in
      if bytes \<le> 4 then Inr 4
      else bindE (NextPowOf2 (of_nat bytes)) (\<lambda>p. Inr (wrap (unat p * 2))))"

definition BitVector_Init :: "'w libc \<Rightarrow> bitvector \<Rightarrow> 'w alloc \<Rightarrow> (bitvector \<times> 'w alloc) result" where
  "BitVector_Init L bv st =
     (if onHeap bv
      then bindE (libc_malloc L (bv_capacity bv) st) (\<lambda>(p, st). Inr (bv\<lparr>bv_buffer := of_nat p\<rparr>, st))
      else Inr (bv\<lparr>bv_buffer := 0\<rparr>, st))"

definition BitVector_construct :: "'w libc \<Rightarrow> nat \<Rightarrow> 'w alloc \<Rightarrow> (bitvector \<times> 'w alloc) result" where
  "BitVector_construct L bits st =
     bindE (getCapacity bits) (\<lambda>cap.
     BitVector_Init L \<lparr>bv_bits = bits, bv_capacity = cap, bv_buffer = 0\<rparr> st)"

definition BitVector_destroy :: "'w libc \<Rightarrow> bitvector \<Rightarrow> 'w alloc \<Rightarrow> 'w alloc result" where
  "BitVector_destroy L bv st = (if onHeap bv then libc_free L (BufferPtr bv) st else Inr st)"

definition bv_get :: "mem \<Rightarrow> bitvector \<Rightarrow> nat \<Rightarrow> bool result" where
  "bv_get m bv b =
     assertE (b < bv_bits bv) ''bit < bits_'' (
     if onHeap bv
     then Inr (m (BufferPtr bv + b div 8) AND push_bit (b mod 8) 1 \<noteq> 0)
     else Inr (bv_buffer bv AND push_bit b 1 \<noteq> 0))"

definition getBack :: "mem \<Rightarrow> bitvector \<Rightarrow> bool result" where
  "getBack m bv = bv_get m bv (wrap (bv_bits bv + 0xFFFFFFFF))"

definition bv_set :: "nat \<Rightarrow> bool \<Rightarrow> bitvector \<Rightarrow> 'w alloc \<Rightarrow> (bitvector \<times> 'w alloc) result" where
  "bv_set b val bv st =
     assertE (b < bv_bits bv) ''bit < bits_'' (
     if onHeap bv
     then Inr (bv, upd_mem (\<lambda>m. m(BufferPtr bv + b div 8 :=
            (m (BufferPtr bv + b div 8) AND NOT (push_bit (b mod 8) 1)) OR push_bit (b mod 8) (of_bool val))) st)
     else Inr (bv\<lparr>bv_buffer := (bv_buffer bv AND NOT (push_bit b (of_bool val))) OR push_bit b (of_bool val)\<rparr>, st))"

text \<open>The bytes of \<open>val\<close> in memory, lowest first.\<close>

definition u32_bytes :: "u32 \<Rightarrow> u8 list" where
  "u32_bytes val = map (\<lambda>k. ucast (drop_bit (8 * k) val)) [0 ..< 4]"

definition bv_IncrementSize :: "'w libc \<Rightarrow> bitvector \<Rightarrow> 'w alloc \<Rightarrow> (bitvector \<times> 'w alloc) result" where
  "bv_IncrementSize L bv st =
     (let bv = bv\<lparr>bv_bits := wrap (bv_bits bv + 1)\<rparr> in
      if bv_capacity bv < BytesNeeded (bv_bits bv)
      then let was_on_heap = onHeap bv;
               bv = bv\<lparr>bv_capacity := wrap (2 * bv_capacity bv)\<rparr> in
        assertE (BytesNeeded (bv_bits bv) \<le> bv_capacity bv) ''capacity_ >= BytesNeeded(bits_)'' (
        if was_on_heap
        then assertE (onHeap bv) ''Cannot have been on the heap but then come off the heap'' (
             bindE (libc_realloc L (BufferPtr bv) (bv_capacity bv) st) (\<lambda>(p, st). Inr (bv\<lparr>bv_buffer := of_nat p\<rparr>, st)))
        else if onHeap bv
        then bindE (libc_malloc L (bv_capacity bv) st) (\<lambda>(p, st).
             Inr (bv\<lparr>bv_buffer := of_nat p\<rparr>, upd_mem (put_obj p (u32_bytes (bv_buffer bv))) st))
        else Inr (bv, st))
      else Inr (bv, st))"

definition bv_push_back :: "'w libc \<Rightarrow> bool \<Rightarrow> bitvector \<Rightarrow> 'w alloc \<Rightarrow> (bitvector \<times> 'w alloc) result" where
  "bv_push_back L x bv st =
     bindE (bv_IncrementSize L bv st) (\<lambda>(bv, st). bv_set (wrap (bv_bits bv + 0xFFFFFFFF)) x bv st)"

definition bv_pop_back :: "bitvector \<Rightarrow> bitvector result" where
  "bv_pop_back bv = assertE (bv_bits bv \<noteq> 0) ''!empty()'' (Inr (bv\<lparr>bv_bits := bv_bits bv - 1\<rparr>))"

text \<open>\<open>getAs\<close> for a type of \<open>n\<close> bytes: the bytes of the result.\<close>

definition getAs :: "mem \<Rightarrow> nat \<Rightarrow> bitvector \<Rightarrow> u8 list result" where
  "getAs m n bv =
     assertE (bv_bits bv \<le> n * 8) ''Cannot fit this value onto this type'' (
     if onHeap bv
     then Inr (fold (\<lambda>b x. x[b div 8 := (x ! (b div 8) AND NOT (push_bit (b mod 8) 1)) OR
                 (m (BufferPtr bv + b div 8) AND push_bit (b mod 8) 1)]) [0 ..< bv_bits bv] (replicate n 0))
     else Inr (map (\<lambda>k. if k < 4 then ucast (drop_bit (8 * k) (bv_buffer bv)) else 0) [0 ..< n]))"

section \<open>The bits\<close>

definition bv_bit :: "mem \<Rightarrow> bitvector \<Rightarrow> nat \<Rightarrow> bool" where
  "bv_bit m bv i = (if onHeap bv then bit (m (BufferPtr bv + i div 8)) (i mod 8) else bit (bv_buffer bv) i)"

definition bv_list :: "mem \<Rightarrow> bitvector \<Rightarrow> bool list" where
  "bv_list m bv = map (bv_bit m bv) [0 ..< bv_bits bv]"

text \<open>The vector is inline with at most 32 bits, or owns a block that is large enough.\<close>

definition bv_ok :: "(nat \<rightharpoonup> nat) \<Rightarrow> bitvector \<Rightarrow> bool" where
  "bv_ok own bv \<longleftrightarrow> bv_bits bv \<le> 8 * bv_capacity bv \<and> 4 \<le> bv_capacity bv \<and>
     (onHeap bv \<longrightarrow> own (BufferPtr bv) = Some (bv_capacity bv))"

text \<open>The blocks of the others, and all blocks with that of the vector.\<close>

definition bv_others :: "(nat \<rightharpoonup> nat) \<Rightarrow> bitvector \<Rightarrow> nat \<rightharpoonup> nat" where
  "bv_others own bv = (if onHeap bv then own(BufferPtr bv := None) else own)"

definition bv_with :: "(nat \<rightharpoonup> nat) \<Rightarrow> bitvector \<Rightarrow> nat \<rightharpoonup> nat" where
  "bv_with own bv = (if onHeap bv then own(BufferPtr bv \<mapsto> bv_capacity bv) else own)"

lemma bv_with_others: "bv_ok own bv \<Longrightarrow> bv_with (bv_others own bv) bv = own"
  by (simp add: bv_with_def bv_others_def bv_ok_def fun_upd_idem)

lemma length_bv_list [simp]: "length (bv_list m bv) = bv_bits bv"
  by (simp add: bv_list_def)

lemma bv_get_bit: "b < bv_bits bv \<Longrightarrow> bv_get m bv b = Inr (bv_bit m bv b)"
  by (simp add: bv_get_def bv_bit_def and_exp_eq_0_iff_not_bit)

lemma bytes_needed_le: "BytesNeeded n \<le> c \<longleftrightarrow> n \<le> 8 * c"
proof -
  obtain q r where n: "n = 8 * q + r" "r < 8" "n div 8 = q" "n mod 8 = r"
    using mult_div_mod_eq[of 8 n] mod_less_divisor[of 8 n] by (metis zero_less_numeral)
  show ?thesis unfolding BytesNeeded_def n(3,4) using n(1,2) by auto
qed

text \<open>Setting a bit in a byte of the block, and in the inline word.\<close>

lemma bit_set_byte:
  "n < LENGTH('a) \<Longrightarrow> bit ((w AND NOT (push_bit n 1)) OR push_bit n (of_bool v)) k \<longleftrightarrow> (if k = n then v else bit w k)"
  for w :: "'a::len word"
  by (cases v) (auto simp: bit_or_iff bit_and_iff bit_not_iff bit_exp_iff dest: bit_imp_le_length)

lemma bit_set_inline:
  "n < LENGTH('a) \<Longrightarrow> bit ((w AND NOT (push_bit n (of_bool v))) OR push_bit n (of_bool v)) k \<longleftrightarrow> (k = n \<and> v) \<or> bit w k"
  for w :: "'a::len word"
  by (cases v) (auto simp: bit_or_iff bit_and_iff bit_not_iff bit_exp_iff dest: bit_imp_le_length)

lemma bit_u32_bytes: "k < 4 \<Longrightarrow> j < 8 \<Longrightarrow> bit (u32_bytes v ! k) j \<longleftrightarrow> bit v (8 * k + j)"
  by (simp add: u32_bytes_def bit_ucast_iff bit_drop_bit_eq)

section \<open>Growing\<close>

context block_heap
begin

lemma bv_IncrementSize_ok:
  assumes ok: "ok st own" and bv: "bv_ok own bv" and cap: "2 * bv_capacity bv < 0x3FFFFFF0"
  shows "(\<exists>e. bv_IncrementSize L bv st = Inl e \<and> oom e) \<or>
    (\<exists>bv' st'. bv_IncrementSize L bv st = Inr (bv', st') \<and> bv_bits bv' = Suc (bv_bits bv) \<and>
       bv_ok (bv_with (bv_others own bv) bv') bv' \<and> ok st' (bv_with (bv_others own bv) bv') \<and>
       (onHeap bv' \<longrightarrow> bv_others own bv (BufferPtr bv') = None) \<and> keeps (bv_others own bv) st st' \<and>
       (\<forall>i < bv_bits bv. bv_bit (mem st') bv' i = bv_bit (mem st) bv i) \<and>
       (\<not> onHeap bv' \<longrightarrow> bv_buffer bv' = bv_buffer bv))"
proof -
  let ?n = "bv_bits bv" and ?k = "bv_capacity bv"
  note d = bv[unfolded bv_ok_def]
  have w: "wrap (Suc ?n) = Suc ?n" "wrap (2 * ?k) = 2 * ?k" using d cap by (simp_all add: wrap_def)
  have grow: "?k < BytesNeeded (Suc ?n) \<longleftrightarrow> ?n = 8 * ?k" using bytes_needed_le[of "Suc ?n" ?k] d by auto
  have fits: "BytesNeeded (Suc ?n) \<le> 2 * ?k" using bytes_needed_le[of "Suc ?n" "2 * ?k"] d by auto
  show ?thesis
  proof (cases "?n = 8 * ?k")
    case False
    let ?bv = "bv\<lparr>bv_bits := Suc ?n\<rparr>"
    have run: "bv_IncrementSize L bv st = Inr (?bv, st)" using False grow by (simp add: bv_IncrementSize_def Let_def w)
    have same: "onHeap ?bv = onHeap bv" "BufferPtr ?bv = BufferPtr bv" by (simp_all add: onHeap_def BufferPtr_def)
    have o: "bv_with (bv_others own bv) ?bv = own" using bv_with_others[OF bv] by (auto simp: bv_with_def same split: if_splits)
    have "bv_ok own ?bv" using d False by (simp add: bv_ok_def same)
    moreover have "onHeap ?bv \<longrightarrow> bv_others own bv (BufferPtr ?bv) = None" by (simp add: bv_others_def same)
    ultimately show ?thesis using run ok o same
      by (intro disjI2 exI[of _ ?bv] exI[of _ st]) (simp add: bv_bit_def)
  next
    case full: True
    then have gr: "?k < BytesNeeded (Suc ?n)" using grow by simp
    show ?thesis
    proof (cases "onHeap bv")
      case True
      have h: "onHeap (bv\<lparr>bv_bits := Suc ?n, bv_capacity := 2 * ?k\<rparr>)" using True by (simp add: onHeap_def)
      have code: "bv_IncrementSize L bv st = bindE (libc_realloc L (BufferPtr bv) (2 * ?k) st)
          (\<lambda>(p, st). Inr (bv\<lparr>bv_bits := Suc ?n, bv_capacity := 2 * ?k, bv_buffer := of_nat p\<rparr>, st))"
        using gr fits True h by (simp add: bv_IncrementSize_def Let_def w onHeap_def BufferPtr_def)
      have own: "own (BufferPtr bv) = Some ?k" "0 < 2 * ?k" using d True by auto
      from realloc[OF ok own cap] show ?thesis
      proof (elim disjE exE conjE)
        fix e assume "libc_realloc L (BufferPtr bv) (2 * ?k) st = Inl e" "oom e"
        then show ?thesis by (simp add: code)
      next
        fix q st1
        let ?others = "own(BufferPtr bv := None)"
        assume r: "libc_realloc L (BufferPtr bv) (2 * ?k) st = Inr (q, st1)" "?others q = None"
          "ok st1 (?others(q \<mapsto> 2 * ?k))" "keeps ?others st st1" "\<forall>i < min ?k (2 * ?k). mem st1 (q + i) = mem st (BufferPtr bv + i)"
        let ?bv = "bv\<lparr>bv_bits := Suc ?n, bv_capacity := 2 * ?k, bv_buffer := of_nat q\<rparr>"
        have "q < 0x100000000" using range[OF r(3), of q "2 * ?k"] by simp
        then have p: "BufferPtr ?bv = q" "onHeap ?bv" using h by (simp_all add: BufferPtr_def unat_of_nat_u32 onHeap_def)
        have o: "bv_others own bv = ?others" "bv_with ?others ?bv = ?others(q \<mapsto> 2 * ?k)" using True p by (simp_all add: bv_others_def bv_with_def)
        have "bv_bit (mem st1) ?bv i = bv_bit (mem st) bv i" if "i < ?n" for i
          using r(5) that full True p by (simp add: bv_bit_def less_mult_imp_div_less mult.commute)
        moreover have "bv_ok (?others(q \<mapsto> 2 * ?k)) ?bv" using d p by (simp add: bv_ok_def)
        ultimately show ?thesis unfolding o(1) using r p o(2) code
          by (intro disjI2 exI[of _ ?bv] exI[of _ st1]) simp
      qed
    next
      case False
      have k: "?k = 4" using d False by (simp add: onHeap_def)
      have code: "bv_IncrementSize L bv st = bindE (libc_malloc L 8 st)
          (\<lambda>(p, st). Inr (bv\<lparr>bv_bits := Suc ?n, bv_capacity := 8, bv_buffer := of_nat p\<rparr>, upd_mem (put_obj p (u32_bytes (bv_buffer bv))) st))"
        using gr fits False k w(1) by (simp add: bv_IncrementSize_def Let_def onHeap_def wrap_def)
      have "0 < (8 :: nat)" "(8 :: nat) < 0x3FFFFFF0" by simp_all
      from malloc[OF ok this] show ?thesis
      proof (elim disjE exE conjE)
        fix e assume "libc_malloc L 8 st = Inl e" "oom e"
        then show ?thesis by (simp add: code)
      next
        fix q st1
        assume m: "libc_malloc L 8 st = Inr (q, st1)" "own q = None" "ok st1 (own(q \<mapsto> 8))" "keeps own st st1"
        let ?bv = "bv\<lparr>bv_bits := Suc ?n, bv_capacity := 8, bv_buffer := of_nat q\<rparr>"
        let ?f = "put_obj q (u32_bytes (bv_buffer bv))"
        have "q < 0x100000000" using range[OF m(3), of q 8] by simp
        then have p: "BufferPtr ?bv = q" "onHeap ?bv" by (simp_all add: BufferPtr_def unat_of_nat_u32 onHeap_def)
        have o: "bv_others own bv = own" "bv_with own ?bv = own(q \<mapsto> 8)" using False p by (simp_all add: bv_others_def bv_with_def)
        have len: "length (u32_bytes (bv_buffer bv)) = 4" by (simp add: u32_bytes_def)
        have out: "?f (mem st1) a = mem st1 a" if "a < q \<or> q + 8 \<le> a" for a by (rule put_obj_outside) (use that len in auto)
        have ok2: "ok (upd_mem ?f st1) (own(q \<mapsto> 8))" by (rule store[OF m(3), of q 8]) (use out in simp_all)
        have "keeps own st1 (upd_mem ?f st1)" using store_keeps[OF m(3), of q 8 ?f] out m(2) by (simp add: fun_upd_idem)
        note k2 = keeps_trans[OF m(4) this]
        have "bv_bit (mem (upd_mem ?f st1)) ?bv i = bv_bit (mem st) bv i" if "i < ?n" for i
        proof -
          have i: "i div 8 < 4" "i mod 8 < 8" using that full k by auto
          have "bit (u32_bytes (bv_buffer bv) ! (i div 8)) (i mod 8) = bit (bv_buffer bv) i"
            using bit_u32_bytes[OF i, of "bv_buffer bv"] by simp
          then show ?thesis using p False i(1) len by (simp add: bv_bit_def put_obj_def)
        qed
        moreover have "bv_ok (own(q \<mapsto> 8)) ?bv" using d p k by (simp add: bv_ok_def)
        ultimately show ?thesis unfolding o(1) using m p o(2) code ok2 k2
          by (intro disjI2 exI[of _ ?bv] exI[of _ "upd_mem ?f st1"]) simp
      qed
    qed
  qed
qed

text \<open>
  \<open>push_back\<close> appends the bit, except that a zero appended to an inline vector is whatever an earlier
  \<open>pop_back\<close> left at that place.
\<close>

lemma bv_push_back_ok:
  assumes ok: "ok st own" and bv: "bv_ok own bv" and cap: "2 * bv_capacity bv < 0x3FFFFFF0"
  shows "(\<exists>e. bv_push_back L x bv st = Inl e \<and> oom e) \<or>
    (\<exists>bv' st'. bv_push_back L x bv st = Inr (bv', st') \<and>
       bv_ok (bv_with (bv_others own bv) bv') bv' \<and> ok st' (bv_with (bv_others own bv) bv') \<and> keeps (bv_others own bv) st st' \<and>
       bv_list (mem st') bv' = bv_list (mem st) bv @ [x \<or> (\<not> onHeap bv' \<and> bit (bv_buffer bv) (bv_bits bv))])"
proof -
  let ?n = "bv_bits bv" and ?others = "bv_others own bv"
  from bv_IncrementSize_ok[OF assms] show ?thesis
  proof (elim disjE exE conjE)
    fix e assume "bv_IncrementSize L bv st = Inl e" "oom e"
    then show ?thesis by (simp add: bv_push_back_def)
  next
    fix bv1 st1
    assume i: "bv_IncrementSize L bv st = Inr (bv1, st1)" "bv_bits bv1 = Suc ?n" "bv_ok (bv_with ?others bv1) bv1"
      "ok st1 (bv_with ?others bv1)" "onHeap bv1 \<longrightarrow> ?others (BufferPtr bv1) = None" "keeps ?others st st1"
      "\<forall>i < ?n. bv_bit (mem st1) bv1 i = bv_bit (mem st) bv i" "\<not> onHeap bv1 \<longrightarrow> bv_buffer bv1 = bv_buffer bv"
    note d = i(3)[unfolded bv_ok_def]
    have small: "?n < 0xFFFFFFC0" using bv cap by (simp add: bv_ok_def)
    have w: "wrap (0x100000000 + ?n) = ?n" using small by (simp add: wrap_def)
    have step: "bv_push_back L x bv st = bv_set ?n x bv1 st1" using i(1,2) w by (simp add: bv_push_back_def)
    have split: "bv_list m bv2 = map (bv_bit m bv2) [0 ..< ?n] @ [bv_bit m bv2 ?n]" if "bv_bits bv2 = Suc ?n" for m bv2
      using that by (simp add: bv_list_def)
    show ?thesis
    proof (cases "onHeap bv1")
      case True
      let ?q = "BufferPtr bv1"
      let ?f = "\<lambda>m :: mem. m(?q + ?n div 8 := (m (?q + ?n div 8) AND NOT (push_bit (?n mod 8) 1)) OR push_bit (?n mod 8) (of_bool x))"
      have run: "bv_push_back L x bv st = Inr (bv1, upd_mem ?f st1)" using step True i(2) by (simp add: bv_set_def)
      have own: "bv_with ?others bv1 = ?others(?q \<mapsto> bv_capacity bv1)" using True by (simp add: bv_with_def)
      have in_range: "?n div 8 < bv_capacity bv1" using d i(2) by (simp add: less_mult_imp_div_less mult.commute)
      then have out: "?f (mem st1) a = mem st1 a" if "a < ?q \<or> ?q + bv_capacity bv1 \<le> a" for a using that by auto
      have ok2: "ok (upd_mem ?f st1) (bv_with ?others bv1)"
        by (rule store[OF i(4), of ?q "bv_capacity bv1"]) (simp add: own, rule out)
      have "keeps ?others st1 (upd_mem ?f st1)"
        using store_keeps[OF i(4), of ?q "bv_capacity bv1" ?f] out i(5) True by (simp add: own fun_upd_idem)
      note k2 = keeps_trans[OF i(6) this]
      have bits: "bv_bit (mem (upd_mem ?f st1)) bv1 j = (if j = ?n then x else bv_bit (mem st1) bv1 j)" for j
      proof (cases "j div 8 = ?n div 8")
        case eq: True
        have "j = ?n \<longleftrightarrow> j mod 8 = ?n mod 8" using eq by (metis div_mult_mod_eq)
        then show ?thesis using True eq bit_set_byte[of "?n mod 8" "mem st1 (?q + ?n div 8)" x "j mod 8"]
          by (simp add: bv_bit_def)
      next
        case False
        then show ?thesis using True by (auto simp: bv_bit_def)
      qed
      have "bv_list (mem (upd_mem ?f st1)) bv1 = bv_list (mem st) bv @ [x]"
        unfolding split[OF i(2)] bits using i(7) by (auto simp: bv_list_def)
      then show ?thesis using run i(3) ok2 k2 True by (intro disjI2 exI[of _ bv1] exI[of _ "upd_mem ?f st1"]) simp
    next
      case False
      let ?bv = "bv1\<lparr>bv_buffer := (bv_buffer bv1 AND NOT (push_bit ?n (of_bool x))) OR push_bit ?n (of_bool x)\<rparr>"
      have run: "bv_push_back L x bv st = Inr (?bv, st1)" using step False i(2) by (simp add: bv_set_def)
      have h: "\<not> onHeap ?bv" using False by (simp add: onHeap_def)
      have own: "bv_with ?others ?bv = bv_with ?others bv1" using False h by (simp add: bv_with_def)
      have "?n < 32" using d i(2) False by (simp add: onHeap_def)
      then have bits: "bv_bit (mem st1) ?bv j \<longleftrightarrow> (j = ?n \<and> x) \<or> bit (bv_buffer bv) j" for j
        using bit_set_inline[of ?n "bv_buffer bv" x j] i(8) False h by (simp add: bv_bit_def)
      have old: "bv_bit (mem st) bv j = bit (bv_buffer bv) j" if "j < ?n" for j
        using i(7,8) False that by (simp add: bv_bit_def)
      have "bv_list (mem st1) ?bv = bv_list (mem st) bv @ [x \<or> bit (bv_buffer bv) ?n]"
        using i(2) by (simp add: split bits bv_list_def old)
      moreover have "bv_ok (bv_with ?others bv1) ?bv" using d h by (simp add: bv_ok_def)
      ultimately show ?thesis using run i(4,6) h by (intro disjI2 exI[of _ ?bv] exI[of _ st1]) (simp add: own)
    qed
  qed
qed

end

section \<open>Bit vectors of a user program\<close>

text \<open>
  C34. \<open>push_back\<close> in a user program either stops because the heap is exhausted or appends a bit and
  keeps all others, also when the vector outgrows its word and moves to the heap, or its
  block moves. The bit is the one pushed, with one exception: pushing 0 onto a vector that is
  still inline gives 1 when an earlier \<open>pop_back\<close> left a 1 in that place, because \<open>set\<close> masks with
  the value and not with the bit. No other block of the program changes.
\<close>

theorem bv_push_back_correct:
  assumes "blocks_ok (unat utop) (uheap_ok utop) st own" "bv_ok own bv" "2 * bv_capacity bv < 0x3FFFFFF0"
  shows "(\<exists>msg. bv_push_back user_libc x bv st = Inl (AssertFailed msg) \<and>
      msg \<in> {''No memory left for kernel!'', ''Attempting to allocate beyond the end of the heap.''}) \<or>
    (\<exists>bv' st' own'. bv_push_back user_libc x bv st = Inr (bv', st') \<and> own' = bv_with (bv_others own bv) bv' \<and>
       bv_ok own' bv' \<and> blocks_ok (unat utop) (uheap_ok utop) st' own' \<and> keeps (bv_others own bv) st st' \<and>
       bv_list (mem st') bv' = bv_list (mem st) bv @ [x \<or> (\<not> onHeap bv' \<and> bit (bv_buffer bv) (bv_bits bv))])"
  using uh.bh.bv_push_back_ok[OF assms] user_out_of_memory[of utop] unfolding user_libc_alloc by blast

theorem bv_push_back_correct_witness:
  "\<exists>st :: user_heap. ((\<exists>msg. bv_push_back user_libc False \<lparr>bv_bits = 0, bv_capacity = 4, bv_buffer = 1\<rparr> st = Inl (AssertFailed msg)) \<or>
     (\<exists>bv' st'. bv_push_back user_libc False \<lparr>bv_bits = 0, bv_capacity = 4, bv_buffer = 1\<rparr> st = Inr (bv', st') \<and>
        bv_list (mem st') bv' = [\<not> onHeap bv']))"
proof (rule user_example)
  fix st0 st1 :: user_heap
  assume s: "alloc_inv (unat (0x40800000 :: u32)) (uheap_ok 0x40800000) st1 [(104, True), (920, False)]"
    "heap_end st1 = unat (0x40800000 :: u32)" "heap_start st1 = 0x40400000"
  have b: "blocks_ok (unat (0x40800000 :: u32)) (uheap_ok 0x40800000) st1 (Map.empty(0x40400004 \<mapsto> 100))"
    unfolding blocks_ok_def using s by (intro exI[of _ "[(104, True), (920, False)]"]) (simp add: owners_def)
  let ?bv = "\<lparr>bv_bits = 0, bv_capacity = 4, bv_buffer = 1\<rparr>"
  have v: "bv_ok (Map.empty(0x40400004 \<mapsto> 100)) ?bv" "2 * bv_capacity ?bv < 0x3FFFFFF0" by (simp_all add: bv_ok_def onHeap_def)
  have l: "bv_list (mem st1) ?bv = []" "bit (bv_buffer ?bv) (bv_bits ?bv)" by (simp_all add: bv_list_def)
  from bv_push_back_correct[OF b v, of False] show ?thesis
    unfolding l(1) append_Nil using l(2) by (intro exI[of _ st1]) auto
qed

end
