(* ===== verification/VfsDump.thy ===== *)
theory VfsDump
  imports BitVector Vfs
begin

text \<open>
  \<open>Node::Dump\<close> of \<^verbatim>\<open>utils/vfs.cpp\<close>: the listing of a file system tree. \<open>last\<close> holds, for each level
  above a node, whether the ancestor is the last of its siblings; what \<open>printf\<close> prints is
  collected.
\<close>

section \<open>Definitions\<close>

definition lead_last :: str where "lead_last = [0x20, 0x20, 0x20]"
definition lead_more :: str where "lead_more = [0x7C, 0x20, 0x20]"
definition conn_last :: str where "conn_last = [0x60, 0x2D, 0x2D]"
definition conn_more :: str where "conn_more = [0x7C, 0x2D, 0x2D]"

definition Dump_prefix :: "mem \<Rightarrow> bitvector \<Rightarrow> str \<Rightarrow> str result" where
  "Dump_prefix m last_bits out =
     (if bv_bits last_bits = 0 then Inr out
      else
        bindE (foldE (\<lambda>i out. bindE (bv_get m last_bits i) (\<lambda>b. Inr (out @ (if b then lead_last else lead_more))))
                 [0 ..< bv_bits last_bits - 1] out) (\<lambda>out.
        bindE (getBack m last_bits) (\<lambda>b. Inr (out @ (if b then conn_last else conn_more)))))"

text \<open>The two loops over the children: 0 is pushed for all but the last.\<close>

fun DumpImpl :: "'w libc \<Rightarrow> node \<Rightarrow> bitvector \<Rightarrow> 'w alloc \<Rightarrow> str \<Rightarrow> (bitvector \<times> 'w alloc \<times> str) result"
  and DumpNodes :: "'w libc \<Rightarrow> node list \<Rightarrow> bitvector \<Rightarrow> 'w alloc \<Rightarrow> str \<Rightarrow> (bitvector \<times> 'w alloc \<times> str) result" where
  "DumpImpl L (File name contents parent) last_bits st out =
     bindE (Dump_prefix (mem st) last_bits out) (\<lambda>out. Inr (last_bits, st, out @ name @ [0x0A]))"
| "DumpImpl L (Directory name nodes) last_bits st out =
     bindE (Dump_prefix (mem st) last_bits out) (\<lambda>out. DumpNodes L nodes last_bits st (out @ name @ [0x0A]))"
| "DumpNodes L [] last_bits st out = Inr (last_bits, st, out)"
| "DumpNodes L (n # ns) last_bits st out =
     bindE (bv_push_back L (ns = []) last_bits st) (\<lambda>(last_bits, st).
     bindE (DumpImpl L n last_bits st out) (\<lambda>(last_bits, st, out).
     bindE (bv_pop_back last_bits) (\<lambda>last_bits. DumpNodes L ns last_bits st out)))"

definition Dump :: "'w libc \<Rightarrow> node \<Rightarrow> 'w alloc \<Rightarrow> (str \<times> 'w alloc) result" where
  "Dump L n st =
     bindE (BitVector_construct L 0 st) (\<lambda>(last_bits, st).
     bindE (DumpImpl L n last_bits st []) (\<lambda>(last_bits, st, out).
     bindE (BitVector_destroy L last_bits st) (\<lambda>st. Inr (out, st))))"

section \<open>What a listing shows\<close>

text \<open>The lines of a tree, each with its level, parents before their children.\<close>

fun node_lines :: "nat \<Rightarrow> node \<Rightarrow> (nat \<times> str) list" and nodes_lines :: "nat \<Rightarrow> node list \<Rightarrow> (nat \<times> str) list" where
  "node_lines d (File name contents parent) = [(d, name)]"
| "node_lines d (Directory name nodes) = (d, name) # nodes_lines (Suc d) nodes"
| "nodes_lines d [] = []"
| "nodes_lines d (n # ns) = node_lines d n @ nodes_lines d ns"

fun node_height :: "node \<Rightarrow> nat" and nodes_height :: "node list \<Rightarrow> nat" where
  "node_height (File name contents parent) = 0"
| "node_height (Directory name nodes) = nodes_height nodes"
| "nodes_height [] = 0"
| "nodes_height (n # ns) = max (Suc (node_height n)) (nodes_height ns)"

inductive printed :: "(nat \<times> str) list \<Rightarrow> str \<Rightarrow> bool" where
  none: "printed [] []"
| line: "length indent = 3 * d \<Longrightarrow> printed ls text \<Longrightarrow> printed ((d, name) # ls) (indent @ name @ [0x0A] @ text)"

lemma printed_append: "printed ls text \<Longrightarrow> printed ls' text' \<Longrightarrow> printed (ls @ ls') (text @ text')"
  by (induction rule: printed.induct) (auto intro: printed.line[simplified])

abbreviation inline_bits :: "nat \<Rightarrow> u32 \<Rightarrow> bitvector" where
  "inline_bits d w \<equiv> \<lparr>bv_bits = d, bv_capacity = 4, bv_buffer = w\<rparr>"

lemma inline_get: "i < d \<Longrightarrow> bv_get m (inline_bits d w) i = Inr (bit w i)"
  by (simp add: bv_get_bit bv_bit_def onHeap_def)

lemma prefix_leads:
  "n \<le> d \<Longrightarrow> foldE (\<lambda>i out. bindE (bv_get m (inline_bits d w) i) (\<lambda>b. Inr (out @ (if b then lead_last else lead_more)))) [0 ..< n] out =
   Inr (out @ concat (map (\<lambda>i. if bit w i then lead_last else lead_more) [0 ..< n]))"
  by (induction n) (simp_all add: foldE_append inline_get)

lemma length_leads: "length (concat (map (\<lambda>i. if bit w i then lead_last else lead_more) [0 ..< n])) = 3 * n" for w :: u32
  by (induction n) (simp_all add: lead_last_def lead_more_def)

lemma Dump_prefix_inline:
  assumes "d \<le> 32"
  shows "\<exists>indent. Dump_prefix m (inline_bits d w) out = Inr (out @ indent) \<and> length indent = 3 * d"
proof (cases d)
  case 0
  then show ?thesis by (simp add: Dump_prefix_def)
next
  case (Suc n)
  have "getBack m (inline_bits d w) = Inr (bit w n)" using Suc assms inline_get[of n d m w] by (simp add: getBack_def wrap_def)
  then show ?thesis using Suc prefix_leads[of n d m w out] length_leads[of w n]
    by (simp add: Dump_prefix_def conn_last_def conn_more_def)
qed

lemma push_inline:
  assumes "d < 32"
  shows "\<exists>w'. bv_push_back L x (inline_bits d w) st = Inr (inline_bits (Suc d) w', st)"
proof -
  have "\<not> 4 < BytesNeeded (Suc d)" using bytes_needed_le[of "Suc d" 4] assms by simp
  then show ?thesis using assms
    by (simp add: bv_push_back_def bv_IncrementSize_def Let_def wrap_def bv_set_def onHeap_def)
qed

lemma DumpImpl_inline:
  "d + node_height n \<le> 32 \<Longrightarrow>
   \<exists>w' text. DumpImpl L n (inline_bits d w) st out = Inr (inline_bits d w', st, out @ text) \<and> printed (node_lines d n) text"
  "d + nodes_height ns \<le> 32 \<Longrightarrow>
   \<exists>w' text. DumpNodes L ns (inline_bits d w) st out = Inr (inline_bits d w', st, out @ text) \<and> printed (nodes_lines (Suc d) ns) text"
proof (induction n and ns arbitrary: d w out and d w out rule: node_height_nodes_height.induct)
  case (1 name contents parent)
  obtain indent where "Dump_prefix (mem st) (inline_bits d w) out = Inr (out @ indent)" "length indent = 3 * d"
    using Dump_prefix_inline[of d "mem st" w out] 1 by auto
  then show ?case using printed.line[OF _ printed.none, of indent d name] by simp
next
  case (2 name nodes)
  obtain indent where i: "Dump_prefix (mem st) (inline_bits d w) out = Inr (out @ indent)" "length indent = 3 * d"
    using Dump_prefix_inline[of d "mem st" w out] 2(2) by auto
  obtain w' t where "DumpNodes L nodes (inline_bits d w) st (out @ indent @ name @ [0x0A]) =
      Inr (inline_bits d w', st, (out @ indent @ name @ [0x0A]) @ t)" "printed (nodes_lines (Suc d) nodes) t"
    using "2.IH"[of d w "out @ indent @ name @ [0x0A]"] "2.prems" by auto
  then show ?case using i printed.line[OF i(2), of "nodes_lines (Suc d) nodes" t name] by simp
next
  case 3
  then show ?case by (simp add: printed.none)
next
  case (4 n ns)
  have h: "d < 32" "Suc d + node_height n \<le> 32" "d + nodes_height ns \<le> 32" using "4.prems" by simp_all
  obtain w1 where p: "bv_push_back L (ns = []) (inline_bits d w) st = Inr (inline_bits (Suc d) w1, st)"
    using push_inline[OF h(1)] by blast
  obtain w2 t1 where n: "DumpImpl L n (inline_bits (Suc d) w1) st out = Inr (inline_bits (Suc d) w2, st, out @ t1)"
      "printed (node_lines (Suc d) n) t1" using "4.IH"(1)[OF h(2)] by blast
  obtain w3 t2 where ns: "DumpNodes L ns (inline_bits d w2) st (out @ t1) = Inr (inline_bits d w3, st, (out @ t1) @ t2)"
      "printed (nodes_lines (Suc d) ns) t2" using "4.IH"(2)[OF h(3)] by blast
  have "bv_pop_back (inline_bits (Suc d) w2) = Inr (inline_bits d w2)" by (simp add: bv_pop_back_def)
  then show ?case using p n(1) ns(1) printed_append[OF n(2) ns(2)] by simp
qed

text \<open>
  The listing of a tree of at most 32 levels returns without touching the heap and shows
  every node once, a directory before its entries and in their order, each on a line of its
  own that starts with three characters for every level.
\<close>

theorem Dump_lists_tree:
  assumes "node_height n \<le> 32"
  shows "\<exists>text. Dump L n st = Inr (text, st) \<and> printed (node_lines 0 n) text"
proof -
  have c: "BitVector_construct L 0 st = Inr (inline_bits 0 0, st)"
    by (simp add: BitVector_construct_def getCapacity_def BytesNeeded_def BitVector_Init_def onHeap_def)
  obtain w listing where "DumpImpl L n (inline_bits 0 0) st [] = Inr (inline_bits 0 w, st, listing)" "printed (node_lines 0 n) listing"
    using DumpImpl_inline(1)[of 0 n L 0 st "[]"] assms by auto
  then show ?thesis by (simp add: Dump_def c BitVector_destroy_def onHeap_def)
qed

theorem Dump_lists_tree_witness:
  "\<exists>text. Dump user_libc (Directory [0x2F] [File [0x61] [1, 2] []]) empty_user_heap = Inr (text, empty_user_heap) \<and>
     printed [(0, [0x2F]), (1, [0x61])] text"
  using Dump_lists_tree[of "Directory [0x2F] [File [0x61] [1, 2] []]" user_libc empty_user_heap] by simp

text \<open>
  The connectors are not always right: after the only entry x of a, the first entry y of b is drawn
  as if it were the last, because pushing 0 keeps the 1 left there.
\<close>

lemma Dump_stale_connector:
  "Dump user_libc (Directory [0x2F] [Directory [0x61] [File [0x78] [] []], Directory [0x62] [File [0x79] [] [], File [0x7A] [] []]])
     empty_user_heap =
   Inr ([0x2F, 0x0A] @
        conn_more @ [0x61, 0x0A] @ lead_more @ conn_last @ [0x78, 0x0A] @
        conn_last @ [0x62, 0x0A] @ lead_last @ conn_last @ [0x79, 0x0A] @ lead_last @ conn_last @ [0x7A, 0x0A], empty_user_heap)"
  by (simp add: Dump_def BitVector_construct_def getCapacity_def BytesNeeded_def BitVector_Init_def BitVector_destroy_def onHeap_def
      Dump_prefix_def bv_push_back_def bv_IncrementSize_def Let_def wrap_def bv_set_def bv_get_def getBack_def bv_pop_back_def)

end
