(* ===== verification/Dirent.thy ===== *)
theory Dirent
  imports UserHeap VfsCorrect
begin

text \<open>
  Directory streams, \<^verbatim>\<open>libc/opendir.cpp\<close>, the working directory, \<^verbatim>\<open>libc/getcwd.cpp\<close>, and the program
  \<^verbatim>\<open>userboot/shell/ls.cpp\<close>. A \<open>DIR\<close> is a block of the user heap: the entry last read, the number of
  entries read, and the address of a copy of the path. \<open>root\<close> is the tree of \<open>GetRootDir\<close>.
\<close>

section \<open>Definitions\<close>

text \<open>The layout of \<open>DIR\<close> and of the \<open>dirent\<close> it starts with.\<close>

definition d_name :: nat where "d_name = 11"
definition DNAME_SIZE :: nat where "DNAME_SIZE = 256"
definition entry_num :: nat where "entry_num = 268"
definition dirname_field :: nat where "dirname_field = 272"
definition sizeof_DIR :: nat where "sizeof_DIR = 276"

text \<open>\<open>strncpy\<close> from the characters of a \<open>std::string\<close>: the name, padded with zeros.\<close>

definition put_name :: "nat \<Rightarrow> str \<Rightarrow> nat \<Rightarrow> mem \<Rightarrow> mem" where
  "put_name dst name num m =
     (\<lambda>a. if dst \<le> a \<and> a < dst + num then (if a - dst < length name then name ! (a - dst) else 0) else m a)"

definition opendir :: "'w libc \<Rightarrow> node \<Rightarrow> nat \<Rightarrow> 'w alloc \<Rightarrow> (nat \<times> 'w alloc) result" where
  "opendir L root dirname st =
     bindE (string_at (mem st) dirname) (\<lambda>path.
     bindE (getDir root [] path) (\<lambda>dir.
     case dir of
       None \<Rightarrow> Inr (0, st)
     | Some _ \<Rightarrow>
       bindE (libc_malloc L sizeof_DIR st) (\<lambda>(dirp, st).
       let st = upd_mem (wr32 (dirp + entry_num) 0) st in
       bindE (strlen (mem st) dirname) (\<lambda>dirname_len.
       bindE (libc_malloc L (wrap (dirname_len + 1)) st) (\<lambda>(p, st).
       let st = upd_mem (wr32 (dirp + dirname_field) p) st;
           st = upd_mem (memcpy p dirname dirname_len) st;
           st = upd_mem (\<lambda>m. m(p + dirname_len := 0)) st in
       Inr (dirp, st))))))"

definition readdir :: "node \<Rightarrow> nat \<Rightarrow> 'w alloc \<Rightarrow> (nat \<times> 'w alloc) result" where
  "readdir root dirp st =
     bindE (string_at (mem st) (rd32 (mem st) (dirp + dirname_field))) (\<lambda>path.
     bindE (getDir root [] path) (\<lambda>dir.
     case dir of
       None \<Rightarrow> Inl (Undefined ''null directory'')
     | Some c \<Rightarrow>
       bindE (deref root c) (\<lambda>d.
       let n = rd32 (mem st) (dirp + entry_num) in
       if length (getNodes d) \<le> n then Inr (0, st)
       else
         let name = getName (getNodes d ! n);
             st = upd_mem (wr32 (dirp + entry_num) (wrap (n + 1))) st;
             st = upd_mem (put_name (dirp + d_name) name DNAME_SIZE) st;
             st = upd_mem (\<lambda>m. m(dirp + d_name + (if DNAME_SIZE \<le> length name then DNAME_SIZE - 1 else length name) := 0)) st in
         Inr (dirp, st))))"

definition closedir :: "'w libc \<Rightarrow> nat \<Rightarrow> 'w alloc \<Rightarrow> 'w alloc result" where
  "closedir L dirp st =
     (if dirp \<noteq> 0
      then bindE (libc_free L (rd32 (mem st) (dirp + dirname_field)) st) (\<lambda>st. libc_free L dirp st)
      else Inr st)"

definition getcwd :: "str \<Rightarrow> nat \<Rightarrow> nat \<Rightarrow> mem \<Rightarrow> nat \<times> mem" where
  "getcwd cwd_name buf num m = (buf + num, put_name buf cwd_name num m)"

text \<open>The loop of \<open>ls\<close>, with what it prints.\<close>

partial_function (option) ls_loop :: "node \<Rightarrow> nat \<Rightarrow> 'w alloc \<Rightarrow> str \<Rightarrow> ('w alloc \<times> str) result option" where
  "ls_loop root mydir st out =
     (case readdir root mydir st of
        Inl e \<Rightarrow> Some (Inl e)
      | Inr (myfile, st) \<Rightarrow>
        if myfile = 0 then Some (Inr (st, out))
        else (case string_at (mem st) (myfile + d_name) of
                Inl e \<Rightarrow> Some (Inl e)
              | Inr s \<Rightarrow> ls_loop root mydir st (out @ s @ [0x0A])))"

definition literal_bytes :: "string \<Rightarrow> str" where
  "literal_bytes s = map of_char s"

text \<open>\<open>cwd_name\<close>: the name of the working directory, \<open>cwd\<close>: the address of the local array.\<close>

definition ls_main :: "'w libc \<Rightarrow> node \<Rightarrow> str \<Rightarrow> nat \<Rightarrow> nat \<Rightarrow> nat \<Rightarrow> 'w alloc \<Rightarrow> (nat \<times> str \<times> 'w alloc) result" where
  "ls_main L root cwd_name cwd argc argv1 st =
     (let (r, m) = (if argc < 2 then getcwd cwd_name cwd 256 (memset cwd 0 256 (mem st)) else (1, memset cwd 0 256 (mem st)));
          st = upd_mem (\<lambda>_. m) st;
          dirname = (if argc < 2 then cwd else argv1) in
      if argc < 2 \<and> r = 0 then Inr (1, literal_bytes ''getcwd() failed'' @ [0x0A], st)
      else
        bindE (opendir L root dirname st) (\<lambda>(mydir, st).
        if mydir = 0
        then bindE (string_at (mem st) dirname) (\<lambda>s. Inr (1, literal_bytes ''No directory named '' @ [0x27] @ s @ [0x27, 0x0A], st))
        else
          bindE (case ls_loop root mydir st [] of None \<Rightarrow> Inl Diverges | Some r \<Rightarrow> r) (\<lambda>(st, out).
          bindE (closedir L mydir st) (\<lambda>st. Inr (0, out, st)))))"

section \<open>An open directory\<close>

lemmas dir_layout = d_name_def DNAME_SIZE_def entry_num_def dirname_field_def sizeof_DIR_def

text \<open>The stream at \<open>dirp\<close> owns its two blocks, is for \<open>path\<close> and has read \<open>k\<close> entries.\<close>

definition dir_open :: "(nat \<rightharpoonup> nat) \<Rightarrow> mem \<Rightarrow> nat \<Rightarrow> nat \<Rightarrow> str \<Rightarrow> nat \<Rightarrow> bool" where
  "dir_open own m dirp p path k \<longleftrightarrow> own dirp = Some sizeof_DIR \<and> own p = Some (length path + 1) \<and> p \<noteq> dirp \<and>
     rd32 m (dirp + dirname_field) = p \<and> rd32 m (dirp + entry_num) = k \<and> cstr m p path"

text \<open>What \<open>readdir\<close> shows of a name: at most 255 characters.\<close>

definition shown :: "str \<Rightarrow> str" where
  "shown name = take 255 name"

lemma shown_cstr:
  assumes "0 \<notin> set name"
  shows "cstr ((put_name d name 256 m)(d + (if 256 \<le> length name then 255 else length name) := 0)) d (shown name)"
  using assms by (auto simp: cstr_def shown_def put_name_def in_set_conv_nth min_def)

context block_heap
begin

lemma readdir_end:
  assumes "dir_open own (mem st) dirp p path k" "getDir root [] path = Inr (Some c)" "node_at root c = Some d"
    "length (getNodes d) \<le> k"
  shows "readdir root dirp st = Inr (0, st)"
proof -
  note d = assms(1)[unfolded dir_open_def]
  have "string_at (mem st) (rd32 (mem st) (dirp + dirname_field)) = Inr path" using d by (auto intro: string_at_cstr)
  then show ?thesis using d assms(2-4) by (simp add: readdir_def deref_def Let_def)
qed

lemma readdir_next:
  assumes ok: "ok st own" and o: "dir_open own (mem st) dirp p path k" and c: "getDir root [] path = Inr (Some c)" "node_at root c = Some d"
    and k: "k < length (getNodes d)" "length (getNodes d) < 0x100000000" and nz: "0 \<notin> set (getName (getNodes d ! k))"
  shows "\<exists>st'. readdir root dirp st = Inr (dirp, st') \<and> ok st' own \<and> dir_open own (mem st') dirp p path (Suc k) \<and>
    cstr (mem st') (dirp + d_name) (shown (getName (getNodes d ! k))) \<and> keeps (own(dirp := None)) st st'"
proof -
  let ?name = "getName (getNodes d ! k)"
  let ?f = "\<lambda>m. (put_name (dirp + 11) ?name 256 (wr32 (dirp + 268) (Suc k) m))(dirp + 11 + (if 256 \<le> length ?name then 255 else length ?name) := 0)"
  let ?st = "upd_mem ?f st"
  note d = o[unfolded dir_open_def]
  have w: "wrap (k + 1) = Suc k" using k by (simp add: wrap_def)
  have "string_at (mem st) (rd32 (mem st) (dirp + dirname_field)) = Inr path" using d by (auto intro: string_at_cstr)
  then have run: "readdir root dirp st = Inr (dirp, ?st)"
    unfolding readdir_def using d c k(1) w by (simp add: deref_def Let_def dir_layout upd_mem_def)
  have out: "?f m a = m a" if "a < dirp \<or> dirp + sizeof_DIR \<le> a" for m a
    using that by (auto simp: put_name_def wr32_outside sizeof_DIR_def)
  have dn: "own dirp = Some sizeof_DIR" using d by simp
  have ok2: "ok ?st own" by (rule store[OF ok dn]) (rule out)
  have keep: "keeps (own(dirp := None)) st ?st" by (rule store_keeps[OF ok dn]) (rule out)
  have n: "rd32 (mem ?st) (dirp + entry_num) = Suc k"
  proof -
    have "rd32 (mem ?st) (dirp + 268) = rd32 (wr32 (dirp + 268) (Suc k) (mem st)) (dirp + 268)"
      by (rule rd32_cong) (auto simp: put_name_def)
    then show ?thesis using k by (simp add: rd32_wr32_same entry_num_def)
  qed
  have p: "rd32 (mem ?st) (dirp + dirname_field) = p"
  proof -
    have "rd32 (mem ?st) (dirp + 272) = rd32 (mem st) (dirp + 272)"
      by (rule rd32_cong) (auto simp: put_name_def wr32_outside)
    then show ?thesis using d by (simp add: dirname_field_def)
  qed
  have s: "cstr (mem ?st) p path"
    using d keepsD[OF keep, of p "length path + 1"] cstr_cong[of path "mem ?st" p "mem st"] by simp
  have "dir_open own (mem ?st) dirp p path (Suc k)" unfolding dir_open_def using d n p s by blast
  moreover have "cstr (mem ?st) (dirp + d_name) (shown ?name)"
    using shown_cstr[OF nz, of "dirp + 11" "wr32 (dirp + 268) (Suc k) (mem st)"] by (simp add: d_name_def fun_upd_def)
  ultimately show ?thesis using run ok2 keep by blast
qed

lemma ls_loop_lists:
  assumes "ok st own" "dir_open own (mem st) dirp p path k" "getDir root [] path = Inr (Some c)" "node_at root c = Some d"
    "length (getNodes d) < 0x100000000" "\<forall>n \<in> set (getNodes d). 0 \<notin> set (getName n)" "dirp \<noteq> 0"
  shows "\<exists>st'. ls_loop root dirp st out =
      Some (Inr (st', out @ concat (map (\<lambda>n. shown (getName n) @ [0x0A]) (drop k (getNodes d))))) \<and>
    ok st' own \<and> dir_open own (mem st') dirp p path (max k (length (getNodes d))) \<and> keeps (own(dirp := None)) st st'"
  using assms
proof (induction "length (getNodes d) - k" arbitrary: k st out)
  case 0
  then have le: "length (getNodes d) \<le> k" by simp
  show ?case using readdir_end[OF 0(3-5) le] 0(2,3) le
    by (intro exI[of _ st]) (simp add: ls_loop.simps[of root dirp st out] max_def)
next
  case (Suc j)
  then have k: "k < length (getNodes d)" by simp
  have nz: "0 \<notin> set (getName (getNodes d ! k))" using Suc.prems(6) k by simp
  obtain st1 where r: "readdir root dirp st = Inr (dirp, st1)" "ok st1 own" "dir_open own (mem st1) dirp p path (Suc k)"
      "cstr (mem st1) (dirp + d_name) (shown (getName (getNodes d ! k)))" "keeps (own(dirp := None)) st st1"
    using readdir_next[OF Suc.prems(1-4) k Suc.prems(5) nz] by blast
  let ?line = "shown (getName (getNodes d ! k)) @ [0x0A]"
  have step: "ls_loop root dirp st out = ls_loop root dirp st1 (out @ ?line)"
    using r(1,4) Suc.prems(7) by (simp add: ls_loop.simps[of root dirp st out] string_at_cstr)
  have j: "j = length (getNodes d) - Suc k" using Suc.hyps(2) by simp
  obtain st' where "ls_loop root dirp st1 (out @ ?line) =
      Some (Inr (st', (out @ ?line) @ concat (map (\<lambda>n. shown (getName n) @ [0x0A]) (drop (Suc k) (getNodes d)))))"
      "ok st' own" "dir_open own (mem st') dirp p path (max (Suc k) (length (getNodes d)))" "keeps (own(dirp := None)) st1 st'"
    using Suc.hyps(1)[OF j r(2,3) Suc.prems(3-7)] by blast
  moreover have "drop k (getNodes d) = getNodes d ! k # drop (Suc k) (getNodes d)" using k by (simp add: Cons_nth_drop_Suc)
  moreover have "max (Suc k) (length (getNodes d)) = max k (length (getNodes d))" using k by simp
  ultimately show ?case using step keeps_trans[OF r(5)] by auto
qed

lemma opendir_ok:
  assumes ok: "ok st own" and path: "cstr (mem st) dirname path" "own q = Some m" "q \<le> dirname" "dirname + length path < q + m"
    and len: "length path < 0x3FFFFFE0" and dir: "getDir root [] path = Inr (Some c)"
  shows "(\<exists>e. opendir L root dirname st = Inl e \<and> oom e) \<or>
    (\<exists>dirp p st'. opendir L root dirname st = Inr (dirp, st') \<and> dirp \<noteq> 0 \<and> own dirp = None \<and> own p = None \<and>
       ok st' (own(dirp \<mapsto> sizeof_DIR, p \<mapsto> length path + 1)) \<and>
       dir_open (own(dirp \<mapsto> sizeof_DIR, p \<mapsto> length path + 1)) (mem st') dirp p path 0 \<and> keeps own st st')"
proof -
  let ?n = "length path"
  have start: "string_at (mem st) dirname = Inr path" by (rule string_at_cstr[OF path(1)])
  have "0 < sizeof_DIR" "sizeof_DIR < 0x3FFFFFF0" by (simp_all add: sizeof_DIR_def)
  from malloc[OF ok this] show ?thesis
  proof (elim disjE exE conjE)
    fix e assume "libc_malloc L sizeof_DIR st = Inl e" "oom e"
    then show ?thesis using start dir by (simp add: opendir_def)
  next
    fix dirp st1
    assume m1: "libc_malloc L sizeof_DIR st = Inr (dirp, st1)" "0 < dirp" "own dirp = None" "ok st1 (own(dirp \<mapsto> sizeof_DIR))" "keeps own st st1"
    let ?own1 = "own(dirp \<mapsto> sizeof_DIR)"
    define st2 where "st2 = upd_mem (wr32 (dirp + entry_num) 0) st1"
    have out1: "wr32 (dirp + entry_num) 0 (mem st1) a = mem st1 a" if "a < dirp \<or> dirp + sizeof_DIR \<le> a" for a
      using that by (auto simp: wr32_outside entry_num_def sizeof_DIR_def)
    have ok2: "ok st2 ?own1" unfolding st2_def by (rule store[OF m1(4), of dirp sizeof_DIR]) (simp, rule out1)
    have k2: "keeps own st st2"
      using keeps_trans[OF m1(5)] store_keeps[OF m1(4), of dirp sizeof_DIR "wr32 (dirp + entry_num) 0"] out1 m1(3)
      by (simp add: st2_def fun_upd_idem)
    have path2: "cstr (mem st2) dirname path"
    proof -
      have "mem st2 (dirname + i) = mem st (dirname + i)" if "i \<le> ?n" for i
        using keepsD[OF k2 path(2), of "dirname + i - q"] path(3,4) that by simp
      with cstr_cong[of path "mem st2" dirname "mem st"] path(1) show ?thesis by blast
    qed
    have w: "wrap (?n + 1) = ?n + 1" "0 < ?n + 1" "?n + 1 < 0x3FFFFFF0" using len by (simp_all add: wrap_def)
    have code: "opendir L root dirname st = bindE (libc_malloc L (?n + 1) st2) (\<lambda>(p, st).
        Inr (dirp, upd_mem (\<lambda>m. m(p + ?n := 0)) (upd_mem (memcpy p dirname ?n) (upd_mem (wr32 (dirp + dirname_field) p) st))))"
      unfolding opendir_def start bindE_simps dir option.case m1(1) prod.case Let_def st2_def[symmetric] strlen_ok[OF path2] w ..
    from malloc[OF ok2 w(2,3)] show ?thesis
    proof (elim disjE exE conjE)
      fix e assume "libc_malloc L (?n + 1) st2 = Inl e" "oom e"
      then show ?thesis by (simp add: code)
    next
      fix p st3
      let ?own = "own(dirp \<mapsto> sizeof_DIR, p \<mapsto> ?n + 1)"
      assume m3: "libc_malloc L (?n + 1) st2 = Inr (p, st3)" "0 < p" "?own1 p = None" "ok st3 ?own" "keeps ?own1 st2 st3"
      have p: "p \<noteq> dirp" "own p = None" using m3(3) by (auto split: if_splits)
      have own: "?own p = Some (?n + 1)" "?own dirp = Some sizeof_DIR" "?own q = Some m" "q \<noteq> p" "q \<noteq> dirp"
        using p path(2) m1(3) by auto
      let ?g = "\<lambda>m. (memcpy p dirname ?n m)(p + ?n := 0)" and ?f = "wr32 (dirp + dirname_field) p"
      define st4 where "st4 = upd_mem ?f st3"
      have out3: "?f (mem st3) a = mem st3 a" if "a < dirp \<or> dirp + sizeof_DIR \<le> a" for a
        using that by (auto simp: wr32_outside dirname_field_def sizeof_DIR_def)
      have ok4: "ok st4 ?own" unfolding st4_def by (rule store[OF m3(4) own(2)]) (rule out3)
      have k4: "keeps (?own(dirp := None)) st3 st4" unfolding st4_def by (rule store_keeps[OF m3(4) own(2)]) (rule out3)
      have out4: "?g (mem st4) a = mem st4 a" if "a < p \<or> p + (?n + 1) \<le> a" for a
        using that memcpy_outside[of p a ?n dirname "mem st4"] by auto
      define st5 where "st5 = upd_mem ?g st4"
      have ok5: "ok st5 ?own" unfolding st5_def by (rule store[OF ok4 own(1)]) (rule out4)
      have k5: "keeps (?own(p := None)) st4 st5" unfolding st5_def by (rule store_keeps[OF ok4 own(1)]) (rule out4)
      have run: "opendir L root dirname st = Inr (dirp, st5)"
        unfolding code m3(1) bindE_simps prod.case st4_def st5_def by (simp add: upd_mem_def)
      have le: "own \<subseteq>\<^sub>m ?own1" "own \<subseteq>\<^sub>m ?own(dirp := None)" "own \<subseteq>\<^sub>m ?own(p := None)"
        using m1(3) p by (auto simp: map_le_def)
      have keep: "keeps own st2 st5"
        by (rule keeps_trans[OF keeps_mono[OF m3(5) le(1)] keeps_trans[OF keeps_mono[OF k4 le(2)] keeps_mono[OF k5 le(3)]]])
      have inside: "mem st5 (dirp + i) = mem st4 (dirp + i)" if "i < sizeof_DIR" for i
        using keepsD[OF k5, of dirp sizeof_DIR i] own(2) p(1) that by simp
      have f1: "rd32 (mem st5) (dirp + dirname_field) = p"
      proof -
        have "rd32 (mem st5) (dirp + 272) = rd32 (mem st4) (dirp + 272)"
          by (rule rd32_cong) (simp add: inside sizeof_DIR_def add.assoc)
        then show ?thesis using range[OF m3(4) own(1)] by (simp add: st4_def rd32_wr32_same dirname_field_def)
      qed
      have f2: "rd32 (mem st5) (dirp + entry_num) = 0"
      proof -
        have "rd32 (mem st5) (dirp + 268) = rd32 (mem st4) (dirp + 268)"
          by (rule rd32_cong) (simp add: inside sizeof_DIR_def add.assoc)
        also have "\<dots> = rd32 (mem st3) (dirp + 268)" by (simp add: st4_def rd32_wr32_other dirname_field_def)
        also have "\<dots> = rd32 (mem st2) (dirp + 268)"
        proof (rule rd32_cong)
          fix i :: nat assume "i < 4"
          then show "mem st3 (dirp + 268 + i) = mem st2 (dirp + 268 + i)"
            using keepsD[OF m3(5), of dirp sizeof_DIR "268 + i"] by (simp add: sizeof_DIR_def add.assoc)
        qed
        finally show ?thesis by (simp add: st2_def rd32_wr32_same entry_num_def)
      qed
      have f3: "cstr (mem st5) p path"
      proof -
        have "dirname + ?n \<le> p \<or> p + ?n \<le> dirname" using apart[OF m3(4) own(1,3)] own(4) path(3,4) by auto
        then have copy: "memcpy p dirname ?n (mem st4) (p + i) = mem st4 (dirname + i)" if "i < ?n" for i
          using memcpy_inside[of dirname ?n p i "mem st4"] that by auto
        have "keeps own st st4"
          by (rule keeps_trans[OF k2 keeps_trans[OF keeps_mono[OF m3(5) le(1)] keeps_mono[OF k4 le(2)]]])
        then have src: "mem st4 (dirname + i) = mem st (dirname + i)" if "i < ?n" for i
          using keepsD[of own st st4 q m "dirname + i - q"] path(2-4) that by simp
        show ?thesis using path(1) copy src by (simp add: cstr_def st5_def)
      qed
      have "dir_open ?own (mem st5) dirp p path 0" unfolding dir_open_def using own(1,2) p(1) f1 f2 f3 by simp
      then show ?thesis using run m1(2,3) p(2) ok5 keeps_trans[OF k2 keep] by blast
    qed
  qed
qed

lemma closedir_ok:
  assumes ok: "ok st own" and o: "dir_open own (mem st) dirp p path k" and nz: "dirp \<noteq> 0"
  shows "\<exists>st'. closedir L dirp st = Inr st' \<and> ok st' (own(p := None, dirp := None)) \<and> keeps (own(p := None, dirp := None)) st st'"
proof -
  note d = o[unfolded dir_open_def]
  have p: "own p = Some (length path + 1)" using d by simp
  obtain st1 where f: "libc_free L p st = Inr st1" "ok st1 (own(p := None))" "keeps (own(p := None)) st st1"
    using free[OF ok p] by blast
  have "(own(p := None)) dirp = Some sizeof_DIR" using d by simp
  from free[OF f(2) this] obtain st2 where g: "libc_free L dirp st1 = Inr st2" "ok st2 (own(p := None, dirp := None))"
      "keeps (own(p := None, dirp := None)) st1 st2" by blast
  have "keeps (own(p := None, dirp := None)) st st1" by (rule keeps_mono[OF f(3)]) (auto simp: map_le_def)
  moreover have "closedir L dirp st = Inr st2" using d nz f(1) g(1) by (simp add: closedir_def)
  ultimately show ?thesis using g keeps_trans by blast
qed

text \<open>The two outcomes of \<open>ls\<close> with the name of a directory, the local array being outside the heap.\<close>

lemma ls_setup:
  assumes ok: "ok st own" and cwd: "cwd + 256 \<le> heap_start st \<or> heap st \<le> cwd"
    and path: "cstr (mem st) a path" "own q = Some m" "q \<le> a" "a + length path < q + m"
  defines "st1 \<equiv> upd_mem (\<lambda>_. memset cwd 0 256 (mem st)) st"
  shows "ok st1 own" "keeps own st st1" "cstr (mem st1) a path"
proof -
  have out: "memset cwd 0 256 (mem st) x = mem st x" if "heap_start st \<le> x" "x < heap st" for x
    using that cwd by (auto simp: memset_spec)
  show "ok st1 own" unfolding st1_def by (rule outside[OF ok]) (rule out)
  show k: "keeps own st st1" unfolding keeps_def
  proof (intro allI impI)
    fix p n i assume p: "own p = Some n" "i < n"
    have "heap_start st \<le> p + i" "p + i < heap st" using within[OF ok p(1)] p(2) by linarith+
    then show "mem st1 (p + i) = mem st (p + i)" using out by (simp add: st1_def)
  qed
  have "mem st1 (a + i) = mem st (a + i)" if "i \<le> length path" for i
    using keepsD[OF k path(2), of "a + i - q"] path(3,4) that by simp
  with cstr_cong[of path "mem st1" a "mem st"] path(1) show "cstr (mem st1) a path" by blast
qed

lemma ls_main_ok:
  assumes ok: "ok st own" and argc: "2 \<le> argc" and cwd: "cwd + 256 \<le> heap_start st \<or> heap st \<le> cwd"
    and path: "cstr (mem st) a path" "own q = Some m" "q \<le> a" "a + length path < q + m" "length path < 0x3FFFFFE0"
    and dir: "getDir root [] path = Inr (Some c)" "node_at root c = Some d"
    and d: "length (getNodes d) < 0x100000000" "\<forall>n \<in> set (getNodes d). 0 \<notin> set (getName n)"
  shows "(\<exists>e. ls_main L root cwd_name cwd argc a st = Inl e \<and> oom e) \<or>
    (\<exists>st'. ls_main L root cwd_name cwd argc a st = Inr (0, concat (map (\<lambda>n. shown (getName n) @ [0x0A]) (getNodes d)), st') \<and>
       ok st' own \<and> keeps own st st')"
proof -
  define st1 where "st1 = upd_mem (\<lambda>_. memset cwd 0 256 (mem st)) st"
  note s = ls_setup[OF ok cwd path(1-4), folded st1_def]
  have code: "ls_main L root cwd_name cwd argc a st = bindE (opendir L root a st1) (\<lambda>(mydir, st).
        if mydir = 0
        then bindE (string_at (mem st) a) (\<lambda>s. Inr (1, literal_bytes ''No directory named '' @ [0x27] @ s @ [0x27, 0x0A], st))
        else
          bindE (case ls_loop root mydir st [] of None \<Rightarrow> Inl Diverges | Some r \<Rightarrow> r) (\<lambda>(st, out).
          bindE (closedir L mydir st) (\<lambda>st. Inr (0, out, st))))"
    using argc by (simp add: ls_main_def Let_def st1_def)
  from opendir_ok[OF s(1,3) path(2-5) dir(1)] show ?thesis
  proof (elim disjE exE conjE)
    fix e assume "opendir L root a st1 = Inl e" "oom e"
    then show ?thesis by (simp add: code)
  next
    fix dirp p st2
    let ?own = "own(dirp \<mapsto> sizeof_DIR, p \<mapsto> length path + 1)"
    assume o: "opendir L root a st1 = Inr (dirp, st2)" "dirp \<noteq> 0" "own dirp = None" "own p = None" "ok st2 ?own"
      "dir_open ?own (mem st2) dirp p path 0" "keeps own st1 st2"
    obtain st3 where l: "ls_loop root dirp st2 [] = Some (Inr (st3, [] @ concat (map (\<lambda>n. shown (getName n) @ [0x0A]) (drop 0 (getNodes d)))))"
        "ok st3 ?own" "dir_open ?own (mem st3) dirp p path (max 0 (length (getNodes d)))" "keeps (?own(dirp := None)) st2 st3"
      using ls_loop_lists[OF o(5,6) dir d o(2), of "[]"] by blast
    obtain st4 where f: "closedir L dirp st3 = Inr st4" "ok st4 (?own(p := None, dirp := None))" "keeps (?own(p := None, dirp := None)) st3 st4"
      using closedir_ok[OF l(2,3) o(2)] by blast
    have own: "?own(p := None, dirp := None) = own" using o(3,4) by auto
    have le: "own \<subseteq>\<^sub>m ?own(dirp := None)" using o(3,4) by (auto simp: map_le_def)
    have "keeps own st st4"
      by (rule keeps_trans[OF s(2) keeps_trans[OF o(7) keeps_trans[OF keeps_mono[OF l(4) le] f(3)[unfolded own]]]])
    moreover have "ls_main L root cwd_name cwd argc a st = Inr (0, concat (map (\<lambda>n. shown (getName n) @ [0x0A]) (getNodes d)), st4)"
      unfolding code o(1) bindE_simps prod.case if_not_P[OF o(2)] l(1) option.case f(1) append_Nil drop_0 ..
    ultimately show ?thesis using f(2)[unfolded own] by blast
  qed
qed

lemma ls_main_missing:
  assumes ok: "ok st own" and argc: "2 \<le> argc" and cwd: "cwd + 256 \<le> heap_start st \<or> heap st \<le> cwd"
    and path: "cstr (mem st) a path" "own q = Some m" "q \<le> a" "a + length path < q + m" and dir: "getDir root [] path = Inr None"
  shows "\<exists>st'. ls_main L root cwd_name cwd argc a st = Inr (1, literal_bytes ''No directory named '' @ [0x27] @ path @ [0x27, 0x0A], st') \<and>
    ok st' own \<and> keeps own st st'"
proof -
  define st1 where "st1 = upd_mem (\<lambda>_. memset cwd 0 256 (mem st)) st"
  note s = ls_setup[OF ok cwd path, folded st1_def]
  have p: "string_at (mem st1) a = Inr path" by (rule string_at_cstr[OF s(3)])
  then have "opendir L root a st1 = Inr (0, st1)" using dir by (simp add: opendir_def)
  then have "ls_main L root cwd_name cwd argc a st = Inr (1, literal_bytes ''No directory named '' @ [0x27] @ path @ [0x27, 0x0A], st1)"
    using argc p by (simp add: ls_main_def Let_def st1_def)
  with s show ?thesis by blast
qed

end

section \<open>Listing a directory\<close>



end
