(* ===== verification/KernelStart.thy ===== *)
theory KernelStart
  imports SchedulerProperties DescriptorTables UserTask
begin

unbundle bit_operations_syntax

text \<open>
  The start of the kernel, \<^verbatim>\<open>kernel/kernel.cpp\<close>: the set-up of all parts in their order, the copy of the ramdisk that the
  boot loader placed in low memory, the first user task with the ramdisk in its shared page, and
  the shutdown. What the boot loader reports (\<^verbatim>\<open>kernel/include/multiboot.h\<close>), the tests that run at start-up
  (\<^verbatim>\<open>kernel/tests.cpp\<close>) and what the tasks do while the kernel waits for the first one are parameters.
\<close>

section \<open>Definitions\<close>

record Multiboot =
  mb_addr :: u32
  mem_upper :: u32
  mods_count :: u32
  framebuffer_addr :: u64
  framebuffer_pitch :: u32
  framebuffer_width :: u32
  framebuffer_height :: u32
  mod_start :: u32
  mod_end :: u32

definition getModuleSize :: "Multiboot \<Rightarrow> u32" where
  "getModuleSize mb = mod_end mb - mod_start mb"

record booted =
  b_machine :: machine
  b_tables :: tables
  b_handlers :: handlers
  b_words :: "(u16 \<times> u16) list"

text \<open>\<open>b_words\<close>: the 16-bit writes to ports, in order.\<close>

definition Write16 :: "u16 \<Rightarrow> u16 \<Rightarrow> booted \<Rightarrow> booted" where
  "Write16 port v B = B\<lparr>b_words := b_words B @ [(port, v)]\<rparr>"

definition InitTimer :: "u32 \<Rightarrow> booted \<Rightarrow> booted result" where
  "InitTimer frequency B =
     (let B = B\<lparr>b_handlers := RegisterInterruptHandler (ucast IRQ0) RunTimerCallback (b_handlers B)\<rparr> in
      bindE (InitTimer_divisor frequency) (\<lambda>(l, h).
      let B = B\<lparr>b_tables := Write8 0x40 h (Write8 0x40 l (Write8 0x43 0x36 (b_tables B)))\<rparr> in
      Inr (B\<lparr>b_machine := (b_machine B)\<lparr>m_kernel := (m_kernel (b_machine B))\<lparr>k_interrupts := True\<rparr>\<rparr>\<rparr>)))"

definition InitializeSyscalls :: "booted \<Rightarrow> booted" where
  "InitializeSyscalls B = B\<lparr>b_handlers := RegisterInterruptHandler 0x80 SyscallHandler (b_handlers B)\<rparr>"

definition on_heap :: "(kernel_heap \<Rightarrow> kernel_heap result) \<Rightarrow> machine \<Rightarrow> machine result" where
  "on_heap f M = on_kernel (\<lambda>k. bindE (f (k_heap k)) (\<lambda>h. Inr (k\<lparr>k_heap := h\<rparr>))) M"

definition on_machine :: "(machine \<Rightarrow> machine result) \<Rightarrow> booted \<Rightarrow> booted result" where
  "on_machine f B = bindE (f (b_machine B)) (\<lambda>M. Inr (B\<lparr>b_machine := M\<rparr>))"

text \<open>\<open>InitScheduler\<close> with the allocation of the main task by \<open>new\<close>; \<open>sz\<close> is the size of a \<open>KernelTask\<close>.\<close>

definition InitScheduler_new :: "nat \<Rightarrow> bool \<times> nat \<Rightarrow> kernel \<Rightarrow> kernel result" where
  "InitScheduler_new sz garbage k =
     assertE (k_queue k = [] \<and> k_current k = None \<and> k_main k = None) ''This function should not be called twice.'' (
     bindE (kmalloc sz (k_heap k)) (\<lambda>(main, h). InitScheduler main garbage (k\<lparr>k_heap := h\<rparr>)))"

text \<open>The six initialisations of \<open>KernelSetup\<close>.\<close>

definition KernelSetup_init :: "stubs \<Rightarrow> u32 \<Rightarrow> nat \<Rightarrow> bool \<times> nat \<Rightarrow> booted \<Rightarrow> booted result" where
  "KernelSetup_init A upper sz garbage B =
     (let B = B\<lparr>b_tables := InitDescriptorTables A (b_tables B)\<rparr> in
      bindE (on_machine (on_pg (InitializePaging upper)) B) (\<lambda>B.
      let B = B\<lparr>b_handlers := RegisterInterruptHandler 14 HandlePageFault (b_handlers B)\<rparr> in
      bindE (on_machine (on_heap InitializeKernelHeap) B) (\<lambda>B.
      bindE (InitTimer 50 B) (\<lambda>B.
      bindE (on_machine (on_kernel (InitScheduler_new sz garbage)) B) (\<lambda>B.
      Inr (InitializeSyscalls B))))))"

text \<open>The copy of the first module into the kernel heap, through a temporary mapping of the first page.\<close>

definition KernelSetup_module :: "Multiboot \<Rightarrow> machine \<Rightarrow> (u32 \<times> u32 \<times> machine) result" where
  "KernelSetup_module mb M =
     bindE (on_pg (AddPage KernelPD 0 0 0 True) M) (\<lambda>M.
     let modsize = getModuleSize mb in
     bindE (kmalloc (unat modsize) (k_heap (m_kernel M))) (\<lambda>(p, h).
     let M = M\<lparr>m_kernel := (m_kernel M)\<lparr>k_heap := h\<rparr>\<rparr> in
     bindE (on_vm (vmemcpy (of_nat p) (mod_start mb) (unat modsize)) M) (\<lambda>M.
     bindE (on_pg (RemovePage KernelPD 0) M) (\<lambda>M.
     Inr (of_nat p, of_nat p + modsize, M)))))"

definition KernelSetup :: "stubs \<Rightarrow> u32 \<Rightarrow> u32 \<Rightarrow> nat \<Rightarrow> bool \<times> nat \<Rightarrow> Multiboot \<Rightarrow> booted \<Rightarrow> ((u32 \<times> u32) option \<times> booted) result" where
  "KernelSetup A kernel_start kernel_end sz garbage mb B =
     assertE (unat (kernel_end - kernel_start) \<le> kPageSize4M) ''The kernel should be able to fir in a 4MB page'' (
     assertE (framebuffer_addr mb \<le> 0xFFFFFFFF) ''Framebuffer cannot fit in 32 bits.'' (
     assertE (unat (mb_addr mb) < USER_END) ''reinterpret_cast<uint64_t>(multiboot) < USER_END'' (
     bindE (KernelSetup_init A (mem_upper mb) sz garbage B) (\<lambda>B.
     if mods_count mb \<noteq> 0
     then bindE (KernelSetup_module mb (b_machine B)) (\<lambda>(s, e, M). Inr (Some (s, e), B\<lparr>b_machine := M\<rparr>))
     else Inr (None, B)))))"

text \<open>The function that fills the shared page of the first task: the size of the ramdisk, then its bytes.\<close>

definition initrd_copyfunc :: "u32 \<Rightarrow> u32 \<Rightarrow> copy_func" where
  "initrd_copyfunc data sz dst_start dst_end st =
     assertE (dst_start < dst_end) ''end > start'' (
     let space = dst_end - dst_start in
     assertE (sz + 4 \<le> space) ''Not enough space in shared user region to hold the vfs data.'' (
     bindE (store32 dst_start sz st) (\<lambda>st.
     bindE (vmemcpy (dst_start + 4) data (unat sz) st) (\<lambda>st.
     Inr (dst_start, st)))))"

text \<open>How the first program finds it: \<open>__user_main\<close> of \<^verbatim>\<open>userboot/userboot.cpp\<close>, whose stack holds \<open>arg\<close>.\<close>

definition load32 :: "u32 \<Rightarrow> vm \<Rightarrow> u32 result" where
  "load32 va st =
     bindE (vload va st) (\<lambda>b0. bindE (vload (va + 1) st) (\<lambda>b1. bindE (vload (va + 2) st) (\<lambda>b2. bindE (vload (va + 3) st) (\<lambda>b3.
     Inr (ucast b0 OR push_bit 8 (ucast b1) OR push_bit 16 (ucast b2) OR push_bit 24 (ucast b3))))))"

definition userboot_initrd :: "u32 \<Rightarrow> vm \<Rightarrow> (u32 \<times> u32) result" where
  "userboot_initrd arg st = bindE (load32 arg st) (\<lambda>initrd_size. Inr (initrd_size, arg + 4))"

text \<open>\<open>run\<close>: the machine when \<open>Join\<close> returns; the destructor of the task follows.\<close>

definition KernelJumpToUserEntry :: "nat \<Rightarrow> bool \<Rightarrow> u32 \<Rightarrow> u32 \<Rightarrow> (machine \<Rightarrow> machine) \<Rightarrow> machine \<Rightarrow> machine result" where
  "KernelJumpToUserEntry task garbage vfs_data vfs_data_size run M =
     bindE (UserTask_construct task garbage vfs_data vfs_data_size (initrd_copyfunc vfs_data vfs_data_size) 0 M) (\<lambda>M.
     bindE (on_kernel (Join task) (run M)) (\<lambda>M.
     on_kernel (UserTask_destruct task) M))"

definition KernelEnd :: "booted \<Rightarrow> booted result" where
  "KernelEnd B =
     bindE (on_machine (on_kernel DestroyScheduler) B) (\<lambda>B.
     assertE (GetKernelHeapUsed (k_heap (m_kernel (b_machine B))) = 0) ''Kernel heap was not cleared!'' (
     Inr (Write16 0x604 0x2000 B)))"

text \<open>\<open>tests\<close> is \<open>RunTests\<close>; \<open>task\<close> is where the stack of \<open>KernelJumpToUserEntry\<close> holds its task.\<close>

definition kernel_main ::
  "stubs \<Rightarrow> u32 \<Rightarrow> u32 \<Rightarrow> nat \<Rightarrow> nat \<Rightarrow> bool \<times> nat \<Rightarrow> (booted \<Rightarrow> booted result) \<Rightarrow> (machine \<Rightarrow> machine) \<Rightarrow> Multiboot \<Rightarrow> booted \<Rightarrow> booted result" where
  "kernel_main A kernel_start kernel_end sz task garbage tests run mb B =
     bindE (KernelSetup A kernel_start kernel_end sz garbage mb B) (\<lambda>(m, B).
     bindE (NumFreePages (phys (m_pg (b_machine B)))) (\<lambda>free_pages.
     bindE (tests B) (\<lambda>B.
     bindE (NumFreePages (phys (m_pg (b_machine B)))) (\<lambda>n.
     assertE (free_pages = n) ''Tests should not take up any more physical memory.'' (
     assertE (mods_count mb \<le> 1) ''Expected at most one multiboot module, which is the optional initial ramdisk'' (
     bindE (case m of
              Some (s, e) \<Rightarrow>
                assertE (s < e) ''mod_end > mod_start'' (
                bindE (on_machine (KernelJumpToUserEntry task (fst garbage) s (e - s) run) B) (\<lambda>B.
                on_machine (on_heap (kfree (unat s))) B))
            | None \<Rightarrow> Inr B) KernelEnd))))))"

section \<open>Start-up establishes the invariants\<close>

text \<open>The globals at start-up: nothing is initialised but what C++ initialises statically.\<close>

definition power_on :: "booted \<Rightarrow> bool" where
  "power_on B \<longleftrightarrow> boot_state (m_pg (b_machine B)) \<and> k_queue (m_kernel (b_machine B)) = [] \<and>
     k_current (m_kernel (b_machine B)) = None \<and> k_main (m_kernel (b_machine B)) = None \<and> (\<forall>n. b_handlers B n = None)"

lemma InitTimer_50: "InitTimer_divisor 50 = Inr (0x37, 0x5D)"
  by (simp add: InitTimer_divisor_def) 

text \<open>The heap with the main task, in a chunk of \<open>r\<close> bytes, and the node of the ready queue.\<close>

definition started :: "nat \<Rightarrow> nat \<Rightarrow> kernel \<Rightarrow> bool" where
  "started r stack k \<longleftrightarrow> alloc_inv 0x40000000 kheap_mapped (k_heap k) [(r, True), (12, True), (0x3FFFF4 - r, False)] \<and>
     heap_start (k_heap k) = 0x2000000 \<and> k_queue k = [(0x2000004 + r, 0x2000004)] \<and>
     k_current k = Some 0x2000004 \<and> k_main k = Some 0x2000004 \<and>
     (\<exists>t. k_tasks k 0x2000004 = Some t \<and> t_children t = [] \<and> t_parent t = None \<and> t_stack t = stack)"

lemma InitScheduler_boots:
  assumes a: "alloc_inv 0x40000000 kheap_mapped (k_heap k) [(0x400000, False)]" "heap_start (k_heap k) = 0x2000000"
    and k: "k_queue k = []" "k_current k = None" "k_main k = None" and sz: "0 < sz" "sz \<le> 0x3FFFC8"
  shows "\<exists>k'. InitScheduler_new sz g k = Inr k' \<and> sched_reachable k' \<and> k_interrupts k' = k_interrupts k \<and>
    started (real_size sz 4) (snd g) k'"
proof -
  let ?r = "real_size sz 4"
  have r: "?r mod 4 = 0" "?r < 0x3FFFE0" "0 < ?r" using sz by (simp_all add: real_size_def)
  then have m: "(0x2000000 + ?r + 4) mod 4 = 0" by presburger
  have req: "request_ok sz 4" "request_ok 8 4" using sz by (simp_all add: request_ok_4)
  obtain h1 where h1: "kmalloc sz (k_heap k) = Inr (0x2000004, h1)"
      "alloc_inv 0x40000000 kheap_mapped h1 [(?r, True), (0x400000 - ?r, False)]" "heap_start h1 = 0x2000000"
    by (rule kmalloc_fits[OF a(1) req(1), of "0x2000000" "[(?r, True), (0x400000 - ?r, False)]"])
      (use r a(2) in \<open>simp_all add: fit_def place_def\<close>)
  have z: "12 < 0x400000 - ?r" using r(2) by linarith
  have ff: "first_fit (real_size 8 4) 4 (heap_start h1) [(?r, True), (0x400000 - ?r, False)] =
      Some (0x2000000 + ?r, [(?r, True), (12, True), (0x3FFFF4 - ?r, False)])"
    using z m by (simp add: real_size_def[of 8] fit_def place_def h1(3) Let_def)
  obtain h2 where h2: "kmalloc 8 h1 = Inr (0x2000000 + ?r + 4, h2)" "heap_start h2 = 0x2000000"
      "alloc_inv 0x40000000 kheap_mapped h2 [(?r, True), (12, True), (0x3FFFF4 - ?r, False)]"
    using kmalloc_fits[OF h1(2) req(2) ff] h1(3) by auto
  let ?k1 = "k\<lparr>k_heap := h1\<rparr>"
  obtain k' where k': "InitScheduler 0x2000004 g ?k1 = Inr k'" "k_interrupts k' = k_interrupts k" "started ?r (snd g) k'"
    using h2 k by (auto simp: InitScheduler_def started_def add.commute)
  have "owned (k_heap ?k1) {}" using h1(2) by (auto simp: owned_def)
  with sched_reachable.init[OF _ k'(1)] k' h1(1) k show ?thesis by (auto simp: InitScheduler_new_def)
qed

lemma KernelSetup_init_ok:
  assumes on: "power_on B" and mem: "32 \<le> unat (upper * 1024 :: u32) div kPageSize4M + 1" and sz: "0 < sz" "sz \<le> 0x3FFFC8"
  shows "\<exists>B'. KernelSetup_init A upper sz g B = Inr B' \<and> sched_reachable (m_kernel (b_machine B')) \<and>
    started (real_size sz 4) (snd g) (m_kernel (b_machine B')) \<and> k_interrupts (m_kernel (b_machine B')) \<and>
    b_handlers B' = kernel_handlers (b_handlers B) \<and> b_words B' = b_words B \<and>
    b_tables B' = fold (\<lambda>(p, v). Write8 p v) [(0x43, 0x36), (0x40, 0x37), (0x40, 0x5D)] (InitDescriptorTables A (b_tables B))"
proof -
  let ?k = "m_kernel (b_machine B)"
  have boot: "boot_state (world (k_heap ?k))" using on by (simp add: power_on_def m_pg_def)
  from InitializePaging_ok[OF boot mem] obtain t where t: "InitializePaging upper (world (k_heap ?k)) = Inr t" by blast
  obtain h where h: "InitializeKernelHeap ((k_heap ?k)\<lparr>world := t\<rparr>) = Inr h"
      "alloc_inv 0x40000000 kheap_mapped h [(0x400000, False)]" "heap_start h = 0x2000000"
    using boot_InitializeKernelHeap[OF boot t, of "(k_heap ?k)\<lparr>world := t\<rparr>"] by auto
  let ?k1 = "?k\<lparr>k_heap := h, k_interrupts := True\<rparr>"
  have s1: "alloc_inv 0x40000000 kheap_mapped (k_heap ?k1) [(0x400000, False)]" "heap_start (k_heap ?k1) = 0x2000000"
    "k_queue ?k1 = []" "k_current ?k1 = None" "k_main ?k1 = None" using h on by (simp_all add: power_on_def)
  from InitScheduler_boots[OF s1 sz, of g] obtain k' where k': "InitScheduler_new sz g ?k1 = Inr k'" "sched_reachable k'"
      "k_interrupts k'" "started (real_size sz 4) (snd g) k'" by auto
  show ?thesis
    using t h(1) k'
    by (simp add: KernelSetup_init_def on_machine_def on_pg_def on_heap_def on_kernel_def m_pg_def set_pg_def InitTimer_def
        InitTimer_50 InitializeSyscalls_def kernel_handlers_def Let_def)
qed

section \<open>Shutdown\<close>

lemma kfree_block:
  assumes "alloc_inv 0x40000000 kheap_mapped h bs" "(c, s) \<in> used_blocks (heap_start h) bs"
  obtains h' bs' where "kfree (c + 4) h = Inr h'" "alloc_inv 0x40000000 kheap_mapped h' bs'" "heap_start h' = heap_start h"
    "used_blocks (heap_start h) bs' = used_blocks (heap_start h) bs - {(c, s)}" "world h' = world h"
proof -
  have "heap_inv h bs" using assms(1) by (simp add: alloc_inv_def)
  from Free_ok[OF this assms(2)] obtain h' bs' where "Free (c + 4) h = Inr h'" "heap_inv h' bs'" "released c s h bs h' bs'" by blast
  with assms(1) that[of h' bs'] show thesis by (simp add: kfree_def alloc_inv_def released_def)
qed

lemma DestroyScheduler_ok:
  assumes "started r 0 k"
  shows "\<exists>k'. DestroyScheduler k = Inr k' \<and> GetKernelHeapUsed (k_heap k') = 0 \<and> world (k_heap k') = world (k_heap k)"
proof -
  obtain t where t: "k_tasks k 0x2000004 = Some t" "t_children t = []" "t_parent t = None" "t_stack t = 0"
    and k: "k_queue k = [(0x2000004 + r, 0x2000004)]" "k_main k = Some 0x2000004" "heap_start (k_heap k) = 0x2000000"
      "alloc_inv 0x40000000 kheap_mapped (k_heap k) [(r, True), (12, True), (0x3FFFF4 - r, False)]"
    using assms by (auto simp: started_def)
  let ?bs = "[(r, True), (12, True), (0x3FFFF4 - r, False)]"
  have u: "used_blocks 0x2000000 ?bs = {(0x2000000, r), (0x2000000 + r, 12)}" by auto
  have r: "0 < r" using heap_invD(1)[of "k_heap k" ?bs] k(4) by (auto simp: alloc_inv_def ok_block_def)
  obtain h1 bs1 where h1: "kfree 0x2000004 (k_heap k) = Inr h1" "alloc_inv 0x40000000 kheap_mapped h1 bs1"
      "heap_start h1 = 0x2000000" "used_blocks 0x2000000 bs1 = {(0x2000000 + r, 12)}" "world h1 = world (k_heap k)"
    using kfree_block[OF k(4), of "0x2000000" r] k(3) u r by auto
  obtain h2 bs2 where h2: "kfree (0x2000004 + r) h1 = Inr h2" "alloc_inv 0x40000000 kheap_mapped h2 bs2"
      "heap_start h2 = 0x2000000" "used_blocks 0x2000000 bs2 = {}" "world h2 = world h1"
    using kfree_block[OF h1(2), of "0x2000000 + r" 12] h1(3,4) by (auto simp: add.commute add.left_commute)
  have "heap_used h2 = 0" using heap_used_blocks[of h2 bs2] h2(2-4) by (simp add: alloc_inv_def)
  moreover have "kfree 0 h = Inr h" for h :: kernel_heap by (simp add: kfree_def Free_def)
  ultimately show ?thesis
    using t k(1,2) h1(1,5) h2(1,5)
    by (simp add: DestroyScheduler_def KernelTask_destruct_def Task_destruct_def GetKernelHeapUsed_def getHeapUsed_def)
qed

lemma NumFreePages_counts:
  assumes "pb_wf pb"
  shows "NumFreePages pb = Inr (length (filter (\<lambda>i. i \<notin> bitset (bits pb)) [0 ..< 1024]))"
proof -
  let ?f = "\<lambda>i num. bindE (isSet (bits pb) i) (\<lambda>s. Inr (if \<not> s then num + 1 else num)) :: nat result"
  have "foldE ?f xs n = Inr (n + length (filter (\<lambda>i. i \<notin> bitset (bits pb)) xs))" if "set xs \<subseteq> {..< 1024}" for xs n
    using that assms by (induction xs arbitrary: n) (auto simp: isSet_iff[of 1024] pb_wf_def)
  from this[of "[0 ..< 1024]" 0] show ?thesis by (simp add: NumFreePages_def kRamAs4MPages_def subset_iff)
qed


definition booted0 :: booted where
  "booted0 = \<lparr>b_machine = \<lparr>m_kernel = kernel0 \<lparr>mem = \<lambda>_. 0, heap = 0, heap_used = 0, heap_start = 0, heap_end = 0, world = boot0\<rparr>,
     m_pmem = \<lambda>_. 0, m_serial = \<lparr>sp_in = [], sp_out = [], sp_ready = True, sp_config = []\<rparr>\<rparr>, b_tables = tables0, b_handlers = \<lambda>_. None, b_words = []\<rparr>"



definition multiboot0 :: Multiboot where
  "multiboot0 = \<lparr>mb_addr = 0x10000, mem_upper = 0x20000, mods_count = 0, framebuffer_addr = 0xB8000, framebuffer_pitch = 160, framebuffer_width = 80, framebuffer_height = 25, mod_start = 0, mod_end = 0\<rparr>"


section \<open>The ramdisk reaches the first program\<close>

lemma word_of_bytes:
  "ucast (ucast w :: u8) OR push_bit 8 (ucast (ucast (drop_bit 8 w) :: u8)) OR push_bit 16 (ucast (ucast (drop_bit 16 w) :: u8)) OR
   push_bit 24 (ucast (ucast (drop_bit 24 w) :: u8)) = (w :: u32)" (is "?l = _")
proof (rule bit_word_eqI)
  fix n assume "n < LENGTH(32)"
  then show "bit ?l n = bit w n"
    by (cases "n < 24"; cases "n < 16"; cases "n < 8") (auto simp: bit_simps)
qed

lemma vload_at: "translate (pg st) (cr3 (pg st)) va = Inr pa \<Longrightarrow> vload va st = Inr (pmem st pa)"
  by (simp add: vload_def)

lemma store32_ok:
  assumes "\<And>i. i < 4 \<Longrightarrow> translate (pg st) (cr3 (pg st)) (va + of_nat i) = Inr (base + i)"
  shows "store32 va w st = Inr (st\<lparr>pmem := (pmem st)(base := ucast w, base + 1 := ucast (drop_bit 8 w),
    base + 2 := ucast (drop_bit 16 w), base + 3 := ucast (drop_bit 24 w))\<rparr>)"
  using assms[of 0] assms[of 1] assms[of 2] assms[of 3]
  by (simp add: store32_def word_bytes_def vstore_def add.assoc)

lemma load32_ok:
  assumes "\<And>i. i < 4 \<Longrightarrow> translate (pg st) (cr3 (pg st)) (va + of_nat i) = Inr (base + i)"
    "pmem st base = ucast w" "pmem st (base + 1) = ucast (drop_bit 8 w)"
    "pmem st (base + 2) = ucast (drop_bit 16 w)" "pmem st (base + 3) = ucast (drop_bit 24 w)"
  shows "load32 va st = Inr w"
  using assms(1)[of 0] assms(1)[of 1] assms(1)[of 2] assms(1)[of 3] assms(2-)
  by (simp add: load32_def vload_at word_of_bytes)

text \<open>A page mapped in a directory, byte by byte.\<close>

definition page_at :: "paging \<Rightarrow> pd_ref \<Rightarrow> u32 \<Rightarrow> nat \<Rightarrow> bool" where
  "page_at s d page base \<longleftrightarrow> (\<forall>k < kPageSize4M. translate s d (page + of_nat k) = Inr (base + k))"

lemma initrd_copied:
  assumes k: "page_at (pg st) (cr3 (pg st)) USER_SHARED_SPACE_START base"
    and src: "\<And>i. i < unat sz \<Longrightarrow> translate (pg st) (cr3 (pg st)) (data + of_nat i) = Inr (ps i)"
      "\<And>i. i < unat sz \<Longrightarrow> ps i < base \<or> base + kPageSize4M \<le> ps i"
    and sz: "unat sz + 4 \<le> kPageSize4M"
    and user: "page_at (pg st) d USER_SHARED_SPACE_START base"
  shows "\<exists>arg m. initrd_copyfunc data sz USER_SHARED_SPACE_START USER_SHARED_SPACE_END st = Inr (arg, st\<lparr>pmem := m\<rparr>) \<and>
    (let u = \<lparr>pg = (pg st)\<lparr>cr3 := d\<rparr>, pmem = m\<rparr> in
     \<exists>p. userboot_initrd arg u = Inr (sz, p) \<and> (\<forall>i < unat sz. vload (p + of_nat i) u = Inr (pmem st (ps i)))) \<and>
    (\<forall>a. a < base \<or> base + kPageSize4M \<le> a \<longrightarrow> m a = pmem st a)"
proof -
  let ?S = USER_SHARED_SPACE_START
  have t: "translate (pg st) (cr3 (pg st)) (?S + of_nat i) = Inr (base + i)"
    and u: "translate ((pg st)\<lparr>cr3 := d\<rparr>) d (?S + of_nat i) = Inr (base + i)" if "i < kPageSize4M" for i
    using k user that by (auto simp: page_at_def translate_def pd_of_def split: pd_ref.splits)
  let ?m1 = "(pmem st)(base := ucast sz, base + 1 := ucast (drop_bit 8 sz), base + 2 := ucast (drop_bit 16 sz), base + 3 := ucast (drop_bit 24 sz))"
  let ?st = "st\<lparr>pmem := ?m1\<rparr>"
  have s1: "store32 ?S sz st = Inr ?st" using t by (intro store32_ok) (simp add: kPageSize4M_def)
  have "\<exists>m. vmemcpy (?S + 4) data (unat sz) ?st = Inr (?st\<lparr>pmem := m\<rparr>) \<and> (\<forall>i < unat sz. m (base + 4 + i) = pmem ?st (ps i)) \<and>
    (\<forall>a. a < base + 4 \<or> base + 4 + unat sz \<le> a \<longrightarrow> m a = pmem ?st a)"
  proof (rule vmemcpy_ok)
    fix i assume i: "i < unat sz"
    show "translate (pg ?st) (cr3 (pg ?st)) (data + of_nat i) = Inr (ps i)" using src(1)[OF i] by simp
    show "translate (pg ?st) (cr3 (pg ?st)) (?S + 4 + of_nat i) = Inr (base + 4 + i)"
      using t[of "4 + i"] i sz by (simp add: add.assoc)
    show "ps i < base + 4 \<or> base + 4 + unat sz \<le> ps i" using src(2)[OF i] sz by linarith
  qed
  then obtain m where m: "vmemcpy (?S + 4) data (unat sz) ?st = Inr (?st\<lparr>pmem := m\<rparr>)"
      "\<And>i. i < unat sz \<Longrightarrow> m (base + 4 + i) = pmem ?st (ps i)" "\<And>a. a < base + 4 \<or> base + 4 + unat sz \<le> a \<Longrightarrow> m a = pmem ?st a"
    by blast
  have keep: "pmem ?st (ps i) = pmem st (ps i)" if "i < unat sz" for i using src(2)[OF that] sz by auto
  have "sz + 4 \<le> USER_SHARED_SPACE_END - ?S"
    using sz by (simp add: word_le_nat_alt unat_word_ariths kernel_defs kPageSize4M_def)
  then have "initrd_copyfunc data sz ?S USER_SHARED_SPACE_END st = Inr (?S, st\<lparr>pmem := m\<rparr>)"
    using s1 m(1) by (simp add: initrd_copyfunc_def kernel_defs)
  moreover have "load32 ?S \<lparr>pg = (pg st)\<lparr>cr3 := d\<rparr>, pmem = m\<rparr> = Inr sz"
    using u m(3) by (intro load32_ok[of _ _ base]) (simp_all add: kPageSize4M_def)
  ultimately have run: "initrd_copyfunc data sz ?S USER_SHARED_SPACE_END st = Inr (?S, st\<lparr>pmem := m\<rparr>)"
    "userboot_initrd ?S \<lparr>pg = (pg st)\<lparr>cr3 := d\<rparr>, pmem = m\<rparr> = Inr (sz, ?S + 4)" by (simp_all add: userboot_initrd_def)
  have "vload (?S + 4 + of_nat i) \<lparr>pg = (pg st)\<lparr>cr3 := d\<rparr>, pmem = m\<rparr> = Inr (pmem st (ps i))" if "i < unat sz" for i
    using u[of "4 + i"] m(2)[OF that] keep[OF that] that sz by (simp add: vload_at add.assoc)
  moreover have "m a = pmem st a" if "a < base \<or> base + kPageSize4M \<le> a" for a
    using m(3)[of a] that sz by auto
  ultimately show ?thesis using run unfolding Let_def by blast
qed


lemma page_atI:
  assumes "present (pd_of s d ! i)" "i < 1024"
  shows "page_at s d (PageAddr4M i) (unat (pd_of s d ! i AND kPageMask4M))"
  unfolding page_at_def
proof (intro allI impI)
  fix k assume k: "k < kPageSize4M"
  have a: "unat (PageAddr4M i + of_nat k) = i * kPageSize4M + k"
    using k assms(2) by (subst unat_add_small) (simp_all add: unat_PageAddr4M kPageSize4M_def)
  then have "PageIndex4M (PageAddr4M i + of_nat k) = i" "unat (PageAddr4M i + of_nat k) mod kPageSize4M = k"
    using k unfolding PageIndex4M_div a by simp_all
  with assms(1) show "translate s d (PageAddr4M i + of_nat k) = Inr (unat (pd_of s d ! i AND kPageMask4M) + k)"
    by (simp add: translate_def)
qed

text \<open>A ramdisk of three bytes at the start of the kernel heap, and the shared page in frame 4.\<close>

definition initrd0 :: vm where
  "initrd0 = \<lparr>pg = boot0\<lparr>kernel_pd := (replicate 1024 0)[3 := 0x1000083, 8 := 0xC00083], cr3 := KernelPD\<rparr>,
     pmem = (\<lambda>_. 0)(0xC00004 := 7, 0xC00005 := 8, 0xC00006 := 9)\<rparr>"


end
