(* ===== verification/Userboot.thy ===== *)
theory Userboot
  imports Elf Dirent VfsDump
begin

text \<open>
  The user programs that start the system: \<^verbatim>\<open>userboot/userboot.cpp\<close>, which finds the archive behind itself in the
  ramdisk and loads the second stage from it, \<^verbatim>\<open>userboot/userboot-stage2.cpp\<close>, and the shell,
  \<^verbatim>\<open>userboot/shell/shell.cpp\<close>. The console is the bytes that arrive and the bytes written. A program that is loaded or
  started is the request for its task; its own output and the messages of the programs about their progress are left out.
  The addresses of local arrays and of the contents of files are arguments.
\<close>

section \<open>Console\<close>

definition putchar :: "u8 \<Rightarrow> str \<Rightarrow> str" where
  "putchar c out = out @ (if c = 0 then [] else [c])"

text \<open>\<open>getchar\<close> waits for a byte, which is then converted from a signed \<open>char\<close>.\<close>

definition getchar :: "str \<Rightarrow> (int \<times> str) result" where
  "getchar input = (case input of [] \<Rightarrow> Inl Diverges | c # rest \<Rightarrow> Inr (sint c, rest))"

lemma getchar_Inr_iff: "getchar input = Inr (c, rest) \<longleftrightarrow> (\<exists>b. input = b # rest \<and> c = sint b)"
  by (auto simp: getchar_def split: list.splits)

section \<open>The shell\<close>

definition kCmdBufferSize :: nat where "kCmdBufferSize = 1024"
definition CR :: int where "CR = 13"

function DebugRead :: "nat \<Rightarrow> str \<Rightarrow> mem \<Rightarrow> str \<Rightarrow> (str \<times> mem \<times> str) result" where
  "DebugRead buffer input m out =
     (case getchar input of
        Inl e \<Rightarrow> Inl e
      | Inr (c, rest) \<Rightarrow>
        if c = - 1 then Inl (AssertFailed ''c != EOF'')
        else if c = CR then Inr (rest, m(buffer := 0), putchar 0x0A out)
        else DebugRead (buffer + 1) rest (m(buffer := word_of_int c)) (putchar (word_of_int c) out))"
  by auto
termination
  by (relation "measure (\<lambda>(_, input, _). length input)") (auto simp: getchar_Inr_iff)

declare DebugRead.simps [simp del]

text \<open>What the shell leaves behind: its memory, what it wrote, and the requests for tasks it made.\<close>

record shell =
  sh_heap :: user_heap
  sh_input :: str
  sh_out :: str
  sh_requests :: "task_request list"

text \<open>Where things lie in the frame of \<open>main\<close> and of the functions it calls.\<close>

record shell_frame =
  f_buffer :: nat
  f_cwd_buf :: nat
  f_argv_buffer :: nat
  f_argv :: u32
  f_arginfo :: u32

text \<open>
  The prompt: \<open>getcwd\<close> is called with the size of a pointer and returns the pointer advanced by it, so that the zero
  lands four bytes after the last place of \<open>cwd_buf\<close>.
\<close>

definition shell_prompt :: "shell_frame \<Rightarrow> str \<Rightarrow> shell \<Rightarrow> shell result" where
  "shell_prompt fr cwd_name S =
     (let (cwd, m) = getcwd cwd_name (f_cwd_buf fr) 4 (mem (sh_heap S)) in
      assertE (cwd \<noteq> 0) ''Could not get current working directory.'' (
      let m = m(cwd + 255 := 0) in
      bindE (string_at m (f_cwd_buf fr)) (\<lambda>s.
      Inr (S\<lparr>sh_heap := (sh_heap S)\<lparr>mem := m\<rparr>, sh_out := sh_out S @ s @ literal_bytes ''$ ''\<rparr>))))"

definition shell_read :: "shell_frame \<Rightarrow> shell \<Rightarrow> shell result" where
  "shell_read fr S =
     bindE (DebugRead (f_buffer fr) (sh_input S) (mem (sh_heap S)) (sh_out S)) (\<lambda>(input, m, out).
     Inr (S\<lparr>sh_heap := (sh_heap S)\<lparr>mem := m\<rparr>, sh_input := input, sh_out := out\<rparr>))"

text \<open>One command; \<open>run\<close> is \<open>system\<close> for the buffer.\<close>

definition shell_run :: "(user_heap \<Rightarrow> (int \<times> task_request option \<times> user_heap) result) \<Rightarrow> shell \<Rightarrow> shell result" where
  "shell_run run S =
     bindE (run (sh_heap S)) (\<lambda>(_, rq, st).
     Inr (S\<lparr>sh_heap := st, sh_requests := sh_requests S @ (case rq of None \<Rightarrow> [] | Some q \<Rightarrow> [q])\<rparr>))"

lemma DebugRead_shorter: "DebugRead buffer input m out = Inr (rest, m', out') \<Longrightarrow> length rest < length input"
proof (induction buffer input m out rule: DebugRead.induct)
  case (1 buffer input m out)
  from "1.prems" obtain c r where g: "getchar input = Inr (c, r)" by (subst (asm) DebugRead.simps) (auto split: sum.splits)
  then have l: "length r < length input" by (auto simp: getchar_Inr_iff)
  show ?case
  proof (cases "c = - 1 \<or> c = CR")
    case True
    then show ?thesis using "1.prems" l by (subst (asm) DebugRead.simps) (auto simp: g split: if_splits)
  next
    case False
    then have "DebugRead (buffer + 1) r (m(buffer := word_of_int c)) (putchar (word_of_int c) out) = Inr (rest, m', out')"
      using "1.prems" by (subst (asm) DebugRead.simps) (auto simp: g)
    with "1.IH"[OF g] False l show ?thesis by fastforce
  qed
qed

lemma shell_read_shorter: "shell_read fr S = Inr S' \<Longrightarrow> length (sh_input S') < length (sh_input S)"
  by (auto simp: shell_read_def bindE_Inr_iff dest: DebugRead_shorter)

lemma shell_step_input:
  "shell_prompt fr cwd_name S = Inr S' \<Longrightarrow> sh_input S' = sh_input S"
  "shell_run run S = Inr S' \<Longrightarrow> sh_input S' = sh_input S"
  by (auto simp: shell_prompt_def shell_run_def Let_def bindE_Inr_iff assertE_Inr_iff split: prod.splits)

function shell_loop :: "shell_frame \<Rightarrow> str \<Rightarrow> (user_heap \<Rightarrow> (int \<times> task_request option \<times> user_heap) result) \<Rightarrow> shell \<Rightarrow> shell result" where
  "shell_loop fr cwd_name run S =
     (case bindE (shell_prompt fr cwd_name S) (shell_read fr) of
        Inl e \<Rightarrow> Inl e
      | Inr S1 \<Rightarrow>
        (case string_at (mem (sh_heap S1)) (f_buffer fr) of
           Inl e \<Rightarrow> Inl e
         | Inr cmd \<Rightarrow>
           if cmd = literal_bytes ''exit'' then Inr S1
           else (case shell_run run S1 of Inl e \<Rightarrow> Inl e | Inr S2 \<Rightarrow> shell_loop fr cwd_name run S2)))"
  by auto
termination
  by (relation "measure (\<lambda>(_, _, _, S). length (sh_input S))")
    (auto simp: bindE_Inr_iff shell_step_input dest!: shell_read_shorter)

declare shell_loop.simps [simp del]

definition shell_main ::
  "literals \<Rightarrow> node \<Rightarrow> (cursor \<Rightarrow> nat) \<Rightarrow> u32 \<Rightarrow> u32 \<Rightarrow> str \<Rightarrow> shell_frame \<Rightarrow> shell \<Rightarrow> (int \<times> shell) result" where
  "shell_main L root data_of vfs_data vfs_owner cwd_name fr S =
     bindE (Dump user_libc root (sh_heap S)) (\<lambda>(listing, st).
     bindE (shell_loop fr cwd_name
         (system L root data_of vfs_data vfs_owner (f_argv_buffer fr) (f_argv fr) (f_arginfo fr) (f_buffer fr))
         (S\<lparr>sh_heap := st, sh_out := sh_out S @ listing\<rparr>)) (\<lambda>S.
     Inr (0, S)))"

section \<open>The first program\<close>

text \<open>
  \<open>map_page\<close>: the result of the system call; \<open>code\<close>: the address that \<open>NextPage\<close> takes for that of its caller; \<open>binary_start\<close> and \<open>binary_end\<close>: the linker's symbols; \<open>current\<close>: the handle of
  this task; \<open>frame_argv\<close> and \<open>frame_arginfo\<close>: where the structures for the second stage lie on the stack. The result is the
  exit code, what \<open>Dump\<close> prints and the request for the task of the second stage.
\<close>

definition kExitFailure :: int where "kExitFailure = - 1"

definition user_main ::
  "literals \<Rightarrow> nat \<Rightarrow> (u32 \<Rightarrow> u32) \<Rightarrow> (cursor \<Rightarrow> nat) \<Rightarrow> u32 \<Rightarrow> u32 \<Rightarrow> u32 \<Rightarrow> u32 \<Rightarrow> u32 \<Rightarrow> u32 \<Rightarrow> nat \<Rightarrow> user_heap \<Rightarrow>
    (int \<times> str \<times> task_request option \<times> user_heap) result" where
  "user_main L magic map_page data_of code binary_start binary_end current frame_argv frame_arginfo stack st =
     (let arg = rd32 (mem st) stack;
          initrd_data = wrap (arg + 4);
          heap_start = NextPage code in
      if map_page heap_start \<in> {- 1, - 2, - 3} then Inr (kExitFailure, [], None, st)
      else
        bindE (InitializeUserHeap (unat heap_start) (wrap (unat heap_start + 0x400000)) st) (\<lambda>st.
        assertE (binary_start < binary_end) ''&__binary_end > &__binary_start'' (
        let entry_binary_size = unat (binary_end - binary_start);
            raw_vfs_data = wrap (initrd_data + entry_binary_size) in
        bindE (ParseUSTAR magic (mem st) raw_vfs_data) (\<lambda>vfs.
        bindE (Dump user_libc vfs st) (\<lambda>(listing, st).
        bindE (getFile vfs [] (literal_bytes ''userboot-stage2'')) (\<lambda>file.
        case file of
          Some c \<Rightarrow> bindE (LoadElfProgram L (data_of c) (of_nat raw_vfs_data) current [] 0 frame_argv frame_arginfo st) (\<lambda>(rq, st).
            Inr (0, listing, Some rq, st))
        | None \<Rightarrow> Inr (0, listing, None, st)))))))"

section \<open>The second stage\<close>

text \<open>A flat binary is started where it lies: the address and size of the contents of its file, and the argument.\<close>

definition RunFlatUserBinary :: "node \<Rightarrow> (cursor \<Rightarrow> nat) \<Rightarrow> str \<Rightarrow> u32 \<Rightarrow> (u32 \<times> u32 \<times> u32) result" where
  "RunFlatUserBinary vfs data_of filename arg =
     bindE (getFile vfs [] filename) (\<lambda>file.
     case file of
       None \<Rightarrow> Inl (AssertFailed ''Could not find binary'')
     | Some c \<Rightarrow>
       bindE (deref vfs c) (\<lambda>f. Inr (of_nat (data_of c), of_nat (length (getContents f)), arg)))"

definition stage2_main ::
  "literals \<Rightarrow> node \<Rightarrow> (cursor \<Rightarrow> nat) \<Rightarrow> u32 \<Rightarrow> u32 \<Rightarrow> u32 \<Rightarrow> u32 \<Rightarrow> user_heap \<Rightarrow>
    (int \<times> (u32 \<times> u32 \<times> u32) list \<times> task_request option \<times> user_heap) result" where
  "stage2_main L root data_of vfs_data vfs_owner frame_argv frame_arginfo st =
     bindE (RunFlatUserBinary root data_of (literal_bytes ''test_user_program.bin'') 0) (\<lambda>b1.
     bindE (RunFlatUserBinary root data_of (literal_bytes ''test_user_program.bin'') 0) (\<lambda>b2.
     bindE (getFile root [] (literal_bytes ''shell'')) (\<lambda>file.
     case file of
       Some c \<Rightarrow> bindE (LoadElfProgram L (data_of c) vfs_data vfs_owner [] 0 frame_argv frame_arginfo st) (\<lambda>(rq, st).
         Inr (0, [b1, b2], Some rq, st))
     | None \<Rightarrow> Inr (0, [b1, b2], None, st))))"

section \<open>Reading a line\<close>

text \<open>Memory after a line has been typed at \<open>buffer\<close>.\<close>

definition typed_at :: "nat \<Rightarrow> str \<Rightarrow> mem \<Rightarrow> mem" where
  "typed_at buffer line m = (\<lambda>a. if buffer \<le> a \<and> a \<le> buffer + length line then (line @ [0]) ! (a - buffer) else m a)"

lemma typed_at_simps:
  "typed_at buffer [] m = m(buffer := 0)"
  "typed_at buffer (c # line) m = typed_at (buffer + 1) line (m(buffer := c))"
  by (auto simp: typed_at_def fun_eq_iff nth_Cons')

lemma typed_at_cstr: "0 \<notin> set line \<Longrightarrow> cstr (typed_at buffer line m) buffer line"
  by (auto simp: cstr_def typed_at_def nth_append in_set_conv_nth)

text \<open>A byte that can be part of a line.\<close>

definition line_char :: "u8 \<Rightarrow> bool" where
  "line_char c \<longleftrightarrow> sint c \<noteq> - 1 \<and> sint c \<noteq> CR"

lemma sint_13: "sint (0x0D :: u8) = 13"
  by simp

lemma DebugRead_line:
  assumes "list_all line_char line"
  shows "DebugRead buffer (line @ 0x0D # rest) m out = Inr (rest, typed_at buffer line m, out @ filter (\<lambda>c. c \<noteq> 0) line @ [0x0A])"
  using assms
proof (induction line arbitrary: buffer m out)
  case Nil
  show ?case by (subst DebugRead.simps) (simp add: getchar_def CR_def typed_at_simps putchar_def)
next
  case (Cons c line)
  then show ?case by (subst DebugRead.simps) (simp add: getchar_def line_char_def typed_at_simps putchar_def)
qed

text \<open>
  C38. The shell reads a line as it was typed: every character up to the carriage return is echoed and stored in
  order, a terminator follows, and the rest of the input is left for the next line. A line of up to 1023 characters stays in
  the buffer; a longer one does not, because nothing bounds the loop: the character at index 1024 is in
  the byte after the buffer.
\<close>

theorem DebugRead_bounds:
  assumes "list_all line_char line" "0 \<notin> set line"
  shows "\<exists>m'. DebugRead buffer (line @ 0x0D # rest) m out = Inr (rest, m', out @ line @ [0x0A]) \<and> cstr m' buffer line \<and>
    (\<forall>a. a < buffer \<or> buffer + length line < a \<longrightarrow> m' a = m a) \<and>
    (length line < kCmdBufferSize \<longrightarrow> (\<forall>a. a < buffer \<or> buffer + kCmdBufferSize \<le> a \<longrightarrow> m' a = m a)) \<and>
    (kCmdBufferSize < length line \<longrightarrow> m' (buffer + kCmdBufferSize) = line ! kCmdBufferSize)"
proof -
  have f: "filter (\<lambda>c. c \<noteq> 0) line = line" using assms(2) by (induction line) auto
  show ?thesis
    using DebugRead_line[OF assms(1), of buffer rest m out] typed_at_cstr[OF assms(2)] f
    by (intro exI[of _ "typed_at buffer line m"]) (auto simp: typed_at_def nth_append)
qed

theorem DebugRead_bounds_witness:
  "\<exists>m'. DebugRead 0x1000 [0x6C, 0x73, 0x0D, 0x78] (\<lambda>_. 7) [] = Inr ([0x78], m', [0x6C, 0x73, 0x0A]) \<and> cstr m' 0x1000 [0x6C, 0x73] \<and> m' 0x1003 = 7"
proof -
  have "list_all line_char [0x6C, 0x73]" by (simp add: line_char_def CR_def)
  from DebugRead_bounds[OF this, of "0x1000" "[0x78]" "\<lambda>_. 7" "[]"] show ?thesis by auto
qed

section \<open>A session\<close>

lemma literal_bytes_simps: "literal_bytes ''$ '' = [0x24, 0x20]" "literal_bytes ''exit'' = [0x65, 0x78, 0x69, 0x74]"
  by (simp_all add: literal_bytes_def)

lemma shell_prompt_root:
  obtains m where "shell_prompt fr [0x2F] S = Inr (S\<lparr>sh_heap := (sh_heap S)\<lparr>mem := m\<rparr>, sh_out := sh_out S @ [0x2F, 0x24, 0x20]\<rparr>)"
proof -
  let ?m = "(put_name (f_cwd_buf fr) [0x2F] 4 (mem (sh_heap S)))(f_cwd_buf fr + 4 + 255 := 0)"
  have "cstr ?m (f_cwd_buf fr) [0x2F]" by (simp add: cstr_def put_name_def)
  then have "string_at ?m (f_cwd_buf fr) = Inr [0x2F]" by (rule string_at_cstr)
  then show thesis using that[of ?m] by (simp add: shell_prompt_def getcwd_def literal_bytes_simps)
qed

lemma shell_round:
  assumes "sh_input S = line @ 0x0D # rest" "list_all line_char line" "0 \<notin> set line"
  obtains m where "bindE (shell_prompt fr [0x2F] S) (shell_read fr) =
      Inr (S\<lparr>sh_heap := (sh_heap S)\<lparr>mem := m\<rparr>, sh_input := rest, sh_out := sh_out S @ [0x2F, 0x24, 0x20] @ line @ [0x0A]\<rparr>)"
    "cstr m (f_buffer fr) line"
proof -
  obtain m0 where p: "shell_prompt fr [0x2F] S = Inr (S\<lparr>sh_heap := (sh_heap S)\<lparr>mem := m0\<rparr>, sh_out := sh_out S @ [0x2F, 0x24, 0x20]\<rparr>)"
    by (rule shell_prompt_root)
  have "filter (\<lambda>c. c \<noteq> 0) line = line" using assms(3) by (induction line) auto
  with DebugRead_line[OF assms(2), of "f_buffer fr" rest m0] p assms(1) typed_at_cstr[OF assms(3)] show thesis
    by (intro that[of "typed_at (f_buffer fr) line m0"]) (simp_all add: shell_read_def)
qed



end
