(* ===== verification/StackTrace.thy ===== *)
theory StackTrace
  imports Devices Allocator
begin

text \<open>
  Stack traces and panics: \<^verbatim>\<open>libc/stacktrace.cpp\<close>, \<^verbatim>\<open>kernel/panic.cpp\<close>. A frame is the saved frame pointer with the return
  address after it. The walk follows the frame pointers to null; on a chain that never reaches null it does not end.
\<close>

section \<open>Definitions\<close>

definition frame_line :: "nat \<Rightarrow> nat \<Rightarrow> printed" where
  "frame_line frame eip = Print (''{}) {}'' @ [CHR 0x0A]) [ArgU32 (of_nat frame), ArgHex32 (of_nat eip)]"

partial_function (option) PrintStackTrace_loop :: "mem \<Rightarrow> nat \<Rightarrow> nat \<Rightarrow> string \<Rightarrow> string result option" where
  "PrintStackTrace_loop m stack frame out =
     (if stack = 0 then Some (Inr out)
      else (case frame_line frame (rd32 m (stack + 4)) of
              (s, None) \<Rightarrow> PrintStackTrace_loop m (rd32 m stack) (frame + 1) (out @ s)
            | (s, Some e) \<Rightarrow> Some (Inl e)))"

definition PrintStackTrace :: "mem \<Rightarrow> nat \<Rightarrow> string result" where
  "PrintStackTrace m ebp = bindE (terminates (PrintStackTrace_loop m ebp 0 (''Stack trace:'' @ [CHR 0x0A]))) (\<lambda>r. r)"

text \<open>What a panic prints before it halts.\<close>

definition Panic :: "string \<Rightarrow> string \<Rightarrow> u32 \<Rightarrow> mem \<Rightarrow> nat \<Rightarrow> string result" where
  "Panic msg file_name line m ebp =
     (case Print (''PANIC({}) at {}:{}'' @ [CHR 0x0A]) [ArgStr msg, ArgStr file_name, ArgI32 line] of
        (s, Some e) \<Rightarrow> Inl e
      | (s, None) \<Rightarrow> bindE (PrintStackTrace m ebp) (\<lambda>t. Inr (s @ t)))"

section \<open>A chain of frames is printed in full\<close>

fun frames_at :: "mem \<Rightarrow> nat \<Rightarrow> nat list \<Rightarrow> bool" where
  "frames_at m stack [] \<longleftrightarrow> stack = 0"
| "frames_at m stack (eip # eips) \<longleftrightarrow> stack \<noteq> 0 \<and> rd32 m (stack + 4) = eip \<and> frames_at m (rd32 m stack) eips"

lemma frame_line_ok: "\<exists>s. frame_line frame eip = (s @ '') 0x'' @ PrintHex32 (of_nat eip) @ [CHR 0x0A], None) \<and> PrintDecimal_u32 (of_nat frame) = Inr s"
proof -
  obtain s where "PrintDecimal_u32 (of_nat frame) = Inr s" using PrintDecimal_u32_Inr by blast
  then show ?thesis by (simp add: frame_line_def formatP_def putP_def)
qed

lemma PrintStackTrace_loop_frames:
  assumes "frames_at m stack eips"
  shows "\<exists>text. PrintStackTrace_loop m stack k out = Some (Inr (out @ text)) \<and>
    text = concat (map (\<lambda>i. fst (frame_line (k + i) (eips ! i))) [0 ..< length eips])"
  using assms
proof (induction eips arbitrary: stack k out)
  case Nil
  then show ?case by (subst PrintStackTrace_loop.simps) simp
next
  case (Cons e es)
  obtain s where s: "frame_line k e = (s, None)" using frame_line_ok by blast
  have "PrintStackTrace_loop m stack k out = PrintStackTrace_loop m (rd32 m stack) (k + 1) (out @ s)"
    using Cons.prems by (subst PrintStackTrace_loop.simps) (simp add: s)
  moreover have "map (\<lambda>i. fst (frame_line (k + i) ((e # es) ! i))) [0 ..< length (e # es)] =
      s # map (\<lambda>i. fst (frame_line (k + 1 + i) (es ! i))) [0 ..< length es]"
    by (simp add: s upt_conv_Cons map_Suc_upt[symmetric] del: upt_Suc)
  ultimately show ?case using Cons.IH[of "rd32 m stack" "k + 1" "out @ s"] Cons.prems by simp
qed

text \<open>
  C37. A stack whose frame pointers lead to null is printed in full and the walk ends: one line for each
  frame, from the innermost out, numbered from 0, with the return address of the frame in eight hexadecimal digits. When a
  frame points to itself the walk does not end.
\<close>

theorem PrintStackTrace_correct:
  "(frames_at m ebp eips \<longrightarrow> PrintStackTrace m ebp = Inr (''Stack trace:'' @ [CHR 0x0A] @
       concat (map (\<lambda>i. fst (frame_line i (eips ! i))) [0 ..< length eips]))) \<and>
   (\<exists>s. fst (frame_line k eip) = s @ '') 0x'' @ PrintHex32 (of_nat eip) @ [CHR 0x0A] \<and> PrintDecimal_u32 (of_nat k) = Inr s) \<and>
   (ebp \<noteq> 0 \<longrightarrow> rd32 m ebp = ebp \<longrightarrow> PrintStackTrace m ebp = Inl Diverges)"
proof -
  have c: "\<not> (ebp \<noteq> 0 \<and> rd32 m ebp = ebp)" if "PrintStackTrace_loop m ebp k out = Some r" for k out r
  proof (rule PrintStackTrace_loop.raw_induct[where P = "\<lambda>m stack k out r. \<not> (stack \<noteq> 0 \<and> rd32 m stack = stack)", OF _ that])
    fix loop m stack frame out y
    assume ih: "\<And>m stack k out r. loop m stack k out = Some r \<Longrightarrow> \<not> (stack \<noteq> 0 \<and> rd32 m stack = stack)"
      and y: "(if stack = 0 then Some (Inr out)
        else (case frame_line frame (rd32 m (stack + 4)) of
                (s, None) \<Rightarrow> loop m (rd32 m stack) (frame + 1) (out @ s) | (s, Some e) \<Rightarrow> Some (Inl e))) = Some y"
    obtain s where "frame_line frame (rd32 m (stack + 4)) = (s, None)" using frame_line_ok by blast
    with y ih[of m stack "frame + 1" "out @ s" y] show "\<not> (stack \<noteq> 0 \<and> rd32 m stack = stack)" by auto
  qed
  then have "ebp \<noteq> 0 \<Longrightarrow> rd32 m ebp = ebp \<Longrightarrow> PrintStackTrace_loop m ebp 0 out = None" for out
    by (metis not_None_eq)
  then show ?thesis
    using PrintStackTrace_loop_frames[of m ebp eips 0] frame_line_ok[of k eip] by (auto simp: PrintStackTrace_def terminates_def)
qed

theorem PrintStackTrace_correct_witness:
  "PrintStackTrace ((\<lambda>_. 0)(0x1001 := 0x20, 0x1005 := 0x30, 0x2004 := 0x44)) 0x1000 =
     Inr (''Stack trace:'' @ [CHR 0x0A] @ ''0) 0x00003000'' @ [CHR 0x0A] @ ''1) 0x00000044'' @ [CHR 0x0A])"
proof -
  let ?m = "(\<lambda>_. 0 :: u8)(0x1001 := 0x20, 0x1005 := 0x30, 0x2004 := 0x44)"
  have "frames_at ?m 0x1000 [0x3000, 0x44]" by (simp add: rd32_def)
  moreover have "frame_line 0 0x3000 = (''0) 0x00003000'' @ [CHR 0x0A], None)" "frame_line 1 0x44 = (''1) 0x00000044'' @ [CHR 0x0A], None)"
    by code_simp+
  ultimately show ?thesis using PrintStackTrace_correct[of ?m "0x1000" "[0x3000, 0x44]" 0 0] by simp
qed

end
