(* ===== verification/Terminal.thy ===== *)
theory Terminal
  imports KernelStart
begin

text \<open>
  The terminal, \<^verbatim>\<open>kernel/terminal.cpp\<close> and \<^verbatim>\<open>kernel/include/terminal.h\<close>: a cursor over a grid of characters, shown in the text
  memory of the graphics card or drawn with a font into a frame buffer, and copied to the serial port. The font is data linked
  into the kernel and a parameter; so is \<open>serial::Put\<close>, which \<^verbatim>\<open>serial.h\<close> does not declare.
\<close>

unbundle bit_operations_syntax

section \<open>State\<close>

datatype vga_color =
    VGA_COLOR_BLACK | VGA_COLOR_BLUE | VGA_COLOR_GREEN | VGA_COLOR_CYAN | VGA_COLOR_RED | VGA_COLOR_MAGENTA
  | VGA_COLOR_BROWN | VGA_COLOR_LIGHT_GREY | VGA_COLOR_DARK_GREY | VGA_COLOR_LIGHT_BLUE | VGA_COLOR_LIGHT_GREEN
  | VGA_COLOR_LIGHT_CYAN | VGA_COLOR_LIGHT_RED | VGA_COLOR_LIGHT_MAGENTA | VGA_COLOR_LIGHT_BROWN | VGA_COLOR_WHITE

fun vga_code :: "vga_color \<Rightarrow> u8" where
  "vga_code VGA_COLOR_BLACK = 0" | "vga_code VGA_COLOR_BLUE = 1" | "vga_code VGA_COLOR_GREEN = 2"
| "vga_code VGA_COLOR_CYAN = 3" | "vga_code VGA_COLOR_RED = 4" | "vga_code VGA_COLOR_MAGENTA = 5"
| "vga_code VGA_COLOR_BROWN = 6" | "vga_code VGA_COLOR_LIGHT_GREY = 7" | "vga_code VGA_COLOR_DARK_GREY = 8"
| "vga_code VGA_COLOR_LIGHT_BLUE = 9" | "vga_code VGA_COLOR_LIGHT_GREEN = 10" | "vga_code VGA_COLOR_LIGHT_CYAN = 11"
| "vga_code VGA_COLOR_LIGHT_RED = 12" | "vga_code VGA_COLOR_LIGHT_MAGENTA = 13" | "vga_code VGA_COLOR_LIGHT_BROWN = 14"
| "vga_code VGA_COLOR_WHITE = 15"

text \<open>
  \<open>tm_mode\<close> stands for the two function pointers, which are set together. \<open>tm_vga\<close> are the cells from \<open>Buffer\<close> on, \<open>tm_fb\<close> is
  memory as \<open>GFXBuffer\<close> points into it, \<open>tm_hw\<close> takes the writes to the ports of the card.
\<close>

datatype putat_func = TextPutAt | GraphicsPutAt

record terminal =
  tm_mode :: "putat_func option"
  tm_numrows :: u16
  tm_numcols :: u16
  tm_row :: u16
  tm_col :: u16
  tm_vga :: "nat \<Rightarrow> u16"
  tm_hw :: tables
  tm_serial :: serial_port
  PixelWidth :: u32
  PixelHeight :: u32
  Pitch :: u32
  GFXBuffer :: u32
  UsingGraphics :: bool
  tm_fb :: mem

section \<open>Text mode\<close>

definition kVgaWidth :: u8 where "kVgaWidth = 80"
definition kVgaHeight :: u8 where "kVgaHeight = 25"

definition VgaEntryColor :: "vga_color \<Rightarrow> vga_color \<Rightarrow> u8" where
  "VgaEntryColor fg bg = vga_code fg OR push_bit 4 (vga_code bg)"

definition VgaEntry :: "u8 \<Rightarrow> u8 \<Rightarrow> u16" where
  "VgaEntry c color = ucast c OR push_bit 8 (ucast color)"

definition Color :: u8 where "Color = VgaEntryColor VGA_COLOR_LIGHT_GREY VGA_COLOR_BLACK"

definition GetCursorLoc :: "u16 \<Rightarrow> u16 \<Rightarrow> terminal \<Rightarrow> u16" where
  "GetCursorLoc r c T = r * tm_numcols T + c"

definition copy_cells :: "nat \<Rightarrow> nat \<Rightarrow> nat \<Rightarrow> (nat \<Rightarrow> u16) \<Rightarrow> nat \<Rightarrow> u16" where
  "copy_cells dst src n b = (\<lambda>i. if dst \<le> i \<and> i < dst + n then b (src + (i - dst)) else b i)"

definition text_Scroll :: "terminal \<Rightarrow> terminal" where
  "text_Scroll T =
     (let w = unat kVgaWidth; h = unat kVgaHeight;
          b = fold (\<lambda>r. copy_cells (r * w) (r * w + w) w) [0 ..< h - 1] (tm_vga T);
          attribute = VgaEntryColor VGA_COLOR_WHITE VGA_COLOR_BLACK;
          blank = VgaEntry 0x20 attribute;
          b = fold (\<lambda>i b. b(i := blank)) [(h - 1) * w ..< h * w] b in
      T\<lparr>tm_vga := b, tm_row := ucast kVgaHeight - 1\<rparr>)"

definition text_HandleNewline :: "terminal \<Rightarrow> terminal" where
  "text_HandleNewline T =
     (let T = T\<lparr>tm_col := 0, tm_row := tm_row T + 1\<rparr> in
      if tm_row T = tm_numrows T then text_Scroll T else T)"

definition text_MoveCursor :: "u16 \<Rightarrow> u16 \<Rightarrow> terminal \<Rightarrow> terminal" where
  "text_MoveCursor r c T =
     (let T = T\<lparr>tm_row := r, tm_col := c\<rparr>;
          cursor_loc = GetCursorLoc r c T in
      T\<lparr>tm_hw := Write8 0x3D5 (ucast cursor_loc) (Write8 0x3D4 15 (Write8 0x3D5 (ucast (drop_bit 8 cursor_loc)) (Write8 0x3D4 14 (tm_hw T))))\<rparr>)"

definition text_PutAt :: "u8 \<Rightarrow> u16 \<Rightarrow> u16 \<Rightarrow> terminal \<Rightarrow> terminal" where
  "text_PutAt ch r c T =
     (let T = T\<lparr>tm_row := r, tm_col := c\<rparr>;
          index = GetCursorLoc (tm_row T) (tm_col T) T;
          T = (if ch \<noteq> 0x0A
               then let T = T\<lparr>tm_vga := (tm_vga T)(unat index := VgaEntry ch Color), tm_col := tm_col T + 1\<rparr> in
                    if tm_col T = ucast kVgaWidth then text_HandleNewline T else T
               else text_HandleNewline T) in
      text_MoveCursor (ucast (ucast (tm_row T) :: u8)) (ucast (ucast (tm_col T) :: u8)) T)"

section \<open>Graphics mode\<close>

definition kLinePixelHeight :: u16 where "kLinePixelHeight = 16"
definition kLinePixelWidth :: u16 where "kLinePixelWidth = 8"
definition kWhite :: u32 where "kWhite = 0xFFFFFFFF"
definition kBlack :: u32 where "kBlack = 0"

text \<open>The header of the font, and the bytes of the file that starts with it.\<close>

record PSF_font =
  f_headersize :: u32
  f_numglyph :: u32
  f_bytesperglyph :: u32
  f_height :: u32
  f_width :: u32
  f_bytes :: "nat \<Rightarrow> u8"

definition BytesPerLine :: "PSF_font \<Rightarrow> u32" where
  "BytesPerLine kFont = (f_width kFont + 7) div 8"

text \<open>An offset into the file: \<open>char\<close> is signed, and the first glyph stands for characters that have none.\<close>

definition getGlyph :: "PSF_font \<Rightarrow> u8 \<Rightarrow> u32" where
  "getGlyph kFont c = f_headersize kFont + (if 0 < sint c \<and> ucast c < f_numglyph kFont then ucast c else 0) * f_bytesperglyph kFont"

definition GFXCharOffset :: "PSF_font \<Rightarrow> u32 \<Rightarrow> u32 \<Rightarrow> terminal \<Rightarrow> u32" where
  "GFXCharOffset kFont r c T = (r * f_height kFont * Pitch T) + (c * (f_width kFont + 1) * 4)"

definition GFXGetPixelRow :: "PSF_font \<Rightarrow> u16 \<Rightarrow> terminal \<Rightarrow> u32" where
  "GFXGetPixelRow kFont r T = GFXBuffer T + GFXCharOffset kFont (ucast r) 0 T"

text \<open>One row of the glyph, then all rows. The shift that makes the mask is undefined for widths of 0 or more than 32.\<close>

definition draw_pixel :: "u32 \<Rightarrow> u8 \<Rightarrow> u8 \<Rightarrow> u32 \<Rightarrow> u32 \<Rightarrow> u32 \<times> u32 \<times> mem \<Rightarrow> u32 \<times> u32 \<times> mem" where
  "draw_pixel framebuffer c glyph fg bg = (\<lambda>(mask, line, m).
     (drop_bit 1 mask, line + 4,
      wr32 (unat (framebuffer + line)) (unat (if c = 0 then bg else if ucast glyph AND mask \<noteq> 0 then fg else bg)) m))"

definition draw_row :: "PSF_font \<Rightarrow> terminal \<Rightarrow> u8 \<Rightarrow> u32 \<Rightarrow> u32 \<Rightarrow> u32 \<times> u32 \<times> mem \<Rightarrow> u32 \<times> u32 \<times> mem" where
  "draw_row kFont T c fg bg = (\<lambda>(glyph, offs, m).
     (glyph + BytesPerLine kFont, offs + Pitch T,
      snd (snd (((draw_pixel (GFXBuffer T) c (f_bytes kFont (unat glyph)) fg bg) ^^ unat (f_width kFont))
        (push_bit (unat (f_width kFont) - 1) 1, offs, m)))))"

definition GFXPutCharAt :: "PSF_font \<Rightarrow> u8 \<Rightarrow> u16 \<Rightarrow> u16 \<Rightarrow> u32 \<Rightarrow> u32 \<Rightarrow> terminal \<Rightarrow> terminal result" where
  "GFXPutCharAt kFont c r cl fg bg T =
     assertE (isprint c) ''Non-prontable character'' (
     if f_height kFont \<noteq> 0 \<and> (f_width kFont = 0 \<or> 32 < f_width kFont) then Inl (Undefined ''shift by the width of the type'')
     else Inr (T\<lparr>tm_fb := snd (snd ((draw_row kFont T c fg bg ^^ unat (f_height kFont))
                 (getGlyph kFont c, GFXCharOffset kFont (ucast r) (ucast cl) T, tm_fb T)))\<rparr>))"

definition GFXFill :: "u32 \<Rightarrow> terminal \<Rightarrow> terminal" where
  "GFXFill color T =
     T\<lparr>tm_fb := fold (\<lambda>r. fold (\<lambda>c. wr32 (unat (GFXBuffer T + 4 * (of_nat c + of_nat r * PixelWidth T))) (unat color))
                  [0 ..< unat (PixelWidth T)]) [0 ..< unat (PixelHeight T)] (tm_fb T)\<rparr>"

definition gfx_MoveCursor :: "u16 \<Rightarrow> u16 \<Rightarrow> terminal \<Rightarrow> terminal" where
  "gfx_MoveCursor r c T = T\<lparr>tm_row := r, tm_col := c\<rparr>"

definition gfx_Scroll :: "PSF_font \<Rightarrow> terminal \<Rightarrow> terminal result" where
  "gfx_Scroll kFont T =
     (let height = tm_numrows T; width = tm_numcols T;
          m = fold (\<lambda>r m. let line = GFXGetPixelRow kFont (of_nat r) T; nextline = GFXGetPixelRow kFont (of_nat r + 1) T in
                memcpy (unat line) (unat nextline) (unat (nextline - line)) m) [0 ..< unat height - 1] (tm_fb T) in
      bindE (foldE (\<lambda>c. GFXPutCharAt kFont 0x20 (height - 1) (of_nat c) kBlack kWhite) [0 ..< unat width] (T\<lparr>tm_fb := m\<rparr>)) (\<lambda>T.
      Inr (T\<lparr>tm_row := height - 1\<rparr>)))"

definition gfx_HandleNewline :: "PSF_font \<Rightarrow> terminal \<Rightarrow> terminal result" where
  "gfx_HandleNewline kFont T =
     (let T = T\<lparr>tm_col := 0, tm_row := tm_row T + 1\<rparr> in
      if tm_numrows T \<le> tm_row T then gfx_Scroll kFont T else Inr T)"

definition gfx_PutAt :: "PSF_font \<Rightarrow> u8 \<Rightarrow> u16 \<Rightarrow> u16 \<Rightarrow> terminal \<Rightarrow> terminal result" where
  "gfx_PutAt kFont ch r c T =
     (let T = T\<lparr>tm_row := r, tm_col := c\<rparr> in
      if ch \<noteq> 0x0A
      then bindE (GFXPutCharAt kFont ch (tm_row T) (tm_col T) kBlack kWhite T) (\<lambda>T.
           let T = T\<lparr>tm_col := tm_col T + 1\<rparr> in
           if tm_numcols T \<le> tm_col T then gfx_HandleNewline kFont T else Inr T)
      else gfx_HandleNewline kFont T)"

section \<open>The terminal\<close>

definition isInitialized :: "terminal \<Rightarrow> bool" where
  "isInitialized T \<longleftrightarrow> tm_mode T \<noteq> None"

definition Terminal_Init :: "putat_func \<Rightarrow> u16 \<Rightarrow> u16 \<Rightarrow> terminal \<Rightarrow> terminal result" where
  "Terminal_Init mode nrows ncols T =
     assertE (\<not> isInitialized T) ''Already set up the terminal'' (
     Inr (T\<lparr>tm_mode := Some mode, tm_numrows := nrows, tm_numcols := ncols, tm_serial := serial_Initialize (tm_serial T)\<rparr>))"

definition putat :: "PSF_font \<Rightarrow> u8 \<Rightarrow> u16 \<Rightarrow> u16 \<Rightarrow> terminal \<Rightarrow> terminal result" where
  "putat kFont ch r c T =
     (case tm_mode T of
        None \<Rightarrow> Inl (Undefined ''null function pointer'')
      | Some TextPutAt \<Rightarrow> Inr (text_PutAt ch r c T)
      | Some GraphicsPutAt \<Rightarrow> gfx_PutAt kFont ch r c T)"

definition movecursor :: "u16 \<Rightarrow> u16 \<Rightarrow> terminal \<Rightarrow> terminal result" where
  "movecursor r c T =
     (case tm_mode T of
        None \<Rightarrow> Inl (Undefined ''null function pointer'')
      | Some TextPutAt \<Rightarrow> Inr (text_MoveCursor r c T)
      | Some GraphicsPutAt \<Rightarrow> Inr (gfx_MoveCursor r c T))"

text \<open>The counters of \<open>Clear\<close> have eight bits, the numbers of rows and columns sixteen.\<close>

partial_function (option) Clear_cols :: "PSF_font \<Rightarrow> u8 \<Rightarrow> u8 \<Rightarrow> terminal \<Rightarrow> terminal result option" where
  "Clear_cols kFont r c T =
     (if unat c < unat (tm_numcols T)
      then (case putat kFont 0x20 (ucast r) (ucast c) T of
              Inl e \<Rightarrow> Some (Inl e)
            | Inr T \<Rightarrow> Clear_cols kFont r (c + 1) T)
      else Some (Inr T))"

partial_function (option) Clear_rows :: "PSF_font \<Rightarrow> u8 \<Rightarrow> terminal \<Rightarrow> terminal result option" where
  "Clear_rows kFont r T =
     (if unat r < unat (tm_numrows T)
      then (case Clear_cols kFont r 0 T of
              None \<Rightarrow> None
            | Some (Inl e) \<Rightarrow> Some (Inl e)
            | Some (Inr T) \<Rightarrow> Clear_rows kFont (r + 1) T)
      else Some (Inr T))"

definition Terminal_Clear :: "PSF_font \<Rightarrow> terminal \<Rightarrow> terminal result" where
  "Terminal_Clear kFont T = bindE (bindE (terminates (Clear_rows kFont 0 T)) (\<lambda>r. r)) (movecursor 0 0)"

definition Terminal_Put :: "PSF_font \<Rightarrow> (u8 \<Rightarrow> serial_port \<Rightarrow> serial_port) \<Rightarrow> u8 \<Rightarrow> terminal \<Rightarrow> terminal result" where
  "Terminal_Put kFont serial_put c T =
     bindE (putat kFont c (tm_row T) (tm_col T) T) (\<lambda>T. Inr (T\<lparr>tm_serial := serial_put c (tm_serial T)\<rparr>))"

definition Write_size :: "PSF_font \<Rightarrow> (u8 \<Rightarrow> serial_port \<Rightarrow> serial_port) \<Rightarrow> u8 list \<Rightarrow> terminal \<Rightarrow> terminal result" where
  "Write_size kFont serial_put = foldE (Terminal_Put kFont serial_put)"

text \<open>The characters are put one by one before the error, if there is one.\<close>

definition WriteF :: "PSF_font \<Rightarrow> (u8 \<Rightarrow> serial_port \<Rightarrow> serial_port) \<Rightarrow> string \<Rightarrow> print_arg list \<Rightarrow> terminal \<Rightarrow> terminal result" where
  "WriteF kFont serial_put fmt args T =
     (case Print fmt args of
        (out, e) \<Rightarrow> bindE (Write_size kFont serial_put (bytes_of out) T) (\<lambda>T. case e of None \<Rightarrow> Inr T | Some e \<Rightarrow> Inl e))"

section \<open>Choosing a terminal\<close>

definition UseTextTerminal :: "terminal \<Rightarrow> terminal result" where
  "UseTextTerminal = Terminal_Init TextPutAt (ucast kVgaHeight) (ucast kVgaWidth)"

definition UseGraphicsTerminalPhysical :: "PSF_font \<Rightarrow> Multiboot \<Rightarrow> terminal \<Rightarrow> terminal result" where
  "UseGraphicsTerminalPhysical kFont multiboot T =
     (let T = T\<lparr>GFXBuffer := ucast (framebuffer_addr multiboot), PixelWidth := framebuffer_width multiboot, PixelHeight := framebuffer_height multiboot,
            Pitch := framebuffer_pitch multiboot\<rparr>;
          T = GFXFill kWhite T in
      bindE (Terminal_Init GraphicsPutAt (ucast (PixelHeight T div ucast kLinePixelHeight)) (ucast (PixelWidth T div ucast kLinePixelWidth)) T) (\<lambda>T.
      let T = T\<lparr>UsingGraphics := True\<rparr> in
      assertE (f_height kFont = 16) ''Font height changed!'' (
      assertE (f_width kFont = 8) ''Font width changed!'' (
      Inr T))))"

definition GFX_MEMORY_START :: u32 where "GFX_MEMORY_START = 0x01000000"

definition UseGraphicsTerminalVirtual :: "terminal \<times> paging \<Rightarrow> (terminal \<times> paging) result" where
  "UseGraphicsTerminalVirtual = (\<lambda>(T, s).
     bindE (AddPage KernelPD GFX_MEMORY_START (GFXBuffer T) 0 False s) (\<lambda>s.
     Inr (T\<lparr>GFXBuffer := GFX_MEMORY_START\<rparr>, s)))"

definition UseTextTerminalVirtual :: "paging \<Rightarrow> paging result" where
  "UseTextTerminalVirtual = AddPage KernelPD 0 (PageAddr4M (PageIndex4M 0xB8000)) 0 False"

end
