(* ===== verification/TerminalProperties.thy ===== *)
theory TerminalProperties
  imports Terminal
begin

text \<open>
  What the terminal guarantees. In text mode it implements a grid of 25 rows with a cursor that
  scrolls; in graphics mode a character is drawn pixel by pixel as its glyph says.
\<close>

unbundle bit_operations_syntax

section \<open>The grid\<close>

type_synonym grid = "u16 list list \<times> nat \<times> nat"

definition blank_row :: "u16 list" where
  "blank_row = replicate 80 (VgaEntry 0x20 (VgaEntryColor VGA_COLOR_WHITE VGA_COLOR_BLACK))"

definition grid_newline :: "grid \<Rightarrow> grid" where
  "grid_newline = (\<lambda>(rows, r, c). if r + 1 = 25 then (tl rows @ [blank_row], 24, 0) else (rows, r + 1, 0))"

definition grid_put :: "u8 \<Rightarrow> grid \<Rightarrow> grid" where
  "grid_put ch = (\<lambda>(rows, r, c).
     if ch = 0x0A then grid_newline (rows, r, c)
     else let rows = rows[r := (rows ! r)[c := VgaEntry ch Color]] in
          if c + 1 = 80 then grid_newline (rows, r, c) else (rows, r, c + 1))"

text \<open>The grid a terminal in text mode shows, and when it is one.\<close>

definition screen :: "terminal \<Rightarrow> u16 list list" where
  "screen T = map (\<lambda>r. map (\<lambda>c. tm_vga T (80 * r + c)) [0 ..< 80]) [0 ..< 25]"

definition grid_of :: "terminal \<Rightarrow> grid" where
  "grid_of T = (screen T, unat (tm_row T), unat (tm_col T))"

definition text_wf :: "terminal \<Rightarrow> bool" where
  "text_wf T \<longleftrightarrow> tm_mode T = Some TextPutAt \<and> tm_numrows T = 25 \<and> tm_numcols T = 80 \<and> tm_row T < 25 \<and> tm_col T < 80"

section \<open>Scrolling\<close>

lemma copy_rows:
  "fold (\<lambda>r. copy_cells (r * 80) (r * 80 + 80) 80) [0 ..< n] b = (\<lambda>i. if i < 80 * n then b (i + 80) else b i)"
proof (induction n)
  case (Suc n)
  show ?case unfolding upt_Suc_append[OF le0] fold_append comp_apply Suc.IH
    by (rule ext) (auto simp: copy_cells_def add.commute)
qed simp

lemma fill_cells: "fold (\<lambda>i b. b(i := x)) xs b = (\<lambda>i. if i \<in> set xs then x else b i)"
  by (induction xs arbitrary: b) (auto simp: fun_eq_iff)

lemma vga_text_Scroll:
  "tm_vga (text_Scroll T) i = (if i < 1920 then tm_vga T (i + 80)
     else if i < 2000 then VgaEntry 0x20 (VgaEntryColor VGA_COLOR_WHITE VGA_COLOR_BLACK) else tm_vga T i)"
  by (simp add: text_Scroll_def kVgaWidth_def kVgaHeight_def copy_rows fill_cells Let_def)

lemma screen_text_Scroll: "screen (text_Scroll T) = tl (screen T) @ [blank_row]"
proof -
  have "screen (text_Scroll T) = map (\<lambda>r. map (\<lambda>c. tm_vga (text_Scroll T) (80 * r + c)) [0 ..< 80]) ([0 ..< 24] @ [24])"
    using upt_Suc_append[of 0 24] by (simp add: screen_def)
  also have "\<dots> = map (\<lambda>r. map (\<lambda>c. tm_vga T (80 * Suc r + c)) [0 ..< 80]) [0 ..< 24] @ [blank_row]"
    by (auto simp: vga_text_Scroll blank_row_def map_replicate_const[symmetric] algebra_simps intro!: nth_equalityI)
  also have "map (\<lambda>r. map (\<lambda>c. tm_vga T (80 * Suc r + c)) [0 ..< 80]) [0 ..< 24] = tl (screen T)"
    unfolding screen_def by (rule nth_equalityI) (simp_all add: nth_tl)
  finally show ?thesis .
qed

section \<open>Text mode implements the grid\<close>

lemma screen_nth: "r < 25 \<Longrightarrow> c < 80 \<Longrightarrow> screen T ! r ! c = tm_vga T (80 * r + c)"
  by (simp add: screen_def)

lemma length_screen [simp]: "length (screen T) = 25" "r < 25 \<Longrightarrow> length (screen T ! r) = 80"
  by (simp_all add: screen_def)

lemma screen_cong: "tm_vga T' = tm_vga T \<Longrightarrow> screen T' = screen T"
  by (simp add: screen_def)

lemma screen_update:
  assumes "r < 25" "c < 80"
  shows "screen (T\<lparr>tm_vga := (tm_vga T)(80 * r + c := x)\<rparr>) = (screen T)[r := (screen T ! r)[c := x]]"
proof -
  have "(80 * i + j = 80 * r + c) = (i = r \<and> j = c)" if "j < 80" for i j
  proof
    assume e: "80 * i + j = 80 * r + c"
    have "(80 * i + j) div 80 = (80 * r + c) div 80" "(80 * i + j) mod 80 = (80 * r + c) mod 80" unfolding e by simp_all
    then show "i = r \<and> j = c" using that assms(2) by simp
  qed simp
  then show ?thesis using assms by (auto simp: screen_def nth_list_update intro!: nth_equalityI)
qed

lemma cursor_index: "r < 25 \<Longrightarrow> c < 80 \<Longrightarrow> unat (r * 80 + c :: u16) = 80 * unat r + unat c"
proof -
  assume a: "r < 25" "c < 80"
  then have "unat r < 25" "unat c < 80" by (simp_all add: word_less_nat_alt)
  then show ?thesis by (simp add: unat_word_ariths)
qed

text \<open>What every step in text mode keeps.\<close>

definition text_step :: "terminal \<Rightarrow> terminal \<Rightarrow> bool" where
  "text_step T T' \<longleftrightarrow> text_wf T' \<and> (\<forall>i \<ge> 2000. tm_vga T' i = tm_vga T i) \<and> tm_serial T' = tm_serial T"

lemma text_HandleNewline_ok:
  assumes "tm_mode T = Some TextPutAt" "tm_numrows T = 25" "tm_numcols T = 80" "tm_row T < 25"
  shows "text_step T (text_HandleNewline T) \<and> grid_of (text_HandleNewline T) = grid_newline (screen T, unat (tm_row T), c)"
proof (cases "tm_row T = 24")
  case True
  have s: "screen (text_Scroll (T\<lparr>tm_col := 0, tm_row := 25\<rparr>)) = tl (screen T) @ [blank_row]"
    unfolding screen_text_Scroll by (simp add: screen_def)
  show ?thesis using True assms s
    by (simp add: text_HandleNewline_def text_step_def text_wf_def grid_of_def grid_newline_def vga_text_Scroll)
      (simp add: text_Scroll_def Let_def kVgaHeight_def)
next
  case False
  have "unat (tm_row T) < 25" "unat (tm_row T) \<noteq> 24" using False assms(4) by (auto simp: word_less_nat_alt word_unat_eq_iff)
  then have u: "unat (tm_row T + 1) = unat (tm_row T) + 1" "unat (tm_row T) + 1 < 25" by (simp_all add: unat_word_ariths)
  then have "tm_row T + 1 \<noteq> 25" "tm_row T + 1 < 25" by (auto simp: word_less_nat_alt)
  then show ?thesis using u assms
    by (simp add: text_HandleNewline_def text_step_def text_wf_def grid_of_def grid_newline_def Let_def screen_def)
qed

lemma ucast_u8_id: "unat x < 256 \<Longrightarrow> ucast (ucast x :: u8) = (x :: u16)"
  by (simp add: word_unat_eq_iff unsigned_ucast_eq take_bit_eq_mod unat_mod_distrib)

lemma text_MoveCursor_ok:
  assumes "text_wf T"
  shows "let T' = text_MoveCursor (ucast (ucast (tm_row T) :: u8)) (ucast (ucast (tm_col T) :: u8)) T in
    text_step T T' \<and> grid_of T' = grid_of T"
proof -
  have "unat (tm_row T) < 25" "unat (tm_col T) < 80" using assms by (simp_all add: text_wf_def word_less_nat_alt)
  then have "ucast (ucast (tm_row T) :: u8) = tm_row T" "ucast (ucast (tm_col T) :: u8) = tm_col T"
    by (simp_all add: ucast_u8_id)
  then show ?thesis using assms by (simp add: text_MoveCursor_def text_step_def text_wf_def grid_of_def screen_def Let_def)
qed

lemma text_PutAt_ok:
  assumes wf: "text_wf T"
  shows "text_step T (text_PutAt ch (tm_row T) (tm_col T) T) \<and>
    grid_of (text_PutAt ch (tm_row T) (tm_col T) T) = grid_put ch (grid_of T)"
proof -
  let ?r = "tm_row T" and ?c = "tm_col T"
  have T: "tm_mode T = Some TextPutAt" "tm_numrows T = 25" "tm_numcols T = 80" "?r < 25" "?c < 80" using wf by (auto simp: text_wf_def)
  have n: "unat ?r < 25" "unat ?c < 80" using T by (simp_all add: word_less_nat_alt)
  have c1: "unat (?c + 1) = unat ?c + 1" using n by (simp add: unat_word_ariths)
  define U where "U = T\<lparr>tm_vga := (tm_vga T)(80 * unat ?r + unat ?c := VgaEntry ch Color), tm_col := ?c + 1\<rparr>"
  define V where "V = (if ch \<noteq> 0x0A then if tm_col U = 80 then text_HandleNewline U else U else text_HandleNewline T)"
  have scr: "screen U = (screen T)[unat ?r := (screen T ! unat ?r)[unat ?c := VgaEntry ch Color]]"
    unfolding screen_update[OF n, symmetric] U_def by (rule screen_cong) simp
  have keep: "\<forall>i \<ge> 2000. tm_vga U i = tm_vga T i" "tm_serial U = tm_serial T" using n by (auto simp: U_def)
  have e: "(tm_col U = 80) = (unat ?c + 1 = 80)" using c1 by (simp add: U_def word_unat_eq_iff)
  have V: "text_step T V \<and> grid_of V = grid_put ch (grid_of T)"
  proof (cases "ch = 0x0A")
    case True
    then show ?thesis using text_HandleNewline_ok[OF T(1-4)] by (simp add: V_def grid_put_def grid_of_def)
  next
    case nl: False
    show ?thesis
    proof (cases "tm_col U = 80")
      case True
      have "tm_mode U = Some TextPutAt" "tm_numrows U = 25" "tm_numcols U = 80" "tm_row U < 25" "tm_row U = tm_row T" using T by (simp_all add: U_def)
      with text_HandleNewline_ok[OF this(1-4)] keep True e nl scr show ?thesis
        by (simp add: V_def text_step_def grid_put_def grid_of_def Let_def)
    next
      case False
      have "tm_col U < 80" using False e n c1 by (simp add: U_def word_less_nat_alt)
      with False nl keep scr e c1 T show ?thesis
        by (simp add: V_def text_step_def text_wf_def grid_put_def grid_of_def Let_def) (simp add: U_def)
    qed
  qed
  have "text_PutAt ch ?r ?c T = text_MoveCursor (ucast (ucast (tm_row V) :: u8)) (ucast (ucast (tm_col V) :: u8)) V"
    using cursor_index[OF T(4,5)] T(3) by (simp add: text_PutAt_def V_def U_def GetCursorLoc_def kVgaWidth_def Let_def)
  with text_MoveCursor_ok[of V] V show ?thesis by (simp add: text_step_def Let_def)
qed

lemma Write_text_ok:
  assumes "text_wf T"
  shows "\<exists>T'. Write_size kFont serial_put cs T = Inr T' \<and> text_wf T' \<and> grid_of T' = fold grid_put cs (grid_of T) \<and>
    (\<forall>i \<ge> 2000. tm_vga T' i = tm_vga T i) \<and> tm_serial T' = fold serial_put cs (tm_serial T)"
  using assms
proof (induction cs arbitrary: T)
  case Nil
  then show ?case by (simp add: Write_size_def)
next
  case (Cons ch cs)
  let ?T = "(text_PutAt ch (tm_row T) (tm_col T) T)\<lparr>tm_serial := serial_put ch (tm_serial T)\<rparr>"
  note p = text_PutAt_ok[OF Cons.prems, of ch]
  have "text_wf ?T" "grid_of ?T = grid_put ch (grid_of T)" "\<forall>i \<ge> 2000. tm_vga ?T i = tm_vga T i"
    using p by (auto simp: text_step_def text_wf_def grid_of_def screen_def)
  moreover have "Write_size kFont serial_put (ch # cs) T = Write_size kFont serial_put cs ?T"
    using Cons.prems p by (simp add: Write_size_def Terminal_Put_def putat_def text_wf_def text_step_def)
  ultimately show ?case using Cons.IH[of ?T] by auto
qed

section \<open>Lines at the bottom of the screen\<close>

text \<open>The row that shows a line.\<close>

definition shown_row :: "u8 list \<Rightarrow> u16 list" where
  "shown_row line = map (\<lambda>c. VgaEntry c Color) line @ drop (length line) blank_row"

definition line_ok :: "u8 list \<Rightarrow> bool" where
  "line_ok line \<longleftrightarrow> length line < 80 \<and> 0x0A \<notin> set line"

lemma grid_line:
  assumes "r < length rows" "length (rows ! r) = 80" "c + length line < 80" "0x0A \<notin> set line"
  shows "fold grid_put line (rows, r, c) =
    (rows[r := take c (rows ! r) @ map (\<lambda>c. VgaEntry c Color) line @ drop (c + length line) (rows ! r)], r, c + length line)"
  using assms
proof (induction line arbitrary: c rows)
  case (Cons ch line)
  let ?rows = "rows[r := (rows ! r)[c := VgaEntry ch Color]]"
  have "grid_put ch (rows, r, c) = (?rows, r, c + 1)" using Cons.prems by (simp add: grid_put_def)
  moreover have "take (c + 1) (?rows ! r) @ map (\<lambda>c. VgaEntry c Color) line @ drop (c + 1 + length line) (?rows ! r) =
      take c (rows ! r) @ map (\<lambda>c. VgaEntry c Color) (ch # line) @ drop (c + length (ch # line)) (rows ! r)"
    using Cons.prems by (simp add: take_Suc_conv_app_nth)
  ultimately show ?case using Cons.IH[of ?rows "c + 1"] Cons.prems by simp
qed simp

lemma grid_line_bottom:
  assumes "length b = 24" "line_ok line"
  shows "fold grid_put (line @ [0x0A]) (b @ [blank_row], 24, 0) = ((tl b @ [shown_row line]) @ [blank_row], 24, 0)"
proof -
  have l: "length blank_row = 80" by (simp add: blank_row_def)
  have "fold grid_put line (b @ [blank_row], 24, 0) = (b @ [shown_row line], 24, length line)"
    using grid_line[of 24 "b @ [blank_row]" 0 line] assms l by (simp add: line_ok_def nth_append list_update_append shown_row_def)
  then show ?thesis using assms(1) by (cases b) (simp_all add: grid_put_def grid_newline_def)
qed

lemma grid_lines_bottom:
  assumes "length b = 24" "list_all line_ok lines"
  shows "fold grid_put (concat (map (\<lambda>line. line @ [0x0A]) lines)) (b @ [blank_row], 24, 0) =
    (drop (length lines) (b @ map shown_row lines) @ [blank_row], 24, 0)"
  using assms
proof (induction lines arbitrary: b)
  case (Cons line lines)
  have "b \<noteq> []" using Cons.prems(1) by auto
  then show ?case
    using Cons.prems grid_line_bottom[of b line] Cons.IH[of "tl b @ [shown_row line]"] by (cases b) auto
qed simp

text \<open>
  C27. The text terminal shows what is written to it. Writing characters changes the cells of the card and the cursor
  exactly as a grid of 25 rows of 80 does that wraps at the end of a row and scrolls at the end of the last;
  the cursor stays in the grid, no cell behind the screen changes, and every character goes to the serial port too. In particular, when
  lines are written at the bottom of the screen, the rows above the cursor are the last 24 lines.
\<close>

theorem text_terminal_refines:
  assumes "text_wf T"
  shows "\<exists>T'. Write_size kFont serial_put cs T = Inr T' \<and> text_wf T' \<and> grid_of T' = fold grid_put cs (grid_of T) \<and>
    (\<forall>i \<ge> 2000. tm_vga T' i = tm_vga T i) \<and> tm_serial T' = fold serial_put cs (tm_serial T) \<and>
    (\<forall>b lines. grid_of T = (b @ [blank_row], 24, 0) \<and> cs = concat (map (\<lambda>line. line @ [0x0A]) lines) \<and> list_all line_ok lines \<longrightarrow>
      grid_of T' = (drop (length lines) (b @ map shown_row lines) @ [blank_row], 24, 0))"
proof -
  obtain T' where T': "Write_size kFont serial_put cs T = Inr T'" "text_wf T'" "grid_of T' = fold grid_put cs (grid_of T)"
      "\<forall>i \<ge> 2000. tm_vga T' i = tm_vga T i" "tm_serial T' = fold serial_put cs (tm_serial T)"
    using Write_text_ok[OF assms] by blast
  have "length b = 24" if "grid_of T = (b @ [blank_row], 24, 0)" for b
  proof -
    have "length (screen T) = length (b @ [blank_row])" using that by (simp add: grid_of_def)
    then show ?thesis by simp
  qed
  then show ?thesis using T' grid_lines_bottom by auto
qed

definition font0 :: PSF_font where
  "font0 = \<lparr>f_headersize = 32, f_numglyph = 256, f_bytesperglyph = 16, f_height = 16, f_width = 8, f_bytes = (\<lambda>_. 0xFF)\<rparr>"

definition terminal0 :: terminal where
  "terminal0 = \<lparr>tm_mode = Some TextPutAt, tm_numrows = 25, tm_numcols = 80, tm_row = 24, tm_col = 0, tm_vga = (\<lambda>_. 0xF20), tm_hw = tables0,
     tm_serial = \<lparr>sp_in = [], sp_out = [], sp_ready = True, sp_config = []\<rparr>, PixelWidth = 0, PixelHeight = 0, Pitch = 0, GFXBuffer = 0,
     UsingGraphics = False, tm_fb = (\<lambda>_. 0)\<rparr>"

lemma terminal0_grid: "grid_of terminal0 = (replicate 24 blank_row @ [blank_row], 24, 0)"
proof -
  have e: "blank_row = replicate (80 - 0) 0xF20" by (simp only: blank_row_def) (simp only: VgaEntry_def VgaEntryColor_def, simp)
  have "tm_vga terminal0 = (\<lambda>_. 0xF20)" by (simp add: terminal0_def)
  then have s: "screen terminal0 = replicate (25 - 0) blank_row" unfolding screen_def e by (simp only: map_replicate_const length_upt)
  have n: "25 - 0 = (24 + 1 :: nat)" and one: "replicate 1 blank_row = [blank_row]" by simp_all
  have "screen terminal0 = replicate 24 blank_row @ [blank_row]" unfolding s n one[symmetric] by (rule List.replicate_add)
  moreover have "unat (tm_row terminal0) = 24" "unat (tm_col terminal0) = 0" by (simp_all add: terminal0_def)
  ultimately show ?thesis by (simp only: grid_of_def)
qed

theorem text_terminal_refines_witness:
  "\<exists>T'. Write_size font0 AtomicPut [0x68, 0x69, 0x0A] terminal0 = Inr T' \<and> sp_out (tm_serial T') = [0x68, 0x69, 0x0A] \<and>
     screen T' ! 23 = shown_row [0x68, 0x69]"
proof -
  have wf: "text_wf terminal0" by (simp add: terminal0_def text_wf_def)
  have l: "[0x68, 0x69, 0x0A] = concat (map (\<lambda>line. line @ [0x0A]) [[0x68, 0x69 :: u8]])" "list_all line_ok [[0x68, 0x69]]"
    by (simp_all add: line_ok_def)
  obtain T' where T': "Write_size font0 AtomicPut [0x68, 0x69, 0x0A] terminal0 = Inr T'"
      "tm_serial T' = fold AtomicPut [0x68, 0x69, 0x0A] (tm_serial terminal0)"
    and g: "\<And>b lines. grid_of terminal0 = (b @ [blank_row], 24, 0) \<and> [0x68, 0x69, 0x0A] = concat (map (\<lambda>line. line @ [0x0A]) lines) \<and>
        list_all line_ok lines \<Longrightarrow> grid_of T' = (drop (length lines) (b @ map shown_row lines) @ [blank_row], 24, 0)"
    using text_terminal_refines[OF wf, of font0 AtomicPut "[0x68, 0x69, 0x0A]"] by blast
  note grid = g[OF conjI[OF terminal0_grid conjI[OF l]]]
  have n: "length [[0x68, 0x69 :: u8]] = 1" by simp
  have "screen T' = drop 1 (replicate 24 blank_row @ [shown_row [0x68, 0x69]]) @ [blank_row]"
    using grid unfolding grid_of_def n prod.inject list.map by blast
  then have "screen T' ! 23 = shown_row [0x68, 0x69]" by (simp only: nth_append) (simp add: nth_append)
  then show ?thesis using T' by (simp add: AtomicPut_def terminal0_def)
qed

end
