(* ===== verification/TerminalGraphics.thy ===== *)
theory TerminalGraphics
  imports TerminalProperties
begin

text \<open>
  The graphics terminal: a character is drawn as its glyph says, the cursor stays on the screen, and two
  faults: columns are spaced wider than they are counted, and \<open>Clear\<close> counts them in eight bits.
\<close>

unbundle bit_operations_syntax

section \<open>One row of a glyph\<close>

lemma draw_pixels:
  assumes "unat fb + unat line + 4 * k \<le> 0x100000000" "c \<noteq> 0"
  shows "\<exists>m'. ((draw_pixel fb c g fg bg) ^^ k) (mk, line, m) = (drop_bit k mk, line + of_nat (4 * k), m') \<and>
    (\<forall>j < k. rd32 m' (unat fb + unat line + 4 * j) = unat (if ucast g AND drop_bit j mk \<noteq> 0 then fg else bg)) \<and>
    (\<forall>a. a < unat fb + unat line \<or> unat fb + unat line + 4 * k \<le> a \<longrightarrow> m' a = m a)"
  using assms(1)
proof (induction k)
  case (Suc k)
  let ?b = "unat fb + unat line"
  obtain m' where m': "((draw_pixel fb c g fg bg) ^^ k) (mk, line, m) = (drop_bit k mk, line + of_nat (4 * k), m')"
      "\<forall>j < k. rd32 m' (?b + 4 * j) = unat (if ucast g AND drop_bit j mk \<noteq> 0 then fg else bg)"
      "\<forall>a. a < ?b \<or> ?b + 4 * k \<le> a \<longrightarrow> m' a = m a"
    using Suc by auto
  let ?v = "if ucast g AND drop_bit k mk \<noteq> 0 then fg else bg"
  have small: "?b + 4 * k < 0x100000000" using Suc.prems by simp
  have "fb + (line + of_nat (4 * k)) = of_nat (?b + 4 * k)" by simp
  moreover have "unat (of_nat (?b + 4 * k) :: u32) = ?b + 4 * k" by (rule unat_of_nat_u32) (use small in simp)
  ultimately have "unat (fb + (line + of_nat (4 * k))) = ?b + 4 * k" by (simp only:)
  then have "((draw_pixel fb c g fg bg) ^^ Suc k) (mk, line, m) = (drop_bit (Suc k) mk, line + of_nat (4 * Suc k), wr32 (?b + 4 * k) (unat ?v) m')"
    using m'(1) assms(2) by (simp add: draw_pixel_def) 
  moreover have "rd32 (wr32 (?b + 4 * k) (unat ?v) m') (?b + 4 * j) = unat (if ucast g AND drop_bit j mk \<noteq> 0 then fg else bg)" if "j < Suc k" for j
  proof (cases "j = k")
    case True
    then show ?thesis using rd32_wr32_same[of "?b + 4 * k" "unat ?v" m'] unat_lt_u32[of ?v] by simp
  next
    case False
    then have "j < k" using that by simp
    then show ?thesis using m'(2) rd32_wr32_other[of "?b + 4 * j" "?b + 4 * k" "unat ?v" m'] by simp
  qed
  moreover have "wr32 (?b + 4 * k) (unat ?v) m' a = m a" if "a < ?b \<or> ?b + 4 * Suc k \<le> a" for a
    using that m'(3) by (auto simp: wr32_def)
  ultimately show ?case by blast
qed simp

section \<open>A whole glyph\<close>

text \<open>The fonts that \<open>UseGraphicsTerminalPhysical\<close> accepts.\<close>

definition font_ok :: "PSF_font \<Rightarrow> bool" where
  "font_ok kFont \<longleftrightarrow> f_height kFont = 16 \<and> f_width kFont = 8"

lemma mask_bit: "j < 8 \<Longrightarrow> (ucast g AND drop_bit j (push_bit 7 1) \<noteq> (0 :: u32)) = bit (g :: u8) (7 - j)"
proof -
  assume j: "j < 8"
  then have "j \<in> {0, 1, 2, 3, 4, 5, 6, 7}" by auto
  then have "drop_bit j (push_bit 7 1 :: u32) = 2 ^ (7 - j)" by auto
  then have "(ucast g AND drop_bit j (push_bit 7 1) \<noteq> (0 :: u32)) = bit (ucast g :: u32) (7 - j)"
    by (simp only: and_exp_eq_0_iff_not_bit not_not)
  then show ?thesis using j by (auto simp: bit_simps)
qed

text \<open>The first \<open>k\<close> rows of the glyph at \<open>g\<close> drawn from the address \<open>base\<close> on.\<close>

definition drawn :: "PSF_font \<Rightarrow> u32 \<Rightarrow> u32 \<Rightarrow> u32 \<Rightarrow> nat \<Rightarrow> nat \<Rightarrow> nat \<Rightarrow> mem \<Rightarrow> mem \<Rightarrow> bool" where
  "drawn kFont g fg bg base P k m m' \<longleftrightarrow>
     (\<forall>y < k. \<forall>x < 8. rd32 m' (base + y * P + 4 * x) = unat (if bit (f_bytes kFont (unat (g + of_nat y))) (7 - x) then fg else bg)) \<and>
     (\<forall>a. (\<forall>y < k. a < base + y * P \<or> base + y * P + 32 \<le> a) \<longrightarrow> m' a = m a)"

lemma draw_rows:
  assumes f: "font_ok kFont" and c: "c \<noteq> 0" and P: "32 \<le> unat (Pitch T)"
    and room: "unat (GFXBuffer T) + unat offs + k * unat (Pitch T) \<le> 0x100000000"
  shows "\<exists>m'. ((draw_row kFont T c fg bg) ^^ k) (g, offs, m) = (g + of_nat k, offs + of_nat k * Pitch T, m') \<and>
    drawn kFont g fg bg (unat (GFXBuffer T) + unat offs) (unat (Pitch T)) k m m'"
  using room
proof (induction k)
  case 0
  show ?case by (simp add: drawn_def)
next
  case (Suc k)
  let ?P = "unat (Pitch T)" and ?b = "unat (GFXBuffer T) + unat offs"
  have w: "unat (f_width kFont) = 8" "unat (f_width kFont) - 1 = 7" "BytesPerLine kFont = 1" using f by (simp_all add: font_ok_def BytesPerLine_def)
  obtain m' where m': "((draw_row kFont T c fg bg) ^^ k) (g, offs, m) = (g + of_nat k, offs + of_nat k * Pitch T, m')"
      "drawn kFont g fg bg ?b ?P k m m'" using Suc by auto
  have "offs + of_nat k * Pitch T = of_nat (unat offs + k * ?P)" by simp
  moreover have "unat (of_nat (unat offs + k * ?P) :: u32) = unat offs + k * ?P"
    by (rule unat_of_nat_u32) (use Suc.prems P in simp)
  ultimately have o: "unat (offs + of_nat k * Pitch T) = unat offs + k * ?P" by (simp only:)
  obtain m2 where m2: "((draw_pixel (GFXBuffer T) c (f_bytes kFont (unat (g + of_nat k))) fg bg) ^^ 8) (push_bit 7 1, offs + of_nat k * Pitch T, m') =
      (drop_bit 8 (push_bit 7 1), offs + of_nat k * Pitch T + of_nat (4 * 8), m2)"
      "\<forall>j < 8. rd32 m2 (?b + k * ?P + 4 * j) = unat (if ucast (f_bytes kFont (unat (g + of_nat k))) AND drop_bit j (push_bit 7 1 :: u32) \<noteq> 0 then fg else bg)"
      "\<forall>a. a < ?b + k * ?P \<or> ?b + k * ?P + 32 \<le> a \<longrightarrow> m2 a = m' a"
    using draw_pixels[of "GFXBuffer T" "offs + of_nat k * Pitch T" 8 c "f_bytes kFont (unat (g + of_nat k))" fg bg "push_bit 7 1" m'] Suc.prems P c
    unfolding o by (auto simp: add.assoc)
  have "draw_row kFont T c fg bg (g + of_nat k, offs + of_nat k * Pitch T, m') = (g + of_nat (Suc k), offs + of_nat (Suc k) * Pitch T, m2)"
    using m2(1) by (simp add: draw_row_def w algebra_simps)
  then have "((draw_row kFont T c fg bg) ^^ Suc k) (g, offs, m) = (g + of_nat (Suc k), offs + of_nat (Suc k) * Pitch T, m2)"
    unfolding funpow.simps comp_apply m'(1) .
  moreover have "drawn kFont g fg bg ?b ?P (Suc k) m m2"
    unfolding drawn_def
  proof (intro conjI allI impI)
    fix y x :: nat assume y: "y < Suc k" and x: "x < 8"
    show "rd32 m2 (?b + y * ?P + 4 * x) = unat (if bit (f_bytes kFont (unat (g + of_nat y))) (7 - x) then fg else bg)"
    proof (cases "y = k")
      case True
      then show ?thesis using m2(2) mask_bit[OF x] x by simp
    next
      case False
      then have "y + 1 \<le> k" using y by simp
      then have "(y + 1) * ?P \<le> k * ?P" by (rule mult_le_mono1)
      then have "rd32 m2 (?b + y * ?P + 4 * x) = rd32 m' (?b + y * ?P + 4 * x)"
        using m2(3) P x by (intro rd32_cong) auto
      then show ?thesis using m'(2) \<open>y + 1 \<le> k\<close> x by (simp add: drawn_def)
    qed
  next
    fix a assume a: "\<forall>y < Suc k. a < ?b + y * ?P \<or> ?b + y * ?P + 32 \<le> a"
    then have "m2 a = m' a" using m2(3) by blast
    also have "m' a = m a" using a m'(2) unfolding drawn_def by (meson less_SucI)
    finally show "m2 a = m a" .
  qed
  ultimately show ?case by blast
qed

lemma isprint_nonzero: "isprint c \<Longrightarrow> c \<noteq> 0"
  by (auto simp: isprint_def)

lemma GFXPutCharAt_drawn:
  assumes f: "font_ok kFont" and c: "isprint c" and P: "32 \<le> unat (Pitch T)"
    and base: "base = unat (GFXBuffer T) + 16 * unat r * unat (Pitch T) + 36 * unat cl"
    and room: "base + 16 * unat (Pitch T) \<le> 0x100000000"
  shows "\<exists>m'. GFXPutCharAt kFont c r cl fg bg T = Inr (T\<lparr>tm_fb := m'\<rparr>) \<and>
    drawn kFont (getGlyph kFont c) fg bg base (unat (Pitch T)) 16 (tm_fb T) m'"
proof -
  let ?offs = "GFXCharOffset kFont (ucast r) (ucast cl) T"
  have "?offs = of_nat (16 * unat r * unat (Pitch T) + 36 * unat cl)"
    using f by (simp add: GFXCharOffset_def font_ok_def)
  moreover have "unat (of_nat (16 * unat r * unat (Pitch T) + 36 * unat cl) :: u32) = 16 * unat r * unat (Pitch T) + 36 * unat cl"
    by (rule unat_of_nat_u32) (use room base P in simp)
  ultimately have o: "unat ?offs = 16 * unat r * unat (Pitch T) + 36 * unat cl" by (simp only:)
  have h: "unat (f_height kFont) = 16" "\<not> (f_height kFont \<noteq> 0 \<and> (f_width kFont = 0 \<or> 32 < f_width kFont))"
    using f by (simp_all add: font_ok_def)
  obtain m' where m': "((draw_row kFont T c fg bg) ^^ 16) (getGlyph kFont c, ?offs, tm_fb T) =
      (getGlyph kFont c + of_nat 16, ?offs + of_nat 16 * Pitch T, m')"
      "drawn kFont (getGlyph kFont c) fg bg base (unat (Pitch T)) 16 (tm_fb T) m'"
    using draw_rows[OF f isprint_nonzero[OF c] P, of ?offs 16 fg bg "getGlyph kFont c" "tm_fb T"] room base unfolding o by (auto simp: add.assoc)
  show ?thesis using m'(2) c unfolding GFXPutCharAt_def h(1) m'(1) snd_conv if_not_P[OF h(2)] by auto
qed

section \<open>The cursor stays on the screen\<close>

text \<open>The fields that no operation on characters changes.\<close>

definition same_mode :: "terminal \<Rightarrow> terminal \<Rightarrow> bool" where
  "same_mode T T' \<longleftrightarrow> tm_mode T' = tm_mode T \<and> tm_numrows T' = tm_numrows T \<and> tm_numcols T' = tm_numcols T"

definition term_wf :: "terminal \<Rightarrow> bool" where
  "term_wf T \<longleftrightarrow> isInitialized T \<and> tm_row T < tm_numrows T \<and> tm_col T < tm_numcols T \<and>
     (tm_mode T = Some TextPutAt \<longrightarrow> tm_numrows T = 25 \<and> tm_numcols T = 80)"

lemma GFXPutCharAt_returns:
  assumes "font_ok kFont" "isprint c"
  shows "\<exists>m'. GFXPutCharAt kFont c r cl fg bg T = Inr (T\<lparr>tm_fb := m'\<rparr>)"
  using assms by (auto simp: GFXPutCharAt_def font_ok_def)

lemma isprint_space [simp]: "isprint 0x20"
  by (simp add: isprint_def)

lemma blank_columns:
  assumes "font_ok kFont"
  shows "\<exists>m'. foldE (\<lambda>c. GFXPutCharAt kFont 0x20 r (of_nat c) kBlack kWhite) cs T = Inr (T\<lparr>tm_fb := m'\<rparr>)"
proof (induction cs arbitrary: T)
  case Nil
  show ?case by (rule exI[of _ "tm_fb T"]) simp
next
  case (Cons c cs)
  obtain m' where "GFXPutCharAt kFont 0x20 r (of_nat c) kBlack kWhite T = Inr (T\<lparr>tm_fb := m'\<rparr>)"
    using GFXPutCharAt_returns[OF assms isprint_space] by blast
  then show ?case using Cons.IH[of "T\<lparr>tm_fb := m'\<rparr>"] by auto
qed

lemma gfx_Scroll_ok:
  assumes "font_ok kFont"
  shows "\<exists>m'. gfx_Scroll kFont T = Inr (T\<lparr>tm_fb := m', tm_row := tm_numrows T - 1\<rparr>)"
proof -
  let ?m = "fold (\<lambda>r m. let line = GFXGetPixelRow kFont (of_nat r) T; nextline = GFXGetPixelRow kFont (of_nat r + 1) T in
                memcpy (unat line) (unat nextline) (unat (nextline - line)) m) [0 ..< unat (tm_numrows T) - 1] (tm_fb T)"
  obtain m' where "foldE (\<lambda>c. GFXPutCharAt kFont 0x20 (tm_numrows T - 1) (of_nat c) kBlack kWhite) [0 ..< unat (tm_numcols T)]
      (T\<lparr>tm_fb := ?m\<rparr>) = Inr (T\<lparr>tm_fb := m'\<rparr>)"
    using blank_columns[OF assms, of "tm_numrows T - 1" _ "T\<lparr>tm_fb := ?m\<rparr>"] by auto
  then show ?thesis unfolding gfx_Scroll_def by (auto simp: Let_def)
qed

lemma gfx_HandleNewline_ok:
  assumes "font_ok kFont" "tm_row T < tm_numrows T" "0 < tm_numcols T"
  shows "\<exists>T'. gfx_HandleNewline kFont T = Inr T' \<and> same_mode T T' \<and> tm_row T' < tm_numrows T \<and> tm_col T' < tm_numcols T"
proof (cases "tm_numrows T \<le> tm_row T + 1")
  case True
  obtain m' where "gfx_Scroll kFont (T\<lparr>tm_col := 0, tm_row := tm_row T + 1\<rparr>) =
      Inr (T\<lparr>tm_col := 0, tm_row := tm_row T + 1, tm_fb := m', tm_row := tm_numrows T - 1\<rparr>)"
    using gfx_Scroll_ok[OF assms(1), of "T\<lparr>tm_col := 0, tm_row := tm_row T + 1\<rparr>"] by auto
  moreover have "tm_numrows T - 1 < tm_numrows T"
  proof -
    have "0 < unat (tm_numrows T)" using assms(2) by (simp add: word_less_nat_alt)
    then show ?thesis by (simp add: word_less_nat_alt unat_minus_one unat_gt_0)
  qed
  ultimately show ?thesis using True assms(3) by (simp add: gfx_HandleNewline_def same_mode_def Let_def)
next
  case False
  then show ?thesis using assms(3) by (auto simp: gfx_HandleNewline_def same_mode_def Let_def)
qed

lemma gfx_PutAt_ok:
  assumes f: "font_ok kFont" and ch: "ch = 0x0A \<or> isprint ch" and r: "r < tm_numrows T" "c < tm_numcols T"
  shows "\<exists>T'. gfx_PutAt kFont ch r c T = Inr T' \<and> same_mode T T' \<and> tm_row T' < tm_numrows T \<and> tm_col T' < tm_numcols T"
proof -
  let ?T = "T\<lparr>tm_row := r, tm_col := c\<rparr>"
  have pos: "0 < tm_numcols T" using r(2) by (rule order_le_less_trans[OF word_zero_le])
  show ?thesis
  proof (cases "ch = 0x0A")
    case True
    then show ?thesis using gfx_HandleNewline_ok[OF f, of ?T] r pos by (auto simp: gfx_PutAt_def same_mode_def Let_def)
  next
    case False
    then obtain m' where m': "GFXPutCharAt kFont ch r c kBlack kWhite ?T = Inr (?T\<lparr>tm_fb := m'\<rparr>)"
      using GFXPutCharAt_returns[OF f] ch by blast
    let ?U = "?T\<lparr>tm_fb := m', tm_col := c + 1\<rparr>"
    have e: "gfx_PutAt kFont ch r c T = (if tm_numcols T \<le> c + 1 then gfx_HandleNewline kFont ?U else Inr ?U)"
      using False m' by (simp add: gfx_PutAt_def Let_def)
    show ?thesis
    proof (cases "tm_numcols T \<le> c + 1")
      case True
      then show ?thesis using e gfx_HandleNewline_ok[OF f, of ?U] r(1) pos by (auto simp: same_mode_def)
    next
      case False
      then show ?thesis using e r(1) by (auto simp: same_mode_def)
    qed
  qed
qed

text \<open>
  C28. The cursor never leaves the screen. On a terminal in text mode, and on one in graphics mode with a font of the accepted
  size, \<open>Put\<close> returns with the cursor inside the rows and columns again, in the same mode and with the same size, for
  every character; the one failure is the assertion of the graphics terminal on a character that is neither printable nor a newline.
\<close>

theorem terminal_cursor_typed:
  assumes "term_wf T" "tm_mode T = Some GraphicsPutAt \<longrightarrow> font_ok kFont"
  shows "if tm_mode T = Some GraphicsPutAt \<and> ch \<noteq> 0x0A \<and> \<not> isprint ch
    then Terminal_Put kFont serial_put ch T = Inl (AssertFailed ''Non-prontable character'')
    else \<exists>T'. Terminal_Put kFont serial_put ch T = Inr T' \<and> term_wf T' \<and> same_mode T T'"
proof (cases "tm_mode T = Some TextPutAt")
  case True
  then have "text_wf T" using assms(1) by (auto simp: term_wf_def text_wf_def)
  with text_PutAt_ok[of T ch] have "text_wf (text_PutAt ch (tm_row T) (tm_col T) T)" by (simp add: text_step_def)
  with True assms(1) show ?thesis by (simp add: Terminal_Put_def putat_def text_wf_def term_wf_def same_mode_def isInitialized_def)
next
  case False
  then have m: "tm_mode T = Some GraphicsPutAt" using assms(1) by (auto simp: term_wf_def isInitialized_def intro: putat_func.exhaust)
  with assms have f: "font_ok kFont" and r: "tm_row T < tm_numrows T" "tm_col T < tm_numcols T" by (simp_all add: term_wf_def)
  show ?thesis
  proof (cases "ch = 0x0A \<or> isprint ch")
    case True
    with gfx_PutAt_ok[OF f True r] m show ?thesis
      by (auto simp: Terminal_Put_def putat_def term_wf_def same_mode_def isInitialized_def)
  next
    case False
    then show ?thesis using m by (simp add: Terminal_Put_def putat_def gfx_PutAt_def GFXPutCharAt_def Let_def)
  qed
qed

text \<open>A screen of 1024 by 768 pixels.\<close>

definition graphics0 :: terminal where
  "graphics0 = terminal0\<lparr>tm_mode := Some GraphicsPutAt, tm_numrows := 48, tm_numcols := 128, tm_row := 47, tm_col := 127,
     PixelWidth := 1024, PixelHeight := 768, Pitch := 4096, GFXBuffer := 0x1000000, UsingGraphics := True\<rparr>"

lemma font0_ok: "font_ok font0"
  by (simp add: font_ok_def font0_def)

theorem terminal_cursor_typed_witness:
  "\<exists>T'. Terminal_Put font0 AtomicPut 0x41 graphics0 = Inr T' \<and> term_wf T' \<and> same_mode graphics0 T'"
proof -
  have "term_wf graphics0" by (simp add: term_wf_def graphics0_def isInitialized_def terminal0_def)
  then show ?thesis using terminal_cursor_typed[of graphics0 font0 "0x41" AtomicPut] font0_ok by (simp add: isprint_def)
qed

section \<open>Clearing the screen\<close>

text \<open>A terminal on which a blank can be put anywhere.\<close>

definition clear_ok :: "PSF_font \<Rightarrow> terminal \<Rightarrow> bool" where
  "clear_ok kFont T \<longleftrightarrow> term_wf T \<and> (tm_mode T = Some GraphicsPutAt \<longrightarrow> font_ok kFont)"

lemma clear_ok_text: "clear_ok kFont T \<Longrightarrow> tm_mode T = Some TextPutAt \<Longrightarrow> text_wf T"
  by (auto simp: clear_ok_def term_wf_def text_wf_def)

lemma same_mode_trans: "same_mode T U \<Longrightarrow> same_mode U V \<Longrightarrow> same_mode T V"
  by (simp add: same_mode_def)

lemma text_PutAt_at: "text_PutAt ch r c T = text_PutAt ch (tm_row (T\<lparr>tm_row := r, tm_col := c\<rparr>)) (tm_col (T\<lparr>tm_row := r, tm_col := c\<rparr>)) (T\<lparr>tm_row := r, tm_col := c\<rparr>)"
  by (simp add: text_PutAt_def Let_def)

lemma unat_u8_lt: "unat c < 256" for c :: u8
proof -
  have "unat c < 2 ^ LENGTH(8)" by (rule unsigned_less)
  then show ?thesis by simp
qed

lemma putat_blank:
  fixes r c :: u8
  assumes ok: "clear_ok kFont T" and r: "unat r < unat (tm_numrows T)" "unat c < unat (tm_numcols T)"
  shows "\<exists>T'. putat kFont 0x20 (ucast r) (ucast c) T = Inr T' \<and> clear_ok kFont T' \<and> same_mode T T' \<and>
    (tm_mode T = Some TextPutAt \<longrightarrow> grid_of T' = grid_put 0x20 (screen T, unat r, unat c))"
proof -
  let ?T = "T\<lparr>tm_row := ucast r, tm_col := ucast c\<rparr>"
  have u: "unat (ucast r :: u16) = unat r" "unat (ucast c :: u16) = unat c"
    using unat_u8_lt[of r] unat_u8_lt[of c] by (simp_all add: unsigned_ucast_eq take_bit_nat_eq_self_iff)
  then have b: "(ucast r :: u16) < tm_numrows T" "(ucast c :: u16) < tm_numcols T" using r by (simp_all add: word_less_nat_alt)
  show ?thesis
  proof (cases "tm_mode T = Some TextPutAt")
    case True
    have "text_wf ?T" using clear_ok_text[OF ok True] b by (auto simp: text_wf_def)
    moreover have "grid_of ?T = (screen T, unat r, unat c)" using u by (simp add: grid_of_def screen_def)
    ultimately have "text_wf (text_PutAt 0x20 (ucast r) (ucast c) T)" "grid_of (text_PutAt 0x20 (ucast r) (ucast c) T) = grid_put 0x20 (screen T, unat r, unat c)"
      using text_PutAt_ok[of ?T "0x20"] by (simp_all add: text_PutAt_at[of _ _ _ T] text_step_def)
    then show ?thesis using True ok by (simp add: putat_def clear_ok_def term_wf_def text_wf_def same_mode_def isInitialized_def)
  next
    case False
    then have m: "tm_mode T = Some GraphicsPutAt" using ok by (auto simp: clear_ok_def term_wf_def isInitialized_def intro: putat_func.exhaust)
    then have f: "font_ok kFont" using ok by (simp add: clear_ok_def)
    from gfx_PutAt_ok[OF f _ b, of "0x20"] m f show ?thesis
      by (auto simp: putat_def clear_ok_def term_wf_def same_mode_def isInitialized_def)
  qed
qed

lemma u8_Suc: "unat c < n \<Longrightarrow> n \<le> 255 \<Longrightarrow> unat (c + 1 :: u8) = unat c + 1"
  by (simp add: unat_word_ariths)

lemma Clear_cols_ok:
  assumes "clear_ok kFont T" "unat r < unat (tm_numrows T)" "unat c \<le> unat (tm_numcols T)" "unat (tm_numcols T) \<le> 255"
  shows "\<exists>T'. Clear_cols kFont r c T = Some (Inr T') \<and> clear_ok kFont T' \<and> same_mode T T' \<and>
    (tm_mode T = Some TextPutAt \<longrightarrow> screen T' = fold (\<lambda>c rows. fst (grid_put 0x20 (rows, unat r, c))) [unat c ..< 80] (screen T))"
  using assms
proof (induction "unat (tm_numcols T) - unat c" arbitrary: c T)
  case 0
  then have "unat c = unat (tm_numcols T)" by simp
  moreover have "tm_numcols T = 80" if "tm_mode T = Some TextPutAt" using that 0 by (simp add: clear_ok_def term_wf_def)
  ultimately show ?case using 0 Clear_cols.simps[of kFont r c T] by (auto simp: same_mode_def)
next
  case (Suc d)
  then have lt: "unat c < unat (tm_numcols T)" by simp
  obtain T1 where T1: "putat kFont 0x20 (ucast r) (ucast c) T = Inr T1" "clear_ok kFont T1" "same_mode T T1"
      "tm_mode T = Some TextPutAt \<longrightarrow> grid_of T1 = grid_put 0x20 (screen T, unat r, unat c)" using putat_blank[OF Suc.prems(1,2) lt] by blast
  have c1: "unat (c + 1) = unat c + 1" using u8_Suc lt Suc.prems(4) by blast
  have s: "screen T1 = fst (grid_put 0x20 (screen T, unat r, unat c))" if "tm_mode T = Some TextPutAt" using T1(4) that by (metis fst_conv grid_of_def)
  have n: "unat c < 80" if "tm_mode T = Some TextPutAt" using that lt Suc.prems(1) by (auto simp: clear_ok_def term_wf_def)
  have "\<exists>T'. Clear_cols kFont r (c + 1) T1 = Some (Inr T') \<and> clear_ok kFont T' \<and> same_mode T1 T' \<and>
    (tm_mode T1 = Some TextPutAt \<longrightarrow> screen T' = fold (\<lambda>c rows. fst (grid_put 0x20 (rows, unat r, c))) [unat (c + 1) ..< 80] (screen T1))"
    using Suc T1 c1 by (intro Suc.hyps(1)) (auto simp: same_mode_def)
  then obtain T2 where T2: "Clear_cols kFont r (c + 1) T1 = Some (Inr T2)" "clear_ok kFont T2" "same_mode T1 T2"
    "tm_mode T1 = Some TextPutAt \<longrightarrow> screen T2 = fold (\<lambda>c rows. fst (grid_put 0x20 (rows, unat r, c))) [unat (c + 1) ..< 80] (screen T1)" by blast
  have "Clear_cols kFont r c T = Some (Inr T2)" using Clear_cols.simps[of kFont r c T] lt T1(1) T2(1) by simp
  moreover have "screen T2 = fold (\<lambda>c rows. fst (grid_put 0x20 (rows, unat r, c))) [unat c ..< 80] (screen T)" if "tm_mode T = Some TextPutAt"
  proof -
    have "[unat c ..< 80] = unat c # [unat (c + 1) ..< 80]" using n[OF that] c1 by (simp add: upt_conv_Cons)
    then show ?thesis using T2(4) T1(3) s[OF that] that by (simp add: same_mode_def)
  qed
  ultimately show ?case using T2(2) same_mode_trans[OF T1(3) T2(3)] by blast
qed

text \<open>The rows of a text screen while it is cleared: the last blank of the last row scrolls it.\<close>

definition cleared_row :: "u16 list" where
  "cleared_row = replicate 80 (VgaEntry 0x20 Color)"

lemma blank_row_cells:
  assumes "r < 25" "length rows = 25" "length (rows ! r) = 80" "n \<le> 79"
  shows "fold (\<lambda>c rows. fst (grid_put 0x20 (rows, r, c))) [0 ..< n] rows = rows[r := replicate n (VgaEntry 0x20 Color) @ drop n (rows ! r)]"
  using assms
proof (induction n)
  case (Suc n)
  let ?row = "replicate n (VgaEntry 0x20 Color) @ drop n (rows ! r)"
  have "?row[n := VgaEntry 0x20 Color] = replicate (Suc n) (VgaEntry 0x20 Color) @ drop (Suc n) (rows ! r)"
    using Suc.prems by (auto simp: nth_append nth_list_update nth_Cons' intro!: nth_equalityI)
  then show ?case using Suc by (simp add: grid_put_def upt_Suc_append)
qed simp

lemma blank_row_done:
  assumes "r < 25" "length rows = 25" "length (rows ! r) = 80"
  shows "fold (\<lambda>c rows. fst (grid_put 0x20 (rows, r, c))) [0 ..< 80] rows =
    (if r = 24 then tl (rows[r := cleared_row]) @ [blank_row] else rows[r := cleared_row])"
proof -
  have u: "[0 ..< 80] = [0 ..< 79] @ [79]" using upt_Suc_append[of 0 79] by simp
  have "drop 79 (rows ! r) = [rows ! r ! 79]" using assms by (simp add: Cons_nth_drop_Suc[symmetric])
  moreover have "cleared_row = replicate 79 (VgaEntry 0x20 Color) @ [VgaEntry 0x20 Color]"
    using replicate_add[of 79 1 "VgaEntry 0x20 Color"] by (simp only: cleared_row_def) simp
  ultimately show ?thesis
    using assms blank_row_cells[OF assms, of 79] unfolding u fold_append comp_apply
    by (simp add: grid_put_def grid_newline_def list_update_append)
qed

lemma Clear_rows_ok:
  assumes "clear_ok kFont T" "unat r \<le> unat (tm_numrows T)" "unat (tm_numrows T) \<le> 255" "unat (tm_numcols T) \<le> 255"
    and "tm_mode T = Some TextPutAt \<Longrightarrow> take (unat r) (screen T) = replicate (unat r) cleared_row \<and> unat r \<le> 24"
  shows "\<exists>T'. Clear_rows kFont r T = Some (Inr T') \<and> clear_ok kFont T' \<and> same_mode T T' \<and>
    (tm_mode T = Some TextPutAt \<longrightarrow> screen T' = replicate 24 cleared_row @ [blank_row])"
  using assms
proof (induction "unat (tm_numrows T) - unat r" arbitrary: r T)
  case 0
  then have "unat r = unat (tm_numrows T)" by simp
  moreover have "tm_mode T \<noteq> Some TextPutAt" using 0 by (auto simp: clear_ok_def term_wf_def)
  ultimately show ?case using 0 Clear_rows.simps[of kFont r T] by (simp add: same_mode_def)
next
  case (Suc d)
  then have lt: "unat r < unat (tm_numrows T)" by simp
  obtain T1 where T1: "Clear_cols kFont r 0 T = Some (Inr T1)" "clear_ok kFont T1" "same_mode T T1"
      "tm_mode T = Some TextPutAt \<longrightarrow> screen T1 = fold (\<lambda>c rows. fst (grid_put 0x20 (rows, unat r, c))) [0 ..< 80] (screen T)"
    using Clear_cols_ok[OF Suc.prems(1) lt, of 0] Suc.prems(4) by auto
  have r1: "unat (r + 1) = unat r + 1" using u8_Suc lt Suc.prems(3) by blast
  have s: "screen T1 = (if unat r = 24 then tl ((screen T)[unat r := cleared_row]) @ [blank_row] else (screen T)[unat r := cleared_row])" "unat r \<le> 24"
      "take (unat r) (screen T) = replicate (unat r) cleared_row"
    if "tm_mode T = Some TextPutAt" using that T1(4) Suc.prems(5) blank_row_done[of "unat r" "screen T"] by auto
  show ?case
  proof (cases "tm_mode T = Some TextPutAt \<and> unat r = 24")
    case True
    have "screen T = replicate 24 cleared_row @ [screen T ! 24]"
      using s(3) True append_take_drop_id[of 24 "screen T"] by (simp add: Cons_nth_drop_Suc[symmetric])
    then have "screen T1 = tl ((replicate 24 cleared_row @ [screen T ! 24])[24 := cleared_row]) @ [blank_row]"
      using s(1) True by auto
    also have "\<dots> = replicate 24 cleared_row @ [blank_row]"
      by (rule nth_equalityI) (auto simp: nth_append nth_tl nth_list_update)
    finally have "screen T1 = replicate 24 cleared_row @ [blank_row]" .
    moreover have "Clear_rows kFont (r + 1) T1 = Some (Inr T1)"
      using Clear_rows.simps[of kFont "r + 1" T1] r1 True T1(2,3) by (auto simp: same_mode_def clear_ok_def term_wf_def)
    ultimately show ?thesis using Clear_rows.simps[of kFont r T] lt T1 by auto
  next
    case False
    have "take (unat (r + 1)) (screen T1) = replicate (unat (r + 1)) cleared_row \<and> unat (r + 1) \<le> 24" if "tm_mode T1 = Some TextPutAt"
    proof -
      have t: "tm_mode T = Some TextPutAt" using that T1(3) by (simp add: same_mode_def)
      with False s(2) have "unat r < 24" by force
      then show ?thesis using s(1,3)[OF t] r1
        by (simp add: take_Suc_conv_app_nth replicate_append_same[symmetric] del: replicate_Suc) (simp add: replicate_append_same)
    qed
    then have "\<exists>T'. Clear_rows kFont (r + 1) T1 = Some (Inr T') \<and> clear_ok kFont T' \<and> same_mode T1 T' \<and>
      (tm_mode T1 = Some TextPutAt \<longrightarrow> screen T' = replicate 24 cleared_row @ [blank_row])"
      using Suc.prems Suc.hyps(2) T1(2,3) r1 lt by (intro Suc.hyps(1)) (simp_all add: same_mode_def)
    then show ?thesis using Clear_rows.simps[of kFont r T] lt T1 same_mode_trans[OF T1(3)] by (auto simp: same_mode_def)
  qed
qed

text \<open>A counter of eight bits is always below a number above 255.\<close>

lemma Clear_cols_diverges:
  assumes "Clear_cols kFont r c T = Some y"
  shows "\<not> (clear_ok kFont T \<and> unat r < unat (tm_numrows T) \<and> 255 < unat (tm_numcols T))"
proof (rule Clear_cols.raw_induct[where P = "\<lambda>kFont r c T y. \<not> (clear_ok kFont T \<and> unat r < unat (tm_numrows T) \<and> 255 < unat (tm_numcols T))", OF _ assms])
  fix loop kFont and r c :: u8 and T y
  assume ih: "\<And>kFont r c T y. loop kFont r c T = Some y \<Longrightarrow> \<not> (clear_ok kFont T \<and> unat r < unat (tm_numrows T) \<and> 255 < unat (tm_numcols T))"
    and y: "(if unat c < unat (tm_numcols T)
      then (case putat kFont 0x20 (ucast r) (ucast c) T of Inl e \<Rightarrow> Some (Inl e) | Inr T \<Rightarrow> loop kFont r (c + 1) T) else Some (Inr T)) = Some y"
  show "\<not> (clear_ok kFont T \<and> unat r < unat (tm_numrows T) \<and> 255 < unat (tm_numcols T))"
  proof
    assume a: "clear_ok kFont T \<and> unat r < unat (tm_numrows T) \<and> 255 < unat (tm_numcols T)"
    then have c: "unat c < unat (tm_numcols T)" using unat_u8_lt[of c] by simp
    obtain T' where "putat kFont 0x20 (ucast r) (ucast c) T = Inr T'" "clear_ok kFont T'" "same_mode T T'"
      using putat_blank[OF conjunct1[OF a] conjunct1[OF conjunct2[OF a]] c] by blast
    then show False using y c a ih[of kFont r "c + 1" T' y] by (simp add: same_mode_def)
  qed
qed

lemma Clear_rows_diverges:
  assumes "Clear_rows kFont r T = Some y"
  shows "\<not> (clear_ok kFont T \<and> unat (tm_numcols T) \<le> 255 \<and> 255 < unat (tm_numrows T))"
proof (rule Clear_rows.raw_induct[where P = "\<lambda>kFont r T y. \<not> (clear_ok kFont T \<and> unat (tm_numcols T) \<le> 255 \<and> 255 < unat (tm_numrows T))", OF _ assms])
  fix loop kFont and r :: u8 and T y
  assume ih: "\<And>kFont r T y. loop kFont r T = Some y \<Longrightarrow> \<not> (clear_ok kFont T \<and> unat (tm_numcols T) \<le> 255 \<and> 255 < unat (tm_numrows T))"
    and y: "(if unat r < unat (tm_numrows T)
      then (case Clear_cols kFont r 0 T of None \<Rightarrow> None | Some (Inl e) \<Rightarrow> Some (Inl e) | Some (Inr T) \<Rightarrow> loop kFont (r + 1) T) else Some (Inr T)) = Some y"
  show "\<not> (clear_ok kFont T \<and> unat (tm_numcols T) \<le> 255 \<and> 255 < unat (tm_numrows T))"
  proof
    assume a: "clear_ok kFont T \<and> unat (tm_numcols T) \<le> 255 \<and> 255 < unat (tm_numrows T)"
    then have r: "unat r < unat (tm_numrows T)" using unat_u8_lt[of r] by simp
    obtain T' where "Clear_cols kFont r 0 T = Some (Inr T')" "clear_ok kFont T'" "same_mode T T'"
      using Clear_cols_ok[OF conjunct1[OF a] r, of 0] a by auto
    then show False using y r a ih[of kFont "r + 1" T' y] by (simp add: same_mode_def)
  qed
qed



section \<open>The last column\<close>



end
