(* ===== verification/UserTaskCorrect.thy ===== *)
theory UserTaskCorrect
  imports KernelStart
begin

text \<open>
  What the constructor of a user task promises: the new address space, the code and the first stack in it, and that no
  other task sees a change.
\<close>

section \<open>Storing through the window\<close>

definition put_bytes :: "nat \<Rightarrow> u8 list \<Rightarrow> (nat \<Rightarrow> u8) \<Rightarrow> nat \<Rightarrow> u8" where
  "put_bytes base bs m = (\<lambda>a. if base \<le> a \<and> a < base + length bs then bs ! (a - base) else m a)"

lemma put_bytes_simps [simp]:
  "put_bytes base [] m = m" "put_bytes base (b # bs) m = put_bytes (base + 1) bs (m(base := b))"
  by (auto simp: put_bytes_def fun_eq_iff nth_Cons' Suc_diff_le)

lemma vstore_bytes_ok:
  assumes "\<And>i. i < length bs \<Longrightarrow> translate (pg st) (cr3 (pg st)) (va + of_nat i) = Inr (base + i)"
  shows "vstore_bytes va bs st = Inr (st\<lparr>pmem := put_bytes base bs (pmem st)\<rparr>)"
  using assms
proof (induction bs arbitrary: va base st)
  case Nil
  then show ?case by simp
next
  case (Cons b bs)
  let ?st = "st\<lparr>pmem := (pmem st)(base := b)\<rparr>"
  have "translate (pg ?st) (cr3 (pg ?st)) (va + 1 + of_nat i) = Inr (base + 1 + i)" if "i < length bs" for i
    using Cons.prems[of "Suc i"] that by (simp add: add.assoc)
  note ih = Cons.IH[of ?st "va + 1" "base + 1", OF this]
  have "vstore va b st = Inr ?st" using Cons.prems[of 0] by (simp add: vstore_def)
  then show ?case using ih by (simp add: fun_upd_def)
qed

text \<open>\<open>Task::Write\<close> of a local variable: the same copy as \<open>TaskMemcpy\<close>, with the bytes given.\<close>

lemma Task_Write_local_ok:
  assumes inv: "paging_inv (pg st)" and win: "window_free (pg st) (cr3 (pg st))" and tpd: "valid_pd (pg st) tpd"
    and dst: "translate (pg st) tpd dst = Inr base" and fits: "unat dst mod kPageSize4M + length bs \<le> kPageSize4M"
  shows "\<exists>st'. Task_Write_local tpd (cr3 (pg st)) dst bs st = Inr st' \<and> paging_inv (pg st') \<and> same_view (pg st) (pg st') \<and>
    pmem st' = put_bytes base bs (pmem st)"
proof -
  let ?d = "cr3 (pg st)" and ?off = "unat dst mod kPageSize4M"
  have wf: "paging_wf (pg st)" and vd: "valid_pd (pg st) ?d"
    using inv win by (simp_all add: paging_inv_def counts_ok_def window_free_def)
  obtain paddr where p: "GetPhysicalAddr (pg st) tpd (PageAddr4M (PageIndex4M dst)) = Inr paddr"
      "Is4MPageAligned paddr" "base = unat paddr + ?off"
    using translate_page[OF inv tpd dst] by blast
  obtain t u where t: "AddPage ?d TMP_SHARED_TASK_MEM_START paddr 0 True (pg st) = Inr t" "cr3 t = ?d"
      "entry_set ?d 5 (mk_pde paddr 0) (pg st) t" "RemovePage ?d TMP_SHARED_TASK_MEM_START t = Inr u" "same_view (pg st) u" "paging_inv u"
    using window_open_close[OF inv win p(2)] by blast
  have off: "(if unat dst mod kPageSize4M = 0 then dst else PageAddr4M (PageIndex4M dst)) = PageAddr4M (PageIndex4M dst)"
    "(if unat dst mod kPageSize4M = 0 then 0 else dst - PageAddr4M (PageIndex4M dst)) = of_nat ?off"
    using page_and_offset(3,5)[of dst] by auto
  let ?m = "put_bytes base bs (pmem st)"
  have "vstore_bytes (TMP_SHARED_TASK_MEM_START + of_nat ?off) bs (st\<lparr>pg := t\<rparr>) = Inr (st\<lparr>pg := t, pmem := ?m\<rparr>)"
  proof (subst vstore_bytes_ok[of _ _ _ base])
    fix i assume "i < length bs"
    then have "translate t ?d (TMP_SHARED_TASK_MEM_START + of_nat (?off + i)) = Inr (unat paddr + (?off + i))"
      by (intro translate_window[OF t(3) wf vd p(2)]) (use fits in simp)
    then show "translate (pg (st\<lparr>pg := t\<rparr>)) (cr3 (pg (st\<lparr>pg := t\<rparr>))) (TMP_SHARED_TASK_MEM_START + of_nat ?off + of_nat i) = Inr (base + i)"
      by (simp add: t(2) p(3) add.assoc)
  qed simp
  then have "Task_Write_local tpd ?d dst bs st = Inr (st\<lparr>pg := u, pmem := ?m\<rparr>)"
    unfolding Task_Write_local_def Let_def off using p(1) t(1,4) by simp
  with t(5,6) show ?thesis by (intro exI[of _ "st\<lparr>pg := u, pmem := ?m\<rparr>"]) simp
qed

lemma translate_same_view: "same_view s u \<Longrightarrow> valid_pd s d \<Longrightarrow> translate u d va = translate s d va"
  by (simp add: same_view_def translate_def)

lemma same_view_valid: "same_view s u \<Longrightarrow> valid_pd u = valid_pd s"
  by (intro valid_pd_cong) (simp add: same_view_def)

lemma same_view_trans: "same_view s t \<Longrightarrow> same_view t u \<Longrightarrow> same_view s u"
  using same_view_valid[of s t] by (simp add: same_view_def)

lemma same_view_window: "same_view s u \<Longrightarrow> window_free s d \<Longrightarrow> window_free u d"
  using same_view_valid[of s u] by (simp add: window_free_def same_view_def)

lemma same_view_page_at: "same_view s u \<Longrightarrow> valid_pd s d \<Longrightarrow> page_at s d page base \<Longrightarrow> page_at u d page base"
  by (simp add: page_at_def translate_same_view)

text \<open>Pushing words onto a stack that ends \<open>n\<close> bytes into a page.\<close>

lemma push_user_ok:
  assumes "paging_inv (pg st)" "window_free (pg st) (cr3 (pg st))" "valid_pd (pg st) tpd" "page_at (pg st) tpd (PageAddr4M i) base"
    "i < 1024" "4 * length ws \<le> n" "n \<le> kPageSize4M" "n mod 4 = 0"
  shows "\<exists>st'. push_user tpd (cr3 (pg st)) (PageAddr4M i + of_nat n) ws st = Inr st' \<and> paging_inv (pg st') \<and> same_view (pg st) (pg st') \<and>
    (\<forall>j < length ws. \<forall>k < 4. pmem st' (base + (n - 4 * Suc j) + k) = word_bytes (ws ! j) ! k) \<and>
    (\<forall>a. a < base + (n - 4 * length ws) \<or> base + n \<le> a \<longrightarrow> pmem st' a = pmem st a)"
  using assms
proof (induction ws arbitrary: n st)
  case Nil
  then show ?case by (simp add: same_view_def)
next
  case (Cons w ws)
  let ?n = "n - 4" and ?va = "PageAddr4M i + of_nat n - 4"
  have n: "4 \<le> n" "?n < kPageSize4M" "?n + 4 \<le> kPageSize4M" "?n mod 4 = 0" using Cons.prems(6-8) by (simp_all add: kPageSize4M_def) presburger
  have va: "?va = PageAddr4M i + of_nat ?n" using n(1) by (simp add: of_nat_diff)
  have u: "unat (PageAddr4M i + of_nat ?n) = i * kPageSize4M + ?n"
    using n(2) Cons.prems(5) by (subst unat_add_small) (simp_all add: unat_PageAddr4M kPageSize4M_def)
  have dst: "translate (pg st) tpd ?va = Inr (base + ?n)" using Cons.prems(4) n(2) unfolding va page_at_def by blast
  have fits: "unat ?va mod kPageSize4M + length (word_bytes w) \<le> kPageSize4M" using n(2,3) unfolding va u by (simp add: word_bytes_def)
  obtain st1 where st1: "Task_Write_local tpd (cr3 (pg st)) ?va (word_bytes w) st = Inr st1" "paging_inv (pg st1)" "same_view (pg st) (pg st1)"
      and m1: "pmem st1 = put_bytes (base + ?n) (word_bytes w) (pmem st)"
    using Task_Write_local_ok[OF Cons.prems(1-3) dst fits] by blast
  have st1_4: "pmem st1 a = (if base + ?n \<le> a \<and> a < base + ?n + 4 then word_bytes w ! (a - (base + ?n)) else pmem st a)" for a
    unfolding m1 put_bytes_def by (simp add: word_bytes_def)
  have c: "cr3 (pg st1) = cr3 (pg st)" using st1(3) by (simp add: same_view_def)
  have "\<exists>st'. push_user tpd (cr3 (pg st1)) (PageAddr4M i + of_nat ?n) ws st1 = Inr st' \<and> paging_inv (pg st') \<and> same_view (pg st1) (pg st') \<and>
    (\<forall>j < length ws. \<forall>k < 4. pmem st' (base + (?n - 4 * Suc j) + k) = word_bytes (ws ! j) ! k) \<and>
    (\<forall>a. a < base + (?n - 4 * length ws) \<or> base + ?n \<le> a \<longrightarrow> pmem st' a = pmem st1 a)"
  proof (rule Cons.IH)
    show "window_free (pg st1) (cr3 (pg st1))" using same_view_window[OF st1(3) Cons.prems(2)] c by simp
    show "valid_pd (pg st1) tpd" using same_view_valid[OF st1(3)] Cons.prems(3) by simp
    show "page_at (pg st1) tpd (PageAddr4M i) base" by (rule same_view_page_at[OF st1(3) Cons.prems(3,4)])
  qed (use st1(2) n Cons.prems in simp_all)
  then obtain st2 where st2: "push_user tpd (cr3 (pg st)) ?va ws st1 = Inr st2" "paging_inv (pg st2)" "same_view (pg st1) (pg st2)"
      "\<And>j k. j < length ws \<Longrightarrow> k < 4 \<Longrightarrow> pmem st2 (base + (?n - 4 * Suc j) + k) = word_bytes (ws ! j) ! k"
      "\<And>a. a < base + (?n - 4 * length ws) \<or> base + ?n \<le> a \<Longrightarrow> pmem st2 a = pmem st1 a" unfolding c va by blast
  have "pmem st2 (base + (n - 4 * Suc j) + k) = word_bytes ((w # ws) ! j) ! k" if "j < length (w # ws)" "k < 4" for j k
  proof (cases j)
    case 0
    then show ?thesis using st2(5)[of "base + ?n + k"] that(2) by (simp add: st1_4)
  next
    case (Suc l)
    then show ?thesis using st2(4)[of l k] that by simp
  qed
  moreover have "pmem st2 a = pmem st a" if "a < base + (n - 4 * length (w # ws)) \<or> base + n \<le> a" for a
  proof -
    have "a < base + (?n - 4 * length ws) \<or> base + ?n \<le> a" using that n(1) by auto
    moreover have "\<not> (base + ?n \<le> a \<and> a < base + ?n + 4)" using that n(1) Cons.prems(6) by auto
    ultimately show ?thesis using st2(5)[of a] st1_4[of a] by metis
  qed
  ultimately show ?case using st1(1) st2(1,2) same_view_trans[OF st1(3) st2(3)] by (intro exI[of _ st2]) simp
qed

section \<open>Frames\<close>

text \<open>A frame that no directory in use maps.\<close>

definition unmapped :: "paging \<Rightarrow> nat \<Rightarrow> bool" where
  "unmapped s p \<longleftrightarrow> (\<forall>d i. valid_pd s d \<longrightarrow> i < 1024 \<longrightarrow> present (pd_of s d ! i) \<longrightarrow> PageIndex4M (pd_of s d ! i) \<noteq> p)"

lemma pd_count_eq_0: "pd_count es p = 0 \<longleftrightarrow> (\<forall>e \<in> set es. present e \<longrightarrow> PageIndex4M e \<noteq> p)"
  by (auto simp: pd_count_def contrib_def)

lemma pd_count_le_length: "pd_count es p \<le> length es"
  by (induction es) (auto simp: pd_count_def contrib_def)

lemma refcount_0_iff:
  assumes "paging_inv s" "p < 1024"
  shows "refcount (phys s) p = 0 \<longleftrightarrow> reserved p = 0 \<and> unmapped s p"
proof -
  have co: "counts_ok s" using assms(1) by (simp add: paging_inv_def)
  note wf = counts_okD(2)[OF co]
  have len: "length (pd_of s d) = 1024" if "valid_pd s d" for d by (rule length_pd_of[OF wf that])
  have "mapcount s p = 0 \<longleftrightarrow> (\<forall>d. valid_pd s d \<longrightarrow> pd_count (pd_of s d) p = 0)"
    using finite_live[OF wf] by (auto simp: mapcount_live valid_pd_def pd_of_def split: pd_ref.splits)
  also have "\<dots> \<longleftrightarrow> unmapped s p"
    unfolding unmapped_def pd_count_eq_0 using len by (metis in_set_conv_nth)
  finally show ?thesis using counts_okD(1)[OF co assms(2)] by simp
qed

lemma mapping_count_bound:
  assumes "paging_inv s" "p < 1024"
  shows "refcount (phys s) p \<le> 1025 + 1024 * card (live s)"
proof -
  have co: "counts_ok s" using assms(1) by (simp add: paging_inv_def)
  note wf = counts_okD(2)[OF co]
  have le: "pd_count (pd_of s d) p \<le> 1024" if "valid_pd s d" for d
    using pd_count_le_length[of "pd_of s d" p] length_pd_of[OF wf that] by simp
  have "(\<Sum>i \<in> live s. pd_count (pd_of s (RegionPD i)) p) \<le> card (live s) * 1024"
    by (intro sum_bounded_above[where 'a = nat, simplified]) (use le in \<open>simp add: valid_pd_def\<close>)
  moreover have "pd_count (kernel_pd s) p \<le> 1024" using le[OF valid_KernelPD] by (simp add: pd_of_def)
  ultimately show ?thesis using counts_okD(1)[OF co assms(2)] by (simp add: mapcount_live reserved_def)
qed

text \<open>A free frame is found while there is one.\<close>

lemma NextFree_unmapped:
  assumes "paging_inv s" "start \<le> f" "f < 32" "unmapped s f"
  shows "\<exists>p. NextFreePhysicalPage (phys s) start = Inr p \<and> Is4MPageAligned p \<and> unmapped s (PageIndex4M p) \<and> refcount (phys s) (PageIndex4M p) = 0"
proof -
  have pb: "pb_consistent (phys s)" using assms(1) by (simp add: paging_inv_def counts_ok_def paging_wf_def)
  have "refcount (phys s) f = 0" using refcount_0_iff[OF assms(1), of f] assms(3,4) by (simp add: reserved_def)
  then obtain p where p: "NextFreePhysicalPage (phys s) start = Inr p" using NextFreePhysicalPage_full[OF pb, of start] assms(2,3) by auto
  note ok = NextFreePhysicalPage_ok[OF pb p]
  have "PageIndex4M p < 1024" by simp
  with ok p refcount_0_iff[OF assms(1)] show ?thesis by blast
qed

lemma unmapped_entry_set:
  assumes "entry_set d i e s t" "paging_wf s" "i < 1024" "unmapped s p" "\<not> present e \<or> PageIndex4M e \<noteq> p"
  shows "unmapped t p"
  unfolding unmapped_def
proof (intro allI impI)
  fix d' j assume a: "valid_pd t d'" "j < 1024" "present (pd_of t d' ! j)"
  have v: "valid_pd s d'" using a(1) entry_set_valid[OF assms(1)] by simp
  note n = entry_set_nth[OF assms(1) v length_pd_of[OF assms(2) v] assms(3), of j]
  then show "PageIndex4M (pd_of t d' ! j) \<noteq> p" using a v assms(4,5) unfolding unmapped_def by (auto split: if_splits)
qed

lemma unmapped_same_view: "same_view s u \<Longrightarrow> unmapped u p = unmapped s p"
  using same_view_valid[of s u] by (auto simp: unmapped_def same_view_def)

text \<open>A translated address is in a mapped frame.\<close>

lemma translate_mapped:
  assumes "translate s d va = Inr pa" "valid_pd s d" "unmapped s p"
  shows "pa < p * kPageSize4M \<or> p * kPageSize4M + kPageSize4M \<le> pa"
proof -
  let ?e = "pd_of s d ! PageIndex4M va"
  have e: "present ?e" "pa = unat (?e AND kPageMask4M) + unat va mod kPageSize4M"
    using assms(1) by (auto simp: translate_def Let_def split: if_splits)
  have "unat (?e AND kPageMask4M) = PageIndex4M ?e * kPageSize4M" by (simp add: mask_page unat_PageAddr4M)
  moreover have "PageIndex4M ?e \<noteq> p" using assms(2,3) e(1) by (simp add: unmapped_def)
  moreover have "unat va mod kPageSize4M < kPageSize4M" by (simp add: kPageSize4M_def)
  ultimately show ?thesis using e(2) by (cases "PageIndex4M ?e < p") (auto simp: kPageSize4M_def)
qed

section \<open>The address space of the new task\<close>

lemma shared_page: "PageIndex4M USER_SHARED_SPACE_START = 3" "Is4MPageAligned USER_SHARED_SPACE_START" "PageAddr4M 3 = USER_SHARED_SPACE_START"
  and user_page: "PageIndex4M USER_START = 256" "Is4MPageAligned USER_START" "PageAddr4M 256 = USER_START"
  and no_kernel_pages: "\<not> kernel_index 3" "\<not> kernel_index 256"
  by (simp_all add: PageIndex4M_div Is4MPageAligned_def kernel_defs kPageSize4M_def kernel_index_def PageAddr4M_def)

text \<open>
  When a user task can be made: at most 60 other address spaces (so that no reference count overflows), the pages that the constructor
  uses unmapped in the kernel's directory, and two free frames.
\<close>

definition spawn_ok :: "paging \<Rightarrow> bool" where
  "spawn_ok s \<longleftrightarrow> paging_inv s \<and> cr3 s = KernelPD \<and> card (live s) \<le> 60 \<and>
     pd_of s KernelPD ! 3 = 0 \<and> pd_of s KernelPD ! 5 = 0 \<and> pd_of s KernelPD ! 256 = 0 \<and>
     (\<exists>f g. f \<noteq> g \<and> 1 \<le> f \<and> f < 32 \<and> g < 32 \<and> 1 \<le> g \<and> unmapped s f \<and> unmapped s g)"

lemma refcount_few: "paging_inv s \<Longrightarrow> card (live s) \<le> 61 \<Longrightarrow> p < 1024 \<Longrightarrow> refcount (phys s) p + 1025 < 65536"
  using mapping_count_bound[of s p] by linarith

lemma window_free_few:
  assumes "paging_inv s" "card (live s) \<le> 61" "pd_of s KernelPD ! 5 = 0"
  shows "window_free s KernelPD"
  using assms refcount_few[OF assms(1,2)] by (simp add: window_free_def)

lemma shared_space_made:
  assumes ok: "spawn_ok s"
  shows "\<exists>b s1 p s2 s3. Clone KernelPD s = Inr (RegionPD b, s1) \<and> b \<notin> live s \<and> NextFreePhysicalPage (phys s1) 1 = Inr p \<and>
    \<not> isVirtualMapped s1 (RegionPD b) USER_SHARED_SPACE_START \<and>
    AddPage (RegionPD b) USER_SHARED_SPACE_START p PG_USER False s1 = Inr s2 \<and> AddPage KernelPD USER_SHARED_SPACE_START p 0 True s2 = Inr s3 \<and>
    paging_inv s3 \<and> cr3 s3 = KernelPD \<and> live s3 = insert b (live s) \<and> Is4MPageAligned p \<and> unmapped s (PageIndex4M p) \<and>
    pd_of s3 KernelPD = (pd_of s KernelPD)[3 := mk_pde p 0] \<and> pd_of s3 (RegionPD b) = (pd_of s KernelPD)[3 := mk_pde p PG_USER] \<and>
    (\<forall>d. valid_pd s d \<longrightarrow> d \<noteq> KernelPD \<longrightarrow> pd_of s3 d = pd_of s d) \<and> (\<exists>g < 32. unmapped s3 g) \<and> paging_inv s1 \<and> pd_of s1 KernelPD = pd_of s KernelPD"
proof -
  have inv: "paging_inv s" and few: "card (live s) \<le> 60" and z: "pd_of s KernelPD ! 3 = 0" using ok by (simp_all add: spawn_ok_def)
  have wf: "paging_wf s" using inv by (simp add: paging_inv_def counts_ok_def)
  obtain f g where f: "f \<noteq> g" "1 \<le> f" "f < 32" "g < 32" "1 \<le> g" "unmapped s f" "unmapped s g" using ok by (auto simp: spawn_ok_def)
  have "\<not> {..< 1024} \<subseteq> live s" using card_mono[OF finite_live[OF wf], of "{..< 1024}"] few by auto
  then obtain c where c: "c < 1024" "c \<notin> live s" by auto
  have "refcount (phys s) p + pd_count (pd_of s KernelPD) p < 65536" if "p < 1024" for p
    using refcount_few[OF inv _ that] few pd_count_le_length[of "pd_of s KernelPD" p] length_pd_of[OF wf valid_KernelPD] by linarith
  then obtain b s1 where s1: "Clone KernelPD s = Inr (RegionPD b, s1)" "b \<notin> live s" "paging_inv s1" "live s1 = insert b (live s)"
      "cr3 s1 = cr3 s" "pd_of s1 (RegionPD b) = pd_of s KernelPD" "\<forall>d. valid_pd s d \<longrightarrow> pd_of s1 d = pd_of s d"
    using Clone_ok[OF inv valid_KernelPD c] by blast
  have v1: "valid_pd s1 d \<longleftrightarrow> d = RegionPD b \<or> valid_pd s d" for d using s1(4) by (auto simp: valid_pd_def split: pd_ref.splits)
  have un: "unmapped s1 x = unmapped s x" for x
    unfolding unmapped_def v1 using s1(6,7) by (metis valid_KernelPD)
  have few1: "card (live s1) \<le> 61" using few s1(4) finite_live[OF wf] by (simp add: card_insert_if)
  obtain p where p: "NextFreePhysicalPage (phys s1) 1 = Inr p" "Is4MPageAligned p" "unmapped s1 (PageIndex4M p)" "refcount (phys s1) (PageIndex4M p) = 0"
    using NextFree_unmapped[OF s1(3), of 1 f] f un by auto
  have nm: "\<not> isVirtualMapped s1 (RegionPD b) USER_SHARED_SPACE_START" using z s1(6) by (simp add: isVirtualMapped_def shared_page)
  have mm: "may_map s1 (RegionPD b) (PageIndex4M USER_SHARED_SPACE_START)" by (simp add: may_map_def shared_page no_kernel_pages v1)
  obtain s2 where s2: "AddPage (RegionPD b) USER_SHARED_SPACE_START p PG_USER False s1 = Inr s2" "paging_inv s2"
      "entry_set (RegionPD b) 3 (mk_pde p PG_USER) s1 s2"
    using AddPage_ok[OF s1(3) mm p(2) shared_page(2) _ nm, of False PG_USER] p(4) by (auto simp: shared_page)
  have k1: "pd_of s1 KernelPD = pd_of s KernelPD" using s1(7) by simp
  have k2: "pd_of s2 KernelPD = pd_of s KernelPD" using entry_setD[OF s2(3), of KernelPD] k1 by simp
  have live2: "live s2 = live s1" using s2(3) by (simp add: entry_set_def)
  have nm2: "\<not> isVirtualMapped s2 KernelPD USER_SHARED_SPACE_START" using z k2 by (simp add: isVirtualMapped_def shared_page)
  have mm2: "may_map s2 KernelPD (PageIndex4M USER_SHARED_SPACE_START)" by (simp add: may_map_def)
  obtain s3 where s3: "AddPage KernelPD USER_SHARED_SPACE_START p 0 True s2 = Inr s3" "paging_inv s3" "entry_set KernelPD 3 (mk_pde p 0) s2 s3"
    using AddPage_ok[OF s2(2) mm2 p(2) shared_page(2) _ nm2, of True 0] refcount_few[OF s2(2), of "PageIndex4M p"] few1 live2 by (auto simp: shared_page)
  have v2: "valid_pd s2 = valid_pd s1" by (rule entry_set_valid[OF s2(3)])
  have pd3: "pd_of s3 d = (if d = KernelPD then (pd_of s KernelPD)[3 := mk_pde p 0] else if d = RegionPD b then (pd_of s KernelPD)[3 := mk_pde p PG_USER] else pd_of s d)"
    if "valid_pd s1 d" for d
    using entry_setD[OF s3(3), of d] entry_setD[OF s2(3), of d] that s1(6,7) k2 v1 no_kernel_pages by (auto simp: v2)
  obtain h where h: "h < 32" "unmapped s1 h" "h \<noteq> PageIndex4M p" using f un by metis
  have wf1: "paging_wf s1" and wf2: "paging_wf s2" using s1(3) s2(2) by (simp_all add: paging_inv_def counts_ok_def)
  have "unmapped s2 h" using unmapped_entry_set[OF s2(3) wf1 _ h(2)] h(3) by simp
  then have "unmapped s3 h" using unmapped_entry_set[OF s3(3) wf2] h(3) by simp
  moreover have "cr3 s3 = KernelPD" "live s3 = insert b (live s)" using s3(3) s2(3) s1(4,5) ok by (simp_all add: entry_set_def spawn_ok_def)
  ultimately show ?thesis
    using s1(1-3) k1 p nm s2(1) s3(1,2) pd3[of KernelPD] pd3[of "RegionPD b"] pd3 v1 un h(1) s1(2) by (auto simp: valid_pd_def)
qed

lemma code_page_made:
  assumes inv: "paging_inv s" and cr3: "cr3 s = KernelPD" and few: "card (live s) \<le> 61" and b: "b \<in> live s"
    and k: "pd_of s KernelPD = K[3 := mk_pde p 0]" "length K = 1024" "K ! 3 = 0" "K ! 5 = 0" "K ! 256 = 0"
    and u: "pd_of s (RegionPD b) = K[3 := mk_pde p PG_USER]" and g: "g < 32" "unmapped s g"
  shows "\<exists>s1 q s2. RemovePage KernelPD USER_SHARED_SPACE_START s = Inr s1 \<and> NextFreePhysicalPage (phys s1) 0 = Inr q \<and>
    AddPage (RegionPD b) USER_START q PG_USER False s1 = Inr s2 \<and> GetPhysicalAddr s2 (RegionPD b) USER_START = Inr q \<and>
    paging_inv s2 \<and> cr3 s2 = KernelPD \<and> live s2 = live s \<and> window_free s2 KernelPD \<and> Is4MPageAligned q \<and> unmapped s1 (PageIndex4M q) \<and>
    paging_inv s1 \<and> pd_of s1 KernelPD = K \<and> (\<forall>d. valid_pd s d \<longrightarrow> d \<noteq> KernelPD \<longrightarrow> pd_of s1 d = pd_of s d) \<and> live s1 = live s \<and>
    pd_of s2 KernelPD = K \<and> pd_of s2 (RegionPD b) = K[3 := mk_pde p PG_USER, 256 := mk_pde q PG_USER] \<and>
    (\<forall>d. valid_pd s d \<longrightarrow> d \<noteq> KernelPD \<longrightarrow> d \<noteq> RegionPD b \<longrightarrow> pd_of s2 d = pd_of s d)"
proof -
  have wf: "paging_wf s" using inv by (simp add: paging_inv_def counts_ok_def)
  have vb: "valid_pd s (RegionPD b)" using b by (simp add: valid_pd_def)
  obtain s1 where s1: "RemovePage KernelPD USER_SHARED_SPACE_START s = Inr s1" "paging_inv s1" "entry_set KernelPD 3 0 s s1"
    using RemovePage_ok[OF inv, of KernelPD USER_SHARED_SPACE_START] k by (auto simp: may_map_def shared_page isVirtualMapped_def)
  have keep: "K[3 := 0] = K" by (rule list_update_same_conv[THEN iffD2]) (use k in simp_all)
  have pd1: "pd_of s1 d = (if d = KernelPD then K else pd_of s d)" if "valid_pd s d" for d
    using entry_setD[OF s1(3) that] k(1) keep no_kernel_pages by auto
  have v1: "valid_pd s1 = valid_pd s" by (rule entry_set_valid[OF s1(3)])
  have l1: "live s1 = live s" "cr3 s1 = KernelPD" using s1(3) cr3 by (simp_all add: entry_set_def)
  have "unmapped s1 g" using unmapped_entry_set[OF s1(3) wf _ g(2)] by simp
  then obtain q where q: "NextFreePhysicalPage (phys s1) 0 = Inr q" "Is4MPageAligned q" "unmapped s1 (PageIndex4M q)" "refcount (phys s1) (PageIndex4M q) = 0"
    using NextFree_unmapped[OF s1(2), of 0 g] g(1) by auto
  have nm: "\<not> isVirtualMapped s1 (RegionPD b) USER_START" using pd1[OF vb] u k(5) by (simp add: isVirtualMapped_def user_page)
  have mm: "may_map s1 (RegionPD b) (PageIndex4M USER_START)" using vb by (simp add: may_map_def user_page no_kernel_pages v1)
  obtain s2 where s2: "AddPage (RegionPD b) USER_START q PG_USER False s1 = Inr s2" "paging_inv s2" "entry_set (RegionPD b) 256 (mk_pde q PG_USER) s1 s2"
    using AddPage_ok[OF s1(2) mm q(2) user_page(2) _ nm, of False PG_USER] q(4) by (auto simp: user_page)
  have pd2: "pd_of s2 d = (if d = KernelPD then K else if d = RegionPD b then K[3 := mk_pde p PG_USER, 256 := mk_pde q PG_USER] else pd_of s d)"
    if "valid_pd s d" for d
    using entry_setD[OF s2(3), of d] pd1[OF that] that u by (auto simp: v1)
  have l2: "live s2 = live s" "cr3 s2 = KernelPD" using s2(3) l1 by (simp_all add: entry_set_def)
  have vb2: "valid_pd s2 (RegionPD b)" using b l2 by (simp add: valid_pd_def)
  have "isVirtualMapped s2 (RegionPD b) USER_START" using pd2[OF vb] k(2) by (simp add: isVirtualMapped_def user_page)
  then have "GetPhysicalAddr s2 (RegionPD b) USER_START = Inr q"
    using GetPhysicalAddr_inv[OF s2(2) vb2 user_page(2)] pd2[OF vb] k(2) by (simp add: user_page mk_pde_mask[OF q(2)])
  moreover have "window_free s2 KernelPD" using window_free_few[OF s2(2)] few l2 pd2[OF valid_KernelPD] k(4) by simp
  ultimately show ?thesis
    using s1(1,2) q s2(1,2) l1 l2 pd1[OF valid_KernelPD] pd1 pd2[OF valid_KernelPD] pd2[OF vb] pd2 by auto
qed

section \<open>The constructor\<close>

text \<open>
  What the constructor asks of a copy function: called while the shared page is mapped to a frame that was free and everything else
  of the kernel's address space is as it was, it returns \<open>arg\<close> and writes to that frame only.
\<close>

definition copyfunc_ok :: "machine \<Rightarrow> copy_func \<Rightarrow> u32 \<Rightarrow> bool" where
  "copyfunc_ok M copyfunc arg \<longleftrightarrow> (\<forall>st f. cr3 (pg st) = KernelPD \<and> f < 1024 \<and> unmapped (m_pg M) f \<and>
     page_at (pg st) KernelPD USER_SHARED_SPACE_START (f * kPageSize4M) \<and>
     (\<forall>i < 1024. i \<noteq> 3 \<longrightarrow> pd_of (pg st) KernelPD ! i = pd_of (m_pg M) KernelPD ! i) \<and> pmem st = m_pmem M \<longrightarrow>
     (\<exists>m. copyfunc USER_SHARED_SPACE_START USER_SHARED_SPACE_END st = Inr (arg, st\<lparr>pmem := m\<rparr>) \<and>
       (\<forall>a. a < f * kPageSize4M \<or> f * kPageSize4M + kPageSize4M \<le> a \<longrightarrow> m a = m_pmem M a)))"

lemma CopyArgDefault_ok: "copyfunc_ok M (CopyArgDefault arg) arg"
  unfolding copyfunc_ok_def
proof (intro allI impI, elim conjE)
  fix st :: vm and f
  let ?b = "f * kPageSize4M" and ?va = "USER_SHARED_SPACE_END - 4"
  assume a: "cr3 (pg st) = KernelPD" "page_at (pg st) KernelPD USER_SHARED_SPACE_START ?b" "pmem st = m_pmem M"
  have "translate (pg st) (cr3 (pg st)) (?va + of_nat i) = Inr (?b + 0x3FFFFC + i)" if "i < 4" for i
  proof -
    have "?va + of_nat i = USER_SHARED_SPACE_START + of_nat (0x3FFFFC + i)" by (simp add: kernel_defs)
    moreover have "0x3FFFFC + i < kPageSize4M" using that by (simp add: kPageSize4M_def)
    ultimately show ?thesis using a(1,2) unfolding page_at_def by (metis add.assoc)
  qed
  note s = store32_ok[OF this, of arg]
  show "\<exists>m. CopyArgDefault arg USER_SHARED_SPACE_START USER_SHARED_SPACE_END st = Inr (arg, st\<lparr>pmem := m\<rparr>) \<and>
      (\<forall>a. a < ?b \<or> ?b + kPageSize4M \<le> a \<longrightarrow> m a = m_pmem M a)"
    using s a(3) by (auto simp: CopyArgDefault_def kPageSize4M_def)
qed

text \<open>The function that hands the ramdisk to the first program is one too.\<close>

lemma initrd_copyfunc_ok:
  assumes src: "\<And>i. i < unat sz \<Longrightarrow> translate (m_pg M) KernelPD (data + of_nat i) = Inr (ps i)"
    and sz: "unat sz + 4 \<le> kPageSize4M" and z: "pd_of (m_pg M) KernelPD ! 3 = 0"
  shows "copyfunc_ok M (initrd_copyfunc data sz) USER_SHARED_SPACE_START"
  unfolding copyfunc_ok_def
proof (intro allI impI, elim conjE)
  fix st :: vm and f
  assume a: "cr3 (pg st) = KernelPD" "unmapped (m_pg M) f" "page_at (pg st) KernelPD USER_SHARED_SPACE_START (f * kPageSize4M)"
    "\<forall>i < 1024. i \<noteq> 3 \<longrightarrow> pd_of (pg st) KernelPD ! i = pd_of (m_pg M) KernelPD ! i" "pmem st = m_pmem M"
  have pa: "page_at (pg st) (cr3 (pg st)) USER_SHARED_SPACE_START (f * kPageSize4M)" using a(1,3) by simp
  have t: "translate (pg st) (cr3 (pg st)) (data + of_nat i) = Inr (ps i)"
      "ps i < f * kPageSize4M \<or> f * kPageSize4M + kPageSize4M \<le> ps i" if "i < unat sz" for i
  proof -
    have "PageIndex4M (data + of_nat i) \<noteq> 3" using src[OF that] z by (auto simp: translate_def present_def Let_def)
    then show "translate (pg st) (cr3 (pg st)) (data + of_nat i) = Inr (ps i)" using src[OF that] a(1,4) by (simp add: translate_def)
    show "ps i < f * kPageSize4M \<or> f * kPageSize4M + kPageSize4M \<le> ps i" by (rule translate_mapped[OF src[OF that] valid_KernelPD a(2)])
  qed
  show "\<exists>m. initrd_copyfunc data sz USER_SHARED_SPACE_START USER_SHARED_SPACE_END st = Inr (USER_SHARED_SPACE_START, st\<lparr>pmem := m\<rparr>) \<and>
      (\<forall>a. a < f * kPageSize4M \<or> f * kPageSize4M + kPageSize4M \<le> a \<longrightarrow> m a = m_pmem M a)"
    using initrd_copied[OF pa t sz pa] a(5) sz by (auto simp: initrd_copyfunc_def bindE_Inr_iff assertE_Inr_iff)
qed

text \<open>The new task as the constructor leaves it.\<close>

definition fresh_user_task :: "nat \<Rightarrow> bool \<Rightarrow> pd_ref \<Rightarrow> nat \<Rightarrow> u32 \<Rightarrow> kernel \<Rightarrow> task" where
  "fresh_user_task cur garbage pd esp0 entry_offset k =
     \<lparr>t_id = k_next_tid k, t_state = READY,
      t_regs = zero_regs\<lparr>r_ds := ucast kUserDataSegment, r_cs := ucast kUserCodeSegment, r_esp := USER_SHARED_SPACE_END - 24\<rparr>,
      t_pd = pd, t_user_in_kernel = garbage, t_parent = Some cur, t_children = [], t_user = True, t_stack = esp0, t_entry_offset = entry_offset\<rparr>"

lemma UserTask_construct_steps:
  assumes k: "k_queue (m_kernel M) \<noteq> []" "k_current (m_kernel M) = Some cur" "k_tasks (m_kernel M) cur = Some ct" "t_pd ct = KernelPD"
      "k_tasks (m_kernel M) this = None"
    and "Clone KernelPD (m_pg M) = Inr (RegionPD b, s1)"
    and h1: "kmalloc DEFAULT_THREAD_STACK_SIZE ((k_heap (m_kernel M))\<lparr>world := s1\<rparr>) = Inr (esp0, h1)" "world h1 = s1"
    and "NextFreePhysicalPage (phys s1) 1 = Inr p" "\<not> isVirtualMapped s1 (RegionPD b) USER_SHARED_SPACE_START"
      "AddPage (RegionPD b) USER_SHARED_SPACE_START p PG_USER False s1 = Inr s2" "AddPage KernelPD USER_SHARED_SPACE_START p 0 True s2 = Inr s3"
      "copyfunc USER_SHARED_SPACE_START USER_SHARED_SPACE_END \<lparr>pg = s3, pmem = m_pmem M\<rparr> = Inr (arg, \<lparr>pg = s3, pmem = m3\<rparr>)"
      "push_user (RegionPD b) KernelPD USER_SHARED_SPACE_END (user_stack arg entry_offset) \<lparr>pg = s3, pmem = m3\<rparr> = Inr v"
      "RemovePage KernelPD USER_SHARED_SPACE_START (pg v) = Inr s5"
    and h2: "kmalloc 8 (h1\<lparr>world := s5\<rparr>) = Inr (item, h2)" "world h2 = s5"
    and "NextFreePhysicalPage (phys s5) 0 = Inr q" "AddPage (RegionPD b) USER_START q PG_USER False s5 = Inr s6"
      "GetPhysicalAddr s6 (RegionPD b) USER_START = Inr q"
      "Task_Write False (RegionPD b) KernelPD USER_START func (unat codesize) \<lparr>pg = s6, pmem = pmem v\<rparr> = Inr v7"
  shows "\<exists>M'. UserTask_construct this garbage func codesize copyfunc entry_offset M = Inr M' \<and> m_pg M' = pg v7 \<and> m_pmem M' = pmem v7 \<and>
    k_heap (m_kernel M') = h2\<lparr>world := pg v7\<rparr> \<and> k_queue (m_kernel M') = (item, this) # k_queue (m_kernel M) \<and>
    k_tasks (m_kernel M') = (k_tasks (m_kernel M))(this \<mapsto> fresh_user_task cur garbage (RegionPD b) esp0 entry_offset (m_kernel M),
      cur \<mapsto> ct\<lparr>t_children := t_children ct @ [this]\<rparr>)"
proof -
  have "this \<noteq> cur" using k(3,5) by auto
  then show ?thesis using assms
    by (simp add: UserTask_construct_def on_kernel_def on_pg_def on_vm_def Task_construct_def AddToQueue_def set_pg_def m_pg_def upd_task_def
        the_task_def Let_def fresh_user_task_def fun_upd_twist)
qed

lemma heap_other_world:
  assumes "alloc_inv 0x40000000 kheap_mapped h bs" "paging_inv s" "pd_of s KernelPD = pd_of (world h) KernelPD"
  shows "alloc_inv 0x40000000 kheap_mapped (h\<lparr>world := s\<rparr>) bs"
  using assms by (simp add: alloc_inv_def heap_inv_def kheap_mapped_def)

lemma frame_base: "Is4MPageAligned p \<Longrightarrow> unat p = PageIndex4M p * kPageSize4M"
  by (metis PageAddr4M_PageIndex4M unat_PageAddr4M PageIndex4M_less)

lemma frame_page_at:
  assumes "pd_of s d ! i = mk_pde p fl" "i < 1024" "Is4MPageAligned p"
  shows "page_at s d (PageAddr4M i) (PageIndex4M p * kPageSize4M)"
  using page_atI[of s d i] assms frame_base[OF assms(3)] by (simp add: mk_pde_mask)

lemma frames_apart:
  assumes "f \<noteq> g" "f * kPageSize4M \<le> a" "a < f * kPageSize4M + kPageSize4M"
  shows "a < g * kPageSize4M \<or> g * kPageSize4M + kPageSize4M \<le> a"
proof (cases "f < g")
  case True
  then have "Suc f * kPageSize4M \<le> g * kPageSize4M" by (intro mult_le_mono1) simp
  then show ?thesis using assms(3) by simp
next
  case False
  then have "Suc g * kPageSize4M \<le> f * kPageSize4M" using assms(1) by (intro mult_le_mono1) simp
  then show ?thesis using assms(2) by simp
qed

text \<open>A program's view of its memory.\<close>

definition user_view :: "nat \<Rightarrow> machine \<Rightarrow> vm" where
  "user_view b M = \<lparr>pg = (m_pg M)\<lparr>cr3 := RegionPD b\<rparr>, pmem = m_pmem M\<rparr>"

lemma user_view_page:
  assumes "page_at (m_pg M) (RegionPD b) page base" "k < kPageSize4M"
  shows "translate (pg (user_view b M)) (cr3 (pg (user_view b M))) (page + of_nat k) = Inr (base + k)"
  using assms by (simp add: page_at_def user_view_def translate_def pd_of_def)

lemma user_view_load32:
  assumes "page_at (m_pg M) (RegionPD b) page base" "n + 4 \<le> kPageSize4M" "\<And>k. k < 4 \<Longrightarrow> m_pmem M (base + n + k) = word_bytes w ! k"
  shows "load32 (page + of_nat n) (user_view b M) = Inr w"
proof (rule load32_ok[of _ _ "base + n"])
  fix i :: nat assume "i < 4"
  then show "translate (pg (user_view b M)) (cr3 (pg (user_view b M))) (page + of_nat n + of_nat i) = Inr (base + n + i)"
    using user_view_page[OF assms(1), of "n + i"] assms(2) by (simp add: add.assoc)
qed (use assms(3)[of 0] assms(3)[of 1] assms(3)[of 2] assms(3)[of 3] in \<open>simp_all add: user_view_def word_bytes_def\<close>)

text \<open>The first stack: from a shared page that is mapped in the new directory and in the kernel's.\<close>

lemma first_stack:
  assumes inv: "paging_inv s" "cr3 s = KernelPD" "window_free s KernelPD" "valid_pd s (RegionPD b)"
    and u: "pd_of s (RegionPD b) ! 3 = mk_pde p PG_USER" "Is4MPageAligned p"
  shows "\<exists>v. push_user (RegionPD b) KernelPD USER_SHARED_SPACE_END (user_stack arg off) \<lparr>pg = s, pmem = m\<rparr> = Inr v \<and> paging_inv (pg v) \<and>
    same_view s (pg v) \<and>
    (\<forall>j < 6. \<forall>k < 4. pmem v (PageIndex4M p * kPageSize4M + (0x3FFFE8 + 4 * j) + k) = word_bytes (rev (user_stack arg off) ! j) ! k) \<and>
    (\<forall>a. a < PageIndex4M p * kPageSize4M \<or> PageIndex4M p * kPageSize4M + kPageSize4M \<le> a \<longrightarrow> pmem v a = m a)"
proof -
  let ?b = "PageIndex4M p * kPageSize4M" and ?ws = "user_stack arg off" and ?st = "\<lparr>pg = s, pmem = m\<rparr>"
  have l: "length ?ws = 6" "PageAddr4M 3 + of_nat kPageSize4M = USER_SHARED_SPACE_END" "kPageSize4M = 0x400000"
    by (simp_all add: user_stack_def shared_page kernel_defs kPageSize4M_def)
  have pa: "page_at (pg ?st) (RegionPD b) (PageAddr4M 3) ?b" using frame_page_at[OF u(1) _ u(2)] by simp
  have n: "4 * length ?ws \<le> kPageSize4M" "kPageSize4M \<le> kPageSize4M" "kPageSize4M mod 4 = 0" by (simp_all add: l)
  obtain v where v: "push_user (RegionPD b) KernelPD USER_SHARED_SPACE_END ?ws ?st = Inr v" "paging_inv (pg v)" "same_view s (pg v)"
      "\<And>j k. j < 6 \<Longrightarrow> k < 4 \<Longrightarrow> pmem v (?b + (kPageSize4M - 4 * Suc j) + k) = word_bytes (?ws ! j) ! k"
      "\<And>a. a < ?b + (kPageSize4M - 4 * 6) \<or> ?b + kPageSize4M \<le> a \<Longrightarrow> pmem v a = m a"
    using push_user_ok[OF _ _ _ pa _ n] inv unfolding l(1,2) by auto
  have "pmem v (?b + (0x3FFFE8 + 4 * j) + k) = word_bytes (rev ?ws ! j) ! k" if "j < 6" "k < 4" for j k
  proof -
    have "kPageSize4M - 4 * Suc (5 - j) = 0x3FFFE8 + 4 * j" using that(1) by (simp add: l(3))
    then show ?thesis using v(4)[of "5 - j" k] that by (simp add: rev_nth l(1))
  qed
  then show ?thesis using v(1-3) v(5) by (intro exI[of _ v]) auto
qed

text \<open>
  The state before the code is copied: the directory \<open>b\<close> maps the shared region to the frame of \<open>p\<close>, which holds the first stack, and the page of the
  program to the frame of \<open>q\<close>; both were free.
\<close>

definition space_made :: "paging \<Rightarrow> (nat \<Rightarrow> u8) \<Rightarrow> nat \<Rightarrow> u32 \<Rightarrow> u32 \<Rightarrow> u32 list \<Rightarrow> paging \<Rightarrow> (nat \<Rightarrow> u8) \<Rightarrow> bool" where
  "space_made s m b p q ws t m' \<longleftrightarrow> b \<notin> live s \<and> paging_inv t \<and> cr3 t = KernelPD \<and> window_free t KernelPD \<and> live t = insert b (live s) \<and>
     Is4MPageAligned p \<and> Is4MPageAligned q \<and> unmapped s (PageIndex4M p) \<and> unmapped s (PageIndex4M q) \<and> PageIndex4M p \<noteq> PageIndex4M q \<and>
     (\<forall>d. valid_pd s d \<longrightarrow> pd_of t d = pd_of s d) \<and>
     pd_of t (RegionPD b) = (pd_of s KernelPD)[3 := mk_pde p PG_USER, 256 := mk_pde q PG_USER] \<and>
     (\<forall>j < 6. \<forall>k < 4. m' (PageIndex4M p * kPageSize4M + (0x3FFFE8 + 4 * j) + k) = word_bytes (rev ws ! j) ! k) \<and>
     (\<forall>a. a < PageIndex4M p * kPageSize4M \<or> PageIndex4M p * kPageSize4M + kPageSize4M \<le> a \<longrightarrow> m' a = m a)"

lemma spawn_calls:
  assumes ok: "spawn_ok (m_pg M)" and copy: "copyfunc_ok M copyfunc arg"
  shows "\<exists>b s1 p s2 s3 m3 v s5 q s6. Clone KernelPD (m_pg M) = Inr (RegionPD b, s1) \<and> NextFreePhysicalPage (phys s1) 1 = Inr p \<and>
    \<not> isVirtualMapped s1 (RegionPD b) USER_SHARED_SPACE_START \<and> AddPage (RegionPD b) USER_SHARED_SPACE_START p PG_USER False s1 = Inr s2 \<and>
    AddPage KernelPD USER_SHARED_SPACE_START p 0 True s2 = Inr s3 \<and>
    copyfunc USER_SHARED_SPACE_START USER_SHARED_SPACE_END \<lparr>pg = s3, pmem = m_pmem M\<rparr> = Inr (arg, \<lparr>pg = s3, pmem = m3\<rparr>) \<and>
    push_user (RegionPD b) KernelPD USER_SHARED_SPACE_END (user_stack arg entry_offset) \<lparr>pg = s3, pmem = m3\<rparr> = Inr v \<and>
    RemovePage KernelPD USER_SHARED_SPACE_START (pg v) = Inr s5 \<and> NextFreePhysicalPage (phys s5) 0 = Inr q \<and>
    AddPage (RegionPD b) USER_START q PG_USER False s5 = Inr s6 \<and> GetPhysicalAddr s6 (RegionPD b) USER_START = Inr q \<and>
    paging_inv s1 \<and> pd_of s1 KernelPD = pd_of (m_pg M) KernelPD \<and> paging_inv s5 \<and> pd_of s5 KernelPD = pd_of (m_pg M) KernelPD \<and>
    space_made (m_pg M) (m_pmem M) b p q (user_stack arg entry_offset) s6 (pmem v)"
proof -
  let ?s = "m_pg M" and ?K = "pd_of (m_pg M) KernelPD"
  have wf: "paging_wf ?s" and z: "?K ! 3 = 0" "?K ! 5 = 0" "?K ! 256 = 0" and few: "card (live ?s) \<le> 60"
    using ok by (simp_all add: spawn_ok_def paging_inv_def counts_ok_def)
  have lK: "length ?K = 1024" by (rule length_pd_of[OF wf valid_KernelPD])
  obtain b s1 p s2 s3 g where s3: "Clone KernelPD ?s = Inr (RegionPD b, s1)" "b \<notin> live ?s" "NextFreePhysicalPage (phys s1) 1 = Inr p"
      "\<not> isVirtualMapped s1 (RegionPD b) USER_SHARED_SPACE_START"
      "AddPage (RegionPD b) USER_SHARED_SPACE_START p PG_USER False s1 = Inr s2" "AddPage KernelPD USER_SHARED_SPACE_START p 0 True s2 = Inr s3"
      "paging_inv s3" "cr3 s3 = KernelPD" "live s3 = insert b (live ?s)" "Is4MPageAligned p" "unmapped ?s (PageIndex4M p)"
      "pd_of s3 KernelPD = ?K[3 := mk_pde p 0]" "pd_of s3 (RegionPD b) = ?K[3 := mk_pde p PG_USER]"
      "\<forall>d. valid_pd ?s d \<longrightarrow> d \<noteq> KernelPD \<longrightarrow> pd_of s3 d = pd_of ?s d" "g < 32" "unmapped s3 g"
    and s1: "paging_inv s1" "pd_of s1 KernelPD = ?K"
    using shared_space_made[OF ok] by blast
  let ?f = "PageIndex4M p"
  have few3: "card (live s3) \<le> 61" using few s3(9) finite_live[OF wf] by (simp add: card_insert_if)
  have "page_at s3 KernelPD USER_SHARED_SPACE_START (?f * kPageSize4M)"
    using frame_page_at[of s3 KernelPD 3 p 0] s3(10,12) lK by (simp add: shared_page)
  then obtain m3 where m3: "copyfunc USER_SHARED_SPACE_START USER_SHARED_SPACE_END \<lparr>pg = s3, pmem = m_pmem M\<rparr> = Inr (arg, \<lparr>pg = s3, pmem = m3\<rparr>)"
      "\<And>a. a < ?f * kPageSize4M \<or> ?f * kPageSize4M + kPageSize4M \<le> a \<Longrightarrow> m3 a = m_pmem M a"
    using copy[unfolded copyfunc_ok_def, rule_format, of "\<lparr>pg = s3, pmem = m_pmem M\<rparr>" ?f] s3(8,11,12) by auto
  have win3: "window_free s3 KernelPD" using window_free_few[OF s3(7) few3] s3(12) z by simp
  have vb3: "valid_pd s3 (RegionPD b)" using s3(9) by (simp add: valid_pd_def)
  obtain v where v: "push_user (RegionPD b) KernelPD USER_SHARED_SPACE_END (user_stack arg entry_offset) \<lparr>pg = s3, pmem = m3\<rparr> = Inr v"
      "paging_inv (pg v)" "same_view s3 (pg v)"
      "\<And>j k. j < 6 \<Longrightarrow> k < 4 \<Longrightarrow> pmem v (?f * kPageSize4M + (0x3FFFE8 + 4 * j) + k) = word_bytes (rev (user_stack arg entry_offset) ! j) ! k"
      "\<And>a. a < ?f * kPageSize4M \<or> ?f * kPageSize4M + kPageSize4M \<le> a \<Longrightarrow> pmem v a = m3 a"
    using first_stack[OF s3(7,8) win3 vb3 _ s3(10), of arg entry_offset m3] s3(13) lK by auto
  have v3: "live (pg v) = insert b (live ?s)" "cr3 (pg v) = KernelPD" "card (live (pg v)) \<le> 61"
      "pd_of (pg v) KernelPD = ?K[3 := mk_pde p 0]" "pd_of (pg v) (RegionPD b) = ?K[3 := mk_pde p PG_USER]" "unmapped (pg v) g"
    using v(3) s3(8,9,12,13,16) few3 vb3 unmapped_same_view[OF v(3)] by (simp_all add: same_view_def)
  have bv: "b \<in> live (pg v)" using v3(1) by simp
  obtain s5 q s6 where s6: "RemovePage KernelPD USER_SHARED_SPACE_START (pg v) = Inr s5" "NextFreePhysicalPage (phys s5) 0 = Inr q"
      "AddPage (RegionPD b) USER_START q PG_USER False s5 = Inr s6" "GetPhysicalAddr s6 (RegionPD b) USER_START = Inr q"
      "paging_inv s6" "cr3 s6 = KernelPD" "live s6 = live (pg v)" "window_free s6 KernelPD" "Is4MPageAligned q" "unmapped s5 (PageIndex4M q)"
      "paging_inv s5" "pd_of s5 KernelPD = ?K" "\<forall>d. valid_pd (pg v) d \<longrightarrow> d \<noteq> KernelPD \<longrightarrow> pd_of s5 d = pd_of (pg v) d" "live s5 = live (pg v)"
      "pd_of s6 KernelPD = ?K" "pd_of s6 (RegionPD b) = ?K[3 := mk_pde p PG_USER, 256 := mk_pde q PG_USER]"
      "\<forall>d. valid_pd (pg v) d \<longrightarrow> d \<noteq> KernelPD \<longrightarrow> d \<noteq> RegionPD b \<longrightarrow> pd_of s6 d = pd_of (pg v) d"
    using code_page_made[OF v(2) v3(2,3) bv v3(4) lK z v3(5) s3(15) v3(6)] by blast
  let ?g = "PageIndex4M q"
  have un: "pd_of s5 d = pd_of ?s d" "valid_pd s5 d" if "valid_pd ?s d" for d
    using s6(12,13,14) s3(14) v(3) v3(1) that s3(9) vb3 by (cases "d = KernelPD"; auto simp: same_view_def valid_pd_def split: pd_ref.splits)+
  have uq: "unmapped ?s ?g" using s6(10) un unfolding unmapped_def by (metis (no_types, lifting))
  have "pd_of s5 (RegionPD b) ! 3 = mk_pde p PG_USER" "valid_pd s5 (RegionPD b)" using s6(13,14) v3(1,5) lK by (simp_all add: valid_pd_def)
  then have pq: "?f \<noteq> ?g" using s6(10) unfolding unmapped_def by (metis frame_mk_pde present_mk_pde numeral_less_iff semiring_norm(68,76,78,80,81))
  have "space_made ?s (m_pmem M) b p q (user_stack arg entry_offset) s6 (pmem v)"
    unfolding space_made_def
    using s3(2,9,10,11,14) s6(5-9,15-17) v3(1) v(3-5) m3(2) uq pq vb3 by (auto simp: same_view_def valid_pd_def split: pd_ref.splits)
  then show ?thesis using s3(1,3-6) m3(1) v(1) s6(1-4,11,12) s1 by blast
qed

text \<open>Copying the program into its page.\<close>

lemma code_written:
  assumes sp: "space_made s m b p q ws t m'" and inv: "paging_wf s" "pd_of s KernelPD ! 5 = 0"
    and code: "n \<le> kPageSize4M" "\<And>i. i < n \<Longrightarrow> translate s KernelPD (func + of_nat i) = Inr (ps i)"
  shows "\<exists>v. Task_Write False (RegionPD b) KernelPD USER_START func n \<lparr>pg = t, pmem = m'\<rparr> = Inr v \<and> paging_inv (pg v) \<and> same_view t (pg v) \<and>
    (\<forall>i < n. pmem v (PageIndex4M q * kPageSize4M + i) = m (ps i)) \<and>
    (\<forall>a. a < PageIndex4M q * kPageSize4M \<or> PageIndex4M q * kPageSize4M + kPageSize4M \<le> a \<longrightarrow> pmem v a = m' a)"
proof -
  let ?st = "\<lparr>pg = t, pmem = m'\<rparr>" and ?b = "PageIndex4M q * kPageSize4M"
  have t: "paging_inv (pg ?st)" "window_free (pg ?st) (cr3 (pg ?st))" "valid_pd (pg ?st) (RegionPD b)" "cr3 t = KernelPD" "pd_of t KernelPD = pd_of s KernelPD"
    using sp by (simp_all add: space_made_def valid_pd_def)
  have "pd_of t (RegionPD b) ! 256 = mk_pde q PG_USER"
    using sp length_pd_of[OF inv(1) valid_KernelPD] by (simp add: space_made_def)
  then have pa: "page_at t (RegionPD b) USER_START ?b" using frame_page_at[of t "RegionPD b" 256 q] sp by (simp add: space_made_def user_page)
  have dst: "translate (pg ?st) (RegionPD b) USER_START = Inr ?b" using pa[unfolded page_at_def, rule_format, of 0] by (simp add: kPageSize4M_def)
  have fits: "unat USER_START mod kPageSize4M + n \<le> kPageSize4M" using code(1) by (simp add: kernel_defs kPageSize4M_def)
  have src: "translate (pg ?st) (cr3 (pg ?st)) (func + of_nat i) = Inr (ps i) \<and> PageIndex4M (func + of_nat i) \<noteq> 5" if "i < n" for i
    using code(2)[OF that] inv(2) t(4,5) by (auto simp: translate_def Let_def present_def split: if_splits)
  have apart: "ps i < PageIndex4M x * kPageSize4M \<or> PageIndex4M x * kPageSize4M + kPageSize4M \<le> ps i" if "i < n" "x = p \<or> x = q" for i x
    using translate_mapped[OF code(2)[OF that(1)] valid_KernelPD] sp that(2) by (auto simp: space_made_def)
  have a: "\<forall>i < n. ps i < ?b \<or> ?b + n \<le> ps i" using apart[of _ q] code(1) by fastforce
  obtain v where v: "Task_Write False (RegionPD b) KernelPD USER_START func n ?st = Inr v" "paging_inv (pg v)" "same_view t (pg v)"
      "\<forall>i < n. pmem v (?b + i) = m' (ps i)" "\<forall>a. a < ?b \<or> ?b + n \<le> a \<longrightarrow> pmem v a = m' a"
    using Task_Write_ok[OF t(1-3) dst fits _ a, of func] src t(4) by auto
  have "m' (ps i) = m (ps i)" if "i < n" for i using apart[OF that, of p] sp unfolding space_made_def by blast
  then show ?thesis using v code(1) by (intro exI[of _ v]) auto
qed

text \<open>What the new task and the others see of it.\<close>

lemma space_view:
  assumes sp: "space_made s m b p q (user_stack arg off) t m'" and wf: "paging_wf s" and sv: "same_view t (m_pg M)"
    and keep: "\<forall>a. a < PageIndex4M q * kPageSize4M \<or> PageIndex4M q * kPageSize4M + kPageSize4M \<le> a \<longrightarrow> m_pmem M a = m' a"
  shows "page_at (m_pg M) (RegionPD b) USER_START (PageIndex4M q * kPageSize4M)"
    and "\<forall>j < 6. load32 (USER_SHARED_SPACE_END - 24 + of_nat (4 * j)) (user_view b M) = Inr (rev (user_stack arg off) ! j)"
    and "\<And>d. valid_pd s d \<Longrightarrow> pd_of (m_pg M) d = pd_of s d"
    and "\<forall>a. \<not> unmapped s (a div kPageSize4M) \<longrightarrow> m_pmem M a = m a"
proof -
  have v: "valid_pd t (RegionPD b)" "valid_pd s d \<Longrightarrow> valid_pd t d" for d using sp by (auto simp: space_made_def valid_pd_def split: pd_ref.splits)
  have len: "length (pd_of s KernelPD) = 1024" by (rule length_pd_of[OF wf valid_KernelPD])
  have pd: "pd_of (m_pg M) (RegionPD b) = (pd_of s KernelPD)[3 := mk_pde p PG_USER, 256 := mk_pde q PG_USER]"
    using sp sv v(1) by (simp add: space_made_def same_view_def)
  have al: "Is4MPageAligned p" "Is4MPageAligned q" "PageIndex4M p \<noteq> PageIndex4M q" using sp by (simp_all add: space_made_def)
  show "page_at (m_pg M) (RegionPD b) USER_START (PageIndex4M q * kPageSize4M)"
    using frame_page_at[of "m_pg M" "RegionPD b" 256 q PG_USER] pd len al(2) by (simp add: user_page)
  show "pd_of (m_pg M) d = pd_of s d" if "valid_pd s d" for d
    using sp sv that v(2) by (simp add: space_made_def same_view_def)
  let ?b = "PageIndex4M p * kPageSize4M"
  have shared: "page_at (m_pg M) (RegionPD b) USER_SHARED_SPACE_START ?b"
    using frame_page_at[of "m_pg M" "RegionPD b" 3 p PG_USER] pd len al(1) by (simp add: shared_page)
  show "\<forall>j < 6. load32 (USER_SHARED_SPACE_END - 24 + of_nat (4 * j)) (user_view b M) = Inr (rev (user_stack arg off) ! j)"
  proof (intro allI impI)
    fix j :: nat assume j: "j < 6"
    have "m_pmem M (?b + (0x3FFFE8 + 4 * j) + k) = word_bytes (rev (user_stack arg off) ! j) ! k" if "k < 4" for k
      using keep[rule_format, OF frames_apart[OF al(3), of "?b + (0x3FFFE8 + 4 * j) + k"]] sp j that by (simp add: space_made_def kPageSize4M_def)
    from user_view_load32[OF shared _ this] j
    have "load32 (USER_SHARED_SPACE_START + of_nat (0x3FFFE8 + 4 * j)) (user_view b M) = Inr (rev (user_stack arg off) ! j)" by (simp add: kPageSize4M_def)
    moreover have "USER_SHARED_SPACE_START + of_nat (0x3FFFE8 + 4 * j) = USER_SHARED_SPACE_END - 24 + of_nat (4 * j)" by (simp add: kernel_defs)
    ultimately show "load32 (USER_SHARED_SPACE_END - 24 + of_nat (4 * j)) (user_view b M) = Inr (rev (user_stack arg off) ! j)" by (simp only:)
  qed
  show "\<forall>a. \<not> unmapped s (a div kPageSize4M) \<longrightarrow> m_pmem M a = m a"
  proof (intro allI impI)
    fix a assume "\<not> unmapped s (a div kPageSize4M)"
    then have ne: "a div kPageSize4M \<noteq> PageIndex4M p" "a div kPageSize4M \<noteq> PageIndex4M q" using sp by (auto simp: space_made_def)
    have r: "a div kPageSize4M * kPageSize4M \<le> a" "a < a div kPageSize4M * kPageSize4M + kPageSize4M" by (simp_all add: kPageSize4M_def)
    from keep[rule_format, OF frames_apart[OF ne(2) r]] frames_apart[OF ne(1) r] sp show "m_pmem M a = m a" unfolding space_made_def by auto
  qed
qed


text \<open>The machine after start-up, with 4 MB of heap in frame 3.\<close>

lemma spawn_example:
  obtains s where "spawn_ok s" "kheap_mapped 0x2400000 s" "\<And>i. i < 2 \<Longrightarrow> translate s KernelPD (0x400000 + of_nat i) = Inr (0x400000 + i)"
proof -
  obtain t f where t: "InitializePaging 0x1FC00 boot0 = Inr t" "paging_inv t" "live t = {}"
    "kernel_pd t = (replicate 1024 0)[1 := mk_pde KERNEL_START f, 2 := mk_pde PAGE_DIRECTORY_REGION_START f]"
    by (rule boot0_up)
  have c: "cr3 t = KernelPD" using t(1) by (auto simp: InitializePaging_def Let_def assertE_Inr_iff bindE_Inr_iff SwitchPageDirectory_def)
  have K: "pd_of t KernelPD = (replicate 1024 0)[1 := mk_pde KERNEL_START f, 2 := mk_pde PAGE_DIRECTORY_REGION_START f]" by (simp add: pd_of_def t(4))
  have idx: "PageIndex4M 0x2000000 = 8" "PageIndex4M 0xC00000 = 3" "Is4MPageAligned 0x2000000" "Is4MPageAligned 0xC00000"
    by (simp_all add: PageIndex4M_div Is4MPageAligned_def kPageSize4M_def)
  have only: "d = KernelPD" if "valid_pd t d" for d using that t(3) by (simp add: valid_pd_def split: pd_ref.splits)
  have un: "unmapped t p" if "2 < p" for p
    unfolding unmapped_def
  proof (intro allI impI)
    fix d i assume "valid_pd t d" "i < 1024" "present (pd_of t d ! i)"
    then show "PageIndex4M (pd_of t d ! i) \<noteq> p"
      using that unfolding only[OF \<open>valid_pd t d\<close>] K by (auto simp: nth_list_update PageIndex4M_layout split: if_splits)
  qed
  have "refcount (phys t) 3 = 0" using refcount_0_iff[OF t(2), of 3] un by (simp add: reserved_def)
  then obtain s where s: "paging_inv s" "entry_set KernelPD 8 (mk_pde 0xC00000 0) t s"
    using AddPage_ok[OF t(2), of KernelPD "0x2000000" "0xC00000" True 0] idx by (auto simp: may_map_def isVirtualMapped_def K)
  have Ks: "pd_of s KernelPD = (replicate 1024 0)[1 := mk_pde KERNEL_START f, 2 := mk_pde PAGE_DIRECTORY_REGION_START f, 8 := mk_pde 0xC00000 0]"
    using entry_setD[OF s(2), of KernelPD] K by simp
  have wft: "paging_wf t" using t(2) by (simp add: paging_inv_def counts_ok_def)
  have u: "unmapped s 4" "unmapped s 6" using unmapped_entry_set[OF s(2) wft] un idx by simp_all
  have "\<exists>f g. f \<noteq> g \<and> 1 \<le> f \<and> f < 32 \<and> g < 32 \<and> 1 \<le> g \<and> unmapped s f \<and> unmapped s g"
    by (rule exI[of _ 4], rule exI[of _ 6]) (simp add: u)
  then have "spawn_ok s" using s t(3) c by (simp add: spawn_ok_def entry_set_def Ks)
  moreover have "kheap_mapped 0x2400000 s" using s(1) by (auto simp: kheap_mapped_def Ks nth_list_update le_Suc_eq)
  moreover have "page_at s KernelPD 0x400000 0x400000"
    using frame_page_at[of s KernelPD 1 KERNEL_START f] by (simp add: Ks PageIndex4M_layout kPageSize4M_def PageAddr4M_def)
  ultimately show thesis using that by (auto simp: page_at_def kPageSize4M_def)
qed

definition spawn_task0 :: task where
  "spawn_task0 = \<lparr>t_id = 0, t_state = RUNNING, t_regs = zero_regs, t_pd = KernelPD, t_user_in_kernel = False, t_parent = None, t_children = [],
     t_user = False, t_stack = 0, t_entry_offset = 0\<rparr>"

definition spawn_heap0 :: "paging \<Rightarrow> kernel_heap" where
  "spawn_heap0 s = \<lparr>mem = set_size 0x2000000 0x400000 (set_used 0x2000000 False (\<lambda>_. 0)), heap = 0x2400000, heap_used = 0,
     heap_start = 0x2000000, heap_end = 0x40000000, world = s\<rparr>"

definition spawn_machine0 :: "paging \<Rightarrow> machine" where
  "spawn_machine0 s = \<lparr>m_kernel = (kernel0 (spawn_heap0 s))\<lparr>k_tasks := [1 \<mapsto> spawn_task0], k_queue := [(5, 1)], k_current := Some 1\<rparr>,
     m_pmem = (\<lambda>_. 0)(0x400001 := 8), m_serial = \<lparr>sp_in = [], sp_out = [], sp_ready = True, sp_config = []\<rparr>\<rparr>"


end
