(* ===== verification/Faults.thy ===== *)
theory Faults
  imports StackTrace Scheduler
begin

text \<open>
  What the kernel prints before it stops or ends a task: the registers of an interrupt nobody handles (\<^verbatim>\<open>kernel/isr.cpp\<close>), the page
  fault handler (\<^verbatim>\<open>kernel/paging.cpp\<close>), the registers of a task (\<^verbatim>\<open>kernel/task.cpp\<close>) and a failed assertion (\<^verbatim>\<open>libc/assert.cpp\<close>).
  The memory is the one that the current address space shows. Functions that end in a loop return what they print before it.
\<close>

unbundle bit_operations_syntax

section \<open>Definitions\<close>

definition printE :: "string \<Rightarrow> print_arg list \<Rightarrow> string result" where
  "printE fmt args = (case Print fmt args of (s, None) \<Rightarrow> Inr s | (s, Some e) \<Rightarrow> Inl e)"

text \<open>One statement after the other.\<close>

fun printsE :: "string result list \<Rightarrow> string result" where
  "printsE [] = Inr []"
| "printsE (r # rs) = bindE r (\<lambda>s. bindE (printsE rs) (\<lambda>t. Inr (s @ t)))"

definition nl :: string where "nl = [CHR 0x0A]"

definition dump_gpf :: "u32 \<Rightarrow> string result" where
  "dump_gpf err =
     (if err = 0 then Inr []
      else let table = drop_bit 1 err AND 3; index = drop_bit 3 err AND 0x1FFF in
        printsE
         [if err AND 1 \<noteq> 0 then printE (''Exception originated externally to the processor'' @ nl) [] else Inr [],
          if table = 0 then printE ''Occurred within GDT segment '' []
          else if table = 1 \<or> table = 3 then printE ''Occurred within IDT segment '' []
          else if table = 2 then printE ''Occurred within LDT segment '' [] else Inr [],
          printE (''{}'' @ nl) [ArgHex32 index]])"

definition dump_task :: "kernel \<Rightarrow> string result" where
  "dump_task k =
     (case k_current k of
        None \<Rightarrow> Inl (Undefined ''null current task'')
      | Some cur \<Rightarrow> bindE (the_task k cur) (\<lambda>t.
          bindE (printE ''received interrupt in '' []) (\<lambda>s.
          bindE (if k_main k = Some cur then printE ''main kernel task'' []
                 else if t_user t then printE ''user task {}'' [ArgU32 (t_id t)]
                 else printE ''kernel task {}'' [ArgU32 (t_id t)]) (\<lambda>w.
          Inr (s @ w)))))"

definition dump_regs :: "x86_regs \<Rightarrow> string result" where
  "dump_regs R = printsE
     [printE (''ds:  {} edi: {} esi: {}'' @ nl) [ArgHex32 (x_ds R), ArgHex32 (x_edi R), ArgHex32 (x_esi R)],
      printE (''ebp: {} esp: {} ebx: {}'' @ nl) [ArgHex32 (x_ebp R), ArgHex32 (x_esp R), ArgHex32 (x_ebx R)],
      printE (''edx: {} ecx: {} eax: {}'' @ nl) [ArgHex32 (x_edx R), ArgHex32 (x_ecx R), ArgHex32 (x_eax R)],
      printE (''error code: {}'' @ nl) [ArgHex32 (x_err_code R)],
      printE (''eip: {}'' @ nl) [ArgHex32 (x_eip R)],
      printE (''cs: {}'' @ nl) [ArgHex32 (x_cs R)],
      printE (''eflags: {}'' @ nl) [ArgHex32 (x_eflags R)],
      printE (''useresp: {}'' @ nl) [ArgHex32 (x_useresp R)],
      printE (''ss: {}'' @ nl) [ArgHex32 (x_ss R)]]"

text \<open>A line of the stack dump: the address of a word and four words from it on.\<close>

definition word_at :: "mem \<Rightarrow> u32 \<Rightarrow> u32" where
  "word_at m a = of_nat (rd32 m (unat a))"

definition dump_line :: "mem \<Rightarrow> u32 \<Rightarrow> nat \<Rightarrow> string result" where
  "dump_line m esp i =
     (let ptr = esp + 4 * of_nat i in
      printE (''{}: {} {} {} {}'' @ nl)
        [ArgPtr ptr, ArgHex32 (word_at m ptr), ArgHex32 (word_at m (ptr + 4)), ArgHex32 (word_at m (ptr + 8)), ArgHex32 (word_at m (ptr + 12))])"

definition dump_size :: nat where "dump_size = 28"

definition dump_stack :: "mem \<Rightarrow> u32 \<Rightarrow> string result" where
  "dump_stack m esp =
     bindE (printE (''Stack dump:'' @ nl) []) (\<lambda>s.
     assertE (dump_size mod 4 = 0) ''The stack dump size must be a multiple of 4'' (
     bindE (printsE (map (\<lambda>j. dump_line m esp (dump_size - 4 * j)) [0 ..< dump_size div 4 + 1])) (\<lambda>t. Inr (s @ t))))"

definition DumpRegisters :: "kernel \<Rightarrow> mem \<Rightarrow> x86_regs \<Rightarrow> string result" where
  "DumpRegisters k m R = printsE
     [if x_int_no R = 0xD then printsE [printE (''General protection fault'' @ nl) [], dump_gpf (x_err_code R)] else Inr [],
      dump_task k,
      printE ('': {}'' @ nl) [ArgHex32 (x_int_no R)],
      dump_regs R,
      dump_stack m (x_esp R)]"

definition fault_header :: "u32 \<Rightarrow> x86_regs \<Rightarrow> string result" where
  "fault_header faulting_addr R =
     (let err = x_err_code R; present = err AND 1; rw = err AND 2; us = err AND 4; reserved = err AND 8; id = err AND 0x10 in
      printsE
       [printE (''Page fault!!! When trying to {} {} '' @ nl @ ''- IP:{}'' @ nl)
          [ArgStr (if rw \<noteq> 0 then ''write to'' else ''read from''), ArgHex32 faulting_addr, ArgHex32 (x_eip R)],
        printE (''- The page was {}'' @ nl) [ArgStr (if present \<noteq> 0 then ''present'' else ''not present'')],
        if reserved \<noteq> 0 then printE (''- Reserved bit was set'' @ nl) [] else Inr [],
        if id \<noteq> 0 then printE (''- Caused by an instruction fetch'' @ nl) [] else Inr [],
        printE (''- CPU was in {}'' @ nl) [ArgStr (if us \<noteq> 0 then ''user-mode'' else ''supervisor mode'')]])"

definition fault_task :: "kernel \<Rightarrow> string result" where
  "fault_task k =
     (if k_current k = k_main k then printE (''- Occurred in main kernel task.'' @ nl) []
      else case k_current k of
        None \<Rightarrow> Inl (Undefined ''null current task'')
      | Some cur \<Rightarrow> bindE (the_task k cur) (\<lambda>t. printE (''- Occurred in task: {}'' @ nl) [ArgU32 (t_id t)]))"

definition fault_region :: "u32 \<Rightarrow> string result" where
  "fault_region faulting_addr = printsE
     [if IsKernelCode faulting_addr then printE (''- Accessing page in kernel binary memory'' @ nl) [] else Inr [],
      if IsPageDirRegion faulting_addr then printE (''- Accessing page in page directory region'' @ nl) [] else Inr [],
      if IsKernelHeap faulting_addr then printE (''- Accessing page in kernel heap memory'' @ nl) [] else Inr [],
      if IsUserCode faulting_addr then printE (''- Accessing page in user memory'' @ nl) [] else Inr []]"

text \<open>\<open>cr2\<close> is the address the processor reports, \<open>ebp\<close> the frame of the handler.\<close>

definition HandlePageFault_report :: "kernel \<Rightarrow> mem \<Rightarrow> u32 \<Rightarrow> nat \<Rightarrow> x86_regs \<Rightarrow> string result" where
  "HandlePageFault_report k m cr2 ebp R =
     printsE [fault_header cr2 R, fault_task k, fault_region cr2, DumpRegisters k m R, PrintStackTrace m ebp]"

definition X86TaskRegs_Dump :: "task_regs \<Rightarrow> string result" where
  "X86TaskRegs_Dump r = printE
     (''esp: {}'' @ nl @ ''ebp: {}'' @ nl @ ''eax: {}'' @ nl @ ''ebx: {}'' @ nl @ ''ecx: {}'' @ nl @ ''edx: {}'' @ nl @ ''esi: {}'' @ nl @
      ''edi: {}'' @ nl @ ''eflags: {}'' @ nl @ ''eip: {}'' @ nl @ ''ds: {}'' @ nl @ ''es: {}'' @ nl @ ''fs: {}'' @ nl @ ''gs: {}'' @ nl @ ''cs: {}'' @ nl)
     [ArgHex32 (r_esp r), ArgHex32 (r_ebp r), ArgHex32 (r_eax r), ArgHex32 (r_ebx r), ArgHex32 (r_ecx r), ArgHex32 (r_edx r), ArgHex32 (r_esi r),
      ArgHex32 (r_edi r), ArgHex32 (r_eflags r), ArgHex32 (r_eip r), ArgHex16 (r_ds r), ArgHex16 (r_es r), ArgHex16 (r_fs r), ArgHex16 (r_gs r),
      ArgHex16 (r_cs r)]"

text \<open>\<open>None\<close>: the assertion holds and nothing is printed. Both the kernel's and the user's version print the same.\<close>

definition assert_report :: "bool \<Rightarrow> string \<Rightarrow> string \<Rightarrow> u32 \<Rightarrow> string \<Rightarrow> mem \<Rightarrow> nat \<Rightarrow> string result option" where
  "assert_report condition msg filename line pretty_func m ebp =
     (if condition then None
      else Some (printsE
        [printE (nl @ ''{}:{}: {}: Assertion `{}` failed.'' @ nl @ ''Aborted'') [ArgStr filename, ArgI32 line, ArgStr pretty_func, ArgStr msg],
         PrintStackTrace m ebp]))"

section \<open>The report of a page fault\<close>

definition hex :: "u32 \<Rightarrow> string" where
  "hex w = ''0x'' @ PrintHex32 w"

lemma printsE_Inr: "printsE (map (\<lambda>x. Inr (f x)) xs) = Inr (concat (map f xs))"
  by (induction xs) simp_all

lemma printE_lit [simp]: "printE s [] = Inr s"
  by (simp add: printE_def)

text \<open>The 32 words from the stack pointer up, four a line, the highest line first.\<close>

definition stack_line :: "mem \<Rightarrow> u32 \<Rightarrow> nat \<Rightarrow> string" where
  "stack_line m esp i = (let w = (\<lambda>j. hex (word_at m (esp + 4 * of_nat (4 * i + j)))) in
     hex (esp + 4 * of_nat (4 * i)) @ '': '' @ w 0 @ '' '' @ w 1 @ '' '' @ w 2 @ '' '' @ w 3 @ nl)"

lemma dump_line_shows: "dump_line m esp (4 * i) = Inr (stack_line m esp i)"
  by (simp add: dump_line_def stack_line_def printE_def formatP_def putP_def nl_def hex_def Let_def algebra_simps)

lemma dump_stack_shows: "dump_stack m esp = Inr (''Stack dump:'' @ nl @ concat (map (stack_line m esp) (rev [0 ..< 8])))"
proof -
  have "map (\<lambda>j. dump_line m esp (28 - 4 * j)) [0 ..< 8] = map (\<lambda>j. dump_line m esp (4 * (7 - j))) [0 ..< 8]"
    by (rule map_cong) (auto simp: diff_mult_distrib2)
  also have "\<dots> = map (\<lambda>i. Inr (stack_line m esp i)) (rev [0 ..< 8])"
    unfolding dump_line_shows by (rule nth_equalityI) (simp_all add: rev_nth)
  finally have "printsE (map (\<lambda>j. dump_line m esp (28 - 4 * j)) [0 ..< 8]) = Inr (concat (map (stack_line m esp) (rev [0 ..< 8])))"
    by (simp only: printsE_Inr)
  moreover have "28 div 4 + 1 = (8 :: nat)" "28 mod 4 = (0 :: nat)" by simp_all
  ultimately show ?thesis unfolding dump_stack_def dump_size_def by (simp only: printE_lit bindE_simps assertE_simps append_assoc simp_thms)
qed

lemma dump_regs_returns: "\<exists>s. dump_regs R = Inr s"
  by (simp add: dump_regs_def printE_def formatP_def putP_def nl_def)

lemma dump_gpf_returns: "\<exists>s. dump_gpf err = Inr s"
  by (auto simp: dump_gpf_def printE_def formatP_def putP_def nl_def Let_def)

lemma dump_task_returns:
  assumes "k_current k = Some cur" "k_tasks k cur = Some t"
  shows "\<exists>s. dump_task k = Inr s"
  using assms PrintDecimal_u32_Inr[of "t_id t"] by (auto simp: dump_task_def the_task_def printE_def formatP_def putP_def)

lemma DumpRegisters_shows:
  assumes "k_current k = Some cur" "k_tasks k cur = Some t"
  shows "\<exists>s. DumpRegisters k m R = Inr (s @ ''Stack dump:'' @ nl @ concat (map (stack_line m (x_esp R)) (rev [0 ..< 8])))"
proof -
  obtain a b c where "dump_gpf (x_err_code R) = Inr a" "dump_task k = Inr b" "dump_regs R = Inr c"
    using dump_gpf_returns dump_task_returns[OF assms] dump_regs_returns by metis
  then show ?thesis by (simp add: DumpRegisters_def dump_stack_shows) (simp add: printE_def formatP_def putP_def nl_def)
qed

text \<open>The regions do not overlap, so that at most one is named.\<close>

definition region_note :: "u32 \<Rightarrow> string" where
  "region_note a =
     (if IsKernelCode a then ''- Accessing page in kernel binary memory'' @ nl
      else if IsPageDirRegion a then ''- Accessing page in page directory region'' @ nl
      else if IsKernelHeap a then ''- Accessing page in kernel heap memory'' @ nl
      else if IsUserCode a then ''- Accessing page in user memory'' @ nl else [])"

lemma fault_region_shows: "fault_region a = Inr (region_note a)"
proof -
  have "IsKernelCode a \<Longrightarrow> \<not> IsPageDirRegion a \<and> \<not> IsKernelHeap a \<and> \<not> IsUserCode a"
    "IsPageDirRegion a \<Longrightarrow> \<not> IsKernelHeap a \<and> \<not> IsUserCode a" "IsKernelHeap a \<Longrightarrow> \<not> IsUserCode a"
    by (simp_all add: IsKernelCode_def IsPageDirRegion_def IsKernelHeap_def IsUserCode_def kernel_defs word_le_nat_alt word_less_nat_alt)
  then show ?thesis by (simp add: fault_region_def region_note_def)
qed

lemma fault_header_shows:
  "\<exists>notes. fault_header a R = Inr (''Page fault!!! When trying to '' @ (if bit (x_err_code R) 1 then ''write to'' else ''read from'') @ '' '' @ hex a @ '' '' @ nl @
     ''- IP:'' @ hex (x_eip R) @ nl @ ''- The page was '' @ (if bit (x_err_code R) 0 then ''present'' else ''not present'') @ nl @ notes @
     ''- CPU was in '' @ (if bit (x_err_code R) 2 then ''user-mode'' else ''supervisor mode'') @ nl)"
proof -
  have b: "x_err_code R AND 1 \<noteq> 0 \<longleftrightarrow> bit (x_err_code R) 0" "x_err_code R AND 2 \<noteq> 0 \<longleftrightarrow> bit (x_err_code R) 1" "x_err_code R AND 4 \<noteq> 0 \<longleftrightarrow> bit (x_err_code R) 2"
    using and_exp_eq_0_iff_not_bit[of "x_err_code R" 0] and_exp_eq_0_iff_not_bit[of "x_err_code R" 1] and_exp_eq_0_iff_not_bit[of "x_err_code R" 2] by simp_all
  show ?thesis unfolding fault_header_def Let_def b
    by (simp add: printE_def formatP_def putP_def nl_def hex_def)
qed

lemma fault_task_returns:
  assumes "k_current k = Some cur" "k_tasks k cur = Some t"
  shows "\<exists>s. fault_task k = Inr s"
  using assms PrintDecimal_u32_Inr[of "t_id t"] by (auto simp: fault_task_def the_task_def printE_def formatP_def putP_def nl_def)

definition trace_of :: "nat list \<Rightarrow> string" where
  "trace_of eips = ''Stack trace:'' @ nl @ concat (map (\<lambda>i. fst (frame_line i (eips ! i))) [0 ..< length eips])"

lemma PrintStackTrace_frames: "frames_at m ebp eips \<Longrightarrow> PrintStackTrace m ebp = Inr (trace_of eips)"
  using PrintStackTrace_loop_frames[of m ebp eips 0] by (auto simp: PrintStackTrace_def trace_of_def nl_def)

lemma no_task_null:
  assumes "k_current k = None"
  shows "DumpRegisters k m R = Inl (Undefined ''null current task'')"
  using assms dump_gpf_returns[of "x_err_code R"] by (auto simp: DumpRegisters_def dump_task_def)

text \<open>
  C39. A page fault is reported in full before the kernel halts. In a task whose frame pointers lead to null, the handler prints the kind of the access, the address and
  the instruction as the error code, \<open>cr2\<close> and the saved \<open>eip\<close> give them, whether the page was present and in which mode the processor was; the
  one region of the memory layout that holds the address; after the registers, the 32 words from the saved stack pointer up, the highest line first; and one
  line for every frame. But without a current task, before the scheduler runs, it and every interrupt that nobody handles dereference a null pointer
  in \<open>DumpRegisters\<close>, although \<open>isr_handler\<close> tests for that case after it.
\<close>

theorem page_fault_report:
  "(\<forall>cur t eips. k_current k = Some cur \<and> k_tasks k cur = Some t \<and> frames_at m ebp eips \<longrightarrow>
     (\<exists>notes who regs. HandlePageFault_report k m cr2 ebp R = Inr (
       ''Page fault!!! When trying to '' @ (if bit (x_err_code R) 1 then ''write to'' else ''read from'') @ '' '' @ hex cr2 @ '' '' @ nl @
       ''- IP:'' @ hex (x_eip R) @ nl @ ''- The page was '' @ (if bit (x_err_code R) 0 then ''present'' else ''not present'') @ nl @ notes @
       ''- CPU was in '' @ (if bit (x_err_code R) 2 then ''user-mode'' else ''supervisor mode'') @ nl @ who @ region_note cr2 @ regs @
       ''Stack dump:'' @ nl @ concat (map (stack_line m (x_esp R)) (rev [0 ..< 8])) @ trace_of eips))) \<and>
   (k_current k = None \<longrightarrow> HandlePageFault_report k m cr2 ebp R = Inl (Undefined ''null current task'') \<and>
     DumpRegisters k m R = Inl (Undefined ''null current task''))"
proof (intro conjI allI impI; (elim conjE)?)
  fix cur t eips assume a: "k_current k = Some cur" "k_tasks k cur = Some t" "frames_at m ebp eips"
  obtain who regs where "fault_task k = Inr who"
      "DumpRegisters k m R = Inr (regs @ ''Stack dump:'' @ nl @ concat (map (stack_line m (x_esp R)) (rev [0 ..< 8])))"
    using fault_task_returns[OF a(1,2)] DumpRegisters_shows[OF a(1,2)] by metis
  then show "\<exists>notes who regs. HandlePageFault_report k m cr2 ebp R = Inr (
       ''Page fault!!! When trying to '' @ (if bit (x_err_code R) 1 then ''write to'' else ''read from'') @ '' '' @ hex cr2 @ '' '' @ nl @
       ''- IP:'' @ hex (x_eip R) @ nl @ ''- The page was '' @ (if bit (x_err_code R) 0 then ''present'' else ''not present'') @ nl @ notes @
       ''- CPU was in '' @ (if bit (x_err_code R) 2 then ''user-mode'' else ''supervisor mode'') @ nl @ who @ region_note cr2 @ regs @
       ''Stack dump:'' @ nl @ concat (map (stack_line m (x_esp R)) (rev [0 ..< 8])) @ trace_of eips)"
    using fault_header_shows[of cr2 R] unfolding HandlePageFault_report_def fault_region_shows PrintStackTrace_frames[OF a(3)]
    by (elim exE) (simp only: printsE.simps bindE_simps append_assoc append_Nil2, blast)
next
  assume n: "k_current k = None"
  show "DumpRegisters k m R = Inl (Undefined ''null current task'')" by (rule no_task_null[OF n])
  show "HandlePageFault_report k m cr2 ebp R = Inl (Undefined ''null current task'')"
    using fault_header_shows[of cr2 R] n no_task_null[OF n, of m R]
    by (auto simp: HandlePageFault_report_def fault_region_shows fault_task_def)
qed

text \<open>A user task writes to the page of the kernel.\<close>

definition fault_kernel0 :: kernel where
  "fault_kernel0 = \<lparr>k_tasks = [2 \<mapsto> \<lparr>t_id = 1, t_state = RUNNING, t_regs = zero_regs, t_pd = KernelPD, t_user_in_kernel = False, t_parent = None,
       t_children = [], t_user = True, t_stack = 0, t_entry_offset = 0\<rparr>], k_queue = [], k_current = Some 2, k_main = Some 1, k_next_tid = 2,
     k_heap = \<lparr>mem = (\<lambda>_. 0), heap = 0, heap_used = 0, heap_start = 0, heap_end = 0, world = boot0\<rparr>, k_esp0 = 0, k_interrupts = False\<rparr>"

definition fault_frame0 :: x86_regs where
  "fault_frame0 = \<lparr>x_ds = 0x23, x_edi = 0, x_esi = 0, x_ebp = 0, x_esp = 0x2100000, x_ebx = 0, x_edx = 0, x_ecx = 0, x_eax = 0,
     x_int_no = 14, x_err_code = 7, x_eip = 0x40000010, x_cs = 0x1B, x_eflags = 0x202, x_useresp = 0, x_ss = 0\<rparr>"

theorem page_fault_report_witness:
  "\<exists>rest. HandlePageFault_report fault_kernel0 (\<lambda>_. 0) 0x400000 0 fault_frame0 = Inr (
     ''Page fault!!! When trying to write to 0x00400000 '' @ nl @ rest)"
proof -
  have "k_current fault_kernel0 = Some 2 \<and> (\<exists>t. k_tasks fault_kernel0 2 = Some t) \<and> frames_at (\<lambda>_. 0) 0 []" by (simp add: fault_kernel0_def)
  moreover have "bit (x_err_code fault_frame0) 1" by (simp add: fault_frame0_def bit_iff_and_drop_bit_eq_1)
  moreover have "hex 0x400000 = ''0x00400000''" by code_simp
  ultimately show ?thesis
    using page_fault_report[of fault_kernel0 "\<lambda>_. 0" 0 "0x400000" fault_frame0] by fastforce
qed

end
