(* ===== verification/TestFramework.thy ===== *)
theory TestFramework
  imports Faults
begin

text \<open>
  The testing framework, \<^verbatim>\<open>utils/include/tests.h\<close>, which both test programs include. A test is a function over the framework's
  variables and what the code under test keeps (\<open>tf_world\<close>); an \<open>ASSERT\<close> that fails returns from the function it stands in, so that a
  function tells whether it came to its end.
\<close>

section \<open>State\<close>

record 'w testing =
  TestingSetup :: "('w \<Rightarrow> 'w result) option"
  TestingTeardown :: "('w \<Rightarrow> 'w result) option"
  NumFailures :: nat
  TestFailed :: bool
  tf_out :: string
  tf_world :: 'w

type_synonym 'w body = "'w testing \<Rightarrow> (bool \<times> 'w testing) result"

definition PRINT :: "string \<Rightarrow> print_arg list \<Rightarrow> 'w testing \<Rightarrow> 'w testing result" where
  "PRINT fmt args st = bindE (printE fmt args) (\<lambda>s. Inr (st\<lparr>tf_out := tf_out st @ s\<rparr>))"

text \<open>Statements after each other: the rest is skipped after a return.\<close>

definition thenB :: "'w body \<Rightarrow> 'w body \<Rightarrow> 'w body" where
  "thenB a b st = bindE (a st) (\<lambda>(go, st). if go then b st else Inr (False, st))"

definition skipB :: "'w body" where "skipB st = Inr (True, st)"

definition allB :: "'w body list \<Rightarrow> 'w body" where
  "allB bs = foldr thenB bs skipB"

text \<open>A statement of the code under test, which may stop.\<close>

definition runB :: "('w \<Rightarrow> 'w result) \<Rightarrow> 'w body" where
  "runB f st = bindE (f (tf_world st)) (\<lambda>w. Inr (True, st\<lparr>tf_world := w\<rparr>))"

section \<open>Assertions\<close>

text \<open>The counter has 32 bits and a sign.\<close>

definition fail_test :: "'w testing \<Rightarrow> (bool \<times> 'w testing) result" where
  "fail_test st =
     (if NumFailures st = 0x7FFFFFFF then Inl (Undefined ''signed overflow'')
      else Inr (False, st\<lparr>NumFailures := NumFailures st + 1, TestFailed := True\<rparr>))"

definition AssertTrue :: "bool \<Rightarrow> string \<Rightarrow> string \<Rightarrow> u32 \<Rightarrow> 'w body" where
  "AssertTrue found found_expr file line st =
     (if found then Inr (True, st)
      else bindE (PRINT (''Expected true value at {}:{}'' @ nl) [ArgStr file, ArgI32 line] st) (\<lambda>st.
           bindE (PRINT (''Found `{}` which is false'' @ nl) [ArgStr found_expr] st) fail_test))"

definition AssertFalse :: "bool \<Rightarrow> string \<Rightarrow> string \<Rightarrow> u32 \<Rightarrow> 'w body" where
  "AssertFalse found found_expr file line st =
     (if \<not> found then Inr (True, st)
      else bindE (PRINT (''Expected false value at {}:{}'' @ nl) [ArgStr file, ArgI32 line] st) (\<lambda>st.
           bindE (PRINT (''Found `{}` which is true'' @ nl) [ArgStr found_expr] st) fail_test))"

text \<open>The reports of a comparison differ in the first line and in the name of the second value.\<close>

definition compare_report :: "string \<Rightarrow> string \<Rightarrow> print_arg \<Rightarrow> print_arg \<Rightarrow> string \<Rightarrow> string \<Rightarrow> string \<Rightarrow> u32 \<Rightarrow> 'w body" where
  "compare_report title second found expected found_expr expected_expr file line st =
     bindE (PRINT (title @ '' {}:{}'' @ nl) [ArgStr file, ArgI32 line] st) (\<lambda>st.
     bindE (PRINT (''Found `{}` which is:'' @ nl) [ArgStr found_expr] st) (\<lambda>st.
     bindE (PRINT (''  {}'' @ nl @ nl) [found] st) (\<lambda>st.
     bindE (PRINT (second @ '' `{}` which is:'' @ nl) [ArgStr expected_expr] st) (\<lambda>st.
     bindE (PRINT (''  {}'' @ nl @ nl) [expected] st) fail_test))))"

definition AssertStrEqual :: "string \<Rightarrow> string \<Rightarrow> string \<Rightarrow> string \<Rightarrow> string \<Rightarrow> u32 \<Rightarrow> 'w body" where
  "AssertStrEqual found expected found_expr expected_expr file line st =
     (if found = expected then Inr (True, st)
      else compare_report ''Strings are not equal'' ''Expected'' (ArgStr found) (ArgStr expected) found_expr expected_expr file line st)"

text \<open>The two values may have different types, which decide how each is printed (\<open>arg1\<close>, \<open>arg2\<close>); they are compared as values of one type.\<close>

definition AssertEqual :: "('a \<Rightarrow> print_arg) \<Rightarrow> ('a \<Rightarrow> print_arg) \<Rightarrow> 'a \<Rightarrow> 'a \<Rightarrow> string \<Rightarrow> string \<Rightarrow> string \<Rightarrow> u32 \<Rightarrow> 'w body" where
  "AssertEqual arg1 arg2 found expected found_expr expected_expr file line st =
     (if found = expected then Inr (True, st)
      else compare_report ''Values are not equal'' ''Expected'' (arg1 found) (arg2 expected) found_expr expected_expr file line st)"

text \<open>The macro stops at the first of three comparisons that fails; all three stand on one line.\<close>

definition ASSERT_EQ_3WAY :: "('a \<Rightarrow> print_arg) \<Rightarrow> 'a \<Rightarrow> 'a \<Rightarrow> 'a \<Rightarrow> string \<Rightarrow> string \<Rightarrow> string \<Rightarrow> string \<Rightarrow> u32 \<Rightarrow> 'w body" where
  "ASSERT_EQ_3WAY arg val1 val2 val3 e1 e2 e3 file line = allB
     [AssertEqual arg arg val1 val2 e1 e2 file line, AssertEqual arg arg val1 val3 e1 e3 file line, AssertEqual arg arg val2 val3 e2 e3 file line]"

definition AssertNotEqual :: "('a \<Rightarrow> print_arg) \<Rightarrow> 'a \<Rightarrow> 'a \<Rightarrow> string \<Rightarrow> string \<Rightarrow> string \<Rightarrow> u32 \<Rightarrow> 'w body" where
  "AssertNotEqual arg found expected found_expr expected_expr file line st =
     (if found \<noteq> expected then Inr (True, st)
      else compare_report ''Values are equal'' ''Received'' (arg found) (arg expected) found_expr expected_expr file line st)"

definition AssertGreaterThanOrEqual :: "('a::linorder \<Rightarrow> print_arg) \<Rightarrow> 'a \<Rightarrow> 'a \<Rightarrow> string \<Rightarrow> string \<Rightarrow> string \<Rightarrow> u32 \<Rightarrow> 'w body" where
  "AssertGreaterThanOrEqual arg found expected found_expr expected_expr file line st =
     (if expected \<le> found then Inr (True, st)
      else compare_report ''Found value is less than the expected'' ''Expected'' (arg found) (arg expected) found_expr expected_expr file line st)"

section \<open>Running tests\<close>

definition run_hook :: "('w \<Rightarrow> 'w result) option \<Rightarrow> 'w testing \<Rightarrow> 'w testing result" where
  "run_hook h st = (case h of None \<Rightarrow> Inr st | Some f \<Rightarrow> bindE (f (tf_world st)) (\<lambda>w. Inr (st\<lparr>tf_world := w\<rparr>)))"

definition SETUP :: "('w \<Rightarrow> 'w result) \<Rightarrow> 'w testing \<Rightarrow> 'w testing result" where
  "SETUP f st = Inr (st\<lparr>TestingSetup := Some f\<rparr>)"

definition RUN_TEST :: "string \<Rightarrow> 'w body \<Rightarrow> 'w testing \<Rightarrow> 'w testing result" where
  "RUN_TEST name test st =
     bindE (run_hook (TestingSetup st) st) (\<lambda>st.
     let st = st\<lparr>TestFailed := False\<rparr> in
     bindE (PRINT (name @ '' ... '') [] st) (\<lambda>st.
     bindE (test st) (\<lambda>(_, st).
     bindE (PRINT (''{}'' @ nl) [ArgStr (if TestFailed st then ''FAILED'' else ''PASSED'')] st) (\<lambda>st.
     run_hook (TestingTeardown st) st))))"

type_synonym 'w suite = "'w testing \<Rightarrow> 'w testing result"

definition RunSuite :: "'w suite \<Rightarrow> 'w testing \<Rightarrow> 'w testing result" where
  "RunSuite suite st = suite (st\<lparr>TestingSetup := None, TestingTeardown := None\<rparr>)"

definition TestingFramework_construct :: "'w testing \<Rightarrow> 'w testing result" where
  "TestingFramework_construct st = PRINT (nl @ ''Running tests...'' @ nl) [] (st\<lparr>NumFailures := 0\<rparr>)"

definition TestingFramework_destruct :: "'w testing \<Rightarrow> 'w testing result" where
  "TestingFramework_destruct st =
     bindE (if NumFailures st \<noteq> 0 then PRINT (''{} tests failed'' @ nl @ nl) [ArgI32 (of_nat (NumFailures st))] st
            else PRINT (''All tests passed!'' @ nl @ nl) [] st) (\<lambda>st.
     if NumFailures st \<noteq> 0 then Inl Diverges else Inr st)"

definition run_tests :: "'w suite list \<Rightarrow> 'w testing \<Rightarrow> 'w testing result" where
  "run_tests suites st =
     bindE (TestingFramework_construct st) (\<lambda>st.
     bindE (foldE RunSuite suites st) TestingFramework_destruct)"

section \<open>What the framework reports\<close>

lemma PrintDecimal_u64_Inr: "\<exists>s. PrintDecimal_u64 w = Inr s"
proof -
  have "unat w < 2 ^ LENGTH(64)" by (rule unsigned_less)
  then show ?thesis using PrintDecimal_loop_ok[of "unat w" 20 "[]"] by (auto simp: PrintDecimal_u64_def)
qed

lemma PrintFormatter_returns: "\<exists>s. PrintFormatter a = Inr s"
  by (cases a) (simp_all add: PrintDecimal_u32_Inr PrintDecimal_i32_Inr PrintDecimal_u64_Inr)

lemma PRINT_lit [simp]: "PRINT s [] st = Inr (st\<lparr>tf_out := tf_out st @ s\<rparr>)"
  by (simp add: PRINT_def)

lemma PRINT_template:
  assumes "length args = length ls" "\<forall>x \<in> set (l # ls). CHR ''{'' \<notin> set x"
  shows "\<exists>s. PRINT (template l ls) args st = Inr (st\<lparr>tf_out := s\<rparr>)"
proof -
  define outs where "outs = map (\<lambda>a. SOME s. PrintFormatter a = Inr s) args"
  have "\<forall>i < length args. PrintFormatter (args ! i) = Inr (outs ! i)"
    using PrintFormatter_returns by (auto simp: outs_def intro: someI_ex)
  then have "Print (template l ls) args = (filled l (zip outs ls), None)"
    by (rule Print_template[OF assms]) (simp add: outs_def)
  then show ?thesis by (auto simp: PRINT_def printE_def)
qed

text \<open>
  The contract that every assertion keeps and every test made of assertions: it either comes to its end and changes nothing, or it returns early,
  counts one failure and marks the test. It decides \<open>p\<close>, whatever was run before it.
\<close>

definition verdict :: "'w body \<Rightarrow> bool \<Rightarrow> bool" where
  "verdict b p \<longleftrightarrow> (\<forall>st. NumFailures st < 0x7FFFFFFF \<longrightarrow>
     (if p then b st = Inr (True, st)
      else \<exists>out. b st = Inr (False, st\<lparr>NumFailures := NumFailures st + 1, TestFailed := True, tf_out := out\<rparr>)))"

lemma verdict_skip: "verdict skipB True"
  by (simp add: verdict_def skipB_def)

lemma verdict_then:
  fixes a b :: "'w body"
  assumes "verdict a p" "verdict b q"
  shows "verdict (thenB a b) (p \<and> q)"
  unfolding verdict_def
proof (intro allI impI)
  fix st :: "'w testing" assume st: "NumFailures st < 0x7FFFFFFF"
  show "if p \<and> q then thenB a b st = Inr (True, st)
    else \<exists>out. thenB a b st = Inr (False, st\<lparr>NumFailures := NumFailures st + 1, TestFailed := True, tf_out := out\<rparr>)"
    using assms[unfolded verdict_def, rule_format, OF st] by (cases p; cases q) (auto simp: thenB_def)
qed

lemma verdict_all: "list_all2 verdict bs ps \<Longrightarrow> verdict (allB bs) (\<forall>p \<in> set ps. p)"
proof (induction bs ps rule: list_all2_induct)
  case Nil
  show ?case by (simp add: allB_def verdict_skip)
next
  case (Cons b bs p ps)
  then show ?case using verdict_then[of b p "allB bs"] by (simp add: allB_def)
qed

lemma fail_test_ok: "NumFailures st < 0x7FFFFFFF \<Longrightarrow> fail_test st = Inr (False, st\<lparr>NumFailures := NumFailures st + 1, TestFailed := True\<rparr>)"
  by (simp add: fail_test_def)

lemma compare_report_fails:
  assumes "CHR ''{'' \<notin> set title" "CHR ''{'' \<notin> set second"
  shows "verdict (compare_report title second x y e1 e2 file line) False"
  unfolding verdict_def
proof (intro allI impI, simp only: if_False)
  fix st :: "'w testing" assume st: "NumFailures st < 0x7FFFFFFF"
  obtain s1 where 1: "PRINT (title @ '' {}:{}'' @ nl) [ArgStr file, ArgI32 line] st = Inr (st\<lparr>tf_out := s1\<rparr>)"
    using PRINT_template[of "[ArgStr file, ArgI32 line]" "['':'', nl]" "title @ '' ''" st] assms(1) by (auto simp: nl_def)
  obtain s2 where 2: "PRINT (''Found `{}` which is:'' @ nl) [ArgStr e1] (st\<lparr>tf_out := s1\<rparr>) = Inr (st\<lparr>tf_out := s2\<rparr>)"
    using PRINT_template[of "[ArgStr e1]" "[''` which is:'' @ nl]" "''Found `''" "st\<lparr>tf_out := s1\<rparr>"] by (auto simp: nl_def)
  obtain s3 where 3: "PRINT (''  {}'' @ nl @ nl) [x] (st\<lparr>tf_out := s2\<rparr>) = Inr (st\<lparr>tf_out := s3\<rparr>)"
    using PRINT_template[of "[x]" "[nl @ nl]" "''  ''" "st\<lparr>tf_out := s2\<rparr>"] by (auto simp: nl_def)
  obtain s4 where 4: "PRINT (second @ '' `{}` which is:'' @ nl) [ArgStr e2] (st\<lparr>tf_out := s3\<rparr>) = Inr (st\<lparr>tf_out := s4\<rparr>)"
    using PRINT_template[of "[ArgStr e2]" "[''` which is:'' @ nl]" "second @ '' `''" "st\<lparr>tf_out := s3\<rparr>"] assms(2) by (auto simp: nl_def)
  obtain s5 where 5: "PRINT (''  {}'' @ nl @ nl) [y] (st\<lparr>tf_out := s4\<rparr>) = Inr (st\<lparr>tf_out := s5\<rparr>)"
    using PRINT_template[of "[y]" "[nl @ nl]" "''  ''" "st\<lparr>tf_out := s4\<rparr>"] by (auto simp: nl_def)
  show "\<exists>out. compare_report title second x y e1 e2 file line st = Inr (False, st\<lparr>NumFailures := NumFailures st + 1, TestFailed := True, tf_out := out\<rparr>)"
    unfolding compare_report_def 1 bindE_simps 2 3 4 5 using st by (intro exI[of _ s5], cases st) (simp add: fail_test_def)
qed

lemma verdict_cond: "verdict b False \<Longrightarrow> verdict (\<lambda>st. if p then Inr (True, st) else b st) p"
  by (simp add: verdict_def)

lemma verdict_true_false:
  "verdict (AssertTrue p e file line) p" "verdict (AssertFalse p e file line) (\<not> p)"
proof -
  have "verdict (\<lambda>st. bindE (PRINT (''Expected '' @ v @ '' value at {}:{}'' @ nl) [ArgStr file, ArgI32 line] st) (\<lambda>st.
      bindE (PRINT (''Found `{}` which is '' @ w @ nl) [ArgStr e] st) fail_test)) (False)" if vw: "CHR ''{'' \<notin> set v" "CHR ''{'' \<notin> set w" for v w
    unfolding verdict_def
  proof (intro allI impI, simp only: if_False)
    fix st :: "'w testing" assume st: "NumFailures st < 0x7FFFFFFF"
    obtain s1 where 1: "PRINT (''Expected '' @ v @ '' value at {}:{}'' @ nl) [ArgStr file, ArgI32 line] st = Inr (st\<lparr>tf_out := s1\<rparr>)"
      using PRINT_template[of "[ArgStr file, ArgI32 line]" "['':'', nl]" "''Expected '' @ v @ '' value at ''" st] vw by (auto simp: nl_def)
    obtain s2 where 2: "PRINT (''Found `{}` which is '' @ w @ nl) [ArgStr e] (st\<lparr>tf_out := s1\<rparr>) = Inr (st\<lparr>tf_out := s2\<rparr>)"
      using PRINT_template[of "[ArgStr e]" "[''` which is '' @ w @ nl]" "''Found `''" "st\<lparr>tf_out := s1\<rparr>"] vw by (auto simp: nl_def)
    show "\<exists>out. bindE (PRINT (''Expected '' @ v @ '' value at {}:{}'' @ nl) [ArgStr file, ArgI32 line] st) (\<lambda>st.
        bindE (PRINT (''Found `{}` which is '' @ w @ nl) [ArgStr e] st) fail_test) =
      Inr (False, st\<lparr>NumFailures := NumFailures st + 1, TestFailed := True, tf_out := out\<rparr>)"
      unfolding 1 bindE_simps 2 using st by (intro exI[of _ s2], cases st) (simp add: fail_test_def)
  qed
  from this[of "''true''" "''false''"] this[of "''false''" "''true''"]
  show "verdict (AssertTrue p e file line) p" "verdict (AssertFalse p e file line) (\<not> p)"
    unfolding AssertTrue_def AssertFalse_def by (auto intro!: verdict_cond)
qed

lemma verdict_compare:
  "verdict (AssertStrEqual s t e1 e2 file line) (s = t)" "verdict (AssertEqual arg1 arg2 x y e1 e2 file line) (x = y)"
  "verdict (AssertNotEqual arg x y e1 e2 file line) (x \<noteq> y)" "verdict (AssertGreaterThanOrEqual arg a b e1 e2 file line) (b \<le> a)"
  unfolding AssertStrEqual_def AssertEqual_def AssertNotEqual_def AssertGreaterThanOrEqual_def
  by (intro verdict_cond compare_report_fails; simp)+

text \<open>A suite without hooks: its tests one after the other.\<close>

definition suite_of :: "(string \<times> 'w body) list \<Rightarrow> 'w suite" where
  "suite_of tests = foldE (\<lambda>(name, test). RUN_TEST name test) tests"

text \<open>What running tests changes: the counter, the mark of the last test, the hooks and the output.\<close>

definition after_tests :: "nat \<Rightarrow> 'w testing \<Rightarrow> 'w testing \<Rightarrow> bool" where
  "after_tests n st st' \<longleftrightarrow> NumFailures st' = NumFailures st + n \<and> tf_world st' = tf_world st \<and> TestingSetup st' = None \<and> TestingTeardown st' = None"

lemma RUN_TEST_verdict:
  assumes "verdict test p" "TestingSetup st = None" "TestingTeardown st = None" "NumFailures st < 0x7FFFFFFF"
  shows "\<exists>st'. RUN_TEST name test st = Inr st' \<and> after_tests (if p then 0 else 1) st st'"
proof -
  let ?st = "st\<lparr>TestFailed := False, tf_out := tf_out st @ name @ '' ... ''\<rparr>"
  obtain st1 where st1: "test ?st = Inr (p, st1)" "after_tests (if p then 0 else 1) st st1"
    using assms(1)[unfolded verdict_def, rule_format, of ?st] assms(2-4) by (cases p) (auto simp: after_tests_def)
  obtain s where "PRINT (''{}'' @ nl) [ArgStr (if TestFailed st1 then ''FAILED'' else ''PASSED'')] st1 = Inr (st1\<lparr>tf_out := s\<rparr>)"
    using PRINT_template[of "[ArgStr (if TestFailed st1 then ''FAILED'' else ''PASSED'')]" "[nl]" "[]" st1] by (auto simp: nl_def)
  then show ?thesis using st1 assms(2,3) by (simp add: RUN_TEST_def run_hook_def Let_def after_tests_def)
qed

definition failures :: "bool list \<Rightarrow> nat" where
  "failures ps = length (filter Not ps)"

lemma suite_verdict:
  assumes "list_all2 (\<lambda>(name, test) p. verdict test p) tests ps" "TestingSetup st = None" "TestingTeardown st = None"
    "NumFailures st + length ps < 0x7FFFFFFF"
  shows "\<exists>st'. suite_of tests st = Inr st' \<and> after_tests (failures ps) st st'"
  using assms
proof (induction tests ps arbitrary: st rule: list_all2_induct)
  case Nil
  then show ?case by (simp add: suite_of_def after_tests_def failures_def)
next
  case (Cons t tests p ps)
  obtain name test where t: "t = (name, test)" by fastforce
  obtain st1 where st1: "RUN_TEST name test st = Inr st1" "after_tests (if p then 0 else 1) st st1"
    using RUN_TEST_verdict[of test p st name] Cons.hyps(1) Cons.prems t by auto
  obtain st2 where "suite_of tests st1 = Inr st2" "after_tests (failures ps) st1 st2"
    using Cons.IH[of st1] st1(2) Cons.prems(3) by (cases p) (auto simp: after_tests_def)
  then show ?case using st1 t by (auto simp: suite_of_def after_tests_def failures_def)
qed

lemma suites_verdict:
  assumes "list_all2 (list_all2 (\<lambda>(name, test) p. verdict test p)) suites pss" "TestingSetup st = None" "TestingTeardown st = None"
    "NumFailures st + length (concat pss) < 0x7FFFFFFF"
  shows "\<exists>st'. foldE RunSuite (map suite_of suites) st = Inr st' \<and> after_tests (failures (concat pss)) st st'"
  using assms
proof (induction suites pss arbitrary: st rule: list_all2_induct)
  case Nil
  then show ?case by (simp add: after_tests_def failures_def)
next
  case (Cons tests suites ps pss)
  have e: "st\<lparr>TestingSetup := None, TestingTeardown := None\<rparr> = st" using Cons.prems by (cases st) simp
  obtain st1 where st1: "RunSuite (suite_of tests) st = Inr st1" "after_tests (failures ps) st st1"
    using suite_verdict[OF Cons.hyps(1), of st] Cons.prems unfolding RunSuite_def e by auto
  have "failures ps \<le> length ps" by (simp add: failures_def)
  then obtain st2 where "foldE RunSuite (map suite_of suites) st1 = Inr st2" "after_tests (failures (concat pss)) st1 st2"
    using Cons.IH[of st1] st1(2) Cons.prems(3) by (auto simp: after_tests_def)
  then show ?case using st1 by (auto simp: after_tests_def failures_def)
qed

text \<open>
  The framework lets a program go on only if every test passed: when each test is made of assertions and fails exactly if its \<open>p\<close> is false,
  the constructor, the suites and the destructor return if all \<open>p\<close> are true, with no failure counted and the tested state as it was; otherwise the destructor
  prints the number of failed tests and never returns.
\<close>

theorem test_framework_verdict:
  assumes "list_all2 (list_all2 (\<lambda>(name, test) p. verdict test p)) suites pss" "TestingSetup st = None" "TestingTeardown st = None"
    "length (concat pss) < 0x7FFFFFFF"
  shows "if \<forall>p \<in> set (concat pss). p
    then \<exists>st'. run_tests (map suite_of suites) st = Inr st' \<and> NumFailures st' = 0 \<and> tf_world st' = tf_world st
    else run_tests (map suite_of suites) st = Inl Diverges"
proof -
  let ?st = "st\<lparr>NumFailures := 0, tf_out := tf_out st @ nl @ ''Running tests...'' @ nl\<rparr>"
  obtain st1 where st1: "foldE RunSuite (map suite_of suites) ?st = Inr st1" "after_tests (failures (concat pss)) ?st st1"
    using suites_verdict[OF assms(1), of ?st] assms(2-4) by auto
  have run: "run_tests (map suite_of suites) st = TestingFramework_destruct st1"
    using st1(1) by (simp add: run_tests_def TestingFramework_construct_def)
  have n: "NumFailures st1 = failures (concat pss)" using st1(2) by (simp add: after_tests_def)
  have z: "failures (concat pss) = 0 \<longleftrightarrow> (\<forall>p \<in> set (concat pss). p)" by (auto simp: failures_def filter_empty_conv)
  obtain s where "PRINT (''{} tests failed'' @ nl @ nl) [ArgI32 (of_nat (NumFailures st1))] st1 = Inr (st1\<lparr>tf_out := s\<rparr>)"
    using PRINT_template[of "[ArgI32 (of_nat (NumFailures st1))]" "['' tests failed'' @ nl @ nl]" "[]" st1] by (auto simp: nl_def)
  then show ?thesis unfolding run z[symmetric] using st1(2) n by (simp add: TestingFramework_destruct_def after_tests_def)
qed

end
