(* ===== verification/Rtti.thy ===== *)
theory Rtti
  imports TestFramework
begin

text \<open>
  Run-time type information, \<^verbatim>\<open>utils/include/rtti.h\<close>: a class tests an object's kind against an interval of an enumeration that the
  \<open>DEF_KIND\<close> macros lay out along the class hierarchy.
\<close>

section \<open>The enumeration\<close>

datatype class_tree = Class string "class_tree list"

text \<open>
  The enumerators in the order of the macros: \<open>First\<close> of a class, the classes inside it, \<open>Last\<close>. An enumerator is one more than the one before it;
  \<open>RTTI_Kind\<close> has the value of \<open>First\<close>. The result is, for each class, its two enumerators, and the next value.
\<close>

fun DEF_KIND :: "nat \<Rightarrow> class_tree \<Rightarrow> (string \<times> nat \<times> nat) list \<times> nat"
  and DEF_KINDS :: "nat \<Rightarrow> class_tree list \<Rightarrow> (string \<times> nat \<times> nat) list \<times> nat" where
  "DEF_KIND n (Class c ts) = (case DEF_KINDS (n + 1) ts of (ks, hi) \<Rightarrow> ((c, n, hi) # ks, hi + 1))"
| "DEF_KINDS n [] = ([], n)"
| "DEF_KINDS n (t # ts) = (case DEF_KIND n t of (ks, n1) \<Rightarrow> case DEF_KINDS n1 ts of (ks', n2) \<Rightarrow> (ks @ ks', n2))"

type_synonym kinds = "(string \<times> nat \<times> nat) list"

definition RTTI_KIND :: "kinds \<Rightarrow> string \<Rightarrow> nat" where
  "RTTI_KIND ks c = (case map_of ks c of None \<Rightarrow> 0 | Some (lo, hi) \<Rightarrow> lo)"

definition DEFINE_CLASSOF :: "kinds \<Rightarrow> string \<Rightarrow> nat \<Rightarrow> bool" where
  "DEFINE_CLASSOF ks this kind = (case map_of ks this of None \<Rightarrow> False | Some (lo, hi) \<Rightarrow> lo \<le> kind \<and> kind < hi)"

definition DEFINE_CLASSOF2 :: "kinds \<Rightarrow> string \<Rightarrow> string \<Rightarrow> nat \<Rightarrow> bool" where
  "DEFINE_CLASSOF2 ks this1 this2 kind \<longleftrightarrow> DEFINE_CLASSOF ks this1 kind \<or> DEFINE_CLASSOF ks this2 kind"

section \<open>Casts\<close>

text \<open>A pointer to an object is null or the object, with its kind; casts do not change which object it is.\<close>

record rtti_object =
  o_id :: nat
  o_kind :: nat

type_synonym classof = "nat \<Rightarrow> bool"

definition rtti_isa :: "classof \<Rightarrow> rtti_object option \<Rightarrow> bool result" where
  "rtti_isa classof from = (case from of None \<Rightarrow> Inl (Undefined ''null pointer'') | Some ob \<Rightarrow> Inr (classof (o_kind ob)))"

definition rtti_cast :: "classof \<Rightarrow> rtti_object option \<Rightarrow> rtti_object option result" where
  "rtti_cast classof from = bindE (rtti_isa classof from) (\<lambda>b. assertE b ''Casting to invalid type.'' (Inr from))"

definition rtti_dyn_cast :: "classof \<Rightarrow> rtti_object option \<Rightarrow> rtti_object option result" where
  "rtti_dyn_cast classof from =
     assertE (from \<noteq> None) ''Found a nullptr. Use dyn_cast_or_null if this value can be a nullptr.'' (
     bindE (rtti_isa classof from) (\<lambda>b. if \<not> b then Inr None else rtti_cast classof from))"

definition rtti_dyn_cast_or_null :: "classof \<Rightarrow> rtti_object option \<Rightarrow> rtti_object option result" where
  "rtti_dyn_cast_or_null classof from =
     (if from = None then Inr None
      else bindE (rtti_isa classof from) (\<lambda>b. if \<not> b then Inr None else rtti_cast classof from))"

section \<open>The intervals are the hierarchy\<close>

fun classes :: "class_tree \<Rightarrow> string list" where
  "classes (Class c ts) = c # concat (map classes ts)"

text \<open>\<open>inherits t d c\<close>: in the hierarchy \<open>t\<close>, \<open>d\<close> is the class \<open>c\<close> or one below it.\<close>

fun inherits :: "class_tree \<Rightarrow> string \<Rightarrow> string \<Rightarrow> bool" where
  "inherits (Class x ts) d c \<longleftrightarrow> c = x \<and> d \<in> set (classes (Class x ts)) \<or> (\<exists>t \<in> set ts. inherits t d c)"

lemma inherits_classes: "inherits t d c \<Longrightarrow> c \<in> set (classes t) \<and> d \<in> set (classes t)"
  by (induction t arbitrary: d c) auto

lemma DEF_KIND_names:
  "map fst (fst (DEF_KIND n t)) = classes t" "map fst (fst (DEF_KINDS n ts)) = concat (map classes ts)"
  by (induction n t and n ts rule: DEF_KIND_DEF_KINDS.induct) (auto split: prod.splits)

lemma DEF_KIND_range:
  "n < snd (DEF_KIND n t) \<and> (\<forall>(c, f, l) \<in> set (fst (DEF_KIND n t)). n \<le> f \<and> f < l \<and> l < snd (DEF_KIND n t))"
  "n \<le> snd (DEF_KINDS n ts) \<and> (\<forall>(c, f, l) \<in> set (fst (DEF_KINDS n ts)). n \<le> f \<and> f < l \<and> l < snd (DEF_KINDS n ts))"
  by (induction n t and n ts rule: DEF_KIND_DEF_KINDS.induct) (fastforce split: prod.splits)+

lemma DEF_KIND_inherits:
  "distinct (classes t) \<Longrightarrow> (c, fc, lc) \<in> set (fst (DEF_KIND n t)) \<Longrightarrow> (d, fd, ld) \<in> set (fst (DEF_KIND n t)) \<Longrightarrow>
     (fc \<le> fd \<and> fd < lc) = inherits t d c"
  "distinct (concat (map classes ts)) \<Longrightarrow> (c, fc, lc) \<in> set (fst (DEF_KINDS n ts)) \<Longrightarrow> (d, fd, ld) \<in> set (fst (DEF_KINDS n ts)) \<Longrightarrow>
     (fc \<le> fd \<and> fd < lc) = (\<exists>t \<in> set ts. inherits t d c)"
proof (induction n t and n ts rule: DEF_KIND_DEF_KINDS.induct)
  case (1 n x ts)
  obtain ks hi where k: "DEF_KINDS (n + 1) ts = (ks, hi)" by fastforce
  have names: "map fst ks = concat (map classes ts)" using DEF_KIND_names(2)[where n = "n + 1" and ts = ts] k by simp
  have range: "n + 1 \<le> hi" "\<And>c f l. (c, f, l) \<in> set ks \<Longrightarrow> n + 1 \<le> f \<and> f < l \<and> l < hi"
    using DEF_KIND_range(2)[where n = "n + 1" and ts = ts] k by auto
  have cl: "e \<in> set (concat (map classes ts))" if "(e, f, l) \<in> set ks" for e f l using that names by (force simp flip: names)
  have x: "x \<notin> set (concat (map classes ts))" using "1.prems"(1) by simp
  consider "(c, fc, lc) = (x, n, hi)" | "(c, fc, lc) \<in> set ks" using "1.prems"(2) k by auto
  then show ?case
  proof cases
    case 1
    have "(d, fd, ld) = (x, n, hi) \<or> (d, fd, ld) \<in> set ks" using "1.prems"(3) k by auto
    then have "fc \<le> fd \<and> fd < lc" using 1 range(1) range(2)[of d fd ld] by auto
    moreover have "d \<in> set (classes (Class x ts))" using "1.prems"(3) k cl by auto
    ultimately show ?thesis using 1 by auto
  next
    case 2
    then have ne: "c \<noteq> x" using cl[OF 2] x by auto
    show ?thesis
    proof (cases "(d, fd, ld) \<in> set ks")
      case True
      then show ?thesis using "1.IH" 2 k "1.prems"(1) ne by auto
    next
      case False
      then have d: "d = x" "fd = n" using "1.prems"(3) k by auto
      have "\<not> (\<exists>t \<in> set ts. inherits t d c)" using inherits_classes d x by auto
      then show ?thesis using range(2)[OF 2] d ne by auto
    qed
  qed
next
  case (2 n)
  then show ?case by simp
next
  case (3 n t ts)
  obtain ks n1 ks' n2 where k: "DEF_KIND n t = (ks, n1)" "DEF_KINDS n1 ts = (ks', n2)" by fastforce
  have names: "map fst ks = classes t" "map fst ks' = concat (map classes ts)"
    using DEF_KIND_names(1)[of n t] DEF_KIND_names(2)[where n = n1 and ts = ts] k by simp_all
  have range: "\<And>c f l. (c, f, l) \<in> set ks \<Longrightarrow> f < l \<and> l < n1" "\<And>c f l. (c, f, l) \<in> set ks' \<Longrightarrow> n1 \<le> f \<and> f < l"
    using DEF_KIND_range(1)[of n t] DEF_KIND_range(2)[where n = n1 and ts = ts] k by auto
  have cl: "(e, f, l) \<in> set ks \<Longrightarrow> e \<in> set (classes t)" "(e, f, l) \<in> set ks' \<Longrightarrow> e \<in> set (concat (map classes ts))" for e f l
    using names by (force simp flip: names)+
  have dis: "set (classes t) \<inter> set (concat (map classes ts)) = {}" "distinct (classes t)" "distinct (concat (map classes ts))" using "3.prems"(1) by auto
  have no: "\<not> inherits t d c" if "c \<notin> set (classes t) \<or> d \<notin> set (classes t)" using inherits_classes that by blast
  have no': "\<not> (\<exists>t \<in> set ts. inherits t d c)" if "c \<in> set (classes t) \<or> d \<in> set (classes t)" using inherits_classes that dis(1) by fastforce
  have c: "(c, fc, lc) \<in> set ks \<or> (c, fc, lc) \<in> set ks'" and d: "(d, fd, ld) \<in> set ks \<or> (d, fd, ld) \<in> set ks'" using "3.prems"(2,3) k by auto
  show ?case
  proof (cases "(c, fc, lc) \<in> set ks"; cases "(d, fd, ld) \<in> set ks")
    assume a: "(c, fc, lc) \<in> set ks" "(d, fd, ld) \<in> set ks"
    then show ?thesis using "3.IH"(1) k dis(2) no' cl(1) by auto
  next
    assume a: "(c, fc, lc) \<in> set ks" "(d, fd, ld) \<notin> set ks"
    then have d': "(d, fd, ld) \<in> set ks'" using d by simp
    then have "d \<notin> set (classes t)" using cl(2) dis(1) by blast
    then show ?thesis using no no' cl(1)[OF a(1)] range(1)[OF a(1)] range(2)[OF d'] by auto
  next
    assume a: "(c, fc, lc) \<notin> set ks" "(d, fd, ld) \<in> set ks"
    then have c': "(c, fc, lc) \<in> set ks'" using c by simp
    then have "c \<notin> set (classes t)" using cl(2) dis(1) by blast
    then show ?thesis using no no' cl(1)[OF a(2)] range(1)[OF a(2)] range(2)[OF c'] by auto
  next
    assume a: "(c, fc, lc) \<notin> set ks" "(d, fd, ld) \<notin> set ks"
    then have cd: "(c, fc, lc) \<in> set ks'" "(d, fd, ld) \<in> set ks'" using c d by simp_all
    then have "c \<notin> set (classes t)" using cl(2) dis(1) by blast
    then show ?thesis using "3.IH"(2)[OF k(1)[symmetric]] cd k dis(3) no by auto
  qed
qed


text \<open>The hierarchy of the test: \<open>E\<close> also inherits from \<open>C\<close>, which tests for both.\<close>

definition test_tree :: class_tree where
  "test_tree = Class ''A'' [Class ''B'' [Class ''D'' [], Class ''E'' [Class ''F'' []]], Class ''C'' []]"

definition A_Kind :: kinds where "A_Kind = fst (DEF_KIND 0 test_tree)"

definition test_classof :: "string \<Rightarrow> classof" where
  "test_classof c = (if c = ''C'' then DEFINE_CLASSOF2 A_Kind ''C'' ''E'' else DEFINE_CLASSOF A_Kind c)"


section \<open>The test of the casts\<close>

text \<open>The objects of the test. A pointer \<open>a_x\<close> is the object \<open>x\<close> seen as an \<open>A\<close>, and is the same pointer here.\<close>

definition test_object :: "string \<Rightarrow> rtti_object" where
  "test_object c = \<lparr>o_id = RTTI_KIND A_Kind c, o_kind = RTTI_KIND A_Kind c\<rparr>"

definition ptr_arg :: "rtti_object option \<Rightarrow> print_arg" where
  "ptr_arg p = (case p of None \<Rightarrow> ArgNullptr | Some ob \<Rightarrow> ArgPtr (of_nat (o_id ob)))"

text \<open>
  One assertion of the test each, on the class \<open>c\<close>, the object of the class \<open>d\<close> and the expression \<open>e\<close> that points to it, at a line of the file. The file is named
  without the directory that the build puts before it.
\<close>

definition test_file :: string where "test_file = ''userspace-tests.cpp''"

definition apply_expr :: "string \<Rightarrow> string \<Rightarrow> string \<Rightarrow> string" where
  "apply_expr f c e = f @ ''<'' @ c @ ''>('' @ e @ '')''"

definition assert_isa :: "bool \<Rightarrow> string \<Rightarrow> string \<Rightarrow> string \<Rightarrow> nat \<Rightarrow> 'w body" where
  "assert_isa expected c d e line st =
     bindE (rtti_isa (test_classof c) (Some (test_object d))) (\<lambda>b.
     (if expected then AssertTrue else AssertFalse) b (apply_expr ''isa'' c e) test_file (of_nat line) st)"

definition assert_null :: "string \<Rightarrow> string \<Rightarrow> string \<Rightarrow> nat \<Rightarrow> 'w body" where
  "assert_null c d e line st =
     bindE (rtti_dyn_cast (test_classof c) (Some (test_object d))) (\<lambda>p.
     AssertEqual ptr_arg ptr_arg p None (apply_expr ''dyn_cast'' c e) ''nullptr'' test_file (of_nat line) st)"

definition assert_cast :: "string \<Rightarrow> string \<Rightarrow> string \<Rightarrow> string \<Rightarrow> nat \<Rightarrow> 'w body" where
  "assert_cast c d e expected line st =
     bindE (rtti_dyn_cast (test_classof c) (Some (test_object d))) (\<lambda>p.
     bindE (rtti_cast (test_classof c) (Some (test_object d))) (\<lambda>q.
     ASSERT_EQ_3WAY ptr_arg p q (Some (test_object d)) (apply_expr ''dyn_cast'' c e) (apply_expr ''cast'' c e) expected test_file (of_nat line) st))"

definition test_names :: "string list" where
  "test_names = [''A'', ''B'', ''C'', ''D'', ''E'', ''F'']"

text \<open>The variable \<open>v\<close> of the class \<open>d\<close>, whose part of the test begins at a line: \<open>isa\<close> through both pointers to it, then the casts.\<close>

definition casts_of :: "string list \<Rightarrow> string \<Rightarrow> string \<Rightarrow> nat \<Rightarrow> 'w body" where
  "casts_of supers d v line = allB
     (map (\<lambda>(i, c). assert_isa (c \<in> set supers) c d (''&'' @ v) (line + i)) (enumerate 0 test_names) @
      map (\<lambda>(i, c). assert_isa (c \<in> set supers) c d (''a_'' @ v) (line + 7 + i)) (enumerate 0 test_names) @
      map (\<lambda>(i, c). if c \<in> set supers then assert_cast c d (''&'' @ v) (''&'' @ v) (line + 14 + i)
                    else assert_null c d (''&'' @ v) (line + 14 + i)) (enumerate 0 test_names))"

definition RTTICasts :: "'w body" where
  "RTTICasts = allB
     (map (\<lambda>(i, c). assert_isa (c = ''A'') c ''A'' ''&a'' (1147 + i)) (enumerate 0 test_names) @
      [assert_isa True ''A'' ''B'' ''a_b'' 1154, assert_isa True ''A'' ''C'' ''a_c'' 1155, assert_isa True ''A'' ''D'' ''a_d'' 1156,
       assert_isa True ''A'' ''E'' ''a_e'' 1157, assert_isa True ''A'' ''F'' ''a_f'' 1158,
       assert_cast ''A'' ''A'' ''&a'' ''&a'' 1162, assert_cast ''A'' ''B'' ''a_b'' ''&b'' 1163, assert_cast ''A'' ''C'' ''a_c'' ''&c'' 1164,
       assert_cast ''A'' ''D'' ''a_d'' ''&d'' 1165, assert_cast ''A'' ''E'' ''a_e'' ''&e'' 1166, assert_cast ''A'' ''F'' ''a_f'' ''&f'' 1167,
       casts_of [''A'', ''B''] ''B'' ''b'' 1170, assert_cast ''A'' ''B'' ''a_b'' ''a_b'' 1195,
       casts_of [''A'', ''C''] ''C'' ''c'' 1198, casts_of [''A'', ''B'', ''D''] ''D'' ''d'' 1220,
       casts_of [''A'', ''B'', ''C'', ''E''] ''E'' ''e'' 1242, casts_of [''A'', ''B'', ''C'', ''E'', ''F''] ''F'' ''f'' 1264])"

end
