(* ===== verification/TestSuites.thy ===== *)
theory TestSuites
  imports Rtti MathUtils
begin

text \<open>
  Tests of the repository, run on the models: of \<^verbatim>\<open>userboot/userspace-tests/userspace-tests.cpp\<close> the suites on powers, C strings and casts, and of
  \<^verbatim>\<open>kernel/tests.cpp\<close> the test of the page masks. Local arrays are at given addresses of a memory with any contents.
\<close>

unbundle bit_operations_syntax

section \<open>The tests\<close>

text \<open>The loop, with as many rounds left as the first argument says.\<close>

fun IntegerPower_loop :: "nat \<Rightarrow> nat \<Rightarrow> u32 \<Rightarrow> 'w body" where
  "IntegerPower_loop 0 p expected = skipB"
| "IntegerPower_loop (Suc n) p expected =
     thenB (AssertEqual ArgU32 ArgU32 (ipow2 p) expected ''utils::ipow2<uint32_t>(p)'' ''expected'' test_file 70)
       (IntegerPower_loop n (p + 1) (push_bit 1 expected))"

definition IntegerPower :: "'w body" where
  "IntegerPower = IntegerPower_loop 31 0 1"

definition char_arg :: "u8 \<Rightarrow> print_arg" where
  "char_arg c = ArgChar (char_of (unat c))"

definition Memset :: "mem \<Rightarrow> nat \<Rightarrow> 'w body" where
  "Memset m buffer =
     (let m = memset buffer 0x61 10 (m(buffer + 9 := 9)) in
      allB (map (\<lambda>i. AssertEqual char_arg char_arg (m (buffer + i)) 0x61 ''buffer[i]'' ''expected'' test_file 82) [0 ..< 10]))"

definition Memcpy :: "mem \<Rightarrow> nat \<Rightarrow> nat \<Rightarrow> 'w body" where
  "Memcpy m buffer buffer2 =
     (let m = memcpy buffer2 buffer 10 (memset buffer2 2 10 (memset buffer 1 10 m)) in
      allB (map (\<lambda>i. AssertEqual char_arg (\<lambda>c. ArgI32 (ucast c)) (m (buffer2 + i)) 1 ''buffer2[i]'' ''1'' test_file 91) [0 ..< 10]))"

text \<open>The array holds \<open>"buffer\0\0"\<close> and the terminator.\<close>

definition Strlen_str :: "u8 list" where
  "Strlen_str = [0x62, 0x75, 0x66, 0x66, 0x65, 0x72, 0, 0, 0]"

definition Strlen :: "mem \<Rightarrow> nat \<Rightarrow> 'w body" where
  "Strlen m str st =
     bindE (strlen (\<lambda>a. if str \<le> a \<and> a < str + 9 then Strlen_str ! (a - str) else m a) str) (\<lambda>n.
     AssertEqual (\<lambda>n. ArgU32 (of_nat n)) (\<lambda>n. ArgU32 (of_nat n)) n 6 ''strlen(str)'' ''6u'' test_file 96 st)"

definition assert_strcmp :: "mem \<Rightarrow> nat \<Rightarrow> nat \<Rightarrow> int \<Rightarrow> string \<Rightarrow> u32 \<Rightarrow> 'w body" where
  "assert_strcmp m str1 str2 expected e line st =
     bindE (strcmp m str1 str2) (\<lambda>r. 
       AssertEqual (\<lambda>r. ArgI32 (of_int r)) (\<lambda>r. ArgI32 (of_int r)) r expected ''strcmp(str1, str2)'' e test_file line st)"

definition Strcmp :: "mem \<Rightarrow> nat \<Rightarrow> nat \<Rightarrow> 'w body" where
  "Strcmp m str1 str2 =
     (let m = memset str2 0x62 9 (memset str1 0x61 9 (m(str1 + 9 := 0, str2 + 9 := 0)));
          m1 = m(str2 := 0x61); m2 = m1(str1 := 0x63); m3 = memset str2 0x62 9 (memset str1 0x62 9 m2) in
      allB [assert_strcmp m1 str1 str2 (- 1) ''-1'' 108, assert_strcmp m2 str1 str2 2 ''2'' 111, assert_strcmp m3 str1 str2 0 ''0'' 115])"

definition PageFunctions :: "'w body" where
  "PageFunctions =
     (let size = of_nat kPageSize4M :: u32 in
      allB [AssertEqual ArgU32 ArgU32 (size AND kPageMask4M) size ''kPageSize4M & kPageMask4M'' ''kPageSize4M'' ''tests.cpp'' 106,
            AssertEqual ArgU32 ArgU32 ((size + 1) AND kPageMask4M) size ''(kPageSize4M + 1) & kPageMask4M'' ''kPageSize4M'' ''tests.cpp'' 107,
            AssertEqual ArgU32 ArgU32 ((size * 2) AND kPageMask4M) (size * 2) ''(kPageSize4M * 2) & kPageMask4M'' ''kPageSize4M * 2'' ''tests.cpp'' 108,
            AssertEqual ArgU32 ArgU32 ((size - 1) AND kPageMask4M) 0 ''(kPageSize4M - 1) & kPageMask4M'' ''0'' ''tests.cpp'' 109])"

section \<open>They pass\<close>

definition passes :: "'w body \<Rightarrow> bool" where
  "passes b \<longleftrightarrow> (\<forall>st. b st = Inr (True, st))"

lemma passes_verdict: "passes b \<Longrightarrow> verdict b True"
  by (simp add: passes_def verdict_def)

lemma passes_all: "(\<And>b. b \<in> set bs \<Longrightarrow> passes b) \<Longrightarrow> passes (allB bs)"
proof (induction bs)
  case Nil
  show ?case by (simp add: passes_def allB_def skipB_def)
next
  case (Cons b bs)
  then have "passes b" "passes (allB bs)" by simp_all
  then show ?case by (simp add: passes_def allB_def thenB_def)
qed

lemma passes_equal [simp]: "x = y \<Longrightarrow> passes (AssertEqual arg1 arg2 x y e1 e2 f l)"
  by (simp add: passes_def AssertEqual_def)

lemma passes_isa [simp]: "test_classof c (RTTI_KIND A_Kind d) = e \<Longrightarrow> passes (assert_isa e c d x l)"
  by (auto simp: passes_def assert_isa_def rtti_isa_def test_object_def AssertTrue_def AssertFalse_def)

lemma passes_null [simp]: "\<not> test_classof c (RTTI_KIND A_Kind d) \<Longrightarrow> passes (assert_null c d x l)"
  by (simp add: passes_def assert_null_def rtti_dyn_cast_def rtti_isa_def test_object_def AssertEqual_def)

lemma passes_cast [simp]: "test_classof c (RTTI_KIND A_Kind d) \<Longrightarrow> passes (assert_cast c d x y l)"
  by (simp add: passes_def assert_cast_def rtti_dyn_cast_def rtti_cast_def rtti_isa_def test_object_def ASSERT_EQ_3WAY_def AssertEqual_def
      allB_def thenB_def skipB_def)

definition test_supers :: "string \<Rightarrow> string list" where
  "test_supers d =
     (if d = ''A'' then [''A''] else if d = ''B'' then [''A'', ''B''] else if d = ''C'' then [''A'', ''C''] else if d = ''D'' then [''A'', ''B'', ''D'']
      else if d = ''E'' then [''A'', ''B'', ''C'', ''E''] else [''A'', ''B'', ''C'', ''E'', ''F''])"

lemma test_classof_table: "list_all (\<lambda>c. list_all (\<lambda>d. test_classof c (RTTI_KIND A_Kind d) = (c \<in> set (test_supers d))) test_names) test_names"
  by code_simp

lemma test_classof_at:
  "c \<in> set test_names \<Longrightarrow> d \<in> set test_names \<Longrightarrow> test_classof c (RTTI_KIND A_Kind d) = (c \<in> set (test_supers d))"
  using test_classof_table unfolding list_all_iff by blast

lemma enumerate_set: "(i, c) \<in> set (enumerate n xs) \<Longrightarrow> c \<in> set xs"
  by (metis enumerate_eq_zip set_zip_rightD)

lemma casts_of_passes: "d \<in> set test_names \<Longrightarrow> ss = test_supers d \<Longrightarrow> passes (casts_of ss d v l)"
  unfolding casts_of_def by (auto intro!: passes_all simp: test_classof_at dest!: enumerate_set)

lemma RTTICasts_passes: "passes RTTICasts"
proof -
  have n: "''A'' \<in> set test_names" "''B'' \<in> set test_names" "''C'' \<in> set test_names" "''D'' \<in> set test_names" "''E'' \<in> set test_names" "''F'' \<in> set test_names"
    by (simp_all add: test_names_def)
  have s: "''A'' \<in> set (test_supers d)" "c \<in> set (test_supers ''A'') \<longleftrightarrow> c = ''A''" for c d by (simp_all add: test_supers_def)
  have b: "passes (casts_of [''A'', ''B''] ''B'' v l)" "passes (casts_of [''A'', ''C''] ''C'' v l)" "passes (casts_of [''A'', ''B'', ''D''] ''D'' v l)"
    "passes (casts_of [''A'', ''B'', ''C'', ''E''] ''E'' v l)" "passes (casts_of [''A'', ''B'', ''C'', ''E'', ''F''] ''F'' v l)" for v l
    using n by (intro casts_of_passes; simp add: test_supers_def)+
  have a: "passes (assert_cast ''A'' d x y l)" "passes (assert_isa True ''A'' d x l)" if "d \<in> set test_names" for d x y l
    using test_classof_at[OF n(1) that] s(1) by simp_all
  have i: "passes (assert_isa (c = ''A'') c ''A'' x l)" if "c \<in> set test_names" for c x l using test_classof_at[OF that n(1)] s(2) by simp
  show ?thesis unfolding RTTICasts_def
    using a n b i by (intro passes_all) (auto dest!: enumerate_set)
qed

lemma IntegerPower_loop_passes: "passes (IntegerPower_loop n p (2 ^ p))"
proof (induction n arbitrary: p)
  case 0
  show ?case by (simp add: passes_def skipB_def)
next
  case (Suc n)
  have "push_bit 1 (2 ^ p) = (2 ^ (p + 1) :: u32)" by (simp add: push_bit_eq_mult)
  then show ?case using Suc[of "p + 1"] by (simp add: passes_def thenB_def AssertEqual_def ipow2_def ipow_eq_power mult.commute)
qed

lemma IntegerPower_passes: "passes IntegerPower"
  using IntegerPower_loop_passes[of 31 0] by (simp add: IntegerPower_def)

lemma PageFunctions_passes: "passes PageFunctions"
  by (auto simp: PageFunctions_def Let_def kPageSize4M_def kPageMask4M_def intro!: passes_all)

lemma Memset_passes: "passes (Memset m buffer)"
  by (auto simp: Memset_def Let_def memset_spec intro!: passes_all)

lemma Memcpy_passes:
  assumes "buffer + 10 \<le> buffer2 \<or> buffer2 + 10 \<le> buffer"
  shows "passes (Memcpy m buffer buffer2)"
proof -
  have "memcpy buffer2 buffer 10 (memset buffer2 2 10 (memset buffer 1 10 m)) (buffer2 + i) = 1" if "i < 10" for i
    using assms that by (subst memcpy_inside) (auto simp: memset_spec)
  then show ?thesis by (auto simp: Memcpy_def Let_def intro!: passes_all)
qed

lemma Strlen_passes: "passes (Strlen m str)"
proof -
  have "cstr (\<lambda>a. if str \<le> a \<and> a < str + 9 then Strlen_str ! (a - str) else m a) str [0x62, 0x75, 0x66, 0x66, 0x65, 0x72]"
    by (simp add: cstr_Cons cstr_Nil Strlen_str_def)
  from strlen_ok[OF this] show ?thesis by (simp add: passes_def Strlen_def AssertEqual_def)
qed

lemma assert_strcmp_passes:
  assumes "cstr m p s" "cstr m q t" "str_order s t = r"
  shows "passes (assert_strcmp m p q r e line)"
  using assms strcmp_loop_run[OF assms(1,2)] by (simp add: passes_def assert_strcmp_def strcmp_def AssertEqual_def)

lemma Strcmp_passes:
  assumes "str1 + 10 \<le> str2 \<or> str2 + 10 \<le> str1"
  shows "passes (Strcmp m str1 str2)"
proof -
  let ?m = "memset str2 0x62 9 (memset str1 0x61 9 (m(str1 + 9 := 0, str2 + 9 := 0)))"
  let ?m1 = "?m(str2 := 0x61)" let ?m2 = "?m1(str1 := 0x63)" let ?m3 = "memset str2 0x62 9 (memset str1 0x62 9 ?m2)"
  have c: "cstr ?m1 str1 (replicate 9 0x61)" "cstr ?m1 str2 (0x61 # replicate 8 0x62)" "cstr ?m2 str1 (0x63 # replicate 8 0x61)"
    "cstr ?m2 str2 (0x61 # replicate 8 0x62)" "cstr ?m3 str1 (replicate 9 0x62)" "cstr ?m3 str2 (replicate 9 0x62)"
    using assms by (auto simp: cstr_def memset_spec nth_Cons')
  have o: "str_order (replicate 9 0x61) (0x61 # replicate 8 0x62) = - 1" "str_order (0x63 # replicate 8 0x61) (0x61 # replicate 8 0x62) = 2"
    "str_order (replicate 9 0x62) (replicate 9 0x62) = 0" by code_simp+
  have "passes (assert_strcmp ?m1 str1 str2 (- 1) ''-1'' 108)" "passes (assert_strcmp ?m2 str1 str2 2 ''2'' 111)" "passes (assert_strcmp ?m3 str1 str2 0 ''0'' 115)"
    by (rule assert_strcmp_passes[OF c(1,2) o(1)], rule assert_strcmp_passes[OF c(3,4) o(2)], rule assert_strcmp_passes[OF c(5,6) o(3)])
  then show ?thesis unfolding Strcmp_def Let_def by (intro passes_all) auto
qed

text \<open>
  The tests modelled here pass: run by the framework, wherever the compiler places the two local arrays apart from each other and whatever they hold at first, the
  suites of the user program return with no failure, and so does the kernel's suite.
\<close>

theorem modelled_tests_pass:
  assumes "b1 + 10 \<le> b2 \<or> b2 + 10 \<le> b1" "TestingSetup st = None" "TestingTeardown st = None"
  shows "\<exists>st'. run_tests (map suite_of [[(''IntegerPower'', IntegerPower)],
      [(''Memset'', Memset m b1), (''Memcpy'', Memcpy m b1 b2), (''Strlen'', Strlen m b1), (''Strcmp'', Strcmp m b1 b2)],
      [(''RTTICasts'', RTTICasts)], [(''PageFunctions'', PageFunctions)]]) st = Inr st' \<and> NumFailures st' = 0"
proof -
  have v: "list_all2 (list_all2 (\<lambda>(name, test) p. verdict test p)) [[(''IntegerPower'', IntegerPower)],
      [(''Memset'', Memset m b1), (''Memcpy'', Memcpy m b1 b2), (''Strlen'', Strlen m b1), (''Strcmp'', Strcmp m b1 b2)],
      [(''RTTICasts'', RTTICasts)], [(''PageFunctions'', PageFunctions)]] [[True], [True, True, True, True], [True], [True]]"
    by (simp add: passes_verdict IntegerPower_passes Memset_passes Memcpy_passes[OF assms(1)] Strlen_passes Strcmp_passes[OF assms(1)]
        RTTICasts_passes PageFunctions_passes)
  show ?thesis using test_framework_verdict[OF v assms(2,3)] by auto
qed

end
