(* ===== verification/UniquePtr.thy ===== *)
theory UniquePtr
  imports UserHeap
begin

text \<open>
  Owning pointers: \<open>std::unique_ptr\<close> of \<^verbatim>\<open>libcxx/include/memory\<close>, \<open>std::swap\<close> of \<^verbatim>\<open>libcxx/include/algorithm\<close> and the operators of \<^verbatim>\<open>libcxx/new.cpp\<close>,
  over the contract of the allocation functions. The element type is a parameter: its size, its constructor and its destructor. A program is a
  sequence of statements over variables that hold a \<open>unique_ptr\<close> or a plain pointer; the compiler's check of the scopes is \<open>scope_stmt\<close>.
\<close>

section \<open>Definitions\<close>

definition operator_new :: "'w libc \<Rightarrow> nat \<Rightarrow> 'w alloc \<Rightarrow> (nat \<times> 'w alloc) result" where
  "operator_new L sz st = libc_malloc L sz st"

definition operator_new_aligned :: "'w libc \<Rightarrow> nat \<Rightarrow> nat \<Rightarrow> 'w alloc \<Rightarrow> (nat \<times> 'w alloc) result" where
  "operator_new_aligned L sz alignment st = libc_aligned_alloc L alignment sz st"

definition operator_delete :: "'w libc \<Rightarrow> nat \<Rightarrow> 'w alloc \<Rightarrow> 'w alloc result" where
  "operator_delete L ptr st = libc_free L ptr st"

definition std_swap :: "'a \<times> 'a \<Rightarrow> 'a \<times> 'a" where
  "std_swap = (\<lambda>(a, b). let temp = a; a = b; b = temp in (a, b))"

text \<open>The template parameter; the constructor takes its arguments and the place of the object.\<close>

record ('x, 'w) cxx_type =
  ty_size :: nat
  ty_ctor :: "'x \<Rightarrow> nat \<Rightarrow> 'w alloc \<Rightarrow> 'w alloc result"
  ty_dtor :: "nat \<Rightarrow> 'w alloc \<Rightarrow> 'w alloc result"

record unique_ptr =
  up_data :: nat

definition up_default :: unique_ptr where "up_default = \<lparr>up_data = 0\<rparr>"

definition up_of :: "nat \<Rightarrow> unique_ptr" where "up_of data = \<lparr>up_data = data\<rparr>"

definition up_get :: "unique_ptr \<Rightarrow> nat" where "up_get this = up_data this"

definition up_bool :: "unique_ptr \<Rightarrow> bool" where "up_bool this \<longleftrightarrow> up_data this \<noteq> 0"

definition up_swap :: "unique_ptr \<times> unique_ptr \<Rightarrow> unique_ptr \<times> unique_ptr" where
  "up_swap = (\<lambda>(this, other).
     case std_swap (up_data this, up_data other) of (a, b) \<Rightarrow> (this\<lparr>up_data := a\<rparr>, other\<lparr>up_data := b\<rparr>))"

definition up_release :: "unique_ptr \<Rightarrow> nat \<times> unique_ptr" where
  "up_release this = (case std_swap (0, up_data this) of (p, data) \<Rightarrow> (p, this\<lparr>up_data := data\<rparr>))"

definition up_destroy :: "'w libc \<Rightarrow> ('x, 'w) cxx_type \<Rightarrow> unique_ptr \<Rightarrow> 'w alloc \<Rightarrow> 'w alloc result" where
  "up_destroy L T this st =
     (if up_data this \<noteq> 0 then bindE (ty_dtor T (up_data this) st) (operator_delete L (up_data this)) else Inr st)"

definition up_move_construct :: "'w libc \<Rightarrow> ('x, 'w) cxx_type \<Rightarrow> unique_ptr \<Rightarrow> 'w alloc \<Rightarrow> (unique_ptr \<times> unique_ptr \<times> 'w alloc) result" where
  "up_move_construct L T other st =
     (case up_release other of (p, other) \<Rightarrow>
      case up_swap (up_of p, \<lparr>up_data = 0\<rparr>) of (tmp, this) \<Rightarrow>
      bindE (up_destroy L T tmp st) (\<lambda>st. Inr (this, other, st)))"

text \<open>\<open>same\<close>: the two operands are one object.\<close>

definition up_move_assign ::
  "'w libc \<Rightarrow> ('x, 'w) cxx_type \<Rightarrow> bool \<Rightarrow> unique_ptr \<Rightarrow> unique_ptr \<Rightarrow> 'w alloc \<Rightarrow> (unique_ptr \<times> unique_ptr \<times> 'w alloc) result" where
  "up_move_assign L T same this other st =
     (if \<not> same then
        case up_release other of (p, other) \<Rightarrow>
        case up_swap (up_of p, this) of (tmp, this) \<Rightarrow>
        bindE (up_destroy L T tmp st) (\<lambda>st. Inr (this, other, st))
      else Inr (this, other, st))"

definition make_unique :: "'w libc \<Rightarrow> ('x, 'w) cxx_type \<Rightarrow> 'x \<Rightarrow> 'w alloc \<Rightarrow> (unique_ptr \<times> 'w alloc) result" where
  "make_unique L T args st =
     bindE (operator_new L (ty_size T) st) (\<lambda>(p, st).
     bindE (ty_ctor T args p st) (\<lambda>st. Inr (up_of p, st)))"

section \<open>Programs\<close>

datatype variable = Unique unique_ptr | Raw nat

text \<open>
  The statements, in order: \<open>unique_ptr<T> v;\<close>, \<open>unique_ptr<T> v = make_unique<T>(x);\<close>, \<open>unique_ptr<T> v(move(w));\<close>, \<open>v = move(w);\<close>, \<open>v.swap(w);\<close>,
  \<open>T *r = v.release();\<close>, \<open>unique_ptr<T> v(r);\<close> after which \<open>r\<close> is not used, and the end of the scope of \<open>v\<close>.
\<close>

datatype 'x stmt = Declare nat | Make nat 'x | MoveInit nat nat | Assign nat nat | Swap nat nat | Release nat nat | Adopt nat nat | Leave nat

type_synonym env = "nat \<rightharpoonup> variable"

definition ill_scoped :: error where "ill_scoped = Undefined ''scope''"

definition unique_var :: "env \<Rightarrow> nat \<Rightarrow> unique_ptr result" where
  "unique_var E v = (case E v of Some (Unique u) \<Rightarrow> Inr u | _ \<Rightarrow> Inl ill_scoped)"

definition raw_var :: "env \<Rightarrow> nat \<Rightarrow> nat result" where
  "raw_var E v = (case E v of Some (Raw p) \<Rightarrow> Inr p | _ \<Rightarrow> Inl ill_scoped)"

definition fresh_var :: "env \<Rightarrow> nat \<Rightarrow> unit result" where
  "fresh_var E v = (if E v = None then Inr () else Inl ill_scoped)"

fun exec_stmt :: "'w libc \<Rightarrow> ('x, 'w) cxx_type \<Rightarrow> 'x stmt \<Rightarrow> env \<times> 'w alloc \<Rightarrow> (env \<times> 'w alloc) result" where
  "exec_stmt L T (Declare v) (E, st) = bindE (fresh_var E v) (\<lambda>_. Inr (E(v \<mapsto> Unique up_default), st))"
| "exec_stmt L T (Make v x) (E, st) =
     bindE (fresh_var E v) (\<lambda>_. bindE (make_unique L T x st) (\<lambda>(u, st). Inr (E(v \<mapsto> Unique u), st)))"
| "exec_stmt L T (MoveInit v w) (E, st) =
     bindE (fresh_var E v) (\<lambda>_. bindE (unique_var E w) (\<lambda>other. bindE (up_move_construct L T other st) (\<lambda>(this, other, st).
     Inr (E(w \<mapsto> Unique other, v \<mapsto> Unique this), st))))"
| "exec_stmt L T (Assign v w) (E, st) =
     bindE (unique_var E v) (\<lambda>this. bindE (unique_var E w) (\<lambda>other. bindE (up_move_assign L T (v = w) this other st) (\<lambda>(this, other, st).
     Inr (E(w \<mapsto> Unique other, v \<mapsto> Unique this), st))))"
| "exec_stmt L T (Swap v w) (E, st) =
     bindE (unique_var E v) (\<lambda>this. bindE (unique_var E w) (\<lambda>other.
     case up_swap (this, other) of (this, other) \<Rightarrow> Inr (E(w \<mapsto> Unique other, v \<mapsto> Unique this), st)))"
| "exec_stmt L T (Release r v) (E, st) =
     bindE (fresh_var E r) (\<lambda>_. bindE (unique_var E v) (\<lambda>this.
     case up_release this of (p, this) \<Rightarrow> Inr (E(v \<mapsto> Unique this, r \<mapsto> Raw p), st)))"
| "exec_stmt L T (Adopt v r) (E, st) =
     bindE (fresh_var E v) (\<lambda>_. bindE (raw_var E r) (\<lambda>p. Inr (E(r := None, v \<mapsto> Unique (up_of p)), st)))"
| "exec_stmt L T (Leave v) (E, st) =
     bindE (unique_var E v) (\<lambda>this. bindE (up_destroy L T this st) (\<lambda>st. Inr (E(v := None), st)))"

definition exec_prog :: "'w libc \<Rightarrow> ('x, 'w) cxx_type \<Rightarrow> 'x stmt list \<Rightarrow> env \<times> 'w alloc \<Rightarrow> (env \<times> 'w alloc) result" where
  "exec_prog L T prog = foldE (exec_stmt L T) prog"

text \<open>The scopes: a variable in scope holds a \<open>unique_ptr\<close> (\<open>True\<close>) or a plain pointer.\<close>

type_synonym scope = "nat \<rightharpoonup> bool"

fun scope_stmt :: "'x stmt \<Rightarrow> scope \<Rightarrow> scope option" where
  "scope_stmt (Declare v) S = (if S v = None then Some (S(v \<mapsto> True)) else None)"
| "scope_stmt (Make v x) S = (if S v = None then Some (S(v \<mapsto> True)) else None)"
| "scope_stmt (MoveInit v w) S = (if S v = None \<and> S w = Some True then Some (S(v \<mapsto> True)) else None)"
| "scope_stmt (Assign v w) S = (if S v = Some True \<and> S w = Some True then Some S else None)"
| "scope_stmt (Swap v w) S = (if S v = Some True \<and> S w = Some True then Some S else None)"
| "scope_stmt (Release r v) S = (if S r = None \<and> S v = Some True then Some (S(r \<mapsto> False)) else None)"
| "scope_stmt (Adopt v r) S = (if S v = None \<and> S r = Some False then Some (S(r := None, v \<mapsto> True)) else None)"
| "scope_stmt (Leave v) S = (if S v = Some True then Some (S(v := None)) else None)"

fun scope_prog :: "'x stmt list \<Rightarrow> scope \<Rightarrow> scope option" where
  "scope_prog [] S = Some S"
| "scope_prog (s # ss) S = (case scope_stmt s S of None \<Rightarrow> None | Some S' \<Rightarrow> scope_prog ss S')"

definition is_unique :: "variable \<Rightarrow> bool" where
  "is_unique a = (case a of Unique u \<Rightarrow> True | Raw p \<Rightarrow> False)"

definition scope_of :: "env \<Rightarrow> scope" where
  "scope_of E x = map_option is_unique (E x)"

section \<open>Ownership\<close>

text \<open>The pointer a variable holds; the pointers that some variable holds; and that no two variables hold the same.\<close>

fun ptr_of :: "variable \<Rightarrow> nat" where
  "ptr_of (Unique u) = up_data u"
| "ptr_of (Raw p) = p"

definition var_ptr :: "variable option \<Rightarrow> nat set" where
  "var_ptr z = (case z of None \<Rightarrow> {} | Some a \<Rightarrow> {ptr_of a} - {0})"

definition held :: "env \<Rightarrow> nat set" where
  "held E = (\<Union>x. var_ptr (E x))"

definition one_owner :: "env \<Rightarrow> bool" where
  "one_owner E \<longleftrightarrow> (\<forall>x y. x \<noteq> y \<longrightarrow> var_ptr (E x) \<inter> var_ptr (E y) = {})"

text \<open>The live blocks: one of the element size for each pointer held, besides those of others.\<close>

definition live_with :: "nat \<Rightarrow> (nat \<rightharpoonup> nat) \<Rightarrow> env \<Rightarrow> (nat \<rightharpoonup> nat)" where
  "live_with n others E p = (if p \<in> held E then Some n else others p)"

definition owners_ok :: "(nat \<rightharpoonup> nat) \<Rightarrow> env \<Rightarrow> bool" where
  "owners_ok others E \<longleftrightarrow> one_owner E \<and> held E \<inter> dom others = {}"

lemma held_upd: "one_owner E \<Longrightarrow> held (E(v := z)) = held E - var_ptr (E v) \<union> var_ptr z"
  unfolding held_def one_owner_def by (auto split: if_splits) blast

lemma one_owner_upd:
  assumes "one_owner E" "var_ptr z \<inter> (held E - var_ptr (E v)) = {}"
  shows "one_owner (E(v := z))"
proof -
  have "var_ptr (E x) \<inter> var_ptr z = {}" if "x \<noteq> v" for x
  proof -
    have "var_ptr (E x) \<subseteq> held E - var_ptr (E v)" using assms(1) that unfolding one_owner_def held_def by blast
    then show ?thesis using assms(2) by blast
  qed
  then show ?thesis using assms(1) unfolding one_owner_def by (auto simp: Int_commute)
qed

lemma owners_upd:
  assumes "owners_ok others E" "var_ptr z \<inter> (held E - var_ptr (E v)) = {}" "var_ptr z \<inter> dom others = {}"
  shows "owners_ok others (E(v := z))" "held (E(v := z)) = held E - var_ptr (E v) \<union> var_ptr z"
  using assms one_owner_upd[OF _ assms(2)] held_upd[of E v z] unfolding owners_ok_def by blast+

lemma var_ptr_simps [simp]:
  "var_ptr None = {}" "var_ptr (Some (Unique u)) = {up_data u} - {0}" "var_ptr (Some (Raw p)) = {p} - {0}"
  by (simp_all add: var_ptr_def)

lemma var_ptr_held: "var_ptr (E v) \<subseteq> held E"
  by (auto simp: held_def)

text \<open>
  Moving a pointer from one variable to another: the first is emptied, then the second gets it and loses its own.
\<close>

lemma owners_move:
  assumes "owners_ok others E" "var_ptr (E w) = {p} - {0}" "v \<noteq> w" "var_ptr z = {}" "var_ptr y = {p} - {0}"
  shows "owners_ok others (E(w := z, v := y))" "held (E(w := z, v := y)) = held E - var_ptr (E v)"
proof -
  have p: "{p} - {0} \<subseteq> held E" using var_ptr_held[of E w] assms(2) by simp
  have d: "var_ptr (E v) \<inter> ({p} - {0}) = {}" using assms(1-3) unfolding owners_ok_def one_owner_def by metis
  have e: "owners_ok others (E(w := z))" "held (E(w := z)) = held E - ({p} - {0})"
    using owners_upd[OF assms(1), of z w] assms(2,4) by auto
  have f: "var_ptr y \<inter> (held (E(w := z)) - var_ptr ((E(w := z)) v)) = {}" "var_ptr y \<inter> dom others = {}"
    using assms(1) p unfolding e(2) assms(5) owners_ok_def by blast+
  show "owners_ok others (E(w := z, v := y))" by (rule owners_upd(1)[OF e(1) f])
  show "held (E(w := z, v := y)) = held E - var_ptr (E v)"
  proof -
    have "held (E(w := z, v := y)) = held E - ({p} - {0}) - var_ptr (E v) \<union> ({p} - {0})"
      using owners_upd(2)[OF e(1) f] assms(3) unfolding e(2) assms(5) by simp
    then show ?thesis using p d by blast
  qed
qed

lemma UN_involution:
  assumes "\<And>x. f (f x) = x"
  shows "(\<Union>x. g (f x)) = (\<Union>x. g x)"
proof (intro equalityI subsetI)
  fix p assume "p \<in> (\<Union>x. g x)"
  then obtain x where "p \<in> g (f (f x))" using assms by auto
  then show "p \<in> (\<Union>x. g (f x))" by blast
qed blast

lemma owners_swap:
  assumes "owners_ok others E" "E v = Some (Unique a)" "E w = Some (Unique b)"
  shows "owners_ok others (E(w \<mapsto> Unique a, v \<mapsto> Unique b))" "held (E(w \<mapsto> Unique a, v \<mapsto> Unique b)) = held E"
proof -
  let ?E = "E(w \<mapsto> Unique a, v \<mapsto> Unique b)"
  let ?f = "\<lambda>x. if x = v then w else if x = w then v else x"
  have f: "var_ptr (?E x) = var_ptr (E (?f x))" for x using assms(2,3) by auto
  have inj: "x \<noteq> y \<Longrightarrow> ?f x \<noteq> ?f y" for x y by auto
  have "one_owner ?E" unfolding one_owner_def f using assms(1) inj unfolding owners_ok_def one_owner_def by blast
  moreover have "held ?E = held E"
  proof -
    have "?f (?f x) = x" for x by simp
    then have "(\<Union>x. var_ptr (E (?f x))) = (\<Union>x. var_ptr (E x))"
      by (rule UN_involution)
    then show ?thesis unfolding held_def f .
  qed
  ultimately show "owners_ok others ?E" "held ?E = held E" using assms(1) by (simp_all add: owners_ok_def)
qed

lemma scope_simps [simp]:
  "is_unique (Unique u)" "\<not> is_unique (Raw p)" "scope_of (E(x := z)) = (scope_of E)(x := map_option is_unique z)"
  by (auto simp: is_unique_def scope_of_def)

lemma scope_at: "scope_of E x = None \<longleftrightarrow> E x = None" "scope_of E x = Some True \<longleftrightarrow> (\<exists>u. E x = Some (Unique u))"
  "scope_of E x = Some False \<longleftrightarrow> (\<exists>p. E x = Some (Raw p))"
  by (cases "E x"; cases "the (E x)"; simp add: scope_of_def)+

lemma release_empties: "up_release u = (up_data u, \<lparr>up_data = 0\<rparr>)"
  by (simp add: up_release_def std_swap_def)

lemma swap_swaps: "up_swap (u, w) = (w, u)"
  by (cases u; cases w) (simp add: up_swap_def std_swap_def)

lemma up_of_data [simp]: "up_of (up_data u) = u"
  by (simp add: up_of_def)

lemma move_construct_moves: "up_move_construct L T other st = Inr (other, \<lparr>up_data = 0\<rparr>, st)"
  by (simp add: up_move_construct_def release_empties swap_swaps up_destroy_def)

lemma move_assign_moves:
  "up_move_assign L T False this other st = bindE (up_destroy L T this st) (\<lambda>st. Inr (other, \<lparr>up_data = 0\<rparr>, st))"
  by (simp add: up_move_assign_def release_empties swap_swaps)

section \<open>Programs keep ownership\<close>

text \<open>What the element type promises: it fits in a block, and constructing or destroying an object touches no other block.\<close>

definition element_ok :: "('w alloc \<Rightarrow> (nat \<rightharpoonup> nat) \<Rightarrow> bool) \<Rightarrow> ('x, 'w) cxx_type \<Rightarrow> bool" where
  "element_ok ok T \<longleftrightarrow> 0 < ty_size T \<and> ty_size T < 0x3FFFFFF0 \<and>
     (\<forall>st own p. ok st own \<and> own p = Some (ty_size T) \<longrightarrow>
        (\<forall>x. \<exists>st'. ty_ctor T x p st = Inr st' \<and> ok st' own \<and> keeps (own(p := None)) st st') \<and>
        (\<exists>st'. ty_dtor T p st = Inr st' \<and> ok st' own \<and> keeps (own(p := None)) st st'))"

text \<open>The invariant of a program, and what running it may lead to.\<close>

definition good :: "('w alloc \<Rightarrow> (nat \<rightharpoonup> nat) \<Rightarrow> bool) \<Rightarrow> nat \<Rightarrow> (nat \<rightharpoonup> nat) \<Rightarrow> env \<Rightarrow> 'w alloc \<Rightarrow> bool" where
  "good ok n others E st \<longleftrightarrow> owners_ok others E \<and> ok st (live_with n others E)"

definition returns_ok ::
  "('w alloc \<Rightarrow> (nat \<rightharpoonup> nat) \<Rightarrow> bool) \<Rightarrow> (error \<Rightarrow> bool) \<Rightarrow> nat \<Rightarrow> (nat \<rightharpoonup> nat) \<Rightarrow> scope \<Rightarrow> 'w alloc \<Rightarrow> (env \<times> 'w alloc) result \<Rightarrow> bool" where
  "returns_ok ok oom n others S st r \<longleftrightarrow> (\<exists>e. r = Inl e \<and> oom e) \<or>
     (\<exists>E' st'. r = Inr (E', st') \<and> good ok n others E' st' \<and> scope_of E' = S \<and> keeps others st st')"

text \<open>A statement that only moves pointers between variables.\<close>

lemma returns_same:
  assumes "good ok n others E st" "owners_ok others E'" "held E' = held E" "scope_of E' = S"
  shows "returns_ok ok oom n others S st (Inr (E', st))"
proof -
  have "live_with n others E' = live_with n others E" by (simp add: live_with_def assms(3) fun_eq_iff)
  then show ?thesis using assms(1,2,4) by (simp add: returns_ok_def good_def)
qed

lemma returns_moved:
  assumes "good ok n others E st" "var_ptr (E w) = {p} - {0}" "E v = None" "v \<noteq> w" "var_ptr z = {}" "var_ptr y = {p} - {0}"
    "scope_of (E(w := z, v := y)) = S"
  shows "returns_ok ok oom n others S st (Inr (E(w := z, v := y), st))"
proof -
  have o: "owners_ok others E" using assms(1) by (simp add: good_def)
  show ?thesis using owners_move[OF o assms(2,4-6)] assms(1,3,7) by (intro returns_same) simp_all
qed

locale element_type = block_heap L ok oom for L :: "'w libc" and ok :: "'w alloc \<Rightarrow> (nat \<rightharpoonup> nat) \<Rightarrow> bool" and oom :: "error \<Rightarrow> bool" +
  fixes T :: "('x, 'w) cxx_type"
  assumes element: "element_ok ok T"
begin

lemma make_unique_ok:
  assumes "ok st own"
  shows "(\<exists>e. make_unique L T x st = Inl e \<and> oom e) \<or>
    (\<exists>u st'. make_unique L T x st = Inr (u, st') \<and> 0 < up_data u \<and> own (up_data u) = None \<and>
       ok st' (own(up_data u \<mapsto> ty_size T)) \<and> keeps own st st')"
proof -
  have "0 < ty_size T" "ty_size T < 0x3FFFFFF0" using element by (simp_all add: element_ok_def)
  from malloc[OF assms this] show ?thesis
  proof (elim disjE exE conjE)
    fix p st1 assume m: "libc_malloc L (ty_size T) st = Inr (p, st1)" "0 < p" "own p = None" "ok st1 (own(p \<mapsto> ty_size T))" "keeps own st st1"
    then obtain st2 where c: "ty_ctor T x p st1 = Inr st2" "ok st2 (own(p \<mapsto> ty_size T))" "keeps ((own(p \<mapsto> ty_size T))(p := None)) st1 st2"
      using element unfolding element_ok_def by (metis fun_upd_same)
    have "(own(p \<mapsto> ty_size T))(p := None) = own" using m(3) by (simp add: fun_upd_idem)
    then have "keeps own st st2" using keeps_trans[OF m(5)] c(3) by simp
    then show ?thesis using m(1-3) c(1,2) by (simp add: make_unique_def operator_new_def up_of_def)
  qed (simp add: make_unique_def operator_new_def)
qed

lemma up_destroy_ok:
  assumes "ok st own" "up_data u \<noteq> 0 \<Longrightarrow> own (up_data u) = Some (ty_size T)"
  shows "\<exists>st'. up_destroy L T u st = Inr st' \<and> ok st' (if up_data u = 0 then own else own(up_data u := None)) \<and>
    keeps (own(up_data u := None)) st st'"
proof (cases "up_data u = 0")
  case True
  then show ?thesis using assms(1) by (simp add: up_destroy_def)
next
  case False
  obtain st1 where d: "ty_dtor T (up_data u) st = Inr st1" "ok st1 own" "keeps (own(up_data u := None)) st st1"
    using element assms False unfolding element_ok_def by metis
  with free[OF d(2) assms(2)[OF False]] keeps_trans[OF d(3)] False
  show ?thesis by (auto simp: up_destroy_def operator_delete_def)
qed

text \<open>Destroying the pointer that no variable holds any more.\<close>

lemma drop_pointer:
  assumes "ok st (live_with (ty_size T) others E)" "owners_ok others E" "{up_data u} - {0} \<subseteq> held E" "held E' = held E - ({up_data u} - {0})"
  shows "\<exists>st'. up_destroy L T u st = Inr st' \<and> ok st' (live_with (ty_size T) others E') \<and> keeps others st st'"
proof -
  let ?own = "live_with (ty_size T) others E"
  have n: "up_data u \<noteq> 0 \<Longrightarrow> ?own (up_data u) = Some (ty_size T)" using assms(3) by (simp add: live_with_def)
  have e: "(if up_data u = 0 then ?own else ?own(up_data u := None)) = live_with (ty_size T) others E'"
    using assms(2-4) by (auto simp: live_with_def owners_ok_def fun_eq_iff domIff disjoint_iff)
  have o: "others \<subseteq>\<^sub>m ?own(up_data u := None)" if "up_data u \<noteq> 0"
    using assms(2,3) that by (auto simp: map_le_def live_with_def owners_ok_def)
  obtain st' where d: "up_destroy L T u st = Inr st'" "ok st' (live_with (ty_size T) others E')" "keeps (?own(up_data u := None)) st st'"
    using up_destroy_ok[OF assms(1) n] unfolding e by blast
  have "keeps others st st'"
  proof (cases "up_data u = 0")
    case True
    then show ?thesis using d(1) by (simp add: up_destroy_def)
  next
    case False
    show ?thesis by (rule keeps_mono[OF d(3) o[OF False]])
  qed
  then show ?thesis using d by blast
qed

lemma exec_make_ok:
  assumes "good ok (ty_size T) others E st" "E v = None" "(scope_of E)(v \<mapsto> True) = S"
  shows "returns_ok ok oom (ty_size T) others S st (exec_stmt L T (Make v x) (E, st))"
proof -
  have o: "owners_ok others E" and l: "ok st (live_with (ty_size T) others E)" using assms(1) by (simp_all add: good_def)
  from make_unique_ok[OF l, of x] show ?thesis
  proof (elim disjE exE conjE)
    fix u st1 assume m: "make_unique L T x st = Inr (u, st1)" "0 < up_data u" "live_with (ty_size T) others E (up_data u) = None"
      "ok st1 ((live_with (ty_size T) others E)(up_data u \<mapsto> ty_size T))" "keeps (live_with (ty_size T) others E) st st1"
    have f: "up_data u \<notin> held E" "others (up_data u) = None" using m(3) by (auto simp: live_with_def split: if_splits)
    then have h: "owners_ok others (E(v \<mapsto> Unique u))" "held (E(v \<mapsto> Unique u)) = insert (up_data u) (held E)"
      using owners_upd[OF o, of "Some (Unique u)" v] assms(2) m(2) by auto
    have "live_with (ty_size T) others (E(v \<mapsto> Unique u)) = (live_with (ty_size T) others E)(up_data u \<mapsto> ty_size T)"
      unfolding live_with_def h(2) by (auto simp: fun_eq_iff)
    moreover have "others \<subseteq>\<^sub>m live_with (ty_size T) others E" using o by (auto simp: map_le_def live_with_def owners_ok_def)
    ultimately show ?thesis using m(1,4) h(1) assms(2,3) keeps_mono[OF m(5)] by (simp add: returns_ok_def good_def fresh_var_def)
  qed (simp add: assms(2) fresh_var_def returns_ok_def)
qed

lemma exec_assign_ok:
  assumes "good ok (ty_size T) others E st" "E v = Some (Unique a)" "E w = Some (Unique b)" "scope_of E = S"
  shows "returns_ok ok oom (ty_size T) others S st (exec_stmt L T (Assign v w) (E, st))"
proof (cases "v = w")
  case True
  then have "E(w \<mapsto> Unique b, v \<mapsto> Unique a) = E" using assms(2,3) by auto
  then show ?thesis using assms True by (simp add: unique_var_def up_move_assign_def returns_ok_def)
next
  case False
  have o: "owners_ok others E" and l: "ok st (live_with (ty_size T) others E)" using assms(1) by (simp_all add: good_def)
  let ?E = "E(w \<mapsto> Unique \<lparr>up_data = 0\<rparr>, v \<mapsto> Unique b)"
  have e: "owners_ok others ?E" "held ?E = held E - ({up_data a} - {0})" using owners_move[OF o, of w "up_data b" v] assms(2,3) False by simp_all
  have "{up_data a} - {0} \<subseteq> held E" using var_ptr_held[of E v] assms(2) by simp
  from drop_pointer[OF l o this e(2)] obtain st' where d: "up_destroy L T a st = Inr st'"
      "ok st' (live_with (ty_size T) others ?E)" "keeps others st st'" by blast
  moreover have "scope_of ?E = S" using assms(2-4) by (auto simp: scope_at fun_upd_idem)
  ultimately show ?thesis using e(1) assms(2,3) False by (simp add: returns_ok_def good_def unique_var_def move_assign_moves)
qed

lemma exec_leave_ok:
  assumes "good ok (ty_size T) others E st" "E v = Some (Unique a)" "(scope_of E)(v := None) = S"
  shows "returns_ok ok oom (ty_size T) others S st (exec_stmt L T (Leave v) (E, st))"
proof -
  have o: "owners_ok others E" and l: "ok st (live_with (ty_size T) others E)" using assms(1) by (simp_all add: good_def)
  have e: "owners_ok others (E(v := None))" "held (E(v := None)) = held E - ({up_data a} - {0})" using owners_upd[OF o, of None v] assms(2) by simp_all
  have "{up_data a} - {0} \<subseteq> held E" using var_ptr_held[of E v] assms(2) by simp
  from drop_pointer[OF l o this e(2)] obtain st' where "up_destroy L T a st = Inr st'"
      "ok st' (live_with (ty_size T) others (E(v := None)))" "keeps others st st'" by blast
  then show ?thesis using e(1) assms(2,3) by (simp add: returns_ok_def good_def unique_var_def)
qed

text \<open>One statement: it returns with the invariant, the scopes that the compiler computes and the blocks of others unchanged, or memory runs out.\<close>

lemma exec_stmt_ok:
  assumes g: "good ok (ty_size T) others E st" and s: "scope_stmt s (scope_of E) = Some S"
  shows "returns_ok ok oom (ty_size T) others S st (exec_stmt L T s (E, st))"
proof (cases s)
  case (Declare v)
  then have v: "E v = None" "(scope_of E)(v \<mapsto> True) = S" using s by (auto simp: scope_at split: if_splits)
  have "owners_ok others E" using g by (simp add: good_def)
  then have "owners_ok others (E(v \<mapsto> Unique up_default))" "held (E(v \<mapsto> Unique up_default)) = held E"
    using owners_upd[of others E "Some (Unique up_default)" v] v by (simp_all add: up_default_def)
  from returns_same[OF g this] v show ?thesis by (simp add: Declare fresh_var_def)
next
  case (Make v x)
  then show ?thesis using exec_make_ok[OF g] s by (auto simp: scope_at split: if_splits)
next
  case (MoveInit v w)
  then obtain b where v: "E v = None" "E w = Some (Unique b)" "(scope_of E)(v \<mapsto> True) = S" using s by (auto simp: scope_at split: if_splits)
  then have vw: "v \<noteq> w" by auto
  show ?thesis using returns_moved[OF g, of w "up_data b" v "Some (Unique \<lparr>up_data = 0\<rparr>)" "Some (Unique b)" S] v vw
    by (simp add: MoveInit fresh_var_def unique_var_def move_construct_moves scope_at fun_upd_idem)
next
  case (Assign v w)
  then show ?thesis using exec_assign_ok[OF g] s by (auto simp: scope_at split: if_splits)
next
  case (Swap v w)
  then obtain a b where v: "E v = Some (Unique a)" "E w = Some (Unique b)" "scope_of E = S" using s by (auto simp: scope_at split: if_splits)
  have "owners_ok others E" using g by (simp add: good_def)
  moreover have "scope_of (E(w \<mapsto> Unique a, v \<mapsto> Unique b)) = S" using v by (auto simp: scope_at fun_upd_idem)
  ultimately show ?thesis using returns_same[OF g owners_swap[OF _ v(1,2)]] v by (simp add: Swap unique_var_def swap_swaps)
next
  case (Release r v)
  then obtain a where v: "E r = None" "E v = Some (Unique a)" "(scope_of E)(r \<mapsto> False) = S" using s by (auto simp: scope_at split: if_splits)
  then have rv: "r \<noteq> v" by auto
  show ?thesis using returns_moved[OF g, of v "up_data a" r "Some (Unique \<lparr>up_data = 0\<rparr>)" "Some (Raw (up_data a))" S] v rv
    by (simp add: Release fresh_var_def unique_var_def release_empties scope_at fun_upd_idem)
next
  case (Adopt v r)
  then obtain p where v: "E v = None" "E r = Some (Raw p)" "(scope_of E)(r := None, v \<mapsto> True) = S" using s by (auto simp: scope_at split: if_splits)
  then have "v \<noteq> r" by auto
  then show ?thesis using returns_moved[OF g, of r p v None "Some (Unique (up_of p))" S] v
    by (simp add: Adopt fresh_var_def raw_var_def up_of_def)
next
  case (Leave v)
  then show ?thesis using exec_leave_ok[OF g] s by (auto simp: scope_at split: if_splits)
qed

lemma exec_prog_ok:
  assumes "good ok (ty_size T) others E st" "scope_prog prog (scope_of E) = Some S"
  shows "returns_ok ok oom (ty_size T) others S st (exec_prog L T prog (E, st))"
  using assms
proof (induction prog arbitrary: E st)
  case Nil
  then show ?case by (simp add: exec_prog_def returns_ok_def)
next
  case (Cons s prog)
  from Cons.prems(2) obtain S1 where S1: "scope_stmt s (scope_of E) = Some S1" "scope_prog prog S1 = Some S" by (auto split: option.splits)
  from exec_stmt_ok[OF Cons.prems(1) S1(1), unfolded returns_ok_def] show ?case
  proof (elim disjE exE conjE)
    fix E1 st1 assume e: "exec_stmt L T s (E, st) = Inr (E1, st1)" "good ok (ty_size T) others E1 st1" "scope_of E1 = S1" "keeps others st st1"
    have r: "exec_prog L T (s # prog) (E, st) = exec_prog L T prog (E1, st1)" using e(1) by (simp add: exec_prog_def)
    show ?thesis unfolding r using Cons.IH[OF e(2)] e(3,4) S1(2) keeps_trans unfolding returns_ok_def by blast
  qed (simp add: exec_prog_def returns_ok_def)
qed

end

section \<open>On the heap of a user program\<close>

text \<open>The type \<open>int\<close>, whose destructor does nothing.\<close>

definition cxx_int :: "(u32, 'w) cxx_type" where
  "cxx_int = \<lparr>ty_size = 4, ty_ctor = (\<lambda>x p st. Inr (upd_mem (wr32 p (unat x)) st)), ty_dtor = (\<lambda>p st. Inr st)\<rparr>"

lemma cxx_int_element: "element_ok (blocks_ok (unat utop) (uheap_ok utop)) cxx_int"
proof -
  have "blocks_ok (unat utop) (uheap_ok utop) (upd_mem (wr32 p v) st) own \<and> keeps (own(p := None)) st (upd_mem (wr32 p v) st)"
    if "blocks_ok (unat utop) (uheap_ok utop) st own" "own p = Some 4" for p v st own
  proof -
    have out: "wr32 p v (mem st) a = mem st a" if "a < p \<or> p + 4 \<le> a" for a using that by (auto simp: wr32_def)
    show ?thesis using uh.bh.store[where f = "wr32 p v", OF that out] uh.bh.store_keeps[where f = "wr32 p v", OF that out] by blast
  qed
  then show ?thesis by (auto simp: element_ok_def cxx_int_def)
qed

interpretation uint: element_type "alloc_libc usbrk" "blocks_ok (unat utop) (uheap_ok utop)" "uh.out_of_memory utop" cxx_int for utop
  by unfold_locales (rule cxx_int_element)

text \<open>
  C35. Memory that \<open>unique_ptr\<close> owns is freed exactly once. Take any element type whose constructor and destructor touch no other block, and any program of declarations,
  moves, swaps, releases and ends of scopes that the compiler accepts. On the heap of a user program it returns or stops because memory ran out: it never frees
  a block that is not live. In the end no two variables hold the same block, the live blocks are those of the variables and those that were there
  before, which have kept their bytes; so when every variable has left its scope nothing has leaked.
\<close>

theorem unique_ptrs_own:
  assumes "element_ok (blocks_ok (unat utop) (uheap_ok utop)) T" "blocks_ok (unat utop) (uheap_ok utop) st others"
    "scope_prog prog Map.empty = Some S"
  shows "(\<exists>msg. exec_prog user_libc T prog (Map.empty, st) = Inl (AssertFailed msg) \<and>
      msg \<in> {''No memory left for kernel!'', ''Attempting to allocate beyond the end of the heap.''}) \<or>
    (\<exists>E' st'. exec_prog user_libc T prog (Map.empty, st) = Inr (E', st') \<and> one_owner E' \<and> held E' \<inter> dom others = {} \<and>
       blocks_ok (unat utop) (uheap_ok utop) st' (live_with (ty_size T) others E') \<and> scope_of E' = S \<and> keeps others st st' \<and>
       (S = Map.empty \<longrightarrow> blocks_ok (unat utop) (uheap_ok utop) st' others))"
proof -
  have t: "element_type (alloc_libc usbrk) (blocks_ok (unat utop) (uheap_ok utop)) (uh.out_of_memory utop) T"
    by (intro element_type.intro uh.bh.block_heap_axioms element_type_axioms.intro assms(1))
  have e: "held Map.empty = {}" "scope_of Map.empty = Map.empty" by (auto simp: held_def scope_of_def)
  have n: "scope_of E' = Map.empty \<Longrightarrow> live_with n others E' = others" for n E'
    by (simp add: scope_of_def fun_eq_iff live_with_def held_def)
  have l: "live_with (ty_size T) others Map.empty = others" using n[OF e(2)] .
  have g: "good (blocks_ok (unat utop) (uheap_ok utop)) (ty_size T) others Map.empty st"
    unfolding good_def owners_ok_def l e(1) using assms(2) by (simp add: one_owner_def)
  have "scope_prog prog (scope_of Map.empty) = Some S" unfolding e(2) by (rule assms(3))
  from element_type.exec_prog_ok[OF t g this, unfolded returns_ok_def] show ?thesis
  proof (elim disjE exE conjE)
    fix err assume r: "exec_prog (alloc_libc usbrk) T prog (Map.empty, st) = Inl err" "uh.out_of_memory utop err"
    show ?thesis using user_out_of_memory[OF r(2)] r(1) unfolding user_libc_alloc by auto
  next
    fix E' st' assume r: "exec_prog (alloc_libc usbrk) T prog (Map.empty, st) = Inr (E', st')"
      "good (blocks_ok (unat utop) (uheap_ok utop)) (ty_size T) others E' st'" "scope_of E' = S" "keeps others st st'"
    have "S = Map.empty \<longrightarrow> blocks_ok (unat utop) (uheap_ok utop) st' others" using r(2) n[of E' "ty_size T"] unfolding r(3) good_def by auto
    then show ?thesis using r unfolding user_libc_alloc good_def owners_ok_def by blast
  qed
qed

text \<open>The statements of the repository's test of \<open>unique_ptr\<close>, in their order and with the ends of the scopes in reverse order.\<close>

definition unique_test :: "u32 stmt list" where
  "unique_test = [Declare 0, Make 2 1, Assign 0 2, Release 1 0, Adopt 3 1, Make 4 4, Swap 3 4, MoveInit 5 4,
     Leave 5, Leave 4, Leave 3, Leave 2, Leave 0]"

theorem unique_ptrs_own_witness:
  "\<exists>st others. blocks_ok (unat (0x40800000 :: u32)) (uheap_ok 0x40800000) st others \<and>
     ((\<exists>msg. exec_prog user_libc cxx_int unique_test (Map.empty, st) = Inl (AssertFailed msg)) \<or>
      (\<exists>E' st'. exec_prog user_libc cxx_int unique_test (Map.empty, st) = Inr (E', st') \<and>
         blocks_ok (unat (0x40800000 :: u32)) (uheap_ok 0x40800000) st' others))"
proof (rule user_example)
  fix st0 st1
  assume h: "alloc_inv (unat (0x40800000 :: u32)) (uheap_ok 0x40800000) st1 [(104, True), (920, False)]" "heap_start st1 = 0x40400000"
    "heap_end st1 = unat (0x40800000 :: u32)"
  have b: "blocks_ok (unat (0x40800000 :: u32)) (uheap_ok 0x40800000) st1 (Map.empty(0x40400004 \<mapsto> 100))"
    unfolding blocks_ok_def using h by (intro exI[of _ "[(104, True), (920, False)]"]) (simp add: owners_def)
  have "scope_prog unique_test Map.empty = Some Map.empty" by (simp add: unique_test_def fun_eq_iff)
  from unique_ptrs_own[OF cxx_int_element b this] b show ?thesis by blast
qed

end
