(* ===== verification/Spec2Isabelle.thy ===== *)
theory Spec2Isabelle
  imports MathUtils TaskMemory UserHeap SchedulerProperties Print Builtins DescriptorTables VfsProperties ElfImage SyscallProperties
    CxxString TaskChildren VfsDump Dirent KernelStart Userboot StackTrace TerminalGraphics UserTaskCorrect TestSuites UniquePtr
begin

text \<open>
  \<^bold>\<open>A verification of toy-kernel.\<close>

  toy-kernel is a small kernel for 32-bit x86 in C++, with a C library and a few user programs. At start-up it sets up
  the descriptor tables, paging with 4 MB pages, a kernel heap, a timer and a scheduler, and starts a user program from an
  archive. User programs run in address spaces of their own and call the kernel through interrupt 0x80; the
  C library gives them a heap, formatted output, a file system parsed from the archive and a loader for ELF
  programs. Paths below are relative to \<^verbatim>\<open>src/\<close>.

  \<^bold>\<open>Conventions\<close> (\<open>Prelude\<close>). Code that may stop returns \<open>'a result\<close>: the value, or an error that says how it stopped: a
  failed assertion with its message, a panic, a trap, undefined behaviour, or a loop that does not end. State is passed and returned.
  Machine integers are words or naturals with the wrap-around written out. A loop that may not end is a \<open>partial_function\<close>
  and its value is then \<open>Diverges\<close>; there is no fuel anywhere, and the properties that say a loop returns
  prove it.

  \<^bold>\<open>Parts and theories.\<close>

  \<^item> Arithmetic: \<open>MathUtils\<close> (\<^verbatim>\<open>utils/include/MathUtils.h\<close>) and \<open>Builtins\<close> (\<^verbatim>\<open>utils/builtins.cpp\<close>, 64-bit division by
    shifting and subtracting, equal to the mathematical quotient and remainder).

  \<^item> Strings: \<open>CString\<close> (\<^verbatim>\<open>libc/string.cpp\<close>, \<^verbatim>\<open>libc/ctype.cpp\<close>, \<^verbatim>\<open>libc/type.cpp\<close>) over a byte-addressed memory. Printing: \<open>Print\<close>
    (\<^verbatim>\<open>utils/print.cpp\<close>, \<^verbatim>\<open>utils/include/print.h\<close>, \<^verbatim>\<open>libc/printf.cpp\<close>); what is printed reads back as the number.

  \<^item> Physical memory: \<open>BitArray\<close>, \<open>PhysicalBitmap\<close> (\<^verbatim>\<open>kernel/include/bitarray.h\<close>, \<^verbatim>\<open>kernel/include/paging.h\<close>). Paging: \<open>Paging\<close>
    (\<^verbatim>\<open>kernel/paging.cpp\<close>), its invariant in \<open>PagingInvariant\<close> (reference counts are the numbers of mappings, the
    kernel's ranges are mapped alike in every directory), reachable states from start-up in \<open>PagingReach\<close>, translations,
    isolation and round trips in \<open>PagingProperties\<close>. Copies between address spaces: \<open>TaskMemory\<close> (\<^verbatim>\<open>kernel/task.cpp\<close>).

  \<^item> Heaps: \<open>Allocator\<close> (\<^verbatim>\<open>utils/allocator.cpp\<close>), first-fit over headers in memory; \<open>HeapChain\<close>, \<open>AllocatorCorrect\<close>, \<open>MallocCorrect\<close>,
    \<open>FreeCorrect\<close> and \<open>ReallocCorrect\<close> show that it implements an abstract list of blocks. \<open>HeapClient\<close> states the contract
    between the allocator and the function that grows the heap as a locale; \<open>KernelHeap\<close> (\<^verbatim>\<open>kernel/kmalloc.cpp\<close>, growing by mapping
    pages) and \<open>UserHeap\<close> (\<^verbatim>\<open>libc/umalloc.cpp\<close>, growing in one page) interpret it. \<open>HeapBlocks\<close> derives from it the contract of
    \<open>malloc\<close>, \<open>free\<close>, \<open>realloc\<close> and \<open>calloc\<close> (\<^verbatim>\<open>libc/stdlib.cpp\<close>) as their clients see it, again a locale and by \<^theory_text>\<open>sublocale\<close> for both
    heaps: a client owns blocks, and no call changes the bytes of a block it does not name.

  \<^item> Containers, over that contract and so over the verified heaps: \<open>CxxString\<close> (\<^verbatim>\<open>libcxx/include/string\<close>), \<open>CxxVector\<close>
    (\<^verbatim>\<open>libcxx/include/vector\<close>) and \<open>BitVector\<close> (\<^verbatim>\<open>utils/include/BitVector.h\<close>) implement lists of characters, elements and bits.
    \<open>UniquePtr\<close> (\<^verbatim>\<open>libcxx/include/memory\<close>, \<^verbatim>\<open>libcxx/new.cpp\<close>) shows that programs over owning pointers free every block once.
    \<open>TaskChildren\<close> uses the vector in the kernel heap for the children of a task, which the scheduler's model keeps as a list.

  \<^item> Tasks: \<open>Scheduler\<close> (\<^verbatim>\<open>kernel/task.cpp\<close>, \<^verbatim>\<open>kernel/include/ktask.h\<close>, the jumps of \<^verbatim>\<open>kernel/task.S\<close>, \<^verbatim>\<open>kernel/timer.cpp\<close>): the ready
    queue, saving and restoring registers, starting and ending tasks; a step relation with its invariant in
    \<open>SchedulerInvariant\<close>, round-robin order and transparency of preemption in \<open>SchedulerProperties\<close>. \<open>UserTask\<close>: the construction of a
    user task over paging and memory, and the destructors; \<open>UserTaskCorrect\<close>: the address space, the code and the stack that the new task starts with.

  \<^item> Start: \<open>KernelStart\<close> (\<^verbatim>\<open>kernel/kernel.cpp\<close>): the set-up of all parts in their order, which establishes the invariants of paging,
    heap and scheduler; the copy of the ramdisk into the first user task, which finds it again; and the shutdown.

  \<^item> Interrupts: \<open>DescriptorTables\<close> (\<^verbatim>\<open>kernel/descriptortables.cpp\<close>, \<^verbatim>\<open>kernel/isr.cpp\<close>): the tables as the processor reads them and the
    dispatch of interrupts. \<open>Devices\<close>: the serial port and the keyboard (\<^verbatim>\<open>kernel/serial.cpp\<close>, \<^verbatim>\<open>kernel/keyboard.cpp\<close>). \<open>Syscalls\<close>
    (\<^verbatim>\<open>kernel/syscall.cpp\<close>, \<^verbatim>\<open>libc/_syscalls.cpp\<close>): the twelve calls over the whole machine; \<open>SyscallProperties\<close> what \<open>map_page\<close>
    guarantees and what it does not check.

  \<^item> File system: \<open>Vfs\<close> (\<^verbatim>\<open>utils/vfs.cpp\<close>, \<^verbatim>\<open>utils/include/vfs.h\<close>): paths, nodes, lookup, creation and the parsing of USTAR archives;
    \<open>VfsCorrect\<close> relates trees to maps from paths to entries, \<open>VfsProperties\<close> has the refinement of lookup and creation and the
    round trip of archives, through a locale for the callbacks of \<open>IterateUSTAR\<close>. \<open>VfsDump\<close> is the listing of a tree (\<open>Node::Dump\<close>),
    \<open>Dirent\<close> directory streams and the program \<^verbatim>\<open>ls\<close> (\<^verbatim>\<open>libc/opendir.cpp\<close>, \<^verbatim>\<open>libc/getcwd.cpp\<close>, \<^verbatim>\<open>userboot/shell/ls.cpp\<close>), over the heap.

  \<^item> Programs: \<open>Elf\<close> (\<^verbatim>\<open>libc/elf.cpp\<close>, \<^verbatim>\<open>libc/pre-main.cpp\<close>, \<^verbatim>\<open>libc/system.cpp\<close>): loading an ELF file, packing its arguments, the
    start-up code of the new program; \<open>ElfCorrect\<close> follows the arguments from parent to child, \<open>ElfImage\<close> describes the image.
    \<open>Userboot\<close> (\<^verbatim>\<open>userboot\<close>): the first program, the second stage, and the shell with its console. \<open>StackTrace\<close>
    (\<^verbatim>\<open>libc/stacktrace.cpp\<close>, \<^verbatim>\<open>kernel/panic.cpp\<close>): the walk over the frames.

  \<^item> Terminal: \<open>Terminal\<close> (\<^verbatim>\<open>kernel/terminal.cpp\<close>, \<^verbatim>\<open>kernel/include/terminal.h\<close>), which no build file compiles: text mode, graphics mode with a
    font, and the choice between them. \<open>TerminalProperties\<close> shows that text mode implements a scrolling grid,
    \<open>TerminalGraphics\<close> that the cursor stays on the screen, how a glyph is drawn, and when clearing the screen returns.

  \<^item> Reports: \<open>Faults\<close> (\<open>DumpRegisters\<close> of \<^verbatim>\<open>kernel/isr.cpp\<close>, \<open>HandlePageFault\<close> of \<^verbatim>\<open>kernel/paging.cpp\<close>, \<open>Dump\<close> of \<^verbatim>\<open>kernel/task.cpp\<close>,
    \<^verbatim>\<open>libc/assert.cpp\<close>): what the kernel prints before it halts, and when it cannot.

  \<^item> Tests and casts: \<open>TestFramework\<close> (\<^verbatim>\<open>utils/include/tests.h\<close>) runs suites of tests and lets a program go on only if all of them pass. \<open>Rtti\<close>
    (\<^verbatim>\<open>utils/include/rtti.h\<close>): the numbering of classes by macros decides inheritance. \<open>TestSuites\<close> runs the repository's tests of powers, C strings,
    casts and page masks on the models, where they pass.

  \<^bold>\<open>Parameters.\<close> The addresses of assembly stubs and of literals, the font and the output function of the terminal, the placing of local arrays, the values of
  uninitialised members, the report of the boot loader, and what tasks do while the kernel waits for them are arguments of
  the definitions.

  \<^bold>\<open>Two views of memory.\<close> The heap theories keep the bytes of a heap in a flat memory of their own, with addresses as the
  program sees them. Paging, copies between tasks and the start of the kernel keep physical memory and translate
  every access. That the kernel heap is mapped, page by page, is part of its invariant (\<open>kheap_mapped\<close>).

  \<^bold>\<open>Not modelled.\<close> \<^verbatim>\<open>kernel/multiboot.cpp\<close> is an unfinished function that includes a header that does not exist and is not built. The other
  tests of \<^verbatim>\<open>kernel/tests.cpp\<close> and \<^verbatim>\<open>userboot/userspace-tests\<close> check with examples what the theories of those parts prove in general. Of \<^verbatim>\<open>libcxx\<close>, the type traits are
  computed by the compiler, and tuples and iterators are represented by the values and functions they stand for;
  the file system and the loader use strings, vectors and owning pointers as the values they hold. Assembly entry code and the log messages
  about progress have no state of their own to model.
\<close>

end
